(* ===== verification/Prelude.thy ===== *)
theory Prelude imports Main "HOL-Library.Word" begin

text \<open>
  Shared vocabulary of the development: bytes and byte strings, 64-bit unsigned
  arithmetic written out on natural numbers, list slices and splices, and the
  little/big-endian memory images of machine words.

  \<^item> \<open>bytes\<close> is the model of \<open>data_buffer\<close> (\<open>std::vector<unsigned char>\<close>).
  \<^item> \<open>std::size_t\<close> and \<open>std::uint64_t\<close> quantities are natural numbers; where the C++ code
    adds or subtracts them the model uses \<open>add64\<close> and \<open>sub64\<close>, which wrap at 2^64 as the
    code does.  The collection \<open>arith64\<close> removes them again where no wrap can happen.
\<close>

named_theorems arith64 \<open>64-bit operations where no wrap-around happens\<close>
named_theorems slices \<open>lengths and contents of slices and splices\<close>

type_synonym byte = "8 word"
type_synonym bytes = "byte list"

section \<open>64-bit unsigned arithmetic on natural numbers\<close>

definition add64 :: "nat \<Rightarrow> nat \<Rightarrow> nat" where
  "add64 a b = (a + b) mod 2 ^ 64"

definition sub64 :: "nat \<Rightarrow> nat \<Rightarrow> nat" where
  "sub64 a b = (a + (2 ^ 64 - b mod 2 ^ 64)) mod 2 ^ 64"

definition mul64 :: "nat \<Rightarrow> nat \<Rightarrow> nat" where
  "mul64 a b = (a * b) mod 2 ^ 64"

lemma add64_exact [arith64]: "a + b < 2 ^ 64 \<Longrightarrow> add64 a b = a + b"
  by (simp add: add64_def)

lemma mul64_exact [arith64]: "a * b < 2 ^ 64 \<Longrightarrow> mul64 a b = a * b"
  by (simp add: mul64_def)

lemma sub64_exact [arith64]: "b \<le> a \<Longrightarrow> a < 2 ^ 64 \<Longrightarrow> sub64 a b = a - b"
proof -
  assume le: "b \<le> a" and lt: "a < 2 ^ 64"
  then have "a + (2 ^ 64 - b mod 2 ^ 64) = 2 ^ 64 + (a - b)"
    by simp
  then show ?thesis
    using lt by (simp add: sub64_def)
qed

lemma add64_less [simp]: "add64 a b < 2 ^ 64"
  by (simp add: add64_def)

lemma sub64_less [simp]: "sub64 a b < 2 ^ 64"
  by (simp add: sub64_def)

lemma sub64_zero: "a < 2 ^ 64 \<Longrightarrow> sub64 a 0 = a"
  by (simp add: sub64_exact)

lemma sub64_wraps: "a < b \<Longrightarrow> b < 2 ^ 64 \<Longrightarrow> sub64 a b = 2 ^ 64 - (b - a)"
  by (simp add: sub64_def)

section \<open>Slices and splices of lists\<close>

text \<open>
  \<open>slice off n xs\<close> is what reading \<open>n\<close> elements at \<open>off\<close> returns; \<open>splice_at off ys xs\<close>
  is what a positioned write leaves: a gap between the old end and \<open>off\<close> is filled with \<open>z\<close>
  (a sparse file reads zeros there), and a write past the end extends the data.
\<close>

definition slice :: "nat \<Rightarrow> nat \<Rightarrow> 'a list \<Rightarrow> 'a list" where
  "slice off n xs = take n (drop off xs)"

definition pad_to :: "'a \<Rightarrow> nat \<Rightarrow> 'a list \<Rightarrow> 'a list" where
  "pad_to z n xs = xs @ replicate (n - length xs) z"

definition resize_to :: "'a \<Rightarrow> nat \<Rightarrow> 'a list \<Rightarrow> 'a list" where
  "resize_to z n xs = take n (pad_to z n xs)"

definition splice_at :: "'a \<Rightarrow> nat \<Rightarrow> 'a list \<Rightarrow> 'a list \<Rightarrow> 'a list" where
  "splice_at z off ys xs =
     take off (pad_to z off xs) @ ys @ drop (off + length ys) xs"

lemma length_slice [simp, slices]: "length (slice off n xs) = min n (length xs - off)"
  by (simp add: slice_def)

lemma length_pad_to [simp, slices]: "length (pad_to z n xs) = max n (length xs)"
  by (simp add: pad_to_def)

lemma length_resize_to [simp, slices]: "length (resize_to z n xs) = n"
  by (simp add: resize_to_def)

lemma length_splice_at [simp, slices]:
  "length (splice_at z off ys xs) = max (off + length ys) (length xs)"
  by (simp add: splice_at_def)

lemma slice_0 [simp]: "slice off 0 xs = []"
  by (simp add: slice_def)

lemma slice_all [simp]: "slice 0 (length xs) xs = xs"
  by (simp add: slice_def)

lemma nth_slice [slices]: "i < n \<Longrightarrow> off + i < length xs \<Longrightarrow> slice off n xs ! i = xs ! (off + i)"
  by (simp add: slice_def)

lemma slice_append_slice:
  "off + a \<le> length xs \<Longrightarrow> slice off a xs @ slice (off + a) b xs = slice off (a + b) xs"
  by (simp add: slice_def take_add drop_drop add.commute)

lemma slice_take [slices]: "off + m \<le> n \<Longrightarrow> slice off m (take n xs) = slice off m xs"
  by (simp add: slice_def drop_take)

lemma nth_pad_to [slices]:
  "i < max n (length xs) \<Longrightarrow> pad_to z n xs ! i = (if i < length xs then xs ! i else z)"
  by (auto simp: pad_to_def nth_append)

lemma nth_resize_to [slices]:
  "i < n \<Longrightarrow> resize_to z n xs ! i = (if i < length xs then xs ! i else z)"
  by (simp add: resize_to_def nth_pad_to)

lemma nth_splice_at [slices]:
  assumes "i < max (off + length ys) (length xs)"
  shows "splice_at z off ys xs ! i =
    (if off \<le> i \<and> i < off + length ys then ys ! (i - off)
     else if i < length xs then xs ! i else z)"
  using assms
  by (auto simp: splice_at_def nth_append nth_pad_to add.commute le_add_diff_inverse2)

lemma resize_to_same [simp]: "resize_to z (length xs) xs = xs"
  by (simp add: resize_to_def pad_to_def)

lemma splice_at_inside:
  "off + length ys \<le> length xs \<Longrightarrow>
   splice_at z off ys xs = take off xs @ ys @ drop (off + length ys) xs"
  by (simp add: splice_at_def pad_to_def)

lemma slice_splice_same [simp, slices]: "slice off (length ys) (splice_at z off ys xs) = ys"
  by (simp add: slice_def splice_at_def min_def)

lemma slice_splice_before:
  assumes "b + n \<le> off" "b + n \<le> length xs"
  shows "slice b n (splice_at z off ys xs) = slice b n xs"
  using assms by (intro nth_equalityI) (auto simp: nth_slice nth_splice_at)

lemma slice_splice_after:
  assumes "off + length ys \<le> b"
  shows "slice b n (splice_at z off ys xs) = slice b n xs"
  using assms by (intro nth_equalityI) (auto simp: nth_slice nth_splice_at)

section \<open>Memory images of machine words\<close>

text \<open>
  \<open>le_image n x\<close> is the little-endian image of \<open>x\<close> in \<open>n\<close> bytes, the layout of an integer in
  the host's memory (the supported hosts are x86-64 and aarch64); \<open>of_le_image\<close> reads it
  back.  \<open>bswap\<close> is what \<open>boost::endian::native_to_big_inplace\<close> and \<open>big_to_native_inplace\<close>
  do to a value there.
\<close>

fun le_image :: "nat \<Rightarrow> nat \<Rightarrow> bytes" where
  "le_image 0 x = []"
| "le_image (Suc n) x = word_of_nat (x mod 256) # le_image n (x div 256)"

fun of_le_image :: "bytes \<Rightarrow> nat" where
  "of_le_image [] = 0"
| "of_le_image (b # bs) = unat b + 256 * of_le_image bs"

lemma length_le_image [simp]: "length (le_image n x) = n"
  by (induction n arbitrary: x) auto

lemma of_le_image_less: "of_le_image bs < 256 ^ length bs"
proof (induction bs)
  case Nil
  then show ?case by simp
next
  case (Cons b bs)
  have "unat b < 256" using unsigned_less[of b] by simp
  then show ?case using Cons.IH by simp
qed

lemma of_le_image_le_image [simp]: "of_le_image (le_image n x) = x mod 256 ^ n"
proof (induction n arbitrary: x)
  case 0
  then show ?case by simp
next
  case (Suc n)
  have "unat (word_of_nat (x mod 256) :: byte) = x mod 256"
    by (simp add: unat_of_nat take_bit_eq_mod)
  then show ?case
    using Suc.IH[of "x div 256"] by (simp add: mod_mult2_eq)
qed

lemma le_image_of_le_image [simp]: "le_image (length bs) (of_le_image bs) = bs"
proof (induction bs)
  case Nil
  then show ?case by simp
next
  case (Cons b bs)
  have b: "unat b < 256" using unsigned_less[of b] by simp
  have "(unat b + 256 * of_le_image bs) mod 256 = unat b"
    and "(unat b + 256 * of_le_image bs) div 256 = of_le_image bs"
    using b by simp_all
  then show ?case using Cons.IH by simp
qed

definition word_bytes :: "'a::len word \<Rightarrow> nat" where
  "word_bytes w = LENGTH('a) div 8"

definition mem_of_word :: "'a::len word \<Rightarrow> bytes" where
  "mem_of_word w = le_image (word_bytes w) (unat w)"

definition word_of_mem :: "bytes \<Rightarrow> 'a::len word" where
  "word_of_mem bs = word_of_nat (of_le_image bs)"

definition bswap :: "'a::len word \<Rightarrow> 'a word" where
  "bswap w = word_of_mem (rev (mem_of_word w))"

lemma length_mem_of_word [simp]: "length (mem_of_word (w :: 'a::len word)) = LENGTH('a) div 8"
  by (simp add: mem_of_word_def word_bytes_def)

lemma word_of_mem_of_word:
  assumes "8 dvd LENGTH('a)"
  shows "word_of_mem (mem_of_word w) = (w :: 'a::len word)"
proof -
  have "(256::nat) ^ (LENGTH('a) div 8) = 2 ^ (8 * (LENGTH('a) div 8))"
    by (simp add: power_mult)
  also have "\<dots> = 2 ^ LENGTH('a)"
    using assms by simp
  finally have "unat w mod 256 ^ (LENGTH('a) div 8) = unat w"
    using unsigned_less[of w] by simp
  then show ?thesis
    by (simp add: word_of_mem_def mem_of_word_def word_bytes_def)
qed

lemma mem_of_word_of_mem:
  assumes "8 dvd LENGTH('a)" and "length bs = LENGTH('a) div 8"
  shows "mem_of_word (word_of_mem bs :: 'a::len word) = bs"
proof -
  have "(256::nat) ^ (LENGTH('a) div 8) = 2 ^ (8 * (LENGTH('a) div 8))"
    by (simp add: power_mult)
  also have "\<dots> = 2 ^ LENGTH('a)"
    using assms by simp
  finally have "of_le_image bs < 2 ^ LENGTH('a)"
    using of_le_image_less[of bs] assms by simp
  then have "unat (word_of_nat (of_le_image bs) :: 'a word) = of_le_image bs"
    by (simp add: unat_of_nat take_bit_eq_mod)
  then show ?thesis
    using le_image_of_le_image[of bs] assms(2)
    by (simp add: word_of_mem_def mem_of_word_def word_bytes_def)
qed

lemma mem_of_bswap:
  assumes "8 dvd LENGTH('a)"
  shows "mem_of_word (bswap (w :: 'a::len word)) = rev (mem_of_word w)"
  using assms by (simp add: bswap_def mem_of_word_of_mem)

lemma bswap_bswap:
  assumes "8 dvd LENGTH('a)"
  shows "bswap (bswap w) = (w :: 'a::len word)"
proof -
  have "bswap (bswap w) = word_of_mem (rev (mem_of_word (bswap w)))"
    by (simp add: bswap_def[of "bswap w"])
  also have "\<dots> = word_of_mem (mem_of_word w)"
    using assms by (simp add: mem_of_bswap)
  finally show ?thesis
    using assms by (simp add: word_of_mem_of_word)
qed

end
