(* ===== verification/Api_Errors.thy ===== *)
theory Api_Errors imports Prelude begin

text \<open>
  The error codes of the program: \<open>api_error\<close> of types/repertory.hpp, its names
  (types/repertory.cpp) and its translation to and from \<open>errno\<close> values
  (utils/unix/unix_utils.cpp, the branch for Linux).
\<close>

section \<open>The enumeration\<close>

datatype api_error =
  success | access_denied | bad_address | buffer_overflow | buffer_too_small
| cache_not_initialized | comm_error | decryption_error | directory_end_of_files
| directory_exists | directory_not_empty | directory_not_found | download_failed
| download_incomplete | download_stopped | empty_ring_buffer_chunk_size
| empty_ring_buffer_size | error | file_in_use | file_size_mismatch
| incompatible_version | invalid_handle | invalid_operation
| invalid_ring_buffer_multiple | invalid_ring_buffer_position
| invalid_ring_buffer_size | invalid_version | item_exists | item_not_found
| more_data | name_too_long | no_disk_space | not_implemented | not_supported
| no_tty | os_error | out_of_memory | permission_denied | stale_descriptor
| upload_failed | xattr_buffer_small | xattr_exists | xattr_not_found
| xattr_too_big | ERROR_COUNT

text \<open>The enumerators in declaration order; the position is the enumerator's value.\<close>

definition api_error_values :: "api_error list" where
  "api_error_values =
    [success, access_denied, bad_address, buffer_overflow, buffer_too_small,
     cache_not_initialized, comm_error, decryption_error, directory_end_of_files,
     directory_exists, directory_not_empty, directory_not_found, download_failed,
     download_incomplete, download_stopped, empty_ring_buffer_chunk_size,
     empty_ring_buffer_size, error, file_in_use, file_size_mismatch,
     incompatible_version, invalid_handle, invalid_operation,
     invalid_ring_buffer_multiple, invalid_ring_buffer_position,
     invalid_ring_buffer_size, invalid_version, item_exists, item_not_found,
     more_data, name_too_long, no_disk_space, not_implemented, not_supported,
     no_tty, os_error, out_of_memory, permission_denied, stale_descriptor,
     upload_failed, xattr_buffer_small, xattr_exists, xattr_not_found,
     xattr_too_big]"

text \<open>\<open>static_cast<std::size_t>(api_error::ERROR_COUNT)\<close> is the number of enumerators before it.\<close>

definition error_count :: nat where
  "error_count = length api_error_values"

section \<open>Names\<close>

datatype exn = startup_exception string | out_of_range | runtime_error string | bad_json

definition error_lookup :: "(api_error \<times> string) list" where
  "error_lookup =
    [(success, ''success''),
     (access_denied, ''access_denied''),
     (bad_address, ''bad_address''),
     (buffer_overflow, ''buffer_overflow''),
     (buffer_too_small, ''buffer_too_small''),
     (cache_not_initialized, ''cache_not_initialized''),
     (comm_error, ''comm_error''),
     (decryption_error, ''decryption_error''),
     (directory_end_of_files, ''directory_end_of_files''),
     (directory_exists, ''directory_exists''),
     (directory_not_empty, ''directory_not_empty''),
     (directory_not_found, ''directory_not_found''),
     (download_failed, ''download_failed''),
     (download_incomplete, ''download_incomplete''),
     (download_stopped, ''download_stopped''),
     (empty_ring_buffer_chunk_size, ''empty_ring_buffer_chunk_size''),
     (empty_ring_buffer_size, ''empty_ring_buffer_size''),
     (error, ''error''),
     (file_in_use, ''file_in_use''),
     (file_size_mismatch, ''file_size_mismatch''),
     (incompatible_version, ''incompatible_version''),
     (invalid_handle, ''invalid_handle''),
     (invalid_operation, ''invalid_operation''),
     (invalid_ring_buffer_multiple, ''invalid_ring_buffer_multiple''),
     (invalid_ring_buffer_position, ''invalid_ring_buffer_position''),
     (invalid_ring_buffer_size, ''invalid_ring_buffer_size''),
     (invalid_version, ''invalid_version''),
     (item_exists, ''item_exists''),
     (item_not_found, ''item_not_found''),
     (more_data, ''more_data''),
     (name_too_long, ''name_too_long''),
     (no_disk_space, ''no_disk_space''),
     (not_implemented, ''not_implemented''),
     (not_supported, ''not_supported''),
     (no_tty, ''no_tty''),
     (os_error, ''os_error''),
     (out_of_memory, ''out_of_memory''),
     (permission_denied, ''permission_denied''),
     (stale_descriptor, ''stale_descriptor''),
     (upload_failed, ''upload_failed''),
     (xattr_buffer_small, ''xattr_buffer_small''),
     (xattr_exists, ''xattr_exists''),
     (xattr_not_found, ''xattr_not_found''),
     (xattr_too_big, ''xattr_too_big'')]"

definition api_error_from_string :: "string \<Rightarrow> exn + api_error" where
  "api_error_from_string str =
    (if length error_lookup \<noteq> error_count
     then Inl (startup_exception ''undefined api_error strings'')
     else case List.find (\<lambda>item. snd item = str) error_lookup of
            None \<Rightarrow> Inr error
          | Some item \<Rightarrow> Inr (fst item))"

definition api_error_to_string :: "api_error \<Rightarrow> exn + string" where
  "api_error_to_string e =
    (if length error_lookup \<noteq> error_count
     then Inl (startup_exception ''undefined api_error strings'')
     else case map_of error_lookup e of
            None \<Rightarrow> Inl out_of_range
          | Some s \<Rightarrow> Inr s)"

lemma error_lookup_complete: "map fst error_lookup = api_error_values"
  by (simp add: error_lookup_def api_error_values_def)

lemma length_error_lookup [simp]: "length error_lookup = error_count"
  by (simp add: error_count_def flip: error_lookup_complete)

lemma distinct_api_error_values: "distinct api_error_values"
  by (simp add: api_error_values_def)

lemma in_api_error_values: "e \<in> set api_error_values \<longleftrightarrow> e \<noteq> ERROR_COUNT"
  by (cases e) (simp_all add: api_error_values_def)

lemma distinct_error_names: "distinct (map snd error_lookup)"
  by code_simp

lemma find_snd_map_of:
  assumes "distinct (map snd ps)" "map_of ps k = Some v"
  shows "List.find (\<lambda>p. snd p = v) ps = Some (k, v)"
  using assms
proof (induction ps)
  case Nil
  then show ?case by simp
next
  case (Cons p ps)
  then show ?case by (cases p) (force split: if_splits dest: map_of_SomeD)
qed

text \<open>
  C38.  Every error code except the terminator \<open>ERROR_COUNT\<close> has a name, and reading the
  name back gives the code: the table of types/repertory.cpp is complete and injective,
  so neither translation throws.
\<close>

theorem api_error_roundtrip:
  assumes "e \<noteq> ERROR_COUNT"
  shows "\<exists>s. api_error_to_string e = Inr s \<and> api_error_from_string s = Inr e"
proof -
  have "e \<in> set (map fst error_lookup)"
    using assms by (simp add: error_lookup_complete in_api_error_values)
  then obtain s where s: "map_of error_lookup e = Some s"
    by (metis map_of_eq_None_iff not_Some_eq set_map)
  have "api_error_from_string s = Inr e"
    using find_snd_map_of[OF distinct_error_names s] by (simp add: api_error_from_string_def)
  with s show ?thesis by (simp add: api_error_to_string_def)
qed

theorem api_error_roundtrip_witness:
  "\<exists>s. api_error_to_string upload_failed = Inr s \<and> api_error_from_string s = Inr upload_failed"
  by (rule api_error_roundtrip) simp

section \<open>errno\<close>

text \<open>The values of \<open>errno.h\<close> on Linux, and \<open>EOF\<close> of \<open>stdio.h\<close>.\<close>

definition EPERM :: int where [simp]: "EPERM = 1"
definition ENOENT :: int where [simp]: "ENOENT = 2"
definition EIO :: int where [simp]: "EIO = 5"
definition E2BIG :: int where [simp]: "E2BIG = 7"
definition EBADF :: int where [simp]: "EBADF = 9"
definition ENOMEM :: int where [simp]: "ENOMEM = 12"
definition EACCES :: int where [simp]: "EACCES = 13"
definition EFAULT :: int where [simp]: "EFAULT = 14"
definition EBUSY :: int where [simp]: "EBUSY = 16"
definition EEXIST :: int where [simp]: "EEXIST = 17"
definition ENOTDIR :: int where [simp]: "ENOTDIR = 20"
definition EISDIR :: int where [simp]: "EISDIR = 21"
definition EINVAL :: int where [simp]: "EINVAL = 22"
definition ENOTTY :: int where [simp]: "ENOTTY = 25"
definition ENOSPC :: int where [simp]: "ENOSPC = 28"
definition ERANGE :: int where [simp]: "ERANGE = 34"
definition ENAMETOOLONG :: int where [simp]: "ENAMETOOLONG = 36"
definition ENOSYS :: int where [simp]: "ENOSYS = 38"
definition ENOTEMPTY :: int where [simp]: "ENOTEMPTY = 39"
definition ENODATA :: int where [simp]: "ENODATA = 61"
definition ENOTSUP :: int where [simp]: "ENOTSUP = 95"
definition ENETDOWN :: int where [simp]: "ENETDOWN = 100"
definition ESTALE :: int where [simp]: "ESTALE = 116"
definition EREMOTEIO :: int where [simp]: "EREMOTEIO = 121"
definition EOF :: int where [simp]: "EOF = -1"

text \<open>\<open>from_api_error\<close> reads the global \<open>errno\<close> in the \<open>os_error\<close> case: it is an argument here.\<close>

fun from_api_error :: "int \<Rightarrow> api_error \<Rightarrow> int" where
  "from_api_error errno access_denied = - EACCES"
| "from_api_error errno bad_address = - EFAULT"
| "from_api_error errno directory_end_of_files = - EOF"
| "from_api_error errno directory_exists = - EISDIR"
| "from_api_error errno directory_not_empty = - ENOTEMPTY"
| "from_api_error errno directory_not_found = - ENOTDIR"
| "from_api_error errno download_failed = - EREMOTEIO"
| "from_api_error errno error = - EIO"
| "from_api_error errno item_exists = - EEXIST"
| "from_api_error errno file_in_use = - EBUSY"
| "from_api_error errno invalid_handle = - EBADF"
| "from_api_error errno invalid_operation = - EINVAL"
| "from_api_error errno item_not_found = - ENOENT"
| "from_api_error errno name_too_long = - ENAMETOOLONG"
| "from_api_error errno out_of_memory = - ENOMEM"
| "from_api_error errno no_disk_space = - ENOSPC"
| "from_api_error errno os_error = - errno"
| "from_api_error errno permission_denied = - EPERM"
| "from_api_error errno success = 0"
| "from_api_error errno not_supported = - ENOTSUP"
| "from_api_error errno not_implemented = - ENOSYS"
| "from_api_error errno no_tty = - ENOTTY"
| "from_api_error errno stale_descriptor = - ESTALE"
| "from_api_error errno upload_failed = - ENETDOWN"
| "from_api_error errno xattr_buffer_small = - ERANGE"
| "from_api_error errno xattr_exists = - EEXIST"
| "from_api_error errno xattr_not_found = - ENODATA"
| "from_api_error errno xattr_too_big = - E2BIG"
| "from_api_error errno _ = - EIO"

definition to_api_error :: "int \<Rightarrow> api_error" where
  "to_api_error err =
    (let a = \<bar>err\<bar> in
     if a = 0 then success
     else if a = EBADF then invalid_handle
     else if a = EACCES then access_denied
     else if a = EFAULT then bad_address
     else if a = EOF then directory_end_of_files
     else if a = EISDIR then directory_exists
     else if a = ENOTEMPTY then directory_not_empty
     else if a = ENOTDIR then directory_not_found
     else if a = EREMOTEIO then download_failed
     else if a = EIO then error
     else if a = EEXIST then item_exists
     else if a = EBUSY then file_in_use
     else if a = EINVAL then invalid_operation
     else if a = ENOENT then item_not_found
     else if a = ENOMEM then out_of_memory
     else if a = EPERM then permission_denied
     else if a = ENOSPC then no_disk_space
     else if a = ENOTSUP then not_supported
     else if a = ENOSYS then not_implemented
     else if a = ESTALE then stale_descriptor
     else if a = ENOTTY then no_tty
     else if a = ENETDOWN then upload_failed
     else if a = ERANGE then xattr_buffer_small
     else if a = ENODATA then xattr_not_found
     else if a = ENAMETOOLONG then name_too_long
     else if a = E2BIG then xattr_too_big
     else error)"

text \<open>
  Which codes survive the trip through \<open>errno\<close> on Linux, exactly: the codes with an
  \<open>errno\<close> of their own do; all others come back as a different code.  In particular the
  case \<open>EOF\<close> of \<open>to_api_error\<close> cannot match the non-negative \<open>abs(err)\<close>, so the end of a
  directory listing comes back as \<open>permission_denied\<close>.
\<close>

theorem errno_roundtrip_exact:
  "to_api_error (from_api_error errno directory_end_of_files) = permission_denied \<and>
   (e \<noteq> os_error \<longrightarrow>
     (to_api_error (from_api_error errno e) = e \<longleftrightarrow>
      e \<in> {success, access_denied, bad_address, directory_exists, directory_not_empty,
           directory_not_found, download_failed, error, item_exists, file_in_use,
           invalid_handle, invalid_operation, item_not_found, name_too_long, out_of_memory,
           no_disk_space, permission_denied, not_supported, not_implemented, no_tty,
           stale_descriptor, upload_failed, xattr_buffer_small, xattr_not_found,
           xattr_too_big}))"
  by (cases e) (simp_all add: to_api_error_def)

theorem errno_roundtrip_exact_witness:
  "to_api_error (from_api_error 0 directory_end_of_files) = permission_denied \<and>
   to_api_error (from_api_error 0 xattr_too_big) = xattr_too_big"
  using errno_roundtrip_exact[of 0 xattr_too_big] by simp

text \<open>A non-success code never becomes the success value 0, given that \<open>errno\<close> is set.\<close>

lemma from_api_error_zero_iff:
  "errno \<noteq> 0 \<Longrightarrow> from_api_error errno e = 0 \<longleftrightarrow> e = success"
  by (cases e) simp_all

lemma from_api_error_success [simp]: "from_api_error errno success = 0"
  by simp

end
