(* ===== verification/Strings.thy ===== *)
theory Strings imports Prelude begin

text \<open>
  The string helpers of utils/string.hpp and utils/string.cpp on \<open>string\<close> (a list of bytes
  as characters, as \<open>std::string\<close> is): searching, trimming, splitting, joining, replacing
  and the numeric test.
\<close>

section \<open>std::string primitives\<close>

fun is_prefix :: "'a list \<Rightarrow> 'a list \<Rightarrow> bool" where
  "is_prefix [] ys = True"
| "is_prefix (x # xs) [] = False"
| "is_prefix (x # xs) (y # ys) = (x = y \<and> is_prefix xs ys)"

text \<open>\<open>find_at v i s\<close> is \<open>s'.find(v, i)\<close> for the text \<open>s\<close> that starts at position \<open>i\<close> of \<open>s'\<close>;
  None is \<open>npos\<close>.\<close>

fun find_at :: "'a list \<Rightarrow> nat \<Rightarrow> 'a list \<Rightarrow> nat option" where
  "find_at v i [] = (if v = [] then Some i else None)"
| "find_at v i (c # cs) = (if is_prefix v (c # cs) then Some i else find_at v (Suc i) cs)"

definition str_find :: "'a list \<Rightarrow> 'a list \<Rightarrow> nat \<Rightarrow> nat option" where
  "str_find s v pos = (if length s < pos then None else find_at v pos (drop pos s))"

lemma is_prefix_iff: "is_prefix v s \<longleftrightarrow> (\<exists>t. s = v @ t)"
  by (induction v s rule: is_prefix.induct) auto

lemma is_prefix_take: "is_prefix v s \<longleftrightarrow> take (length v) s = v"
proof (induction v s rule: is_prefix.induct)
  case (3 x xs y ys)
  then show ?case by auto
qed simp_all

lemma find_at_bounds: "find_at v i s = Some k \<Longrightarrow> i \<le> k \<and> k + length v \<le> i + length s"
proof (induction s arbitrary: i)
  case Nil
  then show ?case by (simp split: if_splits)
next
  case (Cons c cs)
  show ?case
  proof (cases "is_prefix v (c # cs)")
    case True
    then obtain t where "c # cs = v @ t" by (auto simp: is_prefix_iff)
    then have "length (c # cs) = length v + length t" by (metis length_append)
    with True Cons.prems show ?thesis by simp
  next
    case False
    with Cons show ?thesis by fastforce
  qed
qed

lemma find_at_match: "find_at v i s = Some k \<Longrightarrow> take (length v) (drop (k - i) s) = v"
proof (induction s arbitrary: i)
  case Nil
  then show ?case by (simp split: if_splits)
next
  case (Cons c cs)
  show ?case
  proof (cases "is_prefix v (c # cs)")
    case True
    with Cons.prems show ?thesis by (simp add: is_prefix_take)
  next
    case False
    with Cons.prems have f: "find_at v (Suc i) cs = Some k" by simp
    from find_at_bounds[OF this] have "k - i = Suc (k - Suc i)" by linarith
    with Cons.IH[OF f] show ?thesis by simp
  qed
qed

lemma find_at_None: "find_at v i s = None \<longleftrightarrow> (\<forall>p q. s \<noteq> p @ v @ q)"
proof (induction s arbitrary: i)
  case Nil
  then show ?case by auto
next
  case (Cons c cs)
  have "(\<exists>p q. c # cs = p @ v @ q) \<longleftrightarrow>
        is_prefix v (c # cs) \<or> (\<exists>p q. cs = p @ v @ q)" (is "?l \<longleftrightarrow> ?r")
  proof
    assume ?l
    then obtain p q where pq: "c # cs = p @ v @ q" by blast
    then show ?r by (cases p) (auto simp: is_prefix_iff)
  next
    assume ?r
    then show ?l by (auto simp: is_prefix_iff) (metis append_Cons append_Nil)+
  qed
  with Cons.IH[of "Suc i"] show ?case by auto
qed

section \<open>utils::string\<close>

definition begins_with :: "'a list \<Rightarrow> 'a list \<Rightarrow> bool" where
  "begins_with str val \<longleftrightarrow> str_find str val 0 = Some 0"

definition str_contains :: "'a list \<Rightarrow> 'a list \<Rightarrow> bool" where
  "str_contains str search \<longleftrightarrow> str_find str search 0 \<noteq> None"

definition ends_with :: "'a list \<Rightarrow> 'a list \<Rightarrow> bool" where
  "ends_with str val =
    (if length str < length val then False
     else take (length val) (rev str) = rev val)"

definition left_trim :: "'a \<Rightarrow> 'a list \<Rightarrow> 'a list" where
  "left_trim ch str = dropWhile (\<lambda>c. c = ch) str"

definition right_trim :: "'a \<Rightarrow> 'a list \<Rightarrow> 'a list" where
  "right_trim ch str = rev (dropWhile (\<lambda>c. c = ch) (rev str))"

definition trim_with :: "'a \<Rightarrow> 'a list \<Rightarrow> 'a list" where
  "trim_with ch str = right_trim ch (left_trim ch str)"

abbreviation trim :: "string \<Rightarrow> string" where
  "trim \<equiv> trim_with (CHR '' '')"

definition tolower :: "char \<Rightarrow> char" where
  "tolower c = (let n = (of_char c :: nat) in if 65 \<le> n \<and> n \<le> 90 then char_of (n + 32) else c)"

definition to_lower :: "string \<Rightarrow> string" where
  "to_lower = map tolower"

definition isdigit :: "char \<Rightarrow> bool" where
  "isdigit c \<longleftrightarrow> 48 \<le> (of_char c :: nat) \<and> (of_char c :: nat) \<le> 57"

text \<open>
  The lambda of \<open>is_numeric_t\<close> with its captured flag \<open>has_decimal\<close>: the result says whether
  the scan stops at a character (which makes the string not numeric).
\<close>

fun numeric_scan :: "bool \<Rightarrow> string \<Rightarrow> bool" where
  "numeric_scan has_decimal [] = True"
| "numeric_scan has_decimal (c # cs) =
    (if has_decimal \<and> c = CHR ''.'' then False
     else let has_decimal = has_decimal \<or> c = CHR ''.'' in
       if has_decimal then numeric_scan has_decimal cs
       else isdigit c \<and> numeric_scan has_decimal cs)"

definition is_numeric :: "string \<Rightarrow> bool" where
  "is_numeric str =
    (let str = (if 1 < length str \<and> (hd str = CHR ''+'' \<or> hd str = CHR ''-'')
                then tl str else str)
     in if str = [] then False else numeric_scan False str)"

fun join :: "'a \<Rightarrow> 'a list list \<Rightarrow> 'a list" where
  "join delim [] = []"
| "join delim (x # xs) = foldl (\<lambda>str cur. str @ delim # cur) x xs"

text \<open>\<open>split\<close> by a character is a loop of \<open>std::getline\<close>, which yields no element after a
  final delimiter.\<close>

fun getlines :: "'a \<Rightarrow> 'a list \<Rightarrow> 'a list \<Rightarrow> 'a list list" where
  "getlines delim acc [] = (if acc = [] then [] else [rev acc])"
| "getlines delim acc (c # cs) =
    (if c = delim then rev acc # getlines delim [] cs else getlines delim (c # acc) cs)"

definition split_string :: "string \<Rightarrow> char \<Rightarrow> bool \<Rightarrow> string list" where
  "split_string str delim should_trim =
    map (if should_trim then trim else (\<lambda>v. v)) (getlines delim [] str)"

definition replace_char :: "'a list \<Rightarrow> 'a \<Rightarrow> 'a \<Rightarrow> nat \<Rightarrow> 'a list" where
  "replace_char src character wth start_pos =
    (if start_pos < length src
     then take start_pos src @ map (\<lambda>c. if c = character then wth else c) (drop start_pos src)
     else src)"

text \<open>The loop of \<open>replace\<close> need not end (an empty \<open>find\<close> matches everywhere): None is a
  call that does not return.\<close>

partial_function (option) replace_loop ::
  "'a list \<Rightarrow> 'a list \<Rightarrow> 'a list \<Rightarrow> nat \<Rightarrow> 'a list option" where
  "replace_loop src fnd wth start_pos =
    (case str_find src fnd start_pos of
       None \<Rightarrow> Some src
     | Some pos \<Rightarrow>
         replace_loop (take pos src @ wth @ drop (pos + length fnd) src) fnd wth
           (pos + length wth))"

definition replace_str ::
  "'a list \<Rightarrow> 'a list \<Rightarrow> 'a list \<Rightarrow> nat \<Rightarrow> 'a list option" where
  "replace_str src fnd wth start_pos =
    (if start_pos < length src then replace_loop src fnd wth start_pos else Some src)"

text \<open>\<open>zero_pad\<close>: \<open>count - str.length()\<close> wraps for a longer string, and
  \<open>std::string::insert\<close> then throws \<open>std::length_error\<close> (None).\<close>

definition zero_pad :: "string \<Rightarrow> nat \<Rightarrow> string option" where
  "zero_pad str count =
    (let n = sub64 count (length str) in
     if n + length str < 2 ^ 63 then Some (replicate n (CHR ''0'') @ str) else None)"

text \<open>\<open>std::to_string\<close> of an unsigned number.\<close>

fun decimal :: "nat \<Rightarrow> string" where
  "decimal n =
    (if n < 10 then [char_of (48 + n)] else decimal (n div 10) @ [char_of (48 + n mod 10)])"

section \<open>Searching\<close>

lemma begins_with_iff: "begins_with str val \<longleftrightarrow> (\<exists>t. str = val @ t)"
proof -
  have "find_at val 0 str = Some 0 \<longleftrightarrow> is_prefix val str"
  proof (cases str)
    case Nil
    then show ?thesis by (cases val) auto
  next
    case (Cons c cs)
    have "find_at val (Suc 0) cs \<noteq> Some 0"
      using find_at_bounds[of val "Suc 0" cs 0] by auto
    then show ?thesis by (simp add: Cons)
  qed
  then show ?thesis by (simp add: begins_with_def str_find_def is_prefix_iff)
qed

lemma str_contains_iff: "str_contains str val \<longleftrightarrow> (\<exists>p q. str = p @ val @ q)"
  by (simp add: str_contains_def str_find_def) (metis find_at_None not_Some_eq)

lemma ends_with_iff: "ends_with str val \<longleftrightarrow> (\<exists>t. str = t @ val)"
proof
  assume "ends_with str val"
  then have "take (length val) (rev str) = rev val"
    by (simp add: ends_with_def split: if_splits)
  then have "rev str = rev val @ drop (length val) (rev str)"
    by (metis append_take_drop_id)
  then show "\<exists>t. str = t @ val"
    by (metis rev_append rev_rev_ident)
next
  assume "\<exists>t. str = t @ val"
  then show "ends_with str val" by (auto simp: ends_with_def)
qed

section \<open>Trimming\<close>

lemma left_trim_hd: "left_trim ch s = [] \<or> hd (left_trim ch s) \<noteq> ch"
  unfolding left_trim_def using hd_dropWhile[of "\<lambda>c. c = ch" s] by auto

lemma right_trim_last: "right_trim ch s = [] \<or> last (right_trim ch s) \<noteq> ch"
  unfolding right_trim_def using hd_dropWhile[of "\<lambda>c. c = ch" "rev s"]
  by (auto simp: last_rev)

lemma right_trim_decomp: "\<exists>n. s = right_trim ch s @ replicate n ch"
proof -
  have "takeWhile (\<lambda>c. c = ch) (rev s) = replicate (length (takeWhile (\<lambda>c. c = ch) (rev s))) ch"
    by (rule replicate_eqI) (auto dest: set_takeWhileD)
  moreover have "s = right_trim ch s @ rev (takeWhile (\<lambda>c. c = ch) (rev s))"
    unfolding right_trim_def by (metis rev_append rev_rev_ident takeWhile_dropWhile_id)
  ultimately show ?thesis by (metis rev_replicate)
qed

lemma left_trim_decomp: "\<exists>n. s = replicate n ch @ left_trim ch s"
proof -
  have "takeWhile (\<lambda>c. c = ch) s = replicate (length (takeWhile (\<lambda>c. c = ch) s)) ch"
    by (rule replicate_eqI) (auto dest: set_takeWhileD)
  then show ?thesis
    unfolding left_trim_def by (metis takeWhile_dropWhile_id)
qed

lemma right_trim_id: "s = [] \<or> last s \<noteq> ch \<Longrightarrow> right_trim ch s = s"
  unfolding right_trim_def by (cases s rule: rev_cases) auto

lemma left_trim_id: "s = [] \<or> hd s \<noteq> ch \<Longrightarrow> left_trim ch s = s"
  unfolding left_trim_def by (cases s) auto

lemma right_trim_hd: "right_trim ch s \<noteq> [] \<Longrightarrow> hd (right_trim ch s) = hd s"
  using right_trim_decomp[of s ch] by (metis hd_append2)

lemma trim_with_ends:
  "trim_with ch s = [] \<or> (hd (trim_with ch s) \<noteq> ch \<and> last (trim_with ch s) \<noteq> ch)"
proof (cases "trim_with ch s = []")
  case False
  then have r: "right_trim ch (left_trim ch s) \<noteq> []" by (simp add: trim_with_def)
  then have "left_trim ch s \<noteq> []" by (auto simp: right_trim_def)
  then show ?thesis
    using r right_trim_hd[OF r] left_trim_hd[of ch s] right_trim_last[of ch "left_trim ch s"]
    by (auto simp: trim_with_def)
qed simp

lemma trim_with_decomp: "\<exists>m n. s = replicate m ch @ trim_with ch s @ replicate n ch"
  unfolding trim_with_def
  using left_trim_decomp[of s ch] right_trim_decomp[of "left_trim ch s" ch] by metis

lemma trim_with_idem [simp]: "trim_with ch (trim_with ch s) = trim_with ch s"
  using trim_with_ends[of ch s]
  by (auto simp: trim_with_def[of ch "trim_with ch s"] left_trim_id right_trim_id)

section \<open>Splitting and joining\<close>

lemma foldl_join: "foldl (\<lambda>str cur. str @ delim # cur) (a @ x) xs =
    a @ foldl (\<lambda>str cur. str @ delim # cur) x xs"
  by (induction xs arbitrary: x) auto

lemma join_Cons: "xs \<noteq> [] \<Longrightarrow> join d (x # xs) = x @ d # join d xs"
proof (cases xs)
  case (Cons y ys)
  then show ?thesis using foldl_join[of d "x @ [d]" y ys] by simp
qed simp

lemma getlines_acc:
  "d \<notin> set x \<Longrightarrow> getlines d acc (x @ d # ys) = (rev acc @ x) # getlines d [] ys"
  by (induction x arbitrary: acc) auto

lemma getlines_last: "d \<notin> set x \<Longrightarrow> acc @ x \<noteq> [] \<Longrightarrow> getlines d acc x = [rev acc @ x]"
proof (induction x arbitrary: acc)
  case (Cons c x)
  then show ?case using Cons.IH[of "c # acc"] by auto
qed simp

lemma getlines_join:
  assumes "\<And>x. x \<in> set xs \<Longrightarrow> d \<notin> set x" and "xs \<noteq> [] \<Longrightarrow> last xs \<noteq> []"
  shows "getlines d [] (join d xs) = xs"
  using assms
proof (induction xs)
  case Nil
  then show ?case by simp
next
  case (Cons x xs)
  show ?case
  proof (cases "xs = []")
    case True
    then show ?thesis using Cons.prems getlines_last[of d x "[]"] by simp
  next
    case False
    then have "getlines d [] (join d (x # xs)) = x # getlines d [] (join d xs)"
      using Cons.prems(1) by (simp add: join_Cons getlines_acc del: join.simps)
    moreover have "getlines d [] (join d xs) = xs"
      using Cons.IH Cons.prems False by simp
    ultimately show ?thesis by simp
  qed
qed

section \<open>Replacing\<close>

lemma str_find_bounds:
  "str_find s v pos = Some k \<Longrightarrow> pos \<le> k \<and> k + length v \<le> length s"
  by (auto simp: str_find_def dest!: find_at_bounds split: if_splits)

lemma replace_loop_returns:
  assumes "fnd \<noteq> []"
  shows "\<exists>r. replace_loop src fnd w pos = Some r"
proof (induction "length src - pos" arbitrary: src pos rule: less_induct)
  case less
  show ?case
  proof (cases "str_find src fnd pos")
    case None
    then show ?thesis by (simp add: replace_loop.simps)
  next
    case (Some k)
    let ?src = "take k src @ w @ drop (k + length fnd) src"
    have b: "pos \<le> k" "k + length fnd \<le> length src"
      using str_find_bounds[OF Some] by auto
    have "0 < length fnd" using assms by simp
    then have "length src - (length fnd + k) < length src - pos"
      using b by linarith
    then have "length ?src - (k + length w) < length src - pos"
      using b by simp
    then obtain r where "replace_loop ?src fnd w (k + length w) = Some r"
      using less by blast
    with Some show ?thesis by (simp add: replace_loop.simps)
  qed
qed

lemma replace_loop_empty_diverges:
  assumes "pos \<le> length src"
  shows "replace_loop src [] w pos = None"
proof (rule ccontr)
  assume "replace_loop src [] w pos \<noteq> None"
  then obtain r where ret: "replace_loop src [] w pos = Some r" by auto
  have "[] = ([] :: 'a list) \<longrightarrow> pos \<le> length src \<longrightarrow> False"
  proof (rule replace_loop.raw_induct
      [where P = "\<lambda>src fnd w pos r. fnd = [] \<longrightarrow> pos \<le> length src \<longrightarrow> False", OF _ ret])
    fix f and src fnd w :: "'a list" and pos r
    assume IH: "\<And>src fnd w pos r. f src fnd w pos = Some r \<Longrightarrow>
        fnd = [] \<longrightarrow> pos \<le> length src \<longrightarrow> False"
      and eq: "(case str_find src fnd pos of None \<Rightarrow> Some src
        | Some k \<Rightarrow> f (take k src @ w @ drop (k + length fnd) src) fnd w (k + length w)) = Some r"
    show "fnd = [] \<longrightarrow> pos \<le> length src \<longrightarrow> False"
    proof (intro impI)
      assume fnd: "fnd = []" and pos: "pos \<le> length src"
      have "str_find src [] pos = Some pos"
        using pos by (cases "drop pos src") (simp_all add: str_find_def)
      with eq fnd have "f (take pos src @ w @ drop pos src) [] w (pos + length w) = Some r"
        by simp
      from IH[OF this] pos show False by simp
    qed
  qed
  with assms show False by simp
qed

text \<open>
  C39.  \<open>utils::string::replace\<close> returns exactly when the text to find is not empty (or the
  start position lies outside the text); with an empty one it loops forever.
\<close>

theorem replace_str_returns_iff:
  "(\<exists>r. replace_str src fnd w pos = Some r) \<longleftrightarrow> fnd \<noteq> [] \<or> length src \<le> pos"
  using replace_loop_returns[of fnd src w pos] replace_loop_empty_diverges[of pos src w]
  by (cases "fnd = []") (auto simp: replace_str_def)

theorem replace_str_returns_iff_witness:
  "(\<exists>r. replace_str ''a/b'' ''/'' ''::'' 0 = Some r) \<and> replace_str ''ab'' [] ''c'' 0 = None"
  using replace_str_returns_iff[of "''a/b''" "''/''" "''::''" 0]
    replace_str_returns_iff[of "''ab''" "[]" "''c''" 0] by auto

section \<open>Numbers\<close>

lemma numeric_scan_decimal: "numeric_scan True cs \<longleftrightarrow> CHR ''.'' \<notin> set cs"
  by (induction cs) auto

definition decimal_text :: "string \<Rightarrow> bool" where
  "decimal_text cs \<longleftrightarrow>
    (\<exists>ds fs. cs = ds @ CHR ''.'' # fs \<and> (\<forall>c \<in> set ds. isdigit c) \<and> CHR ''.'' \<notin> set fs)"

lemma decimal_text_Cons:
  "decimal_text (c # cs) \<longleftrightarrow>
   (c = CHR ''.'' \<and> CHR ''.'' \<notin> set cs) \<or> (isdigit c \<and> decimal_text cs)" (is "?l \<longleftrightarrow> ?r")
proof
  assume ?l
  then obtain ds fs where d: "c # cs = ds @ CHR ''.'' # fs" "\<forall>c \<in> set ds. isdigit c"
    "CHR ''.'' \<notin> set fs" by (auto simp: decimal_text_def)
  show ?r
  proof (cases ds)
    case Nil
    with d show ?thesis by simp
  next
    case (Cons e es)
    with d have "isdigit c" "cs = es @ CHR ''.'' # fs" "\<forall>c \<in> set es. isdigit c" by auto
    with d(3) show ?thesis unfolding decimal_text_def by blast
  qed
next
  assume ?r
  then consider "c = CHR ''.''" "CHR ''.'' \<notin> set cs" | "isdigit c" "decimal_text cs" by blast
  then show ?l
  proof cases
    case 1
    then have "c # cs = [] @ CHR ''.'' # cs" by simp
    with 1 show ?thesis unfolding decimal_text_def by fastforce
  next
    case 2
    then obtain ds fs where "cs = ds @ CHR ''.'' # fs" "\<forall>c \<in> set ds. isdigit c"
      "CHR ''.'' \<notin> set fs" by (auto simp: decimal_text_def)
    with 2 have "c # cs = (c # ds) @ CHR ''.'' # fs" "\<forall>c \<in> set (c # ds). isdigit c"
      by simp_all
    with \<open>CHR ''.'' \<notin> set fs\<close> show ?thesis unfolding decimal_text_def by blast
  qed
qed

lemma numeric_scan_iff:
  "numeric_scan False cs \<longleftrightarrow> (\<forall>c \<in> set cs. isdigit c) \<or> decimal_text cs"
proof (induction cs)
  case Nil
  then show ?case by simp
next
  case (Cons c cs)
  have "\<not> isdigit (CHR ''.'')" by (simp add: isdigit_def)
  then show ?case
    using Cons.IH by (auto simp: decimal_text_Cons numeric_scan_decimal Let_def)
qed

definition unsigned_part :: "string \<Rightarrow> string" where
  "unsigned_part str =
    (if 1 < length str \<and> (hd str = CHR ''+'' \<or> hd str = CHR ''-'') then tl str else str)"

text \<open>
  \<open>is_numeric\<close> does not look at the characters after a decimal point: it accepts exactly
  an optional sign, then digits, or digits, a point and any text without a second point.
  So for instance \<open>1.x\<close> and a single point count as numbers.
\<close>

theorem is_numeric_iff:
  "is_numeric str \<longleftrightarrow>
   unsigned_part str \<noteq> [] \<and>
   ((\<forall>c \<in> set (unsigned_part str). isdigit c) \<or> decimal_text (unsigned_part str))"
  by (simp add: is_numeric_def unsigned_part_def numeric_scan_iff Let_def)

theorem is_numeric_iff_witness: "is_numeric ''1.x'' \<and> is_numeric ''.'' \<and> \<not> is_numeric ''1x''"
proof -
  have "is_numeric ''1.x''" "\<not> is_numeric ''1x''" by code_simp+
  moreover have "decimal_text ''.''"
    by (simp add: decimal_text_Cons)
  then have "is_numeric ''.''"
    using is_numeric_iff[of "''.''"] by (simp add: unsigned_part_def)
  ultimately show ?thesis by simp
qed

end
