(* ===== verification/Utils_Common.thy ===== *)
theory Utils_Common imports Strings Api_Errors begin

text \<open>
  utils/common.hpp and utils/common.cpp: the arithmetic of reads and chunks, version
  comparison, the search for a free port and the retry loop.
\<close>

section \<open>Chunk arithmetic\<close>

definition calculate_read_size :: "nat \<Rightarrow> nat \<Rightarrow> nat \<Rightarrow> nat" where
  "calculate_read_size total_size read_size offset =
    (if add64 offset read_size > total_size
     then (if offset < total_size then sub64 total_size offset else 0)
     else read_size)"

definition divide_with_ceiling :: "nat \<Rightarrow> nat \<Rightarrow> nat" where
  "divide_with_ceiling numerator denominator =
    (if denominator = 0 then 0
     else numerator div denominator + (if numerator mod denominator \<noteq> 0 then 1 else 0))"

lemma calculate_read_size_exact:
  assumes "offset + read_size < 2 ^ 64" "total_size < 2 ^ 64"
  shows "calculate_read_size total_size read_size offset = min read_size (total_size - offset)"
  using assms by (auto simp: calculate_read_size_def arith64)

text \<open>
  The read size is clamped to the file: for 64-bit offsets and sizes whose sum does not
  wrap, \<open>calculate_read_size\<close> is the length of the slice that is inside the file; where the
  sum wraps to a value inside the file the request comes back unclamped.
\<close>

theorem calculate_read_size_spec:
  assumes "offset < 2 ^ 64" "read_size < 2 ^ 64" "length data < 2 ^ 64"
  shows "(offset + read_size < 2 ^ 64 \<longrightarrow>
      calculate_read_size (length data) read_size offset = length (slice offset read_size data)) \<and>
    (offset + read_size \<ge> 2 ^ 64 \<longrightarrow> offset + read_size - 2 ^ 64 \<le> length data \<longrightarrow>
      calculate_read_size (length data) read_size offset = read_size)"
proof (intro conjI impI)
  assume "offset + read_size < 2 ^ 64"
  then show "calculate_read_size (length data) read_size offset
      = length (slice offset read_size data)"
    using assms by (simp add: calculate_read_size_exact)
next
  assume w: "offset + read_size \<ge> 2 ^ 64" "offset + read_size - 2 ^ 64 \<le> length data"
  have "(offset + read_size) mod 2 ^ 64 = offset + read_size - 2 ^ 64"
    using assms w by (simp add: le_mod_geq)
  then show "calculate_read_size (length data) read_size offset = read_size"
    using w by (simp add: calculate_read_size_def add64_def)
qed

theorem calculate_read_size_spec_witness:
  "calculate_read_size (length [1 :: byte, 2, 3]) 9 1 = 2 \<and>
   calculate_read_size (length [1 :: byte, 2, 3]) 2 (2 ^ 64 - 1) = 2"
  using calculate_read_size_spec[of 1 9 "[1, 2, 3]"]
    calculate_read_size_spec[of "2 ^ 64 - 1" 2 "[1, 2, 3]"] by simp

lemma divide_with_ceiling_pos:
  "0 < d \<Longrightarrow> 0 < n \<Longrightarrow> 0 < divide_with_ceiling n d"
  by (auto simp: divide_with_ceiling_def div_greater_zero_iff)

lemma divide_with_ceiling_bounds:
  assumes "0 < d"
  shows "n \<le> divide_with_ceiling n d * d" "divide_with_ceiling n d * d < n + d"
proof -
  have "d * (n div d) + n mod d = n" "n mod d < d" using assms by simp_all
  then have "n mod d \<noteq> 0 \<Longrightarrow> n \<le> d + d * (n div d)" "n mod d = 0 \<Longrightarrow> n = d * (n div d)"
    "n mod d \<noteq> 0 \<Longrightarrow> d + d * (n div d) < n + d" by linarith+
  then show "n \<le> divide_with_ceiling n d * d" "divide_with_ceiling n d * d < n + d"
    using assms by (simp_all add: divide_with_ceiling_def algebra_simps)
qed

lemma divide_with_ceiling_eq:
  assumes "0 < d" "n \<le> k * d" "k * d < n + d"
  shows "divide_with_ceiling n d = k"
proof -
  have a: "n \<le> divide_with_ceiling n d * d" "divide_with_ceiling n d * d < n + d"
    using divide_with_ceiling_bounds assms(1) by auto
  then have "k * d < Suc (divide_with_ceiling n d) * d" "divide_with_ceiling n d * d < Suc k * d"
    using assms by auto
  then show ?thesis by (simp only: mult_less_cancel2) linarith
qed

lemma chunk_in_range:
  assumes "0 < d" "i < n"
  shows "i div d < divide_with_ceiling n d"
proof -
  have "i < divide_with_ceiling n d * d"
    using divide_with_ceiling_bounds(1)[OF assms(1), of n] assms(2) by simp
  then show ?thesis by (simp add: less_mult_imp_div_less)
qed

section \<open>Versions\<close>

text \<open>\<open>std::stoul\<close>: white space, an optional sign, digits; what follows them is ignored.\<close>

definition isspace :: "char \<Rightarrow> bool" where
  "isspace c \<longleftrightarrow> c = CHR '' '' \<or> (let n = (of_char c :: nat) in 9 \<le> n \<and> n \<le> 13)"

definition digits_value :: "string \<Rightarrow> nat" where
  "digits_value ds = foldl (\<lambda>acc c. 10 * acc + (of_char c - 48)) 0 ds"

definition stoul :: "string \<Rightarrow> exn + nat" where
  "stoul s =
    (let s = dropWhile isspace s;
         neg = (s \<noteq> [] \<and> hd s = CHR ''-'');
         s = (if s \<noteq> [] \<and> (hd s = CHR ''+'' \<or> hd s = CHR ''-'') then tl s else s);
         ds = takeWhile isdigit s;
         v = digits_value ds
     in if ds = [] then Inl (runtime_error ''invalid_argument'')
        else if v \<ge> 2 ^ 64 then Inl out_of_range
        else Inr (if neg then sub64 0 v else v))"

definition to_uint32 :: "string \<Rightarrow> exn + 32 word" where
  "to_uint32 val = (case stoul val of Inl e \<Rightarrow> Inl e | Inr n \<Rightarrow> Inr (word_of_nat n))"

text \<open>The sign of \<open>memcmp\<close>: the first bytes that differ decide.\<close>

fun memcmp_sign :: "bytes \<Rightarrow> bytes \<Rightarrow> int" where
  "memcmp_sign (x # xs) (y # ys) =
    (if x < y then -1 else if y < x then 1 else memcmp_sign xs ys)"
| "memcmp_sign _ _ = 0"

fun compare_components :: "string list \<Rightarrow> string list \<Rightarrow> exn + int" where
  "compare_components (n1 # nums1) (n2 # nums2) =
    (case to_uint32 n1 of Inl e \<Rightarrow> Inl e | Inr int1 \<Rightarrow>
     (case to_uint32 n2 of Inl e \<Rightarrow> Inl e | Inr int2 \<Rightarrow>
       (let res = memcmp_sign (mem_of_word int1) (mem_of_word int2) in
        if res \<noteq> 0 then Inr res else compare_components nums1 nums2)))"
| "compare_components _ _ = Inr 0"

definition strip_suffix :: "string \<Rightarrow> string" where
  "strip_suffix version =
    (if str_contains version ''-'' then hd (split_string version (CHR ''-'') True) else version)"

definition compare_version_strings :: "string \<Rightarrow> string \<Rightarrow> exn + int" where
  "compare_version_strings version1 version2 =
    (let nums1 = split_string (strip_suffix version1) (CHR ''.'') True;
         nums2 = split_string (strip_suffix version2) (CHR ''.'') True
     in compare_components (pad_to ''0'' (length nums2) nums1) (pad_to ''0'' (length nums1) nums2))"

section \<open>Ports and retries\<close>

text \<open>
  \<open>connects\<close>, \<open>opens\<close> and \<open>binds\<close> say whether the three socket calls succeed for a port (the
  sockets are boost::asio's): a port is taken when something accepts a connection there.
\<close>

function next_port_loop ::
  "(nat \<Rightarrow> bool) \<Rightarrow> (nat \<Rightarrow> bool) \<Rightarrow> (nat \<Rightarrow> bool) \<Rightarrow> nat \<Rightarrow> nat option" where
  "next_port_loop connects opens binds check_port =
    (if check_port \<le> 65535 then
       if connects check_port then next_port_loop connects opens binds (Suc check_port)
       else if \<not> opens check_port then next_port_loop connects opens binds (Suc check_port)
       else if \<not> binds check_port then next_port_loop connects opens binds (Suc check_port)
       else Some check_port
     else None)"
  by pat_completeness auto
termination
  by (relation "measure (\<lambda>(_, _, _, p). 65536 - p)") auto

declare next_port_loop.simps [simp del]

definition get_next_available_port ::
  "(nat \<Rightarrow> bool) \<Rightarrow> (nat \<Rightarrow> bool) \<Rightarrow> (nat \<Rightarrow> bool) \<Rightarrow> nat \<Rightarrow> nat option" where
  "get_next_available_port connects opens binds first_port =
    (if first_port = 0 then None else next_port_loop connects opens binds first_port)"

text \<open>An attempt of \<open>retry_action\<close> returns a flag or throws; the loop stops at the first true
  flag, and an exception ends it with false.\<close>

fun retry_loop :: "(nat \<Rightarrow> exn + bool) \<Rightarrow> nat \<Rightarrow> nat \<Rightarrow> bool" where
  "retry_loop action idx 0 = False"
| "retry_loop action idx (Suc left) =
    (case action idx of
       Inl e \<Rightarrow> False
     | Inr True \<Rightarrow> True
     | Inr False \<Rightarrow> retry_loop action (Suc idx) left)"

definition retry_action :: "(nat \<Rightarrow> exn + bool) \<Rightarrow> nat \<Rightarrow> bool" where
  "retry_action action retry_count = retry_loop action 0 retry_count"

definition port_free ::
  "(nat \<Rightarrow> bool) \<Rightarrow> (nat \<Rightarrow> bool) \<Rightarrow> (nat \<Rightarrow> bool) \<Rightarrow> nat \<Rightarrow> bool" where
  "port_free connects opens binds q \<longleftrightarrow>
    q \<le> 65535 \<and> \<not> connects q \<and> opens q \<and> binds q"

lemma next_port_loop_step:
  "next_port_loop c op b p =
    (if port_free c op b p then Some p
     else if p \<le> 65535 then next_port_loop c op b (Suc p) else None)"
  by (subst next_port_loop.simps) (auto simp: port_free_def)

lemma next_port_loop_Some:
  "next_port_loop c op b p = Some q \<Longrightarrow>
   p \<le> q \<and> port_free c op b q \<and> (\<forall>i. p \<le> i \<longrightarrow> i < q \<longrightarrow> \<not> port_free c op b i)"
proof (induction c op b p rule: next_port_loop.induct)
  case (1 c op b p)
  show ?case
  proof (cases "port_free c op b p")
    case True
    with "1.prems" show ?thesis by (simp add: next_port_loop_step)
  next
    case False
    with "1.prems" have le: "p \<le> 65535" and rec: "next_port_loop c op b (Suc p) = Some q"
      by (subst (asm) next_port_loop_step; simp split: if_splits)+
    have "Suc p \<le> q \<and> port_free c op b q \<and> (\<forall>i. Suc p \<le> i \<longrightarrow> i < q \<longrightarrow> \<not> port_free c op b i)"
      using "1.IH" le rec False by (auto simp: port_free_def)
    with False show ?thesis by (metis Suc_leD le_eq_less_or_eq Suc_leI)
  qed
qed

lemma next_port_loop_None:
  "next_port_loop c op b p = None \<Longrightarrow> p \<le> i \<Longrightarrow> \<not> port_free c op b i"
proof (induction c op b p rule: next_port_loop.induct)
  case (1 c op b p)
  have free: "\<not> port_free c op b p"
    using "1.prems"(1) by (subst (asm) next_port_loop_step) (simp split: if_splits)
  show ?case
  proof (cases "p \<le> 65535 \<and> i \<noteq> p")
    case True
    then have "next_port_loop c op b (Suc p) = None"
      using "1.prems"(1) free by (subst (asm) next_port_loop_step) simp
    with "1.IH" True "1.prems"(2) free show ?thesis by (auto simp: port_free_def)
  next
    case False
    with free "1.prems"(2) show ?thesis by (auto simp: port_free_def)
  qed
qed

text \<open>
  \<open>get_next_available_port\<close> terminates and returns the least port from the first one on
  where nothing listens and a socket can be opened and bound, if there is one below 65536.
\<close>

theorem get_next_available_port_least:
  assumes "0 < first"
  shows "case get_next_available_port connects opens binds first of
      None \<Rightarrow> \<forall>q. first \<le> q \<longrightarrow> \<not> port_free connects opens binds q
    | Some p \<Rightarrow> first \<le> p \<and> port_free connects opens binds p \<and>
        (\<forall>q. first \<le> q \<longrightarrow> q < p \<longrightarrow> \<not> port_free connects opens binds q)"
  using assms next_port_loop_Some[of connects opens binds first]
    next_port_loop_None[of connects opens binds first]
  by (auto simp: get_next_available_port_def split: option.split)

theorem get_next_available_port_least_witness:
  "get_next_available_port (\<lambda>p. p = 10) (\<lambda>p. True) (\<lambda>p. p \<noteq> 11) 10 = Some 12 \<and>
   \<not> port_free (\<lambda>p. p = 10) (\<lambda>p. True) (\<lambda>p. p \<noteq> 11) 11"
proof -
  have r: "get_next_available_port (\<lambda>p. p = 10) (\<lambda>p. True) (\<lambda>p. p \<noteq> 11) 10 = Some 12"
    by (simp add: get_next_available_port_def next_port_loop.simps)
  with get_next_available_port_least[of 10 "\<lambda>p. p = 10" "\<lambda>p. True" "\<lambda>p. p \<noteq> 11"]
  show ?thesis by simp
qed

lemma retry_loop_true:
  "retry_loop action idx left \<Longrightarrow>
   \<exists>i. idx \<le> i \<and> i < idx + left \<and> action i = Inr True \<and>
        (\<forall>j. idx \<le> j \<longrightarrow> j < i \<longrightarrow> action j = Inr False)"
proof (induction left arbitrary: idx)
  case (Suc left)
  show ?case
  proof (cases "action idx = Inr True")
    case True
    then show ?thesis by (intro exI[of _ idx]) simp
  next
    case False
    with Suc.prems have f: "action idx = Inr False" "retry_loop action (Suc idx) left"
      by (auto split: sum.splits bool.splits)
    from Suc.IH[OF f(2)] obtain i where i: "Suc idx \<le> i" "i < Suc idx + left"
      "action i = Inr True" "\<forall>j. Suc idx \<le> j \<longrightarrow> j < i \<longrightarrow> action j = Inr False" by blast
    have "\<forall>j. idx \<le> j \<longrightarrow> j < i \<longrightarrow> action j = Inr False"
      using i(4) f(1) by (metis Suc_leI le_eq_less_or_eq)
    with i show ?thesis by (intro exI[of _ i]) simp
  qed
qed simp

lemma retry_loop_succeeds:
  assumes "action (idx + k) = Inr True" "\<forall>j < k. action (idx + j) = Inr False" "k < left"
  shows "retry_loop action idx left"
  using assms
proof (induction k arbitrary: idx left)
  case 0
  then show ?case by (cases left) auto
next
  case (Suc k)
  then obtain l where l: "left = Suc l" by (cases left) auto
  have "action idx = Inr False" using Suc.prems(2) by (metis Nat.add_0_right zero_less_Suc)
  moreover have "retry_loop action (Suc idx) l"
    using Suc.prems l by (intro Suc.IH) auto
  ultimately show ?case by (simp add: l)
qed

lemma retry_action_iff:
  "retry_action action n \<longleftrightarrow>
   (\<exists>i < n. action i = Inr True \<and> (\<forall>j < i. action j = Inr False))"
  using retry_loop_true[of action 0 n] retry_loop_succeeds[of action 0 _ n]
  by (auto simp: retry_action_def)

section \<open>Version comparison\<close>

lemmas parse_number = to_uint32_def stoul_def isspace_def isdigit_def digits_value_def Let_def

text \<open>What a component comparison should return: the order of the numbers.\<close>

definition num_sign :: "nat \<Rightarrow> nat \<Rightarrow> int" where
  "num_sign a b = (if a < b then -1 else if b < a then 1 else 0)"

lemma mem_of_u32:
  assumes "n < 2 ^ 32"
  shows "mem_of_word (word_of_nat n :: 32 word) =
    [word_of_nat (n mod 256), word_of_nat (n div 256 mod 256),
     word_of_nat (n div 256 div 256 mod 256), word_of_nat (n div 256 div 256 div 256 mod 256)]"
proof -
  have "unat (word_of_nat n :: 32 word) = n"
    using assms by (simp add: unat_of_nat take_bit_eq_mod)
  then have "mem_of_word (word_of_nat n :: 32 word) = le_image 4 n"
    by (simp add: mem_of_word_def word_bytes_def)
  moreover have "4 = Suc (Suc (Suc (Suc 0)))" by simp
  ultimately have "mem_of_word (word_of_nat n :: 32 word) = le_image (Suc (Suc (Suc (Suc 0)))) n"
    by metis
  then show ?thesis by (simp only: le_image.simps)
qed

lemma memcmp_small:
  assumes "a < 256" "b < 256"
  shows "memcmp_sign (mem_of_word (word_of_nat a :: 32 word)) (mem_of_word (word_of_nat b :: 32 word))
    = num_sign a b"
proof -
  have "(word_of_nat a :: byte) < word_of_nat b \<longleftrightarrow> a < b" if "a < 256" "b < 256" for a b
    using that by (simp add: word_less_nat_alt unat_of_nat take_bit_eq_mod)
  then show ?thesis using assms by (simp add: mem_of_u32 num_sign_def)
qed

fun order_components :: "nat list \<Rightarrow> nat list \<Rightarrow> int" where
  "order_components (a # as) (b # bs) =
    (if num_sign a b \<noteq> 0 then num_sign a b else order_components as bs)"
| "order_components _ _ = 0"

text \<open>
  The comparison of version components is the order of the numbers as long as every
  number is below 256; it compares little-endian images with \<open>memcmp\<close>, so from 256 on the low
  byte decides and 256 counts as older than 1.
\<close>

theorem compare_components_small:
  assumes "map to_uint32 nums1 = map (\<lambda>n. Inr (word_of_nat n)) ns"
    and "map to_uint32 nums2 = map (\<lambda>n. Inr (word_of_nat n)) ms"
    and "\<forall>n \<in> set (ns @ ms). n < 256"
  shows "compare_components nums1 nums2 = Inr (order_components ns ms)"
  using assms
proof (induction nums1 nums2 arbitrary: ns ms rule: compare_components.induct)
  case (1 n1 nums1 n2 nums2)
  then obtain a as b bs where eq: "ns = a # as" "ms = b # bs" by (cases ns; cases ms) auto
  have "compare_components nums1 nums2 = Inr (order_components as bs)"
    if "memcmp_sign (mem_of_word (word_of_nat a :: 32 word)) (mem_of_word (word_of_nat b :: 32 word)) = 0"
    using 1 that unfolding eq by auto
  then show ?case using 1(2-4) unfolding eq by (simp add: memcmp_small Let_def)
qed auto

theorem compare_components_small_witness:
  "compare_components [''1'', ''10''] [''1'', ''9''] = Inr 1 \<and>
   compare_version_strings ''256'' ''1'' = Inr (-1)"
proof -
  have "map to_uint32 [''1'', ''10''] = map (\<lambda>n. Inr (word_of_nat n)) [1, 10]"
    "map to_uint32 [''1'', ''9''] = map (\<lambda>n. Inr (word_of_nat n)) [1, 9]"
    by (simp_all add: parse_number)
  then have "compare_components [''1'', ''10''] [''1'', ''9''] = Inr (order_components [1, 10] [1, 9])"
    by (rule compare_components_small) simp
  moreover have "compare_version_strings ''256'' ''1'' = Inr (-1)"
    by (simp add: compare_version_strings_def strip_suffix_def str_contains_def str_find_def
        split_string_def trim_with_def left_trim_def right_trim_def pad_to_def parse_number
        mem_of_u32 [of 256, simplified] mem_of_u32 [of 1, simplified] Let_def)
  ultimately show ?thesis by (simp add: num_sign_def)
qed

end
