(* ===== verification/Remote_Types.thy ===== *)
theory Remote_Types imports Prelude begin

text \<open>
  The structures a remote mount exchanges (types/remote.hpp).  They are declared under
  \<open>#pragma pack(1)\<close>, so the memory image of a structure is the concatenation of its fields'
  images in declaration order; \<open>mem_of_\<dots>\<close> is that image on the little-endian hosts the
  program supports, \<open>\<dots>_of_mem\<close> reads it back.  \<open>to_big_\<dots>\<close> and \<open>to_native_\<dots>\<close> are the lists of
  in-place byte swaps that packet.cpp applies before \<open>encode\<close> and after \<open>decode\<close>.
\<close>

section \<open>The packed structures\<close>

record setattr_x =
  sa_valid :: "32 word"
  sa_mode :: "16 word"
  sa_uid :: "32 word"
  sa_gid :: "32 word"
  sa_size :: "64 word"
  sa_acctime :: "64 word"
  sa_modtime :: "64 word"
  sa_crtime :: "64 word"
  sa_chgtime :: "64 word"
  sa_bkuptime :: "64 word"
  sa_flags :: "32 word"

record stat =
  st_mode :: "16 word"
  st_nlink :: "16 word"
  st_uid :: "32 word"
  st_gid :: "32 word"
  st_atimespec :: "64 word"
  st_mtimespec :: "64 word"
  st_ctimespec :: "64 word"
  st_birthtimespec :: "64 word"
  st_size :: "64 word"
  st_blocks :: "64 word"
  st_blksize :: "32 word"
  st_flags :: "32 word"

record statfs =
  f_bavail :: "64 word"
  f_bfree :: "64 word"
  f_blocks :: "64 word"
  f_favail :: "64 word"
  f_ffree :: "64 word"
  f_files :: "64 word"

record statfs_x = statfs +
  f_mntfromname :: bytes

record file_info =
  FileAttributes :: "32 word"
  ReparseTag :: "32 word"
  AllocationSize :: "64 word"
  FileSize :: "64 word"
  CreationTime :: "64 word"
  LastAccessTime :: "64 word"
  LastWriteTime :: "64 word"
  ChangeTime :: "64 word"
  IndexNumber :: "64 word"
  HardLinks :: "32 word"
  EaSize :: "32 word"

section \<open>Memory images\<close>

definition mem_of_setattr_x :: "setattr_x \<Rightarrow> bytes" where
  "mem_of_setattr_x v =
    mem_of_word (sa_valid v) @
    mem_of_word (sa_mode v) @
    mem_of_word (sa_uid v) @
    mem_of_word (sa_gid v) @
    mem_of_word (sa_size v) @
    mem_of_word (sa_acctime v) @
    mem_of_word (sa_modtime v) @
    mem_of_word (sa_crtime v) @
    mem_of_word (sa_chgtime v) @
    mem_of_word (sa_bkuptime v) @
    mem_of_word (sa_flags v)"

definition setattr_x_of_mem :: "bytes \<Rightarrow> setattr_x" where
  "setattr_x_of_mem bs = \<lparr>
    sa_valid = word_of_mem (slice 0 4 bs),
    sa_mode = word_of_mem (slice 4 2 bs),
    sa_uid = word_of_mem (slice 6 4 bs),
    sa_gid = word_of_mem (slice 10 4 bs),
    sa_size = word_of_mem (slice 14 8 bs),
    sa_acctime = word_of_mem (slice 22 8 bs),
    sa_modtime = word_of_mem (slice 30 8 bs),
    sa_crtime = word_of_mem (slice 38 8 bs),
    sa_chgtime = word_of_mem (slice 46 8 bs),
    sa_bkuptime = word_of_mem (slice 54 8 bs),
    sa_flags = word_of_mem (slice 62 4 bs)\<rparr>"

definition mem_of_stat :: "stat \<Rightarrow> bytes" where
  "mem_of_stat v =
    mem_of_word (st_mode v) @
    mem_of_word (st_nlink v) @
    mem_of_word (st_uid v) @
    mem_of_word (st_gid v) @
    mem_of_word (st_atimespec v) @
    mem_of_word (st_mtimespec v) @
    mem_of_word (st_ctimespec v) @
    mem_of_word (st_birthtimespec v) @
    mem_of_word (st_size v) @
    mem_of_word (st_blocks v) @
    mem_of_word (st_blksize v) @
    mem_of_word (st_flags v)"

definition stat_of_mem :: "bytes \<Rightarrow> stat" where
  "stat_of_mem bs = \<lparr>
    st_mode = word_of_mem (slice 0 2 bs),
    st_nlink = word_of_mem (slice 2 2 bs),
    st_uid = word_of_mem (slice 4 4 bs),
    st_gid = word_of_mem (slice 8 4 bs),
    st_atimespec = word_of_mem (slice 12 8 bs),
    st_mtimespec = word_of_mem (slice 20 8 bs),
    st_ctimespec = word_of_mem (slice 28 8 bs),
    st_birthtimespec = word_of_mem (slice 36 8 bs),
    st_size = word_of_mem (slice 44 8 bs),
    st_blocks = word_of_mem (slice 52 8 bs),
    st_blksize = word_of_mem (slice 60 4 bs),
    st_flags = word_of_mem (slice 64 4 bs)\<rparr>"

definition mem_of_statfs :: "'a statfs_scheme \<Rightarrow> bytes" where
  "mem_of_statfs v =
    mem_of_word (f_bavail v) @
    mem_of_word (f_bfree v) @
    mem_of_word (f_blocks v) @
    mem_of_word (f_favail v) @
    mem_of_word (f_ffree v) @
    mem_of_word (f_files v)"

definition load_statfs :: "bytes \<Rightarrow> 'a statfs_scheme \<Rightarrow> 'a statfs_scheme" where
  "load_statfs bs v = v\<lparr>
    f_bavail := word_of_mem (slice 0 8 bs),
    f_bfree := word_of_mem (slice 8 8 bs),
    f_blocks := word_of_mem (slice 16 8 bs),
    f_favail := word_of_mem (slice 24 8 bs),
    f_ffree := word_of_mem (slice 32 8 bs),
    f_files := word_of_mem (slice 40 8 bs)\<rparr>"

definition mem_of_file_info :: "file_info \<Rightarrow> bytes" where
  "mem_of_file_info v =
    mem_of_word (FileAttributes v) @
    mem_of_word (ReparseTag v) @
    mem_of_word (AllocationSize v) @
    mem_of_word (FileSize v) @
    mem_of_word (CreationTime v) @
    mem_of_word (LastAccessTime v) @
    mem_of_word (LastWriteTime v) @
    mem_of_word (ChangeTime v) @
    mem_of_word (IndexNumber v) @
    mem_of_word (HardLinks v) @
    mem_of_word (EaSize v)"

definition file_info_of_mem :: "bytes \<Rightarrow> file_info" where
  "file_info_of_mem bs = \<lparr>
    FileAttributes = word_of_mem (slice 0 4 bs),
    ReparseTag = word_of_mem (slice 4 4 bs),
    AllocationSize = word_of_mem (slice 8 8 bs),
    FileSize = word_of_mem (slice 16 8 bs),
    CreationTime = word_of_mem (slice 24 8 bs),
    LastAccessTime = word_of_mem (slice 32 8 bs),
    LastWriteTime = word_of_mem (slice 40 8 bs),
    ChangeTime = word_of_mem (slice 48 8 bs),
    IndexNumber = word_of_mem (slice 56 8 bs),
    HardLinks = word_of_mem (slice 64 4 bs),
    EaSize = word_of_mem (slice 68 4 bs)\<rparr>"

section \<open>Byte swaps\<close>

definition to_big_setattr_x :: "setattr_x \<Rightarrow> setattr_x" where
  "to_big_setattr_x v = v\<lparr>
    sa_acctime := bswap (sa_acctime v),
    sa_bkuptime := bswap (sa_bkuptime v),
    sa_chgtime := bswap (sa_chgtime v),
    sa_crtime := bswap (sa_crtime v),
    sa_flags := bswap (sa_flags v),
    sa_gid := bswap (sa_gid v),
    sa_mode := bswap (sa_mode v),
    sa_modtime := bswap (sa_modtime v),
    sa_size := bswap (sa_size v),
    sa_uid := bswap (sa_uid v),
    sa_valid := bswap (sa_valid v)\<rparr>"

definition to_native_setattr_x :: "setattr_x \<Rightarrow> setattr_x" where
  "to_native_setattr_x v = v\<lparr>
    sa_acctime := bswap (sa_acctime v),
    sa_bkuptime := bswap (sa_bkuptime v),
    sa_chgtime := bswap (sa_chgtime v),
    sa_crtime := bswap (sa_crtime v),
    sa_flags := bswap (sa_flags v),
    sa_gid := bswap (sa_gid v),
    sa_mode := bswap (sa_mode v),
    sa_modtime := bswap (sa_modtime v),
    sa_size := bswap (sa_size v),
    sa_uid := bswap (sa_uid v),
    sa_valid := bswap (sa_valid v)\<rparr>"

definition to_big_stat :: "stat \<Rightarrow> stat" where
  "to_big_stat v = v\<lparr>
    st_mode := bswap (st_mode v),
    st_nlink := bswap (st_nlink v),
    st_uid := bswap (st_uid v),
    st_gid := bswap (st_gid v),
    st_atimespec := bswap (st_atimespec v),
    st_mtimespec := bswap (st_mtimespec v),
    st_ctimespec := bswap (st_ctimespec v),
    st_birthtimespec := bswap (st_birthtimespec v),
    st_size := bswap (st_size v),
    st_blocks := bswap (st_blocks v),
    st_blksize := bswap (st_blksize v),
    st_flags := bswap (st_flags v)\<rparr>"

definition to_native_stat :: "stat \<Rightarrow> stat" where
  "to_native_stat v = v\<lparr>
    st_mode := bswap (st_mode v),
    st_nlink := bswap (st_nlink v),
    st_uid := bswap (st_uid v),
    st_gid := bswap (st_gid v),
    st_atimespec := bswap (st_atimespec v),
    st_mtimespec := bswap (st_mtimespec v),
    st_ctimespec := bswap (st_ctimespec v),
    st_birthtimespec := bswap (st_birthtimespec v),
    st_size := bswap (st_size v),
    st_blocks := bswap (st_blocks v),
    st_blksize := bswap (st_blksize v),
    st_flags := bswap (st_flags v)\<rparr>"

definition to_big_statfs :: "'a statfs_scheme \<Rightarrow> 'a statfs_scheme" where
  "to_big_statfs v = v\<lparr>
    f_bavail := bswap (f_bavail v),
    f_bfree := bswap (f_bfree v),
    f_blocks := bswap (f_blocks v),
    f_favail := bswap (f_favail v),
    f_ffree := bswap (f_ffree v),
    f_files := bswap (f_files v)\<rparr>"

definition to_native_statfs :: "'a statfs_scheme \<Rightarrow> 'a statfs_scheme" where
  "to_native_statfs v = v\<lparr>
    f_bavail := bswap (f_bavail v),
    f_bfree := bswap (f_bfree v),
    f_blocks := bswap (f_blocks v),
    f_favail := bswap (f_favail v),
    f_ffree := bswap (f_ffree v),
    f_files := bswap (f_files v)\<rparr>"

definition to_big_file_info :: "file_info \<Rightarrow> file_info" where
  "to_big_file_info v = v\<lparr>
    FileAttributes := bswap (FileAttributes v),
    ReparseTag := bswap (ReparseTag v),
    AllocationSize := bswap (AllocationSize v),
    FileSize := bswap (FileSize v),
    CreationTime := bswap (CreationTime v),
    LastAccessTime := bswap (LastAccessTime v),
    LastWriteTime := bswap (LastWriteTime v),
    ChangeTime := bswap (ChangeTime v),
    IndexNumber := bswap (IndexNumber v),
    HardLinks := bswap (HardLinks v),
    EaSize := bswap (EaSize v)\<rparr>"

definition to_native_file_info :: "file_info \<Rightarrow> file_info" where
  "to_native_file_info v = v\<lparr>
    AllocationSize := bswap (AllocationSize v),
    ChangeTime := bswap (ChangeTime v),
    CreationTime := bswap (CreationTime v),
    EaSize := bswap (EaSize v),
    FileAttributes := bswap (FileAttributes v),
    FileSize := bswap (FileSize v),
    HardLinks := bswap (HardLinks v),
    IndexNumber := bswap (IndexNumber v),
    LastAccessTime := bswap (LastAccessTime v),
    LastWriteTime := bswap (LastWriteTime v),
    ReparseTag := bswap (ReparseTag v)\<rparr>"

section \<open>Laws\<close>

lemma slice_append_left [slices]: "off + n \<le> length xs \<Longrightarrow> slice off n (xs @ ys) = slice off n xs"
  by (simp add: slice_def)

lemma slice_append_right [slices]:
  "length xs \<le> off \<Longrightarrow> slice off n (xs @ ys) = slice (off - length xs) n ys"
  by (simp add: slice_def)

lemma slice_whole [slices]: "n = length xs \<Longrightarrow> slice 0 n xs = xs"
  by (simp add: slice_def)

lemmas word_image = word_of_mem_of_word mem_of_word_of_mem bswap_bswap

lemma length_mem_of_setattr_x [simp]: "length (mem_of_setattr_x v) = 66"
  by (simp add: mem_of_setattr_x_def)

lemma setattr_x_of_mem_of_setattr_x [simp]: "setattr_x_of_mem (mem_of_setattr_x v) = v"
  by (simp add: setattr_x_of_mem_def mem_of_setattr_x_def slices word_image)

lemma to_native_to_big_setattr_x [simp]: "to_native_setattr_x (to_big_setattr_x v) = v"
  by (simp add: to_native_setattr_x_def to_big_setattr_x_def bswap_bswap)

lemma length_mem_of_stat [simp]: "length (mem_of_stat v) = 68"
  by (simp add: mem_of_stat_def)

lemma stat_of_mem_of_stat [simp]: "stat_of_mem (mem_of_stat v) = v"
  by (simp add: stat_of_mem_def mem_of_stat_def slices word_image)

lemma to_native_to_big_stat [simp]: "to_native_stat (to_big_stat v) = v"
  by (simp add: to_native_stat_def to_big_stat_def bswap_bswap)

lemma length_mem_of_statfs [simp]: "length (mem_of_statfs v) = 48"
  by (simp add: mem_of_statfs_def)

lemma load_statfs_mem [simp]:
  "load_statfs (mem_of_statfs (v :: 'a statfs_scheme)) (w :: 'a statfs_scheme) =
   statfs.extend (statfs.truncate v) (statfs.more w)"
  by (simp add: load_statfs_def mem_of_statfs_def slices word_image
      statfs.extend_def statfs.truncate_def)

lemma to_native_to_big_statfs [simp]: "to_native_statfs (to_big_statfs v) = v"
  by (simp add: to_native_statfs_def to_big_statfs_def bswap_bswap)

lemma length_mem_of_file_info [simp]: "length (mem_of_file_info v) = 72"
  by (simp add: mem_of_file_info_def)

lemma file_info_of_mem_of_file_info [simp]: "file_info_of_mem (mem_of_file_info v) = v"
  by (simp add: file_info_of_mem_def mem_of_file_info_def slices word_image)

lemma to_native_to_big_file_info [simp]: "to_native_file_info (to_big_file_info v) = v"
  by (simp add: to_native_file_info_def to_big_file_info_def bswap_bswap)

end
