(* ===== verification/Packet.thy ===== *)
theory Packet imports Utils_Common Remote_Types begin

text \<open>
  The wire format of remote mounts: class \<open>packet\<close> (comm/packet/packet.hpp, packet.cpp).
  A packet is a byte buffer with a read position.  \<open>encode\<close> appends, \<open>encode_top\<close> prepends,
  \<open>decode\<close> reads at the position and advances it.  A decode function takes the value its
  reference argument holds before the call and returns the error code, the value the
  argument holds afterwards, and the packet.

  The locale \<open>packet_codec\<close> is the contract of one encode/encode_top/decode triple; it is
  interpreted for the integer overloads and for the five structures.  Its client lemmas are
  the round trip in the middle of other traffic, reading two fields in the order they
  were written, and the failure on truncated input.  The encryption of a packet
  (src/support/include/utils/encryption.hpp) is modelled down to libsodium's cipher, a parameter.
\<close>

section \<open>State and raw operations\<close>

record packet =
  buffer :: bytes
  decode_offset :: nat

definition packet_init :: packet where
  "packet_init = \<lparr>buffer = [], decode_offset = 0\<rparr>"

definition packet_of :: "bytes \<Rightarrow> packet" where
  "packet_of bs = \<lparr>buffer = bs, decode_offset = 0\<rparr>"

definition clear :: "packet \<Rightarrow> packet" where
  "clear p = p\<lparr>buffer := [], decode_offset := 0\<rparr>"

text \<open>\<open>current_pointer\<close>: the bytes from the read position on, None for \<open>nullptr\<close>.\<close>

definition current_pointer :: "packet \<Rightarrow> bytes option" where
  "current_pointer p =
    (if decode_offset p < length (buffer p)
     then Some (drop (decode_offset p) (buffer p)) else None)"

text \<open>\<open>get_size\<close> is the size truncated to 32 bits.\<close>

definition get_size :: "packet \<Rightarrow> 32 word" where
  "get_size p = word_of_nat (length (buffer p))"

definition decode_raw :: "packet \<Rightarrow> bytes \<Rightarrow> nat \<Rightarrow> int \<times> bytes \<times> packet" where
  "decode_raw p dest sz =
    (if sz \<noteq> 0 then
       let read_size = calculate_read_size (length (buffer p)) sz (decode_offset p) in
       if read_size = sz then
         (from_api_error 0 success,
          slice (decode_offset p) sz (buffer p) @ drop sz dest,
          p\<lparr>decode_offset := add64 (decode_offset p) sz\<rparr>)
       else
         (if add64 (decode_offset p) sz > length (buffer p)
          then from_api_error 0 buffer_overflow
          else from_api_error 0 buffer_too_small, dest, p)
     else (from_api_error 0 success, dest, p))"

text \<open>A string ends at the first NUL; \<open>buffer_.at\<close> throws at the end of the buffer.\<close>

definition decode_string :: "packet \<Rightarrow> exn + (int \<times> bytes \<times> packet)" where
  "decode_string p =
    (if length (buffer p) \<le> decode_offset p then Inl out_of_range
     else let data = takeWhile (\<lambda>b. b \<noteq> 0) (drop (decode_offset p) (buffer p)) in
       Inr (from_api_error 0 success, data,
            p\<lparr>decode_offset := add64 (decode_offset p) (length data + 1)\<rparr>))"

text \<open>\<open>from_utf8\<close> and \<open>to_utf8\<close> rest on ICU; \<open>from_utf8\<close> is None where it throws.\<close>

definition decode_wstring ::
  "(bytes \<Rightarrow> 'w list option) \<Rightarrow> packet \<Rightarrow> exn + (int \<times> 'w list \<times> packet)" where
  "decode_wstring from_utf8 p =
    (case decode_string p of
       Inl e \<Rightarrow> Inl e
     | Inr (ret, utf8_string, p') \<Rightarrow>
         if ret = 0 then
           (case from_utf8 utf8_string of
              None \<Rightarrow> Inl (runtime_error ''from_utf8: invalid UTF-8 sequence'')
            | Some data \<Rightarrow> Inr (from_api_error 0 success, data, p'))
         else Inr (from_api_error 0 success, [], p'))"

definition decode_json ::
  "(bytes \<Rightarrow> 'json option) \<Rightarrow> packet \<Rightarrow> 'json \<Rightarrow> exn + (int \<times> 'json \<times> packet)" where
  "decode_json parse response json_data =
    (case decode_string response of
       Inl e \<Rightarrow> Inl e
     | Inr (ret, data, p') \<Rightarrow>
         if ret = 0 then
           (case parse data of
              Some j \<Rightarrow> Inr (ret, j, p')
            | None \<Rightarrow> Inr (- EIO, json_data, p'))
         else Inr (ret, json_data, p'))"

definition encode_raw :: "bytes \<Rightarrow> packet \<Rightarrow> packet" where
  "encode_raw bs p = (if length bs \<noteq> 0 then p\<lparr>buffer := buffer p @ bs\<rparr> else p)"

definition encode_string :: "bytes \<Rightarrow> packet \<Rightarrow> packet" where
  "encode_string str p =
    (let p = encode_raw str p in p\<lparr>buffer := buffer p @ [0]\<rparr>)"

definition encode_wstring :: "('w list \<Rightarrow> bytes) \<Rightarrow> 'w list \<Rightarrow> packet \<Rightarrow> packet" where
  "encode_wstring to_utf8 str = encode_string (to_utf8 str)"

definition encode_top_raw :: "bytes \<Rightarrow> packet \<Rightarrow> packet" where
  "encode_top_raw bs p = (if length bs \<noteq> 0 then p\<lparr>buffer := bs @ buffer p\<rparr> else p)"

text \<open>
  The terminator of \<open>encode_top(std::string_view)\<close> goes to \<open>begin() + (std::int32_t)len\<close>,
  which is the end of the inserted text while the length fits 31 bits (beyond, the
  iterator is invalid and the call undefined).
\<close>

definition insert_at :: "nat \<Rightarrow> byte \<Rightarrow> bytes \<Rightarrow> bytes" where
  "insert_at i b bs = take i bs @ b # drop i bs"

definition encode_top_string :: "bytes \<Rightarrow> packet \<Rightarrow> packet" where
  "encode_top_string str p =
    (let p = encode_top_raw str p in
     p\<lparr>buffer := insert_at (nat (sint (word_of_nat (length str) :: 32 word))) 0 (buffer p)\<rparr>)"

definition encode_top_wstring :: "('w list \<Rightarrow> bytes) \<Rightarrow> 'w list \<Rightarrow> packet \<Rightarrow> packet" where
  "encode_top_wstring to_utf8 str = encode_top_string (to_utf8 str)"

section \<open>Integers\<close>

text \<open>The eight integer overloads share one body; a signed integer is its two's complement word.\<close>

definition decode_int :: "packet \<Rightarrow> 'a::len word \<Rightarrow> int \<times> 'a word \<times> packet" where
  "decode_int p val =
    (case decode_raw p (mem_of_word val) (word_bytes val) of (ret, m, p') \<Rightarrow>
       if ret = 0 then (ret, bswap (word_of_mem m), p') else (ret, val, p'))"

definition encode_int :: "'a::len word \<Rightarrow> packet \<Rightarrow> packet" where
  "encode_int val p = encode_raw (mem_of_word (bswap val)) p"

definition encode_top_int :: "'a::len word \<Rightarrow> packet \<Rightarrow> packet" where
  "encode_top_int val p = encode_top_raw (mem_of_word (bswap val)) p"

definition decode_i8 :: "packet \<Rightarrow> 8 word \<Rightarrow> int \<times> 8 word \<times> packet" where
  "decode_i8 = decode_int"

definition decode_u8 :: "packet \<Rightarrow> 8 word \<Rightarrow> int \<times> 8 word \<times> packet" where
  "decode_u8 = decode_int"

definition decode_i16 :: "packet \<Rightarrow> 16 word \<Rightarrow> int \<times> 16 word \<times> packet" where
  "decode_i16 = decode_int"

definition decode_u16 :: "packet \<Rightarrow> 16 word \<Rightarrow> int \<times> 16 word \<times> packet" where
  "decode_u16 = decode_int"

definition decode_i32 :: "packet \<Rightarrow> 32 word \<Rightarrow> int \<times> 32 word \<times> packet" where
  "decode_i32 = decode_int"

definition decode_u32 :: "packet \<Rightarrow> 32 word \<Rightarrow> int \<times> 32 word \<times> packet" where
  "decode_u32 = decode_int"

definition decode_i64 :: "packet \<Rightarrow> 64 word \<Rightarrow> int \<times> 64 word \<times> packet" where
  "decode_i64 = decode_int"

definition decode_u64 :: "packet \<Rightarrow> 64 word \<Rightarrow> int \<times> 64 word \<times> packet" where
  "decode_u64 = decode_int"

definition encode_i8 :: "8 word \<Rightarrow> packet \<Rightarrow> packet" where
  "encode_i8 = encode_int"

definition encode_u8 :: "8 word \<Rightarrow> packet \<Rightarrow> packet" where
  "encode_u8 = encode_int"

definition encode_i16 :: "16 word \<Rightarrow> packet \<Rightarrow> packet" where
  "encode_i16 = encode_int"

definition encode_u16 :: "16 word \<Rightarrow> packet \<Rightarrow> packet" where
  "encode_u16 = encode_int"

definition encode_i32 :: "32 word \<Rightarrow> packet \<Rightarrow> packet" where
  "encode_i32 = encode_int"

definition encode_u32 :: "32 word \<Rightarrow> packet \<Rightarrow> packet" where
  "encode_u32 = encode_int"

definition encode_i64 :: "64 word \<Rightarrow> packet \<Rightarrow> packet" where
  "encode_i64 = encode_int"

definition encode_u64 :: "64 word \<Rightarrow> packet \<Rightarrow> packet" where
  "encode_u64 = encode_int"

definition encode_top_i8 :: "8 word \<Rightarrow> packet \<Rightarrow> packet" where
  "encode_top_i8 = encode_top_int"

definition encode_top_u8 :: "8 word \<Rightarrow> packet \<Rightarrow> packet" where
  "encode_top_u8 = encode_top_int"

definition encode_top_i16 :: "16 word \<Rightarrow> packet \<Rightarrow> packet" where
  "encode_top_i16 = encode_top_int"

definition encode_top_u16 :: "16 word \<Rightarrow> packet \<Rightarrow> packet" where
  "encode_top_u16 = encode_top_int"

definition encode_top_i32 :: "32 word \<Rightarrow> packet \<Rightarrow> packet" where
  "encode_top_i32 = encode_top_int"

definition encode_top_u32 :: "32 word \<Rightarrow> packet \<Rightarrow> packet" where
  "encode_top_u32 = encode_top_int"

definition encode_top_i64 :: "64 word \<Rightarrow> packet \<Rightarrow> packet" where
  "encode_top_i64 = encode_top_int"

definition encode_top_u64 :: "64 word \<Rightarrow> packet \<Rightarrow> packet" where
  "encode_top_u64 = encode_top_int"

text \<open>Pointers travel as 64-bit and open flags as 32-bit integers.\<close>

definition decode_ptr :: "packet \<Rightarrow> 64 word \<Rightarrow> int \<times> 64 word \<times> packet" where
  "decode_ptr = decode_u64"

definition decode_open_flags :: "packet \<Rightarrow> 32 word \<Rightarrow> int \<times> 32 word \<times> packet" where
  "decode_open_flags = decode_u32"

definition encode_ptr :: "64 word \<Rightarrow> packet \<Rightarrow> packet" where
  "encode_ptr = encode_u64"

definition encode_open_flags :: "32 word \<Rightarrow> packet \<Rightarrow> packet" where
  "encode_open_flags = encode_u32"

definition encode_top_ptr :: "64 word \<Rightarrow> packet \<Rightarrow> packet" where
  "encode_top_ptr = encode_top_u64"

definition encode_top_open_flags :: "32 word \<Rightarrow> packet \<Rightarrow> packet" where
  "encode_top_open_flags = encode_top_u32"

section \<open>Structures\<close>

definition decode_setattr_x :: "packet \<Rightarrow> setattr_x \<Rightarrow> int \<times> setattr_x \<times> packet" where
  "decode_setattr_x p val =
    (case decode_raw p (mem_of_setattr_x val) (length (mem_of_setattr_x val)) of (ret, m, p') \<Rightarrow>
       if ret = 0 then (ret, to_native_setattr_x (setattr_x_of_mem m), p') else (ret, val, p'))"

definition encode_setattr_x :: "setattr_x \<Rightarrow> packet \<Rightarrow> packet" where
  "encode_setattr_x val p = encode_raw (mem_of_setattr_x (to_big_setattr_x val)) p"

definition encode_top_setattr_x :: "setattr_x \<Rightarrow> packet \<Rightarrow> packet" where
  "encode_top_setattr_x val p = encode_top_raw (mem_of_setattr_x (to_big_setattr_x val)) p"

definition decode_stat :: "packet \<Rightarrow> stat \<Rightarrow> int \<times> stat \<times> packet" where
  "decode_stat p val =
    (case decode_raw p (mem_of_stat val) (length (mem_of_stat val)) of (ret, m, p') \<Rightarrow>
       if ret = 0 then (ret, to_native_stat (stat_of_mem m), p') else (ret, val, p'))"

definition encode_stat :: "stat \<Rightarrow> packet \<Rightarrow> packet" where
  "encode_stat val p = encode_raw (mem_of_stat (to_big_stat val)) p"

definition encode_top_stat :: "stat \<Rightarrow> packet \<Rightarrow> packet" where
  "encode_top_stat val p = encode_top_raw (mem_of_stat (to_big_stat val)) p"

definition decode_file_info :: "packet \<Rightarrow> file_info \<Rightarrow> int \<times> file_info \<times> packet" where
  "decode_file_info p val =
    (case decode_raw p (mem_of_file_info val) (length (mem_of_file_info val)) of (ret, m, p') \<Rightarrow>
       if ret = 0 then (ret, to_native_file_info (file_info_of_mem m), p') else (ret, val, p'))"

definition encode_file_info :: "file_info \<Rightarrow> packet \<Rightarrow> packet" where
  "encode_file_info val p = encode_raw (mem_of_file_info (to_big_file_info val)) p"

definition encode_top_file_info :: "file_info \<Rightarrow> packet \<Rightarrow> packet" where
  "encode_top_file_info val p = encode_top_raw (mem_of_file_info (to_big_file_info val)) p"

definition decode_statfs ::
  "packet \<Rightarrow> 'a statfs_scheme \<Rightarrow> int \<times> 'a statfs_scheme \<times> packet" where
  "decode_statfs p val =
    (case decode_raw p (mem_of_statfs val) (length (mem_of_statfs val)) of (ret, m, p') \<Rightarrow>
       if ret = 0 then (ret, to_native_statfs (load_statfs m val), p') else (ret, val, p'))"

definition encode_statfs :: "'a statfs_scheme \<Rightarrow> packet \<Rightarrow> packet" where
  "encode_statfs val p = encode_raw (mem_of_statfs (to_big_statfs val)) p"

definition encode_top_statfs :: "'a statfs_scheme \<Rightarrow> packet \<Rightarrow> packet" where
  "encode_top_statfs val p = encode_top_raw (mem_of_statfs (to_big_statfs val)) p"

definition decode_statfs_x :: "packet \<Rightarrow> statfs_x \<Rightarrow> int \<times> statfs_x \<times> packet" where
  "decode_statfs_x p val =
    (case decode_statfs p val of (ret, val', p') \<Rightarrow>
       if ret = 0 then
         (case decode_raw p' (f_mntfromname val') (length (f_mntfromname val')) of (ret, m, p'') \<Rightarrow>
            (ret, val'\<lparr>f_mntfromname := m\<rparr>, p''))
       else (ret, val', p'))"

definition encode_statfs_x :: "statfs_x \<Rightarrow> packet \<Rightarrow> packet" where
  "encode_statfs_x val p = encode_raw (f_mntfromname val) (encode_statfs val p)"

definition encode_top_statfs_x :: "statfs_x \<Rightarrow> packet \<Rightarrow> packet" where
  "encode_top_statfs_x val p = encode_top_statfs val (encode_top_raw (f_mntfromname val) p)"

section \<open>Encryption and assignment\<close>

text \<open>
  \<open>utils::encryption::encrypt_data\<close> and \<open>decrypt_data\<close> (src/support/include/utils/encryption.hpp): the nonce, the
  authentication tag and the encrypted bytes, one behind the other, with the total size in network byte order
  as the additional data.  The cipher itself is libsodium's XChaCha20-Poly1305 and a parameter: a detached
  encryption to the bytes and the tag, None where it fails.
\<close>

record 'k aead =
  encrypt_detached :: "bytes \<Rightarrow> 'k \<Rightarrow> bytes \<Rightarrow> bytes \<Rightarrow> (bytes \<times> bytes) option"
    \<comment> \<open>nonce, key, additional data, plain text\<close>
  decrypt_detached :: "bytes \<Rightarrow> 'k \<Rightarrow> bytes \<Rightarrow> bytes \<Rightarrow> bytes \<Rightarrow> bytes option"
    \<comment> \<open>nonce, key, additional data, tag, cipher text\<close>

definition npub_bytes :: nat where
  "npub_bytes = 24"

definition tag_bytes :: nat where
  "tag_bytes = 16"

definition encryption_header_size :: nat where
  "encryption_header_size = npub_bytes + tag_bytes"

definition size_data :: "nat \<Rightarrow> bytes" where
  "size_data n = mem_of_word (bswap (word_of_nat n :: 32 word))"

definition encrypt_data :: "'k aead \<Rightarrow> bytes \<Rightarrow> 'k \<Rightarrow> bytes \<Rightarrow> bytes option" where
  "encrypt_data A iv key buf =
    (case encrypt_detached A iv key (size_data (length buf + encryption_header_size)) buf of
       None \<Rightarrow> None
     | Some (ct, mac) \<Rightarrow> Some (iv @ mac @ ct))"

definition decrypt_data :: "'k aead \<Rightarrow> 'k \<Rightarrow> bytes \<Rightarrow> bytes option" where
  "decrypt_data A key buf =
    (if length buf > encryption_header_size then
       decrypt_detached A (take npub_bytes buf) key (size_data (length buf))
         (slice npub_bytes tag_bytes buf) (drop encryption_header_size buf)
     else None)"

text \<open>
  The key is the hash of the token (\<open>generate_key\<close>), the nonce \<open>iv\<close> is random.  A failed decryption is an error;
  a failed encryption is only reported: the packet keeps its plain text.
\<close>

definition decrypt :: "'k aead \<Rightarrow> ('tok \<Rightarrow> 'k) \<Rightarrow> 'tok \<Rightarrow> packet \<Rightarrow> int \<times> packet" where
  "decrypt A generate_key token p =
    (case decrypt_data A (generate_key token) (drop (decode_offset p) (buffer p)) of
       None \<Rightarrow> (from_api_error 0 error, p)
     | Some result \<Rightarrow>
         (from_api_error 0 success, p\<lparr>buffer := result, decode_offset := 0\<rparr>))"

definition encrypt :: "'k aead \<Rightarrow> ('tok \<Rightarrow> 'k) \<Rightarrow> bytes \<Rightarrow> 'tok \<Rightarrow> bool \<Rightarrow> packet \<Rightarrow> packet" where
  "encrypt A generate_key iv token include_size p =
    (case encrypt_data A iv (generate_key token) (buffer p) of
       None \<Rightarrow> p
     | Some result \<Rightarrow>
         let p = p\<lparr>buffer := result\<rparr> in
         if include_size then encode_top_u32 (word_of_nat (length (buffer p))) p else p)"

definition to_buffer :: "packet \<Rightarrow> bytes \<times> packet" where
  "to_buffer p = (buffer p, p\<lparr>buffer := [], decode_offset := 0\<rparr>)"

definition assign_buffer :: "bytes \<Rightarrow> packet \<Rightarrow> packet" where
  "assign_buffer bs p = p\<lparr>buffer := bs, decode_offset := 0\<rparr>"

definition assign_packet :: "packet \<Rightarrow> packet \<Rightarrow> packet" where
  "assign_packet pkt p = p\<lparr>buffer := buffer pkt, decode_offset := decode_offset pkt\<rparr>"

section \<open>Laws of the raw operations\<close>

lemma decode_raw_ok:
  assumes "decode_offset p + sz \<le> length (buffer p)" "length (buffer p) < 2 ^ 64"
    and "length dest = sz"
  shows "decode_raw p dest sz =
    (0, slice (decode_offset p) sz (buffer p),
     p\<lparr>decode_offset := decode_offset p + sz\<rparr>)"
  using assms by (cases "sz = 0") (auto simp: decode_raw_def calculate_read_size_exact arith64 Let_def)

lemma decode_raw_short:
  assumes "length (buffer p) < decode_offset p + sz" "decode_offset p + sz < 2 ^ 64"
    and "decode_offset p \<le> length (buffer p)"
  shows "decode_raw p dest sz = (- EIO, dest, p)"
  using assms by (auto simp: decode_raw_def calculate_read_size_exact arith64 Let_def)

lemma encode_raw_buffer [simp]: "buffer (encode_raw bs p) = buffer p @ bs"
  and encode_raw_offset [simp]: "decode_offset (encode_raw bs p) = decode_offset p"
  by (simp_all add: encode_raw_def)

lemma encode_top_raw_buffer [simp]: "buffer (encode_top_raw bs p) = bs @ buffer p"
  and encode_top_raw_offset [simp]: "decode_offset (encode_top_raw bs p) = decode_offset p"
  by (simp_all add: encode_top_raw_def)

section \<open>The codec contract\<close>

text \<open>
  What it means that a value \<open>v\<close> gets through a packet \<open>p\<close> of which everything has been read: it is read back, whatever
  the argument \<open>d\<close> of the decoder held, and with it the rest of the packet; and of a packet that is cut off anywhere
  inside the value nothing is read back, the decoder reports an error.
\<close>

definition carried ::
  "('v \<Rightarrow> packet \<Rightarrow> packet) \<Rightarrow> (packet \<Rightarrow> 'v \<Rightarrow> int \<times> 'v \<times> packet) \<Rightarrow> 'v \<Rightarrow> 'v \<Rightarrow> packet \<Rightarrow> bool" where
  "carried enc dec v d p \<longleftrightarrow>
    (let q = enc v p in
     dec q d = (0, v, q\<lparr>decode_offset := length (buffer q)\<rparr>) \<and>
     (\<forall>k. length (buffer p) \<le> k \<and> k < length (buffer q) \<longrightarrow> fst (dec (q\<lparr>buffer := take k (buffer q)\<rparr>) d) \<noteq> 0))"

text \<open>
  \<open>img v\<close> is the wire image of a value, \<open>width\<close> its length; \<open>wf\<close> the values the codec
  carries.  Decoding reads exactly the image and gives the value back whatever the
  reference argument held; on a truncated buffer it fails.
\<close>

locale packet_codec =
  fixes enc :: "'v \<Rightarrow> packet \<Rightarrow> packet"
    and enc_top :: "'v \<Rightarrow> packet \<Rightarrow> packet"
    and dec :: "packet \<Rightarrow> 'v \<Rightarrow> int \<times> 'v \<times> packet"
    and img :: "'v \<Rightarrow> bytes"
    and width :: nat
    and wf :: "'v \<Rightarrow> bool"
  assumes enc_buffer: "buffer (enc v p) = buffer p @ img v"
    and enc_offset: "decode_offset (enc v p) = decode_offset p"
    and enc_top_buffer: "buffer (enc_top v p) = img v @ buffer p"
    and enc_top_offset: "decode_offset (enc_top v p) = decode_offset p"
    and width_img: "wf v \<Longrightarrow> length (img v) = width"
    and dec_img: "wf v \<Longrightarrow> wf d \<Longrightarrow> decode_offset p + width \<le> length (buffer p) \<Longrightarrow>
      length (buffer p) < 2 ^ 64 \<Longrightarrow> slice (decode_offset p) width (buffer p) = img v \<Longrightarrow>
      dec p d = (0, v, p\<lparr>decode_offset := decode_offset p + width\<rparr>)"
    and dec_short: "wf d \<Longrightarrow> decode_offset p \<le> length (buffer p) \<Longrightarrow>
      length (buffer p) < decode_offset p + width \<Longrightarrow> decode_offset p + width < 2 ^ 64 \<Longrightarrow>
      fst (dec p d) \<noteq> 0"
begin

lemma dec_at:
  assumes "wf v" "wf d" "buffer p = pre @ img v @ post" "decode_offset p = length pre"
    and "length (buffer p) < 2 ^ 64"
  shows "dec p d = (0, v, p\<lparr>decode_offset := length pre + width\<rparr>)"
  using assms dec_img[of v d p] by (simp add: width_img slice_def)

lemma round_trip:
  assumes "wf v" "wf d" "decode_offset p = length (buffer p)"
    and "length (buffer p) + width < 2 ^ 64"
  shows "dec (enc v p) d = (0, v, (enc v p)\<lparr>decode_offset := length (buffer p) + width\<rparr>)"
  using assms by (intro dec_at[where pre = "buffer p" and post = "[]"])
    (simp_all add: enc_buffer enc_offset width_img)

lemma round_trip_top:
  assumes "wf v" "wf d" "decode_offset p = 0" "length (buffer p) + width < 2 ^ 64"
  shows "dec (enc_top v p) d = (0, v, (enc_top v p)\<lparr>decode_offset := width\<rparr>)"
  using dec_at[where v = v and d = d and p = "enc_top v p" and pre = "[]" and post = "buffer p"]
    assms
  by (simp add: enc_top_buffer enc_top_offset width_img)

lemma truncated:
  assumes "wf v" "wf d" "k < width" "width < 2 ^ 64"
  shows "fst (dec (packet_of (take k (img v))) d) \<noteq> 0"
  using assms by (intro dec_short) (simp_all add: packet_of_def width_img)

lemma carries:
  assumes "wf v" "wf d" "decode_offset p = length (buffer p)" "length (buffer p) + width < 2 ^ 64"
  shows "carried enc dec v d p"
proof -
  have "fst (dec ((enc v p)\<lparr>buffer := take k (buffer (enc v p))\<rparr>) d) \<noteq> 0"
    if "length (buffer p) \<le> k" "k < length (buffer (enc v p))" for k
    using assms that by (intro dec_short) (simp_all add: enc_buffer enc_offset width_img)
  then show ?thesis
    using round_trip[OF assms] assms(1) by (simp add: carried_def Let_def enc_buffer width_img)
qed

end

text \<open>Two fields written one after the other are read back in that order.\<close>

locale codec_pair =
  a: packet_codec enc1 enc_top1 dec1 img1 width1 wf1 +
  b: packet_codec enc2 enc_top2 dec2 img2 width2 wf2
  for enc1 enc_top1 dec1 img1 width1 wf1 enc2 enc_top2 dec2 img2 width2 wf2
begin

lemma in_order:
  assumes "wf1 v" "wf2 w" "wf1 dv" "wf2 dw" "width1 + width2 < 2 ^ 64"
  shows "\<exists>p1 p2. dec1 (enc2 w (enc1 v packet_init)) dv = (0, v, p1) \<and>
    dec2 p1 dw = (0, w, p2) \<and> decode_offset p2 = length (buffer p2)"
proof -
  let ?p = "enc2 w (enc1 v packet_init)"
  let ?p1 = "?p\<lparr>decode_offset := width1\<rparr>"
  have buf: "buffer ?p = img1 v @ img2 w" and off: "decode_offset ?p = 0"
    by (simp_all add: a.enc_buffer a.enc_offset b.enc_buffer b.enc_offset packet_init_def)
  have len: "length (buffer ?p) = width1 + width2"
    using assms by (simp add: buf a.width_img b.width_img)
  have "dec1 ?p dv = (0, v, ?p1)"
    using a.dec_at[of v dv ?p "[]" "img2 w"] assms by (simp add: buf off a.width_img b.width_img)
  moreover have "dec2 ?p1 dw = (0, w, ?p1\<lparr>decode_offset := width1 + width2\<rparr>)"
    using b.dec_at[of w dw ?p1 "img1 v" "[]"] assms by (simp add: buf a.width_img b.width_img)
  ultimately show ?thesis by (auto simp: len)
qed

end

section \<open>The overloads satisfy the contract\<close>

definition int_image :: "'a::len word \<Rightarrow> bytes" where
  "int_image v = mem_of_word (bswap v)"

lemma packet_codec_int:
  assumes "8 dvd LENGTH('a::len)"
  shows "packet_codec encode_int encode_top_int decode_int
    (int_image :: 'a word \<Rightarrow> bytes) (LENGTH('a) div 8) (\<lambda>_. True)"
proof
  fix v d :: "'a word" and p
  have pos: "0 < LENGTH('a) div 8"
    using assms by (metis dvd_div_eq_0_iff len_gt_0 less_numeral_extra(3) not_gr_zero)
  show "buffer (encode_int v p) = buffer p @ int_image v"
    "decode_offset (encode_int v p) = decode_offset p"
    "buffer (encode_top_int v p) = int_image v @ buffer p"
    "decode_offset (encode_top_int v p) = decode_offset p"
    "length (int_image v) = LENGTH('a) div 8"
    by (simp_all add: encode_int_def encode_top_int_def int_image_def)
  show "decode_int p d = (0, v, p\<lparr>decode_offset := decode_offset p + LENGTH('a) div 8\<rparr>)"
    if "decode_offset p + LENGTH('a) div 8 \<le> length (buffer p)" "length (buffer p) < 2 ^ 64"
      "slice (decode_offset p) (LENGTH('a) div 8) (buffer p) = int_image v"
    using that assms
    by (simp add: decode_int_def decode_raw_ok word_bytes_def int_image_def word_image)
  show "fst (decode_int p d) \<noteq> 0"
    if "decode_offset p \<le> length (buffer p)" "length (buffer p) < decode_offset p + LENGTH('a) div 8"
      "decode_offset p + LENGTH('a) div 8 < 2 ^ 64"
    using that by (simp add: decode_int_def decode_raw_short word_bytes_def)
qed

interpretation i8: packet_codec encode_i8 encode_top_i8 decode_i8 int_image 1 "\<lambda>_. True"
  using packet_codec_int[where 'a = 8] by (simp add: encode_i8_def encode_top_i8_def decode_i8_def)

interpretation u8: packet_codec encode_u8 encode_top_u8 decode_u8 int_image 1 "\<lambda>_. True"
  using packet_codec_int[where 'a = 8] by (simp add: encode_u8_def encode_top_u8_def decode_u8_def)

interpretation i16: packet_codec encode_i16 encode_top_i16 decode_i16 int_image 2 "\<lambda>_. True"
  using packet_codec_int[where 'a = 16] by (simp add: encode_i16_def encode_top_i16_def decode_i16_def)

interpretation u16: packet_codec encode_u16 encode_top_u16 decode_u16 int_image 2 "\<lambda>_. True"
  using packet_codec_int[where 'a = 16] by (simp add: encode_u16_def encode_top_u16_def decode_u16_def)

interpretation i32: packet_codec encode_i32 encode_top_i32 decode_i32 int_image 4 "\<lambda>_. True"
  using packet_codec_int[where 'a = 32] by (simp add: encode_i32_def encode_top_i32_def decode_i32_def)

interpretation u32: packet_codec encode_u32 encode_top_u32 decode_u32 int_image 4 "\<lambda>_. True"
  using packet_codec_int[where 'a = 32] by (simp add: encode_u32_def encode_top_u32_def decode_u32_def)

interpretation i64: packet_codec encode_i64 encode_top_i64 decode_i64 int_image 8 "\<lambda>_. True"
  using packet_codec_int[where 'a = 64] by (simp add: encode_i64_def encode_top_i64_def decode_i64_def)

interpretation u64: packet_codec encode_u64 encode_top_u64 decode_u64 int_image 8 "\<lambda>_. True"
  using packet_codec_int[where 'a = 64] by (simp add: encode_u64_def encode_top_u64_def decode_u64_def)

lemma packet_codec_struct:
  assumes "\<And>v p. enc v p = encode_raw (img v) p"
    and "\<And>v p. enc_top v p = encode_top_raw (img v) p"
    and "\<And>p d. dec p d = (case decode_raw p (mem d) w of (ret, m, p') \<Rightarrow>
      if ret = 0 then (ret, load m d, p') else (ret, d, p'))"
    and "\<And>d. length (mem d) = w" "\<And>v. length (img v) = w" "\<And>v d. load (img v) d = v"
  shows "packet_codec enc enc_top dec img w (\<lambda>_. True)"
proof
  fix v d p
  show "buffer (enc v p) = buffer p @ img v" "decode_offset (enc v p) = decode_offset p"
    "buffer (enc_top v p) = img v @ buffer p" "decode_offset (enc_top v p) = decode_offset p"
    "length (img v) = w"
    by (simp_all add: assms)
  show "dec p d = (0, v, p\<lparr>decode_offset := decode_offset p + w\<rparr>)"
    if "decode_offset p + w \<le> length (buffer p)" "length (buffer p) < 2 ^ 64"
      "slice (decode_offset p) w (buffer p) = img v"
    using that by (simp add: assms decode_raw_ok)
  show "fst (dec p d) \<noteq> 0"
    if "decode_offset p \<le> length (buffer p)" "length (buffer p) < decode_offset p + w"
      "decode_offset p + w < 2 ^ 64"
    using that by (simp add: assms decode_raw_short)
qed

lemma extend_truncate_statfs [simp]: "statfs.extend (statfs.truncate v) () = v"
  by (cases v) (simp add: statfs.extend_def statfs.truncate_def)

interpretation setattr_x: packet_codec encode_setattr_x encode_top_setattr_x decode_setattr_x
  "\<lambda>v. mem_of_setattr_x (to_big_setattr_x v)" 66 "\<lambda>_. True"
  by (rule packet_codec_struct[where mem = mem_of_setattr_x and load = "\<lambda>m d. to_native_setattr_x (setattr_x_of_mem m)"])
    (simp_all add: encode_setattr_x_def encode_top_setattr_x_def decode_setattr_x_def)

interpretation stat: packet_codec encode_stat encode_top_stat decode_stat
  "\<lambda>v. mem_of_stat (to_big_stat v)" 68 "\<lambda>_. True"
  by (rule packet_codec_struct[where mem = mem_of_stat and load = "\<lambda>m d. to_native_stat (stat_of_mem m)"])
    (simp_all add: encode_stat_def encode_top_stat_def decode_stat_def)

interpretation file_info: packet_codec encode_file_info encode_top_file_info decode_file_info
  "\<lambda>v. mem_of_file_info (to_big_file_info v)" 72 "\<lambda>_. True"
  by (rule packet_codec_struct[where mem = mem_of_file_info and load = "\<lambda>m d. to_native_file_info (file_info_of_mem m)"])
    (simp_all add: encode_file_info_def encode_top_file_info_def decode_file_info_def)

text \<open>A handle followed by the file's attributes, as the open calls of the remote drives answer.\<close>

interpretation handle_info: codec_pair
  encode_ptr encode_top_ptr decode_ptr int_image 8 "\<lambda>_. True"
  encode_file_info encode_top_file_info decode_file_info
  "\<lambda>v. mem_of_file_info (to_big_file_info v)" 72 "\<lambda>_. True"
  unfolding encode_ptr_def encode_top_ptr_def decode_ptr_def
  by (intro codec_pair.intro u64.packet_codec_axioms file_info.packet_codec_axioms)

lemma handle_then_info:
  "\<exists>p1 p2. decode_ptr (encode_file_info info (encode_ptr h packet_init)) h0 = (0, h, p1) \<and>
    decode_file_info p1 info0 = (0, info, p2) \<and> decode_offset p2 = length (buffer p2)"
  by (rule handle_info.in_order) simp_all

interpretation statfs: packet_codec encode_statfs encode_top_statfs decode_statfs
  "\<lambda>v :: statfs. mem_of_statfs (to_big_statfs v)" 48 "\<lambda>_. True"
  by (rule packet_codec_struct[where mem = mem_of_statfs and
      load = "\<lambda>m d. to_native_statfs (load_statfs m d)"])
    (simp_all add: encode_statfs_def encode_top_statfs_def decode_statfs_def)

text \<open>The extended structure carries a name of exactly 1024 bytes after the \<open>statfs\<close> part.\<close>

definition statfs_x_wf :: "statfs_x \<Rightarrow> bool" where
  "statfs_x_wf v \<longleftrightarrow> length (f_mntfromname v) = 1024"

definition statfs_x_image :: "statfs_x \<Rightarrow> bytes" where
  "statfs_x_image v = mem_of_statfs (to_big_statfs v) @ f_mntfromname v"

lemma load_statfs_x:
  "(to_native_statfs (load_statfs (mem_of_statfs (to_big_statfs v)) d))
     \<lparr>f_mntfromname := f_mntfromname v\<rparr> = (v :: statfs_x)"
proof -
  have "to_native_statfs (load_statfs (mem_of_statfs (to_big_statfs v)) d)
      = v\<lparr>f_mntfromname := f_mntfromname d\<rparr>"
    by (cases v, cases d) (simp add: to_native_statfs_def to_big_statfs_def statfs.extend_def
        statfs.truncate_def bswap_bswap)
  then show ?thesis by simp
qed

interpretation statfs_x: packet_codec encode_statfs_x encode_top_statfs_x decode_statfs_x
  statfs_x_image 1072 statfs_x_wf
proof
  fix v d :: statfs_x and p
  show "buffer (encode_statfs_x v p) = buffer p @ statfs_x_image v"
    "decode_offset (encode_statfs_x v p) = decode_offset p"
    "buffer (encode_top_statfs_x v p) = statfs_x_image v @ buffer p"
    "decode_offset (encode_top_statfs_x v p) = decode_offset p"
    "statfs_x_wf v \<Longrightarrow> length (statfs_x_image v) = 1072"
    by (simp_all add: encode_statfs_x_def encode_top_statfs_x_def encode_statfs_def
        encode_top_statfs_def statfs_x_image_def statfs_x_wf_def)
  show "decode_statfs_x p d = (0, v, p\<lparr>decode_offset := decode_offset p + 1072\<rparr>)"
    if wf: "statfs_x_wf v" "statfs_x_wf d" and fit: "decode_offset p + 1072 \<le> length (buffer p)"
      "length (buffer p) < 2 ^ 64" and img: "slice (decode_offset p) 1072 (buffer p) = statfs_x_image v"
  proof -
    have "slice (decode_offset p) 48 (buffer p) = take 48 (statfs_x_image v)"
      unfolding img[symmetric] by (simp add: slice_def)
    then have a: "slice (decode_offset p) 48 (buffer p) = mem_of_statfs (to_big_statfs v)"
      by (simp add: statfs_x_image_def)
    have "slice (decode_offset p + 48) 1024 (buffer p) = drop 48 (statfs_x_image v)"
      unfolding img[symmetric] by (simp add: slice_def drop_take add.commute)
    then have b: "slice (decode_offset p + 48) 1024 (buffer p) = f_mntfromname v"
      by (simp add: statfs_x_image_def)
    have keep: "f_mntfromname (to_native_statfs (load_statfs m d)) = f_mntfromname d" for m
      by (simp add: to_native_statfs_def load_statfs_def)
    show ?thesis
      using fit wf by (simp add: decode_statfs_x_def decode_statfs_def decode_raw_ok a b keep
          statfs_x_wf_def load_statfs_x del: load_statfs_mem)
  qed
  show "fst (decode_statfs_x p d) \<noteq> 0"
    if "statfs_x_wf d" "decode_offset p \<le> length (buffer p)"
      "length (buffer p) < decode_offset p + 1072" "decode_offset p + 1072 < 2 ^ 64"
  proof (cases "length (buffer p) < decode_offset p + 48")
    case True
    then show ?thesis using that by (simp add: decode_statfs_x_def decode_statfs_def decode_raw_short)
  next
    case False
    then show ?thesis
      using that by (simp add: decode_statfs_x_def decode_statfs_def decode_raw_ok decode_raw_short
          statfs_x_wf_def to_native_statfs_def load_statfs_def)
  qed
qed

section \<open>Strings\<close>

lemma takeWhile_terminated: "0 \<notin> set s \<Longrightarrow> takeWhile (\<lambda>b. b \<noteq> 0) (s @ 0 # post) = s"
  by (induction s) auto

lemma encode_string_buffer [simp]: "buffer (encode_string s p) = buffer p @ s @ [0]"
  and encode_string_offset [simp]: "decode_offset (encode_string s p) = decode_offset p"
  by (simp_all add: encode_string_def)

lemma encode_top_string_buffer:
  "length s < 2 ^ 31 \<Longrightarrow> buffer (encode_top_string s p) = s @ 0 # buffer p"
proof -
  assume len: "length s < 2 ^ 31"
  have "sint (word_of_nat (length s) :: 32 word) = int (length s)"
    using len by (simp add: signed_of_nat signed_take_bit_int_eq_self)
  then show ?thesis by (simp add: encode_top_string_def insert_at_def)
qed

lemma decode_string_at:
  assumes "buffer p = pre @ s @ 0 # post" "decode_offset p = length pre" "0 \<notin> set s"
    and "length (buffer p) < 2 ^ 64"
  shows "decode_string p = Inr (0, s, p\<lparr>decode_offset := length pre + length s + 1\<rparr>)"
  using assms by (simp add: decode_string_def takeWhile_terminated arith64 Let_def)

section \<open>Properties\<close>

text \<open>
  C35. Every structure of the remote protocol survives the trip through a packet.  Encoded behind arbitrary
  earlier content and decoded at that position it is the same structure, with the result 0, whatever the
  target held before, and the packet is fully read; and if the packet is cut off anywhere inside the structure,
  decoding it reports an error.
\<close>

theorem remote_struct_roundtrip:
  assumes "decode_offset p = length (buffer p)" "length (buffer p) < 2 ^ 63"
    and "length (f_mntfromname v5) = 1024" "length (f_mntfromname d5) = 1024"
  shows "carried encode_setattr_x decode_setattr_x v1 d1 p \<and> carried encode_stat decode_stat v2 d2 p \<and>
    carried encode_file_info decode_file_info v3 d3 p \<and>
    carried encode_statfs decode_statfs (v4 :: statfs) d4 p \<and> carried encode_statfs_x decode_statfs_x v5 d5 p"
  using assms by (intro conjI setattr_x.carries stat.carries file_info.carries statfs.carries statfs_x.carries)
    (simp_all add: statfs_x_wf_def)

definition sample_statfs_x :: statfs_x where
  "sample_statfs_x = \<lparr>f_bavail = 1, f_bfree = 2, f_blocks = 3, f_favail = 4, f_ffree = 5,
    f_files = 6, f_mntfromname = replicate 1024 0\<rparr>"

theorem remote_struct_roundtrip_witness:
  "let q = encode_statfs_x sample_statfs_x packet_init in
   fst (snd (decode_statfs_x q sample_statfs_x)) = sample_statfs_x \<and>
   fst (decode_statfs_x (q\<lparr>buffer := take 100 (buffer q)\<rparr>) sample_statfs_x) \<noteq> 0"
proof -
  have l: "length (f_mntfromname sample_statfs_x) = 1024" by (simp add: sample_statfs_x_def del: replicate.simps)
  have c: "carried encode_statfs_x decode_statfs_x sample_statfs_x sample_statfs_x packet_init"
    using remote_struct_roundtrip[OF _ _ l l, of packet_init] by (simp add: packet_init_def)
  have "length (buffer (encode_statfs_x sample_statfs_x packet_init)) = 1072"
    using statfs_x.width_img[of sample_statfs_x] l
    by (simp add: statfs_x.enc_buffer packet_init_def statfs_x_wf_def)
  then show ?thesis using c by (simp add: carried_def Let_def packet_init_def)
qed

text \<open>
  C32.  A C string written to a packet comes back intact exactly when it holds no NUL byte,
  anywhere in the stream, and the next field starts right after its terminator; at the end
  of the buffer \<open>decode\<close> throws instead of returning an error code.
\<close>

theorem string_roundtrip:
  assumes "decode_offset p = length (buffer p)" "length (buffer p) + length s + 1 < 2 ^ 64"
  shows "((\<exists>p'. decode_string (encode_string s p) = Inr (0, s, p')) \<longleftrightarrow> 0 \<notin> set s) \<and>
    (0 \<notin> set s \<longrightarrow> decode_string (encode_string s p) =
      Inr (0, s, (encode_string s p)\<lparr>decode_offset := length (buffer p) + length s + 1\<rparr>)) \<and>
    decode_string p = Inl out_of_range"
proof -
  have good: "0 \<notin> set s \<longrightarrow> decode_string (encode_string s p) =
      Inr (0, s, (encode_string s p)\<lparr>decode_offset := length (buffer p) + length s + 1\<rparr>)"
    using decode_string_at[of "encode_string s p" "buffer p" s "[]"] assms by simp
  have "0 \<notin> set s" if "decode_string (encode_string s p) = Inr (0, s, p')" for p'
  proof -
    have "takeWhile (\<lambda>b. b \<noteq> 0) (s @ [0]) = s"
      using that assms by (simp add: decode_string_def Let_def)
    then show ?thesis by (metis set_takeWhileD)
  qed
  moreover have "decode_string p = Inl out_of_range"
    using assms by (simp add: decode_string_def)
  ultimately show ?thesis using good by blast
qed

theorem string_roundtrip_witness:
  "\<exists>p'. decode_string (encode_string [104, 105] packet_init) = Inr (0, [104, 105], p')"
  using string_roundtrip[of packet_init "[104, 105]"] by (simp add: packet_init_def)

text \<open>
  A request header read in order: the 32-bit version or flags that a sender prepends
  with \<open>encode_top\<close> comes first, then the string that follows it.
\<close>

theorem header_in_order:
  assumes "0 \<notin> set s" "length s < 2 ^ 31"
  shows "\<exists>p1 p2. decode_u32 (encode_top_u32 n (encode_top_string s packet_init)) d = (0, n, p1) \<and>
    decode_string p1 = Inr (0, s, p2) \<and> current_pointer p2 = None"
proof -
  let ?q = "encode_top_string s packet_init"
  let ?p = "encode_top_u32 n ?q"
  have q: "buffer ?q = s @ [0]" "decode_offset ?q = 0"
    using encode_top_string_buffer[OF assms(2), of packet_init]
    by (simp add: packet_init_def) (simp add: packet_init_def encode_top_string_def Let_def)
  then have buf: "buffer ?p = int_image n @ s @ [0]"
    by (simp add: u32.enc_top_buffer)
  have d1: "decode_u32 ?p d = (0, n, ?p\<lparr>decode_offset := 4\<rparr>)"
    using u32.round_trip_top[where v = n and d = d and p = ?q] q assms by simp
  have "decode_string (?p\<lparr>decode_offset := 4\<rparr>) =
      Inr (0, s, ?p\<lparr>decode_offset := 4 + length s + 1\<rparr>)"
    using decode_string_at[of "?p\<lparr>decode_offset := 4\<rparr>" "int_image n" s "[]"] buf assms
    by (simp add: u32.width_img)
  moreover have "current_pointer (?p\<lparr>decode_offset := 4 + length s + 1\<rparr>) = None"
    using buf by (simp add: current_pointer_def u32.width_img)
  ultimately show ?thesis using d1 by blast
qed

theorem header_in_order_witness:
  "\<exists>p1 p2. decode_u32 (encode_top_u32 7 (encode_top_string [111, 107] packet_init)) 0 = (0, 7, p1) \<and>
    decode_string p1 = Inr (0, [111, 107], p2) \<and> current_pointer p2 = None"
  by (rule header_in_order) simp_all

text \<open>
  What libsodium documents of the detached cipher: with a nonce and a tag of their sizes, decrypting what was
  encrypted with the same nonce, key and additional data gives the plain text, and the encrypted bytes are as many.
\<close>

definition aead_ok :: "'k aead \<Rightarrow> bool" where
  "aead_ok A \<longleftrightarrow> (\<forall>iv key ad m ct mac. length iv = npub_bytes \<longrightarrow>
    encrypt_detached A iv key ad m = Some (ct, mac) \<longrightarrow>
    length mac = tag_bytes \<and> length ct = length m \<and> decrypt_detached A iv key ad mac ct = Some m)"

lemma encrypted_data:
  assumes A: "aead_ok A" and iv: "length iv = npub_bytes" and e: "encrypt_data A iv key m = Some c"
  shows "length c = length m + encryption_header_size"
    and "decrypt_data A key c = (if m = [] then None else Some m)"
proof -
  obtain ct mac where t: "encrypt_detached A iv key (size_data (length m + encryption_header_size)) m = Some (ct, mac)"
    "c = iv @ mac @ ct"
    using e by (auto simp: encrypt_data_def split: option.splits)
  have l: "length mac = tag_bytes" "length ct = length m"
    "decrypt_detached A iv key (size_data (length m + encryption_header_size)) mac ct = Some m"
    using A iv t(1) unfolding aead_ok_def by blast+
  show n: "length c = length m + encryption_header_size"
    using t(2) iv l by (simp add: encryption_header_size_def)
  have "take npub_bytes c = iv" "slice npub_bytes tag_bytes c = mac" "drop encryption_header_size c = ct"
    using t(2) iv l by (simp_all add: slice_def encryption_header_size_def)
  then show "decrypt_data A key c = (if m = [] then None else Some m)"
    using n l by (simp add: decrypt_data_def)
qed

text \<open>
  C37. An encrypted packet that carries its size in front reaches a receiver that reads the size and decrypts
  the rest: it gets the plain text, except of an empty packet, whose encryption \<open>decrypt_data\<close> refuses because it is
  no longer than the header.  When the cipher fails the packet is left as it was, so its plain text is what gets sent.
\<close>

theorem encrypted_packet_roundtrip:
  assumes "aead_ok A" "length iv = npub_bytes" "decode_offset p = 0" "length (buffer p) + encryption_header_size < 2 ^ 32"
  shows "case encrypt_data A iv (generate_key token) (buffer p) of
      None \<Rightarrow> encrypt A generate_key iv token True p = p
    | Some c \<Rightarrow> \<exists>p1. decode_u32 (encrypt A generate_key iv token True p) d =
          (0, word_of_nat (length (buffer p) + encryption_header_size), p1) \<and>
        decrypt A generate_key token p1 =
          (if buffer p = [] then (from_api_error 0 error, p1) else (0, packet_of (buffer p)))"
proof (cases "encrypt_data A iv (generate_key token) (buffer p)")
  case None
  then show ?thesis by (simp add: encrypt_def)
next
  case (Some c)
  note c = encrypted_data[OF assms(1,2) Some]
  let ?q = "p\<lparr>buffer := c\<rparr>"
  let ?n = "word_of_nat (length c) :: 32 word"
  have e: "encrypt A generate_key iv token True p = encode_top_u32 ?n ?q"
    by (simp add: encrypt_def Some)
  have d1: "decode_u32 (encode_top_u32 ?n ?q) d = (0, ?n, (encode_top_u32 ?n ?q)\<lparr>decode_offset := 4\<rparr>)"
    using u32.round_trip_top[where v = ?n and d = d and p = ?q] assms(3,4) c(1) by simp
  have "decrypt A generate_key token ((encode_top_u32 ?n ?q)\<lparr>decode_offset := 4\<rparr>)
      = (if buffer p = [] then (from_api_error 0 error, (encode_top_u32 ?n ?q)\<lparr>decode_offset := 4\<rparr>)
         else (0, packet_of (buffer p)))"
    using c(2) by (simp add: decrypt_def u32.enc_top_buffer u32.width_img packet_of_def)
  then show ?thesis using d1 by (simp add: Some e c(1))
qed

text \<open>A toy cipher that satisfies the law.\<close>

definition toy_aead :: "byte aead" where
  "toy_aead = \<lparr>encrypt_detached = (\<lambda>iv key ad m. Some (map (\<lambda>b. b + key) m, replicate tag_bytes key)),
    decrypt_detached = (\<lambda>iv key ad mac ct. if mac = replicate tag_bytes key then Some (map (\<lambda>b. b - key) ct) else None)\<rparr>"

lemma toy_aead_ok: "aead_ok toy_aead"
  by (auto simp: aead_ok_def toy_aead_def comp_def)

theorem encrypted_packet_roundtrip_witness:
  "\<exists>p1. decode_u32 (encrypt toy_aead (\<lambda>t. t) (replicate 24 7) 9 True (packet_of [1, 2])) 0 = (0, 42, p1) \<and>
    decrypt toy_aead (\<lambda>t. t) 9 p1 = (0, packet_of [1, 2])"
proof -
  have "encrypt_data toy_aead (replicate 24 7) 9 [1, 2] = Some (replicate 24 7 @ replicate tag_bytes 9 @ [10, 11])"
    by (simp add: encrypt_data_def toy_aead_def)
  then show ?thesis
    using encrypted_packet_roundtrip[OF toy_aead_ok, of "replicate 24 7" "packet_of [1, 2]" "\<lambda>t. t" 9 0]
    by (simp add: packet_of_def npub_bytes_def encryption_header_size_def tag_bytes_def del: replicate.simps)
qed

end
