(* ===== verification/Cache_Size.thy ===== *)
theory Cache_Size imports Api_Errors begin

text \<open>
  The cache size manager (file_manager/cache_size_mgr.cpp): a counter of the bytes the local
  cache may hold, shared by all open files.  \<open>expand\<close> adds to the counter and then blocks
  while the cache is over its limit; \<open>shrink\<close> subtracts and wakes the blocked threads.

  All operations run under one mutex, so each is one step of the state.  The only place
  where the lock is given up is the wait inside \<open>expand\<close>: what the other threads do to the
  state during the k-th wait is the k-th function of the list \<open>wakes\<close>, and None says that
  the call is still waiting when the list is used up.
\<close>

datatype cache_event =
  max_cache_size_reached nat nat
| invalid_cache_size nat nat

record cache_mgr =
  has_cfg :: bool          \<comment> \<open>\<open>cfg_ != nullptr\<close>\<close>
  max_cache_size :: nat    \<comment> \<open>\<open>cfg_->get_max_cache_size_bytes()\<close>\<close>
  dir_count :: nat         \<comment> \<open>\<open>cache_dir.count()\<close>, the files in the cache directory\<close>
  cache_size :: nat
  stop_requested :: bool   \<comment> \<open>\<open>get_stop_requested()\<close>\<close>
  cache_events :: "cache_event list"

definition cache_init :: cache_mgr where
  "cache_init = \<lparr>has_cfg = False, max_cache_size = 0, dir_count = 0, cache_size = 0,
    stop_requested = False, cache_events = []\<rparr>"

text \<open>\<open>initialize\<close>: None is the startup exception (no configuration, or the directory cannot
  be created); \<open>dir_size\<close> is what \<open>cache_dir.size(false)\<close> finds.\<close>

definition initialize :: "(nat \<times> bool \<times> nat) option \<Rightarrow> cache_mgr \<Rightarrow> cache_mgr option" where
  "initialize cfg m =
    (case cfg of
       None \<Rightarrow> None
     | Some (max_size, created, dir_size) \<Rightarrow>
         if \<not> created then None
         else Some (m\<lparr>has_cfg := True, max_cache_size := max_size, stop_requested := False,
                      cache_size := dir_size\<rparr>))"

definition over_limit :: "cache_mgr \<Rightarrow> bool" where
  "over_limit m \<longleftrightarrow>
    \<not> stop_requested m \<and> cache_size m > max_cache_size m \<and> dir_count m > 1"

fun expand_wait ::
  "(cache_mgr \<Rightarrow> cache_mgr) list \<Rightarrow> nat \<Rightarrow> cache_mgr \<Rightarrow> (api_error \<times> cache_mgr) option" where
  "expand_wait wakes last_cache_size m =
    (if over_limit m then
       let m = (if last_cache_size \<noteq> cache_size m
                then m\<lparr>cache_events := cache_events m @
                       [max_cache_size_reached (cache_size m) (max_cache_size m)]\<rparr> else m)
       in (case wakes of
             [] \<Rightarrow> None
           | w # ws \<Rightarrow> expand_wait ws (cache_size m) (w m))
     else Some (if stop_requested m then error else success, m))"

definition expand ::
  "(cache_mgr \<Rightarrow> cache_mgr) list \<Rightarrow> nat \<Rightarrow> cache_mgr \<Rightarrow> (api_error \<times> cache_mgr) option" where
  "expand wakes sz m =
    (if \<not> has_cfg m then Some (cache_not_initialized, m)
     else if sz = 0 then Some (success, m)
     else expand_wait wakes (cache_size m) (m\<lparr>cache_size := add64 (cache_size m) sz\<rparr>))"

definition shrink :: "nat \<Rightarrow> cache_mgr \<Rightarrow> api_error \<times> cache_mgr" where
  "shrink sz m =
    (if sz = 0 then (success, m)
     else if cache_size m \<ge> sz then (success, m\<lparr>cache_size := sub64 (cache_size m) sz\<rparr>)
     else (success, m\<lparr>cache_events := cache_events m @ [invalid_cache_size (cache_size m) sz],
                      cache_size := 0\<rparr>))"

definition stop :: "cache_mgr \<Rightarrow> cache_mgr" where
  "stop m = (if stop_requested m then m else m\<lparr>stop_requested := True\<rparr>)"

declare expand_wait.simps [simp del]

section \<open>Laws\<close>

lemma shrink_success [simp]: "fst (shrink sz m) = success"
  by (simp add: shrink_def)

lemma shrink_size:
  "cache_size m < 2 ^ 64 \<Longrightarrow> cache_size (snd (shrink sz m)) = cache_size m - sz"
  by (simp add: shrink_def sub64_exact)

lemma shrink_frame [simp]:
  "has_cfg (snd (shrink sz m)) = has_cfg m"
  "max_cache_size (snd (shrink sz m)) = max_cache_size m"
  "dir_count (snd (shrink sz m)) = dir_count m"
  "stop_requested (snd (shrink sz m)) = stop_requested m"
  by (simp_all add: shrink_def)

lemma expand_wait_result:
  "expand_wait wakes lcs m = Some (res, m') \<Longrightarrow>
   \<not> over_limit m' \<and> res = (if stop_requested m' then error else success)"
proof (induction wakes arbitrary: lcs m)
  case Nil
  then show ?case by (subst (asm) expand_wait.simps) (auto simp: Let_def split: if_splits)
next
  case (Cons w ws)
  from Cons.prems show ?case
    by (subst (asm) expand_wait.simps) (auto simp: Let_def split: if_splits dest: Cons.IH)
qed

text \<open>
  When \<open>expand\<close> returns, then with success only if the manager is not stopping and the
  cache is within its limit (or holds at most one file), and with an error only if a stop
  was requested; the call changes nothing when the manager was never initialised.
\<close>

theorem expand_result:
  assumes "expand wakes sz m = Some (res, m')"
  shows "(\<not> has_cfg m \<longrightarrow> res = cache_not_initialized \<and> m' = m) \<and>
    (has_cfg m \<longrightarrow> sz = 0 \<longrightarrow> res = success \<and> m' = m) \<and>
    (has_cfg m \<longrightarrow> sz \<noteq> 0 \<longrightarrow>
      (res = success \<longleftrightarrow> \<not> stop_requested m') \<and> (res = error \<longleftrightarrow> stop_requested m') \<and>
      (res = success \<longrightarrow> cache_size m' \<le> max_cache_size m' \<or> dir_count m' \<le> 1))"
proof -
  consider "\<not> has_cfg m" | "has_cfg m" "sz = 0" | "has_cfg m" "sz \<noteq> 0" by blast
  then show ?thesis
  proof cases
    case 3
    with assms have "expand_wait wakes (cache_size m)
        (m\<lparr>cache_size := add64 (cache_size m) sz\<rparr>) = Some (res, m')"
      by (simp add: expand_def)
    from expand_wait_result[OF this] 3 show ?thesis by (auto simp: over_limit_def)
  qed (use assms in \<open>auto simp: expand_def\<close>)
qed

theorem expand_result_witness:
  "\<exists>m'. expand [snd \<circ> shrink 60] 50 (cache_init\<lparr>has_cfg := True, max_cache_size := 100,
        dir_count := 3, cache_size := 90\<rparr>) = Some (success, m') \<and> cache_size m' = 80"
proof -
  let ?m = "cache_init\<lparr>has_cfg := True, max_cache_size := 100, dir_count := 3, cache_size := 90\<rparr>"
  obtain res m' where e: "expand [snd \<circ> shrink 60] 50 ?m = Some (res, m')"
    "cache_size m' = 80" "\<not> stop_requested m'"
    by (simp add: expand_def expand_wait.simps cache_init_def over_limit_def add64_def
        shrink_def sub64_def Let_def)
  from expand_result[OF e(1)] e show ?thesis by (auto simp: cache_init_def)
qed

text \<open>The state after some of the waits, without the events.\<close>

definition state_after :: "(cache_mgr \<Rightarrow> cache_mgr) list \<Rightarrow> cache_mgr \<Rightarrow> cache_mgr" where
  "state_after ws m = fold (\<lambda>w m. w m) ws m"

text \<open>Wake-ups do not look at the events raised: what they do commutes with logging.\<close>

definition log_blind :: "(cache_mgr \<Rightarrow> cache_mgr) \<Rightarrow> bool" where
  "log_blind w \<longleftrightarrow>
    (\<forall>m es. \<exists>es'. w (m\<lparr>cache_events := es\<rparr>) = (w m)\<lparr>cache_events := es'\<rparr>)"

lemma state_after_simps [simp]: "state_after [] m = m" "state_after (w # ws) m = state_after ws (w m)"
  by (simp_all add: state_after_def)

text \<open>The loop ends at the first state in which the condition of the wait is false.\<close>

definition ends_at :: "(cache_mgr \<Rightarrow> cache_mgr) list \<Rightarrow> cache_mgr \<Rightarrow> nat \<Rightarrow> api_error \<times> cache_mgr \<Rightarrow> bool" where
  "ends_at wakes m k r \<longleftrightarrow> k \<le> length wakes \<and> \<not> over_limit (state_after (take k wakes) m) \<and>
    (\<forall>j < k. over_limit (state_after (take j wakes) m)) \<and>
    fst r = (if stop_requested (state_after (take k wakes) m) then error else success) \<and>
    cache_size (snd r) = cache_size (state_after (take k wakes) m)"

lemma ends_at_Cons:
  assumes "over_limit m" "ends_at ws (w m) k r"
  shows "ends_at (w # ws) m (Suc k) r"
proof -
  have "over_limit (state_after (take j (w # ws)) m)" if "j < Suc k" for j
    using assms that by (cases j) (simp_all add: ends_at_def)
  then show ?thesis using assms(2) unfolding ends_at_def by simp
qed

lemma expand_wait_ends:
  assumes "\<forall>w \<in> set wakes. log_blind w"
  shows "case expand_wait wakes lcs (m\<lparr>cache_events := es\<rparr>) of
      None \<Rightarrow> \<forall>k \<le> length wakes. over_limit (state_after (take k wakes) m)
    | Some r \<Rightarrow> \<exists>k. ends_at wakes m k r"
  using assms
proof (induction wakes arbitrary: lcs m es)
  case Nil
  then show ?case
    by (subst expand_wait.simps) (auto simp: over_limit_def ends_at_def Let_def)
next
  case (Cons w ws)
  show ?case
  proof (cases "over_limit m")
    case False
    then have "ends_at (w # ws) m 0 (if stop_requested m then error else success, m\<lparr>cache_events := es\<rparr>)"
      by (simp add: ends_at_def)
    moreover have "expand_wait (w # ws) lcs (m\<lparr>cache_events := es\<rparr>) =
        Some (if stop_requested m then error else success, m\<lparr>cache_events := es\<rparr>)"
      using False by (subst expand_wait.simps) (auto simp: over_limit_def)
    ultimately show ?thesis by auto
  next
    case True
    have "over_limit (m\<lparr>cache_events := es\<rparr>)" using True by (simp add: over_limit_def)
    define es' where "es' = (if lcs \<noteq> cache_size m then es @ [max_cache_size_reached (cache_size m) (max_cache_size m)] else es)"
    have e: "expand_wait (w # ws) lcs (m\<lparr>cache_events := es\<rparr>) =
        expand_wait ws (cache_size m) (w (m\<lparr>cache_events := es'\<rparr>))"
      using \<open>over_limit (m\<lparr>cache_events := es\<rparr>)\<close> by (subst expand_wait.simps) (simp add: Let_def es'_def)
    obtain es'' where w: "w (m\<lparr>cache_events := es'\<rparr>) = (w m)\<lparr>cache_events := es''\<rparr>"
      using Cons.prems unfolding log_blind_def by (meson list.set_intros(1))
    have IH: "case expand_wait ws (cache_size m) ((w m)\<lparr>cache_events := es''\<rparr>) of
        None \<Rightarrow> \<forall>k \<le> length ws. over_limit (state_after (take k ws) (w m)) | Some r \<Rightarrow> \<exists>k. ends_at ws (w m) k r"
      using Cons.IH Cons.prems by simp
    show ?thesis
    proof (cases "expand_wait ws (cache_size m) ((w m)\<lparr>cache_events := es''\<rparr>)")
      case None
      have "over_limit (state_after (take k (w # ws)) m)" if "k \<le> length (w # ws)" for k
        using that None IH True by (cases k) simp_all
      then show ?thesis using None by (simp add: e w)
    next
      case (Some r)
      then obtain k where "ends_at ws (w m) k r" using IH by auto
      then have "ends_at (w # ws) m (Suc k) r" by (rule ends_at_Cons[OF True])
      then show ?thesis using Some unfolding e w by auto
    qed
  qed
qed

text \<open>
  C36. When an \<open>expand\<close> by at least one byte on an initialised manager returns, and with what, for any waits
  in which the other threads do not look at the events reported: it returns if and only if, at the start or after one of
  the waits, a stop was requested, the counter is within the limit, or the cache directory has at most one file;
  it returns at the first such state, with \<open>error\<close> exactly if a stop was requested by then, and leaves the
  counter of that state, in which its own bytes are counted.
\<close>

theorem expand_unblocks:
  assumes "\<forall>w \<in> set wakes. log_blind w" "has_cfg m" "0 < sz"
    and "after = (\<lambda>k. state_after (take k wakes) (m\<lparr>cache_size := add64 (cache_size m) sz\<rparr>))"
    and "released = (\<lambda>k. stop_requested (after k) \<or> cache_size (after k) \<le> max_cache_size (after k) \<or>
      dir_count (after k) \<le> 1)"
  shows "((\<exists>r. expand wakes sz m = Some r) \<longleftrightarrow> (\<exists>k \<le> length wakes. released k)) \<and>
    (\<forall>res m'. expand wakes sz m = Some (res, m') \<longrightarrow>
       (\<exists>k \<le> length wakes. released k \<and> (\<forall>j < k. \<not> released j) \<and>
          res = (if stop_requested (after k) then error else success) \<and> cache_size m' = cache_size (after k)))"
proof -
  let ?m = "m\<lparr>cache_size := add64 (cache_size m) sz\<rparr>"
  have rel: "released k \<longleftrightarrow> \<not> over_limit (state_after (take k wakes) ?m)" for k
    by (auto simp: assms(4,5) over_limit_def)
  have e: "expand wakes sz m = expand_wait wakes (cache_size m) (?m\<lparr>cache_events := cache_events m\<rparr>)"
    using assms(2,3) by (simp add: expand_def)
  note ends = expand_wait_ends[OF assms(1), where lcs = "cache_size m" and m = ?m and es = "cache_events m", folded e]
  show ?thesis
  proof (cases "expand wakes sz m")
    case None
    then show ?thesis using ends by (simp add: rel)
  next
    case (Some r)
    then obtain k where k: "ends_at wakes ?m k r" using ends by auto
    then have "k \<le> length wakes" "released k" "\<forall>j < k. \<not> released j"
      "fst r = (if stop_requested (after k) then error else success)" "cache_size (snd r) = cache_size (after k)"
      unfolding ends_at_def rel assms(4) by blast+
    then show ?thesis using Some by auto
  qed
qed

lemma log_blind_stop: "log_blind stop"
proof -
  have "\<exists>es'. stop (m\<lparr>cache_events := es\<rparr>) = (stop m)\<lparr>cache_events := es'\<rparr>" for m es
    by (rule exI[of _ es]) (cases m, simp add: stop_def)
  then show ?thesis by (simp add: log_blind_def)
qed

lemma log_blind_shrink: "log_blind (snd \<circ> shrink n)"
proof -
  have "\<exists>es'. snd (shrink n (m\<lparr>cache_events := es\<rparr>)) = (snd (shrink n m))\<lparr>cache_events := es'\<rparr>"
    for m es
    by (rule exI[of _ "cache_events (snd (shrink n (m\<lparr>cache_events := es\<rparr>)))"])
      (cases m, simp add: shrink_def)
  then show ?thesis by (simp add: log_blind_def)
qed

theorem expand_unblocks_witness:
  "\<exists>m'. expand [snd \<circ> shrink 10, stop, snd \<circ> shrink 90] 50 (cache_init\<lparr>has_cfg := True,
      max_cache_size := 100, dir_count := 3, cache_size := 90\<rparr>) = Some (error, m') \<and> cache_size m' = 130"
proof -
  let ?m = "cache_init\<lparr>has_cfg := True, max_cache_size := 100, dir_count := 3, cache_size := 90\<rparr>"
  let ?ws = "[snd \<circ> shrink 10, stop, snd \<circ> shrink 90]"
  define after where "after = (\<lambda>k. state_after (take k ?ws) (?m\<lparr>cache_size := add64 (cache_size ?m) 50\<rparr>))"
  define released where "released = (\<lambda>k. stop_requested (after k) \<or> cache_size (after k) \<le> max_cache_size (after k) \<or>
      dir_count (after k) \<le> 1)"
  have states: "\<not> released 0" "\<not> released 1" "released 2" "stop_requested (after 2)" "cache_size (after 2) = 130"
    by (simp_all add: released_def after_def cache_init_def add64_def shrink_def sub64_def stop_def
        take_Suc_Cons[of 1, simplified])
  have w: "\<forall>w \<in> set ?ws. log_blind w" "has_cfg ?m" "0 < (50 :: nat)"
    by (simp_all add: log_blind_shrink log_blind_stop)
  note law = expand_unblocks[OF w after_def released_def]
  obtain r where "expand ?ws 50 ?m = Some r" using law states(3) by (metis length_Cons Suc_le_mono le_numeral_extra(3) numeral_2_eq_2 zero_le)
  then obtain res m' where r: "expand ?ws 50 ?m = Some (res, m')" by (cases r) auto
  then obtain k where k: "released k" "\<forall>j < k. \<not> released j"
      "res = (if stop_requested (after k) then error else success)" "cache_size m' = cache_size (after k)"
    using law by blast
  have "\<not> 2 < k" using k(2) states(3) by blast
  moreover have "k \<noteq> 0" "k \<noteq> 1" using k(1) states(1,2) by metis+
  ultimately have "k = 2" by linarith
  then show ?thesis using r k states by simp
qed

text \<open>
  C31.  Accounting: an \<open>expand\<close> that does not wait, followed by a \<open>shrink\<close> of the same amount,
  restores the counter; a \<open>shrink\<close> never takes the counter below zero.
\<close>

theorem expand_shrink_balance:
  assumes "expand [] sz m = Some (success, m')" "has_cfg m" "cache_size m + sz < 2 ^ 64"
  shows "cache_size m' = cache_size m + sz \<and> cache_size (snd (shrink sz m')) = cache_size m \<and>
    cache_size (snd (shrink n m)) = cache_size m - n"
proof -
  have "cache_size m' = cache_size m + sz"
    using assms by (auto simp: expand_def expand_wait.simps arith64 Let_def split: if_splits)
  then show ?thesis using assms by (simp add: shrink_size)
qed

theorem expand_shrink_balance_witness:
  "\<exists>m'. expand [] 5 (cache_init\<lparr>has_cfg := True, max_cache_size := 100\<rparr>) = Some (success, m') \<and>
    cache_size (snd (shrink 5 m')) = 0"
proof -
  let ?m = "cache_init\<lparr>has_cfg := True, max_cache_size := 100\<rparr>"
  obtain m' where e: "expand [] 5 ?m = Some (success, m')"
    by (simp add: expand_def expand_wait.simps over_limit_def cache_init_def add64_def)
  from expand_shrink_balance[OF e, of 0] e show ?thesis by (simp add: cache_init_def)
qed

end
