(* ===== verification/Chunks.thy ===== *)
theory Chunks imports Utils_Common begin

text \<open>
  How an open file is cut into chunks: their number is \<open>divide_with_ceiling size chunk_size\<close>, and
  \<open>last_chunk_size_\<close> is what the constructor of open_file_base computes.
\<close>

definition last_chunk_size_of :: "nat \<Rightarrow> nat \<Rightarrow> nat" where
  "last_chunk_size_of sz csize =
    (if sz \<le> csize then sz else if sz mod csize = 0 then csize else sz mod csize)"

lemma total_chunks_bounds:
  assumes "0 < cs" "0 < fs"
  shows "0 < divide_with_ceiling fs cs" "divide_with_ceiling fs cs \<le> fs"
    "fs \<le> divide_with_ceiling fs cs * cs" "divide_with_ceiling fs cs * cs < fs + cs"
proof -
  show "0 < divide_with_ceiling fs cs" using divide_with_ceiling_pos assms by blast
  show b: "fs \<le> divide_with_ceiling fs cs * cs" "divide_with_ceiling fs cs * cs < fs + cs"
    using divide_with_ceiling_bounds assms by auto
  show "divide_with_ceiling fs cs \<le> fs"
  proof (rule ccontr)
    assume "\<not> divide_with_ceiling fs cs \<le> fs"
    then have "Suc fs * cs \<le> divide_with_ceiling fs cs * cs" by (intro mult_right_mono) auto
    moreover have "fs \<le> fs * cs" using assms(1) by simp
    ultimately show False using b(2) by simp
  qed
qed

lemma last_chunk_size_of_eq:
  assumes "0 < cs" "0 < fs"
  shows "last_chunk_size_of fs cs = fs - (divide_with_ceiling fs cs - 1) * cs"
proof (cases "fs \<le> cs")
  case True
  have "divide_with_ceiling fs cs = 1"
    using assms True by (intro divide_with_ceiling_eq) auto
  then show ?thesis using True by (simp add: last_chunk_size_of_def)
next
  case False
  show ?thesis
  proof (cases "fs mod cs = 0")
    case True
    then obtain q where q: "fs = q * cs" by (metis mult.commute mod_0_imp_dvd dvdE)
    then have "1 \<le> q" using assms by (cases q) auto
    then have "fs - (q - 1) * cs = cs" by (simp add: q diff_mult_distrib)
    then show ?thesis
      using False True assms q
      by (simp add: last_chunk_size_of_def divide_with_ceiling_def)
  next
    case rem: False
    then show ?thesis
      using False assms
      by (simp add: last_chunk_size_of_def divide_with_ceiling_def minus_div_mult_eq_mod)
  qed
qed

lemma chunk_span:
  assumes cs: "0 < cs" and fs: "0 < fs" and c: "c < divide_with_ceiling fs cs"
    and len: "len = (if c = divide_with_ceiling fs cs - 1
                     then fs - (divide_with_ceiling fs cs - 1) * cs else cs)"
  shows "0 < len" "len \<le> cs" "c * cs + len = min ((c + 1) * cs) fs"
proof -
  let ?t = "divide_with_ceiling fs cs"
  note b = total_chunks_bounds[OF cs fs]
  have "?t * cs = (?t - 1) * cs + cs"
    using b(1) by (metis Suc_diff_1 add.commute mult_Suc)
  then have lt: "(?t - 1) * cs < fs" "fs \<le> (?t - 1) * cs + cs" using b by linarith+
  have "(c + 1) * cs \<le> (?t - 1) * cs" if "c \<noteq> ?t - 1"
    using that c by (intro mult_right_mono) auto
  then show "0 < len" "len \<le> cs" "c * cs + len = min ((c + 1) * cs) fs"
    using lt cs unfolding len by (auto simp: algebra_simps min_def)
qed

end
