(* ===== verification/Ring_Buffer.thy ===== *)
theory Ring_Buffer imports Chunks begin

text \<open>
  The ring buffer that streams a remote file (file_manager/ring_buffer_base.cpp) and the
  virtual functions its two subclasses provide (direct_open_file.cpp,
  ring_buffer_open_file.cpp).

  The file is cut into chunks; a window \<open>ring_begin..ring_end\<close> of chunks is held in as many
  slots, chunk \<open>c\<close> in slot \<open>c mod ring size\<close>, and \<open>read_state\<close> says which slots hold their
  chunk.  Each function that runs under \<open>chunk_mtx_\<close> is one step of the state; a download is
  two such steps with the transfer between them (\<open>download_begin\<close>, \<open>download_finish\<close>).
  The virtual functions are the record \<open>ring_ops\<close>, and the state they own is the type
  variable \<open>'s\<close>.  The time stamp that \<open>reset_timeout\<close> writes is not modelled.
\<close>

section \<open>State\<close>

record 's ring =
  is_dir :: bool
  chunk_size :: nat
  file_size :: nat
  last_chunk_size :: nat
  total_chunks :: nat
  read_state :: "bool list"
  ring_begin :: nat
  ring_end :: nat
  ring_pos :: nat
  has_reader_thread :: bool
  ring_stop :: bool
  active_downloads :: "nat set"
  store :: 's

abbreviation ring_size :: "('s, 'z) ring_scheme \<Rightarrow> nat" where
  "ring_size r \<equiv> length (read_state r)"

text \<open>
  The virtual functions.  \<open>on_check_start\<close> is None where it throws, and its flag says that
  nothing is left to start; \<open>use_buffer\<close> hands out the memory a download is written to, here
  the effect on the store of the provider's writing \<open>data\<close> there; \<open>on_read_chunk\<close> returns the
  bytes it appends and the number it reports in \<open>bytes_read\<close>.
\<close>

record 's ring_ops =
  on_check_start :: "'s ring \<Rightarrow> bool option \<times> 's"
  use_buffer :: "'s ring \<Rightarrow> nat \<Rightarrow> bytes \<Rightarrow> 's"
  on_chunk_downloaded :: "'s ring \<Rightarrow> nat \<Rightarrow> bytes \<Rightarrow> api_error \<times> 's"
  on_read_chunk :: "'s ring \<Rightarrow> nat \<Rightarrow> nat \<Rightarrow> nat \<Rightarrow> api_error \<times> bytes \<times> nat"

definition min_ring_size :: nat where
  "min_ring_size = 5"

definition ring_buffer_base ::
  "nat \<Rightarrow> nat \<Rightarrow> bool \<Rightarrow> nat \<Rightarrow> bool \<Rightarrow> 's \<Rightarrow> exn + 's ring" where
  "ring_buffer_base csize fsize directory rsize disable_io st =
    (let total = divide_with_ceiling fsize csize;
         r = \<lparr>is_dir = directory, chunk_size = csize, file_size = fsize,
              last_chunk_size = last_chunk_size_of fsize csize,
              total_chunks = total, read_state = replicate rsize False,
              ring_begin = 0, ring_end = 0, ring_pos = 0, has_reader_thread = False,
              ring_stop = False, active_downloads = {}, store = st\<rparr>
     in if disable_io then
          (if fsize > 0 then
             let n = min total rsize in
             Inr (r\<lparr>read_state := replicate n False,
                    ring_end := min (sub64 total 1) (sub64 (add64 0 n) 1)\<rparr>)
           else Inr r)
        else if rsize < min_ring_size then
          Inl (runtime_error ''ring size must be greater than or equal to 5'')
        else Inr (r\<lparr>ring_end := min (sub64 total 1) (sub64 (add64 0 rsize) 1)\<rparr>))"

section \<open>Moving the window\<close>

text \<open>The loop of \<open>center_ring\<close>: each step admits one chunk at the end and marks its slot.\<close>

fun center_steps :: "nat \<Rightarrow> 's ring \<Rightarrow> 's ring" where
  "center_steps 0 r = r"
| "center_steps (Suc steps) r =
    (let e = add64 (ring_end r) 1 in
     center_steps steps (r\<lparr>ring_begin := add64 (ring_begin r) 1, ring_end := e,
       read_state := (read_state r)[e mod ring_size r := False]\<rparr>))"

definition center_ring :: "'s ring \<Rightarrow> 's ring" where
  "center_ring r =
    (let half_ring_size = ring_size r div 2;
         offset = sub64 (ring_pos r) (ring_begin r)
     in if offset > half_ring_size then
          let steps = sub64 offset half_ring_size;
              max_steps = sub64 (sub64 (total_chunks r) 1) (ring_end r)
          in center_steps (if steps > max_steps then max_steps else steps) r
        else r)"

text \<open>The loop that frees the slots of the chunks that leave the window.\<close>

fun free_slots :: "bool \<Rightarrow> nat \<Rightarrow> nat \<Rightarrow> 's ring \<Rightarrow> bool list \<Rightarrow> bool list" where
  "free_slots is_forward idx 0 r bs = bs"
| "free_slots is_forward idx (Suc n) r bs =
    free_slots is_forward (Suc idx) n r
      (bs[(if is_forward then add64 (ring_begin r) idx else sub64 (ring_end r) idx)
            mod ring_size r := False])"

definition update_position :: "nat \<Rightarrow> bool \<Rightarrow> 's ring \<Rightarrow> 's ring" where
  "update_position count is_forward r =
    (if count = 0 then r
     else
       let count =
             (if is_forward then
                (if add64 (ring_pos r) count > sub64 (total_chunks r) 1
                 then sub64 (sub64 (total_chunks r) 1) (ring_pos r) else count)
              else min (ring_pos r) count);
           pos = (if is_forward then add64 (ring_pos r) count else sub64 (ring_pos r) count)
       in if (if is_forward then pos \<le> ring_end r else pos \<ge> ring_begin r)
          then center_ring (r\<lparr>ring_pos := pos\<rparr>)
          else
            let delta = (if is_forward then sub64 count (sub64 (ring_end r) (ring_pos r))
                         else sub64 count (sub64 (ring_pos r) (ring_begin r)));
                states = (if delta \<ge> ring_size r then replicate (ring_size r) False
                          else free_slots is_forward 0 delta r (read_state r));
                begin = (if is_forward then add64 (ring_begin r) delta
                         else sub64 (ring_begin r) delta)
            in center_ring (r\<lparr>read_state := states, ring_pos := pos, ring_begin := begin,
                 ring_end := min (sub64 (total_chunks r) 1)
                                 (sub64 (add64 begin (ring_size r)) 1)\<rparr>))"

definition forward :: "nat \<Rightarrow> 's ring \<Rightarrow> 's ring" where
  "forward count r = update_position count True r"

definition reverse :: "nat \<Rightarrow> 's ring \<Rightarrow> 's ring" where
  "reverse count r = update_position count False r"

text \<open>\<open>set\<close>, used by the tests: what it throws, and the state it leaves.\<close>

definition set_window :: "nat \<Rightarrow> nat \<Rightarrow> 's ring \<Rightarrow> exn option \<times> 's ring" where
  "set_window first_chunk current_chunk r =
    (if first_chunk \<ge> total_chunks r then
       (Some (runtime_error ''first chunk must be less than total chunks''), r)
     else
       let r = r\<lparr>ring_begin := first_chunk,
                 ring_end := min (sub64 (total_chunks r) 1)
                   (sub64 (add64 first_chunk (ring_size r)) 1)\<rparr>
       in if current_chunk > ring_end r then
            (Some (runtime_error ''current chunk must be less than or equal to last chunk''), r)
          else (None, r\<lparr>ring_pos := current_chunk,
                        read_state := replicate (ring_size r) True\<rparr>))"

section \<open>Downloading a chunk\<close>

datatype begin_result =
  Finished api_error        \<comment> \<open>returned at once\<close>
| Wait_for nat              \<comment> \<open>another thread is downloading the chunk\<close>
| Transfer nat nat nat      \<comment> \<open>read \<open>size\<close> bytes at \<open>offset\<close> for the chunk\<close>

definition download_begin :: "nat \<Rightarrow> bool \<Rightarrow> 's ring \<Rightarrow> begin_result \<times> 's ring" where
  "download_begin chunk skip_active r =
    (let r = (if skip_active then r else r\<lparr>ring_pos := chunk\<rparr>) in
     if chunk < ring_begin r \<or> chunk > ring_end r then
       (Finished invalid_ring_buffer_position, r)
     else if chunk \<in> active_downloads r then
       (if skip_active then (Finished success, r) else (Wait_for chunk, r))
     else if read_state r ! (chunk mod ring_size r) then (Finished success, r)
     else
       (Transfer chunk
          (if chunk = sub64 (total_chunks r) 1 then last_chunk_size r else chunk_size r)
          (mul64 chunk (chunk_size r)),
        r\<lparr>active_downloads := insert chunk (active_downloads r)\<rparr>))"

definition download_finish ::
  "'s ring_ops \<Rightarrow> nat \<Rightarrow> api_error \<Rightarrow> bytes \<Rightarrow> 's ring \<Rightarrow> api_error \<times> 's ring" where
  "download_finish ops chunk result data r =
    (let result = (if chunk < ring_begin r \<or> chunk > ring_end r
                   then invalid_ring_buffer_position else result);
         (result, r) =
           (if result = success then
              (case on_chunk_downloaded ops r chunk data of (res, st) \<Rightarrow>
                 if res = success then
                   (res, r\<lparr>store := st,
                           read_state := (read_state r)[chunk mod ring_size r := True]\<rparr>)
                 else (res, r\<lparr>store := st\<rparr>))
            else (result, r))
     in (result, r\<lparr>active_downloads := active_downloads r - {chunk}\<rparr>))"

text \<open>
  The whole call without interference during the transfer.  \<open>fetch size offset\<close> is the
  provider's \<open>read_file_bytes\<close>; \<open>others\<close> is what the thread already downloading the chunk
  does until it notifies, and the result it notifies.
\<close>

definition download_chunk ::
  "'s ring_ops \<Rightarrow> (nat \<Rightarrow> nat \<Rightarrow> api_error \<times> bytes) \<Rightarrow> (nat \<Rightarrow> 's ring \<Rightarrow> api_error \<times> 's ring) \<Rightarrow>
   nat \<Rightarrow> bool \<Rightarrow> 's ring \<Rightarrow> api_error \<times> 's ring" where
  "download_chunk ops fetch others chunk skip_active r =
    (case download_begin chunk skip_active r of
       (Finished res, r) \<Rightarrow> (res, r)
     | (Wait_for c, r) \<Rightarrow> others c r
     | (Transfer c sz off, r) \<Rightarrow>
         (case fetch sz off of (res, data) \<Rightarrow>
            download_finish ops c res data (r\<lparr>store := use_buffer ops r c data\<rparr>)))"

section \<open>Reading\<close>

definition check_start :: "'s ring_ops \<Rightarrow> 's ring \<Rightarrow> api_error \<times> 's ring" where
  "check_start ops r =
    (case on_check_start ops r of
       (None, st) \<Rightarrow> (error, r\<lparr>store := st\<rparr>)
     | (Some True, st) \<Rightarrow> (success, r\<lparr>store := st\<rparr>)
     | (Some False, st) \<Rightarrow> (success, r\<lparr>store := st, has_reader_thread := True\<rparr>))"

text \<open>
  \<open>read\<close> and its loop.  A chunk that fell out of the window makes \<open>read\<close> call itself again, with
  the values its variables hold at that moment and no limit; \<open>fuel\<close> bounds the iterations
  and calls together, and None is running out of it.
\<close>

fun read :: "'s ring_ops \<Rightarrow> (nat \<Rightarrow> nat \<Rightarrow> api_error \<times> bytes) \<Rightarrow>
    (nat \<Rightarrow> 's ring \<Rightarrow> api_error \<times> 's ring) \<Rightarrow> nat \<Rightarrow>
    nat \<Rightarrow> nat \<Rightarrow> bytes \<Rightarrow> 's ring \<Rightarrow> (api_error \<times> bytes \<times> 's ring) option"
  and read_loop :: "'s ring_ops \<Rightarrow> (nat \<Rightarrow> nat \<Rightarrow> api_error \<times> bytes) \<Rightarrow>
    (nat \<Rightarrow> 's ring \<Rightarrow> api_error \<times> 's ring) \<Rightarrow> nat \<Rightarrow>
    nat \<Rightarrow> nat \<Rightarrow> nat \<Rightarrow> bytes \<Rightarrow> 's ring \<Rightarrow> (api_error \<times> bytes \<times> 's ring) option" where
  "read ops fetch others 0 read_size read_offset data r = None"
| "read ops fetch others (Suc fuel) read_size read_offset data r =
    (if is_dir r then Some (invalid_operation, data, r)
     else
       let read_size = calculate_read_size (file_size r) read_size read_offset in
       if read_size = 0 then Some (success, [], r)
       else
         let begin_chunk = read_offset div chunk_size r;
             read_offset = sub64 read_offset (mul64 begin_chunk (chunk_size r))
         in case check_start ops r of (res, r) \<Rightarrow>
              if res \<noteq> success then Some (res, data, r)
              else read_loop ops fetch others fuel begin_chunk read_size read_offset data r)"
| "read_loop ops fetch others 0 chunk read_size read_offset data r = None"
| "read_loop ops fetch others (Suc fuel) chunk read_size read_offset data r =
    (if ring_stop r then Some (download_stopped, data, r)
     else if read_size = 0 then Some (success, data, r)
     else
       let r = (if chunk > ring_pos r then forward (sub64 chunk (ring_pos r)) r
                else if chunk < ring_pos r then reverse (sub64 (ring_pos r) chunk) r
                else r)
       in case download_chunk ops fetch others chunk False r of (res, r) \<Rightarrow>
            if res \<noteq> success then
              (if res = invalid_ring_buffer_position
               then read ops fetch others fuel read_size read_offset data r
               else Some (res, data, r))
            else
              (case on_read_chunk ops r chunk
                      (min (sub64 (chunk_size r) read_offset) read_size) read_offset of
                 (res, appended, bytes_read) \<Rightarrow>
                   if res \<noteq> success then Some (res, data, r)
                   else read_loop ops fetch others fuel (add64 chunk 1)
                          (sub64 read_size bytes_read) 0 (data @ appended) r))"

section \<open>The background readers\<close>

datatype reader_action = Stopped | Waited | Spun | Download nat

fun any_unread :: "'s ring \<Rightarrow> nat list \<Rightarrow> bool" where
  "any_unread r [] = False"
| "any_unread r (i # is) = (if \<not> read_state r ! (i mod ring_size r) then True else any_unread r is)"

definition has_unread_forward :: "'s ring \<Rightarrow> bool" where
  "has_unread_forward r =
    (if ring_pos r \<ge> ring_end r then False
     else any_unread r [Suc (ring_pos r)..<Suc (ring_end r)])"

definition has_unread_reverse :: "'s ring \<Rightarrow> bool" where
  "has_unread_reverse r = any_unread r (rev [ring_begin r..<ring_pos r])"

text \<open>How one iteration of \<open>reader_thread\<close> chooses the next chunk from its two variables.\<close>

definition reader_next :: "bool \<Rightarrow> nat \<times> nat \<Rightarrow> 's ring \<Rightarrow> nat \<times> nat" where
  "reader_next is_forward v r =
    (case v of (last_marker, next_chunk) \<Rightarrow>
       let (last_marker, next_chunk) =
             (if is_forward then
                let (last_marker, next_chunk) =
                      (if last_marker = ring_pos r then (last_marker, add64 next_chunk 1)
                       else (ring_pos r, add64 (ring_pos r) 1))
                in (last_marker, if next_chunk > ring_end r then ring_pos r else next_chunk)
              else if last_marker \<noteq> ring_begin r then (ring_begin r, ring_pos r)
              else (last_marker, next_chunk))
       in (last_marker, if next_chunk > ring_begin r then next_chunk - 1 else next_chunk))"

text \<open>
  One iteration: \<open>r\<close> is the state under the lock, \<open>woken\<close> the state after the wait on
  \<open>chunk_notify_\<close> if there is one.
\<close>

definition reader_iteration ::
  "bool \<Rightarrow> nat \<times> nat \<Rightarrow> 's ring \<Rightarrow> 's ring \<Rightarrow> (nat \<times> nat) \<times> reader_action" where
  "reader_iteration is_forward v r woken =
    (case reader_next is_forward v r of (last_marker, next_chunk) \<Rightarrow>
       if read_state r ! (next_chunk mod ring_size r) then
         if ring_stop r then ((last_marker, next_chunk), Stopped)
         else if \<not> (if is_forward then has_unread_forward r else has_unread_reverse r) then
           ((if is_forward then ring_pos woken else ring_begin woken, ring_pos woken), Waited)
         else ((last_marker, next_chunk), Spun)
       else ((last_marker, next_chunk), Download next_chunk))"

definition reader_start :: "bool \<Rightarrow> 's ring \<Rightarrow> nat \<times> nat" where
  "reader_start is_forward r =
    (if is_forward then ring_pos r else ring_begin r, ring_pos r)"

text \<open>A run of the thread: the list gives the states it finds, in pairs as above.\<close>

fun reader_run ::
  "bool \<Rightarrow> nat \<times> nat \<Rightarrow> ('s ring \<times> 's ring) list \<Rightarrow> reader_action list" where
  "reader_run is_forward v [] = []"
| "reader_run is_forward v ((r, woken) # rs) =
    (case reader_iteration is_forward v r woken of (v', a) \<Rightarrow>
       a # (if a = Stopped then [] else reader_run is_forward v' rs))"

section \<open>The window invariant\<close>

definition window_size :: "'s ring \<Rightarrow> nat" where
  "window_size r = min (ring_size r) (total_chunks r)"

text \<open>
  What the constructor establishes for a file that is not empty: the window is as long as the
  ring (or the file), inside the file, and holds the position; the sizes are far from 2^64.
\<close>

definition ring_wf :: "'s ring \<Rightarrow> bool" where
  "ring_wf r \<longleftrightarrow>
    0 < chunk_size r \<and> 0 < ring_size r \<and> 0 < file_size r \<and>
    total_chunks r = divide_with_ceiling (file_size r) (chunk_size r) \<and>
    last_chunk_size r = last_chunk_size_of (file_size r) (chunk_size r) \<and>
    ring_begin r + window_size r = Suc (ring_end r) \<and> ring_end r < total_chunks r \<and>
    ring_begin r \<le> ring_pos r \<and> ring_pos r \<le> ring_end r \<and>
    file_size r + chunk_size r < 2 ^ 62 \<and> ring_size r < 2 ^ 62"

definition chunk_ready :: "'s ring \<Rightarrow> nat \<Rightarrow> bool" where
  "chunk_ready r c \<longleftrightarrow>
    ring_begin r \<le> c \<and> c \<le> ring_end r \<and> read_state r ! (c mod ring_size r)"

lemma ring_wfD:
  assumes "ring_wf r"
  shows "0 < chunk_size r" "0 < ring_size r" "0 < total_chunks r"
    "total_chunks r < 2 ^ 62" "ring_size r < 2 ^ 62" "ring_end r < total_chunks r"
    "ring_begin r \<le> ring_pos r" "ring_pos r \<le> ring_end r"
    "ring_begin r + window_size r = Suc (ring_end r)"
  using assms total_chunks_bounds[of "chunk_size r" "file_size r"]
  by (auto simp: ring_wf_def)

lemma window_slot_inj:
  fixes b c d n :: nat
  assumes "b \<le> c" "c < b + n" "b \<le> d" "d < b + n"
  shows "c mod n = d mod n \<longleftrightarrow> c = d"
proof
  assume eq: "c mod n = d mod n"
  have main: "x = y" if "x \<le> y" "y < x + n" "x mod n = y mod n" for x y :: nat
  proof -
    have "n dvd y - x" using that by (metis mod_eq_dvd_iff_nat)
    then show "x = y" using that by (auto dest!: dvd_imp_le)
  qed
  show "c = d"
    using main[of c d] main[of d c] assms eq by (cases "c \<le> d") auto
qed simp

lemma nth_update_False: "s < length bs \<Longrightarrow> bs[k := False] ! s \<longleftrightarrow> bs ! s \<and> k \<noteq> s"
  by (cases "k = s") auto

lemma length_free_slots [simp]: "length (free_slots fwd i n r bs) = length bs"
  by (induction n arbitrary: i bs) auto

lemma nth_free_slots:
  assumes "s < length bs"
  shows "free_slots fwd i n r bs ! s \<longleftrightarrow> bs ! s \<and>
    (\<forall>j. i \<le> j \<and> j < i + n \<longrightarrow>
       (if fwd then add64 (ring_begin r) j else sub64 (ring_end r) j) mod ring_size r \<noteq> s)"
  using assms
proof (induction n arbitrary: i bs)
  case 0
  then show ?case by simp
next
  case (Suc n)
  have split: "(i \<le> j \<and> j < i + Suc n) \<longleftrightarrow> (j = i \<or> (Suc i \<le> j \<and> j < Suc i + n))" for j
    by auto
  show ?case
    unfolding free_slots.simps split using Suc.prems
    by (subst Suc.IH) (auto simp: nth_update_False)
qed

lemma all_steps_Suc:
  "(\<forall>j. 1 \<le> j \<and> j \<le> Suc k \<longrightarrow> P j) \<longleftrightarrow> P 1 \<and> (\<forall>j. 1 \<le> j \<and> j \<le> k \<longrightarrow> P (Suc j))"
proof (intro iffI conjI allI impI)
  fix j assume r: "P 1 \<and> (\<forall>j. 1 \<le> j \<and> j \<le> k \<longrightarrow> P (Suc j))" and j: "1 \<le> j \<and> j \<le> Suc k"
  then show "P j" by (cases "j = 1"; cases j) auto
qed auto

lemma center_steps_result:
  assumes "ring_end r + k < 2 ^ 64" "ring_begin r \<le> ring_end r"
  shows "center_steps k r = r\<lparr>ring_begin := ring_begin r + k, ring_end := ring_end r + k,
      read_state := read_state (center_steps k r)\<rparr>"
    and "length (read_state (center_steps k r)) = ring_size r"
    and "s < ring_size r \<Longrightarrow> read_state (center_steps k r) ! s \<longleftrightarrow> read_state r ! s \<and>
      (\<forall>j. 1 \<le> j \<and> j \<le> k \<longrightarrow> (ring_end r + j) mod ring_size r \<noteq> s)"
  using assms
proof (induction k arbitrary: r)
  case 0
  { case 1 show ?case by simp }
  { case 2 show ?case by simp }
  { case 3 show ?case by auto }
next
  case (Suc k)
  define adm where "adm r = r\<lparr>ring_begin := ring_begin r + 1, ring_end := ring_end r + 1,
       read_state := (read_state r)[(ring_end r + 1) mod ring_size r := False]\<rparr>" for r :: "'a ring"
  have step: "center_steps (Suc k) r = center_steps k (adm r)"
    if "ring_end r + Suc k < 2 ^ 64" "ring_begin r \<le> ring_end r" for r :: "'a ring"
    using that by (simp add: adm_def add64_exact)
  have split: "(\<forall>j. 1 \<le> j \<and> j \<le> Suc k \<longrightarrow> P j) \<longleftrightarrow> P 1 \<and> (\<forall>j. 1 \<le> j \<and> j \<le> k \<longrightarrow> P (Suc j))"
    for P :: "nat \<Rightarrow> bool"
    by (rule all_steps_Suc)
  { case 1 then show ?case using Suc.IH(1)[of "adm r"] unfolding step[OF 1] by (simp add: adm_def) }
  { case 2 then show ?case using Suc.IH(2)[of "adm r"] unfolding step[OF 2] by (simp add: adm_def) }
  { case 3
    then have "read_state (center_steps k (adm r)) ! s \<longleftrightarrow> read_state (adm r) ! s \<and>
        (\<forall>j. 1 \<le> j \<and> j \<le> k \<longrightarrow> (ring_end r + 1 + j) mod ring_size r \<noteq> s)"
      using Suc.IH(3)[of "adm r"] by (simp add: adm_def)
    then show ?case
      using 3 unfolding step[OF 3(2,3)] split by (auto simp: adm_def nth_update_False) }
qed

section \<open>What a move keeps\<close>

definition same_file :: "'s ring \<Rightarrow> 's ring \<Rightarrow> bool" where
  "same_file r r' \<longleftrightarrow> is_dir r' = is_dir r \<and> chunk_size r' = chunk_size r \<and>
    file_size r' = file_size r \<and> last_chunk_size r' = last_chunk_size r \<and>
    total_chunks r' = total_chunks r \<and> ring_size r' = ring_size r \<and>
    ring_stop r' = ring_stop r"

definition window_moved :: "'s ring \<Rightarrow> 's ring \<Rightarrow> bool" where
  "window_moved r r' \<longleftrightarrow> ring_wf r' \<and> same_file r r' \<and> store r' = store r \<and>
    active_downloads r' = active_downloads r \<and> has_reader_thread r' = has_reader_thread r \<and>
    (\<forall>c. chunk_ready r' c \<longleftrightarrow> chunk_ready r c \<and> ring_begin r' \<le> c \<and> c \<le> ring_end r')"

lemma same_file_refl [simp, intro]: "same_file r r"
  by (simp add: same_file_def)

lemma same_file_trans: "same_file r s \<Longrightarrow> same_file s t \<Longrightarrow> same_file r t"
  by (simp add: same_file_def)

lemma window_moved_refl: "ring_wf r \<Longrightarrow> window_moved r r"
  by (auto simp: window_moved_def chunk_ready_def)

lemma center_ring_moved:
  assumes wf: "ring_wf r"
  shows "window_moved r (center_ring r) \<and> ring_pos (center_ring r) = ring_pos r \<and>
    ring_begin r \<le> ring_begin (center_ring r) \<and> ring_end r \<le> ring_end (center_ring r) \<and>
    (ring_pos r - ring_begin r \<le> ring_size r div 2 \<longrightarrow> center_ring r = r)"
proof (cases "ring_pos r - ring_begin r > ring_size r div 2")
  case False
  then have "center_ring r = r"
    using ring_wfD[OF wf] by (simp add: center_ring_def Let_def sub64_exact)
  then show ?thesis using window_moved_refl[OF wf] by simp
next
  case True
  define k where "k = min (ring_pos r - ring_begin r - ring_size r div 2)
    (total_chunks r - 1 - ring_end r)"
  note w = ring_wfD[OF wf]
  have center: "center_ring r = center_steps k r"
    using True w by (auto simp: center_ring_def Let_def sub64_exact k_def min_def)
  have bounds: "ring_end r + k < 2 ^ 64" "ring_begin r \<le> ring_end r"
    using w by (auto simp: k_def)
  note steps = center_steps_result[OF bounds]
  have k: "k < window_size r" "ring_end r + k < total_chunks r"
    "k \<le> ring_pos r - ring_begin r"
    using w True by (auto simp: k_def)
  have fields: "ring_begin (center_steps k r) = ring_begin r + k"
    "ring_end (center_steps k r) = ring_end r + k" "ring_pos (center_steps k r) = ring_pos r"
    "store (center_steps k r) = store r" "active_downloads (center_steps k r) = active_downloads r"
    "same_file r (center_steps k r)" "has_reader_thread (center_steps k r) = has_reader_thread r"
    using arg_cong[OF steps(1), of ring_begin] arg_cong[OF steps(1), of ring_end]
      arg_cong[OF steps(1), of ring_pos] arg_cong[OF steps(1), of store]
      arg_cong[OF steps(1), of active_downloads] arg_cong[OF steps(1), of has_reader_thread]
      arg_cong[OF steps(1), of is_dir] arg_cong[OF steps(1), of chunk_size]
      arg_cong[OF steps(1), of file_size] arg_cong[OF steps(1), of last_chunk_size]
      arg_cong[OF steps(1), of total_chunks] arg_cong[OF steps(1), of ring_stop] steps(2)
    by (simp_all add: same_file_def)
  have wf': "ring_wf (center_steps k r)"
    using wf fields(6) k fields(1-3) steps(2) w by (simp add: ring_wf_def same_file_def window_size_def)
  have ready: "chunk_ready (center_steps k r) c \<longleftrightarrow> chunk_ready r c \<and>
      ring_begin r + k \<le> c \<and> c \<le> ring_end r + k" for c
  proof (cases "ring_begin r + k \<le> c \<and> c \<le> ring_end r + k")
    case False
    then show ?thesis by (auto simp: chunk_ready_def fields)
  next
    case inw: True
    have win: "ring_end r + k < ring_begin r + k + ring_size r"
      using w by (simp add: window_size_def)
    have st: "read_state (center_steps k r) ! (c mod ring_size r) \<longleftrightarrow>
        read_state r ! (c mod ring_size r) \<and>
        (\<forall>j. 1 \<le> j \<and> j \<le> k \<longrightarrow> (ring_end r + j) mod ring_size r \<noteq> c mod ring_size r)"
      using steps(3)[of "c mod ring_size r"] w by simp
    have eq: "(ring_end r + j) mod ring_size r = c mod ring_size r \<longleftrightarrow> ring_end r + j = c"
      if "1 \<le> j" "j \<le> k" for j
      using that inw win k w by (intro window_slot_inj[of "ring_begin r + k"]) auto
    have "(\<forall>j. 1 \<le> j \<and> j \<le> k \<longrightarrow> (ring_end r + j) mod ring_size r \<noteq> c mod ring_size r)
        \<longleftrightarrow> c \<le> ring_end r"
    proof
      assume a: "\<forall>j. 1 \<le> j \<and> j \<le> k \<longrightarrow> (ring_end r + j) mod ring_size r \<noteq> c mod ring_size r"
      show "c \<le> ring_end r"
      proof (rule ccontr)
        assume "\<not> c \<le> ring_end r"
        then have "1 \<le> c - ring_end r" "c - ring_end r \<le> k" "ring_end r + (c - ring_end r) = c"
          using inw by auto
        then show False using a by metis
      qed
    qed (use eq in auto)
    then show ?thesis
      using inw st by (auto simp: chunk_ready_def fields steps(2))
  qed
  show ?thesis
    using wf' fields ready True by (simp add: window_moved_def center)
qed
lemma chunk_ready_pos [simp]: "chunk_ready (r\<lparr>ring_pos := t\<rparr>) c = chunk_ready r c"
  by (simp add: chunk_ready_def)

lemma window_moved_pos:
  "window_moved (r\<lparr>ring_pos := t\<rparr>) r' \<longleftrightarrow> window_moved r r'"
  by (simp add: window_moved_def same_file_def)

text \<open>A jump of the window, before the centering: which slots the chunks that leave hold.\<close>

lemma jump_forward_moved:
  assumes wf: "ring_wf r" and t: "ring_end r < t" "t < total_chunks r"
    and delta: "delta = t - ring_end r"
    and st: "states = (if delta \<ge> ring_size r then replicate (ring_size r) False
                       else free_slots True 0 delta r (read_state r))"
    and r': "r' = r\<lparr>read_state := states, ring_pos := t, ring_begin := ring_begin r + delta,
                  ring_end := t\<rparr>"
  shows "window_moved r r'"
proof -
  note w = ring_wfD[OF wf]
  have len: "length states = ring_size r" by (simp add: st)
  have n: "window_size r = ring_size r"
    using w t by (auto simp: window_size_def min_def split: if_splits)
  have "ring_begin r + delta + ring_size r = Suc t" "ring_begin r + delta \<le> t"
    using w t n delta by linarith+
  then have wf': "ring_wf r'"
    using wf t n by (simp add: ring_wf_def window_size_def r' len)
  have "chunk_ready r' c \<longleftrightarrow> chunk_ready r c \<and> ring_begin r' \<le> c \<and> c \<le> ring_end r'" for c
  proof (cases "ring_begin r + delta \<le> c \<and> c \<le> t")
    case False
    then show ?thesis by (auto simp: chunk_ready_def r')
  next
    case inw: True
    show ?thesis
    proof (cases "delta \<ge> ring_size r")
      case True
      then have "ring_end r < c" using inw n w by simp
      then show ?thesis using True w inw by (simp add: chunk_ready_def r' st)
    next
      case False
      have free: "states ! (c mod ring_size r) \<longleftrightarrow> read_state r ! (c mod ring_size r) \<and>
          (\<forall>j < delta. (ring_begin r + j) mod ring_size r \<noteq> c mod ring_size r)"
        using False w t delta by (simp add: st nth_free_slots add64_exact)
      show ?thesis
      proof (cases "c \<le> ring_end r")
        case True
        have "(ring_begin r + j) mod ring_size r \<noteq> c mod ring_size r" if "j < delta" for j
          using that inw True n w window_slot_inj[of "ring_begin r" "ring_begin r + j" "ring_size r" c]
            False by simp
        then show ?thesis using free inw True by (simp add: chunk_ready_def r' len)
      next
        case after: False
        define j where "j = c - ring_size r - ring_begin r"
        have j: "j < delta" "c = ring_begin r + j + ring_size r"
          using after inw n w delta by (auto simp: j_def)
        have "(ring_begin r + j) mod ring_size r = c mod ring_size r"
          unfolding j(2) by simp
        then have "\<not> states ! (c mod ring_size r)"
          using free j(1) by blast
        then show ?thesis using after by (simp add: chunk_ready_def r' len)
      qed
    qed
  qed
  then show ?thesis
    using wf' by (simp add: window_moved_def r' same_file_def len)
qed

lemma jump_reverse_moved:
  assumes wf: "ring_wf r" and t: "t < ring_begin r"
    and delta: "delta = ring_begin r - t"
    and st: "states = (if delta \<ge> ring_size r then replicate (ring_size r) False
                       else free_slots False 0 delta r (read_state r))"
    and r': "r' = r\<lparr>read_state := states, ring_pos := t, ring_begin := t,
                  ring_end := t + ring_size r - 1\<rparr>"
  shows "window_moved r r'"
proof -
  note w = ring_wfD[OF wf]
  have len: "length states = ring_size r" by (simp add: st)
  have n: "window_size r = ring_size r"
    using w t by (auto simp: window_size_def min_def split: if_splits)
  have e: "ring_end r = ring_begin r + ring_size r - 1" using w n by simp
  have "t + ring_size r = Suc (t + ring_size r - 1)" "t + ring_size r - 1 < total_chunks r"
    "t \<le> t + ring_size r - 1"
    using w t e by linarith+
  then have wf': "ring_wf r'"
    using wf n by (simp add: ring_wf_def window_size_def r' len)
  have "chunk_ready r' c \<longleftrightarrow> chunk_ready r c \<and> ring_begin r' \<le> c \<and> c \<le> ring_end r'" for c
  proof (cases "t \<le> c \<and> c \<le> t + ring_size r - 1")
    case False
    then show ?thesis by (auto simp: chunk_ready_def r')
  next
    case inw: True
    show ?thesis
    proof (cases "delta \<ge> ring_size r")
      case True
      then have "c < ring_begin r" using inw w delta by linarith
      then show ?thesis using True w inw by (simp add: chunk_ready_def r' st)
    next
      case False
      have free: "states ! (c mod ring_size r) \<longleftrightarrow> read_state r ! (c mod ring_size r) \<and>
          (\<forall>j < delta. (ring_end r - j) mod ring_size r \<noteq> c mod ring_size r)"
        using False w t delta e by (simp add: st nth_free_slots sub64_exact)
      show ?thesis
      proof (cases "ring_begin r \<le> c")
        case True
        have "(ring_end r - j) mod ring_size r \<noteq> c mod ring_size r" if "j < delta" for j
        proof -
          have "ring_begin r \<le> ring_end r - j" "ring_end r - j < ring_begin r + ring_size r"
            "c < ring_begin r + ring_size r" "c < ring_end r - j"
            using that inw e delta w False by linarith+
          then show ?thesis
            using True window_slot_inj[of "ring_begin r" "ring_end r - j" "ring_size r" c] by simp
        qed
        moreover have "c \<le> ring_end r" using inw e delta t by linarith
        ultimately show ?thesis using free inw True by (auto simp: chunk_ready_def r' len)
      next
        case before: False
        define j where "j = ring_begin r - 1 - c"
        have j: "j < delta" "ring_end r - j = c + ring_size r"
          using before inw e w delta by (auto simp: j_def)
        have "(ring_end r - j) mod ring_size r = c mod ring_size r"
          unfolding j(2) by simp
        then have "\<not> states ! (c mod ring_size r)"
          using free j(1) by blast
        then show ?thesis using before by (simp add: chunk_ready_def r' len)
      qed
    qed
  qed
  then show ?thesis
    using wf' by (simp add: window_moved_def r' same_file_def len)
qed
lemma window_moved_trans:
  assumes "window_moved r s" "window_moved s t"
    and "\<And>c. chunk_ready r c \<Longrightarrow> ring_begin t \<le> c \<Longrightarrow> c \<le> ring_end t \<Longrightarrow>
      ring_begin s \<le> c \<and> c \<le> ring_end s"
  shows "window_moved r t"
  using assms unfolding window_moved_def by (metis same_file_trans)

definition target_pos :: "nat \<Rightarrow> bool \<Rightarrow> 's ring \<Rightarrow> nat" where
  "target_pos count is_forward r =
    (if is_forward then min (ring_pos r + count) (total_chunks r - 1) else ring_pos r - count)"

lemma update_position_inside:
  assumes wf: "ring_wf r" and count: "0 < count" "count < 2 ^ 63"
    and t: "t = target_pos count fwd r"
    and ins: "if fwd then t \<le> ring_end r else ring_begin r \<le> t"
  shows "update_position count fwd r = center_ring (r\<lparr>ring_pos := t\<rparr>)"
proof -
  note w = ring_wfD[OF wf]
  have b: "ring_pos r + count < 2 ^ 64" "total_chunks r - 1 < 2 ^ 64" "1 \<le> total_chunks r"
    "total_chunks r < 2 ^ 64" "ring_pos r \<le> total_chunks r - 1"
    using w count by auto
  show ?thesis
  proof (cases fwd)
    case True
    define n where "n = (if ring_pos r + count > total_chunks r - 1
      then total_chunks r - 1 - ring_pos r else count)"
    have n: "(if add64 (ring_pos r) count > sub64 (total_chunks r) 1
        then sub64 (sub64 (total_chunks r) 1) (ring_pos r) else count) = n"
      using b by (simp add: arith64 n_def)
    have "n < 2 ^ 63" "ring_pos r + n = t"
      using w(4) count b True by (auto simp: n_def t target_pos_def min_def)
    then have "add64 (ring_pos r) n = t"
      using w(4,6,8) by (simp add: add64_exact)
    then show ?thesis
      using count(1) True ins by (simp add: update_position_def Let_def n del: One_nat_def)
  next
    case False
    have "sub64 (ring_pos r) (min (ring_pos r) count) = t"
      using w t False by (simp add: sub64_exact target_pos_def)
    then show ?thesis
      using False count ins by (simp add: update_position_def Let_def)
  qed
qed

lemma update_position_forward_outside:
  assumes wf: "ring_wf r" and count: "0 < count" "count < 2 ^ 63"
    and t: "t = target_pos count True r" and outs: "ring_end r < t"
    and delta: "delta = t - ring_end r"
    and st: "states = (if delta \<ge> ring_size r then replicate (ring_size r) False
                       else free_slots True 0 delta r (read_state r))"
  shows "update_position count True r = center_ring (r\<lparr>read_state := states, ring_pos := t,
      ring_begin := ring_begin r + delta, ring_end := t\<rparr>)"
proof -
  note w = ring_wfD[OF wf]
  define n where "n = (if ring_pos r + count > total_chunks r - 1
    then total_chunks r - 1 - ring_pos r else count)"
  have n: "ring_pos r + n = t" "n - (ring_end r - ring_pos r) = delta" "n < 2 ^ 63"
  proof -
    show a: "ring_pos r + n = t"
      using w(7,8) w(6) t by (simp add: n_def target_pos_def min_def)
    show "n - (ring_end r - ring_pos r) = delta"
      using w(8) a outs delta by linarith
    show "n < 2 ^ 63"
      using count w(4) by (auto simp: n_def)
  qed
  have tt: "t \<le> total_chunks r - 1" using t by (simp add: target_pos_def)
  have "window_size r = ring_size r"
    using w(6,9) outs tt by (simp add: window_size_def min_def split: if_splits)
  then have size: "ring_begin r + delta + ring_size r = Suc t"
    using w(9) outs delta by linarith
  have b: "ring_pos r + count < 2 ^ 64" "t < 2 ^ 62" "ring_begin r + delta + ring_size r < 2 ^ 64"
    "ring_begin r + delta < 2 ^ 64"
    using w count tt size by auto
  have c64: "(if add64 (ring_pos r) count > sub64 (total_chunks r) 1
      then sub64 (sub64 (total_chunks r) 1) (ring_pos r) else count) = n"
    using w b by (simp add: arith64 n_def)
  have d64: "sub64 n (sub64 (ring_end r) (ring_pos r)) = delta"
    using w n outs by (simp add: sub64_exact)
  have p64: "add64 (ring_pos r) n = t" and b64: "add64 (ring_begin r) delta = ring_begin r + delta"
    using n b by (simp_all add: add64_exact)
  have e64: "min (sub64 (total_chunks r) 1)
      (sub64 (add64 (add64 (ring_begin r) delta) (ring_size r)) 1) = t"
    using w(3,4) b size tt by (simp add: arith64)
  show ?thesis
    using count(1) outs
    by (simp add: update_position_def Let_def c64 d64 p64 e64 st[symmetric] del: One_nat_def)
      (simp add: b64)
qed

lemma update_position_reverse_outside:
  assumes wf: "ring_wf r" and count: "0 < count"
    and t: "t = target_pos count False r" and outs: "t < ring_begin r"
    and delta: "delta = ring_begin r - t"
    and st: "states = (if delta \<ge> ring_size r then replicate (ring_size r) False
                       else free_slots False 0 delta r (read_state r))"
  shows "update_position count False r = center_ring (r\<lparr>read_state := states, ring_pos := t,
      ring_begin := t, ring_end := t + ring_size r - 1\<rparr>)"
proof -
  note w = ring_wfD[OF wf]
  define n where "n = min (ring_pos r) count"
  have n: "ring_pos r - n = t" "n \<le> ring_pos r" "n - (ring_pos r - ring_begin r) = delta"
    "ring_begin r - delta = t" "ring_pos r - ring_begin r \<le> n" "delta \<le> ring_begin r"
    using w count t outs delta by (auto simp: n_def target_pos_def)
  have size: "t + ring_size r \<le> total_chunks r"
    using w outs by (auto simp: window_size_def min_def split: if_splits)
  have d64: "sub64 n (sub64 (ring_pos r) (ring_begin r)) = delta"
    and p64: "sub64 (ring_pos r) n = t" and b64: "sub64 (ring_begin r) delta = t"
    using w n by (simp_all add: sub64_exact)
  have e64: "min (sub64 (total_chunks r) 1) (sub64 (add64 t (ring_size r)) 1) = t + ring_size r - 1"
  proof -
    have "t + ring_size r < 2 ^ 64" "1 \<le> t + ring_size r" "1 \<le> total_chunks r"
      "total_chunks r < 2 ^ 64"
      using w(2-6) size by (auto simp: Suc_le_eq simp del: length_greater_0_conv)
    then show ?thesis using size by (simp add: arith64)
  qed
  show ?thesis
    using count outs
    by (simp add: update_position_def Let_def n_def[symmetric] d64 p64 b64 e64[simplified]
        st[symmetric])
qed
lemma ring_wf_pos:
  "ring_wf r \<Longrightarrow> ring_begin r \<le> t \<Longrightarrow> t \<le> ring_end r \<Longrightarrow> ring_wf (r\<lparr>ring_pos := t\<rparr>)"
  unfolding ring_wf_def window_size_def by auto

lemma target_pos_less: "ring_wf r \<Longrightarrow> target_pos count fwd r < total_chunks r"
  using ring_wfD[of r] by (auto simp: target_pos_def min_def)

lemma update_position_moved:
  assumes wf: "ring_wf r" and count: "count < 2 ^ 63"
  shows "window_moved r (update_position count fwd r) \<and>
    ring_pos (update_position count fwd r) = target_pos count fwd r"
proof (cases "count = 0")
  case True
  then show ?thesis
    using window_moved_refl[OF wf] ring_wfD[OF wf]
    by (simp add: update_position_def target_pos_def)
next
  case False
  note w = ring_wfD[OF wf]
  define t where "t = target_pos count fwd r"
  have dir: "if fwd then ring_pos r \<le> t else t \<le> ring_pos r"
    using w(6,8) by (auto simp: t_def target_pos_def)
  have tl: "t < total_chunks r" using target_pos_less[OF wf] by (simp add: t_def)
  consider (ins) "if fwd then t \<le> ring_end r else ring_begin r \<le> t"
    | (fwd) fwd "ring_end r < t" | (rev) "\<not> fwd" "t < ring_begin r"
    using dir by (cases fwd) force+
  then show ?thesis
  proof cases
    case ins
    have "ring_begin r \<le> t" "t \<le> ring_end r"
      using ins dir w by (auto split: if_splits)
    then show ?thesis
      using update_position_inside[OF wf _ count t_def ins] False
        center_ring_moved[OF ring_wf_pos[OF wf, of t]]
      by (simp add: window_moved_pos t_def)
  next
    case fwd
    let ?j = "r\<lparr>read_state := (if t - ring_end r \<ge> ring_size r then replicate (ring_size r) False
        else free_slots True 0 (t - ring_end r) r (read_state r)), ring_pos := t,
        ring_begin := ring_begin r + (t - ring_end r), ring_end := t\<rparr>"
    have jump: "window_moved r ?j"
      using jump_forward_moved[OF wf fwd(2) tl refl refl refl] .
    have "update_position count fwd r = center_ring ?j"
      using update_position_forward_outside[OF wf _ count _ fwd(2) refl refl] False fwd(1)
      by (simp add: t_def)
    moreover have "ring_wf ?j" using jump by (simp add: window_moved_def)
    note c = center_ring_moved[OF this]
    have "window_moved r (center_ring ?j)"
      using fwd(2) c by (intro window_moved_trans[OF jump]) (auto simp: chunk_ready_def)
    ultimately show ?thesis using c by (simp add: t_def)
  next
    case rev
    let ?j = "r\<lparr>read_state := (if ring_begin r - t \<ge> ring_size r then replicate (ring_size r) False
        else free_slots False 0 (ring_begin r - t) r (read_state r)), ring_pos := t,
        ring_begin := t, ring_end := t + ring_size r - 1\<rparr>"
    have jump: "window_moved r ?j"
      using jump_reverse_moved[OF wf rev(2) refl refl refl] .
    then have wfj: "ring_wf ?j" by (simp add: window_moved_def)
    have cj: "center_ring ?j = ?j"
      using center_ring_moved[OF wfj] by simp
    have "update_position count fwd r = center_ring ?j"
      using update_position_reverse_outside[OF wf _ _ rev(2) refl refl] False rev(1)
      by (simp add: t_def)
    then show ?thesis
      using jump unfolding cj by (simp add: t_def)
  qed
qed
lemma constructed_ring_wf:
  assumes c: "ring_buffer_base cs fs dir n disable_io st = Inr r"
    and sizes: "0 < cs" "0 < fs" "fs + cs < 2 ^ 62" "0 < n" "n < 2 ^ 62"
  shows "ring_wf r \<and> (\<forall>c. \<not> chunk_ready r c) \<and> active_downloads r = {} \<and> \<not> ring_stop r \<and>
    is_dir r = dir \<and> chunk_size r = cs \<and> file_size r = fs \<and> store r = st \<and>
    ring_size r = (if disable_io then min (divide_with_ceiling fs cs) n else n)"
proof -
  let ?t = "divide_with_ceiling fs cs"
  note t = total_chunks_bounds[OF sizes(1,2)]
  define m where "m = (if disable_io then min ?t n else n)"
  have m: "0 < m" "m < 2 ^ 62" "min m ?t = min n ?t"
    using t sizes by (auto simp: m_def)
  have e: "min (sub64 ?t 1) (sub64 (add64 0 m) 1) = min ?t m - 1"
    using t sizes m by (auto simp: arith64 min_def)
  have r: "r = \<lparr>is_dir = dir, chunk_size = cs, file_size = fs,
      last_chunk_size = last_chunk_size_of fs cs, total_chunks = ?t,
      read_state = replicate m False, ring_begin = 0, ring_end = min ?t m - 1, ring_pos = 0,
      has_reader_thread = False, ring_stop = False, active_downloads = {}, store = st\<rparr>"
    using c sizes(2) e unfolding ring_buffer_base_def Let_def
    by (cases disable_io) (auto simp: m_def split: if_splits)
  have "0 + min m ?t = Suc (min ?t m - 1)" "min ?t m - 1 < ?t" "m < 2 ^ 62" "0 < m"
    using t m by (auto simp: min.commute)
  then have "ring_wf r"
    using sizes by (simp add: r ring_wf_def window_size_def)
  moreover have "\<not> chunk_ready r c" for c
    using m by (simp add: r chunk_ready_def)
  ultimately show ?thesis by (simp add: r m_def)
qed

text \<open>
  C27. A move of the window (\<open>forward\<close>, \<open>reverse\<close>, with the centering after it) from a well-formed
  ring leaves a well-formed ring at the clamped position, loses no chunk that stays inside the
  window, and marks no chunk as read that was not: the slots that are freed are exactly those
  of the chunks that enter.
\<close>

theorem update_position_window:
  assumes "ring_wf r" "count < 2 ^ 63" "r' = update_position count is_forward r"
  shows "ring_wf r' \<and>
    ring_pos r' = (if is_forward then min (ring_pos r + count) (total_chunks r - 1)
                   else ring_pos r - count) \<and>
    ring_begin r' \<le> ring_pos r' \<and> ring_pos r' \<le> ring_end r' \<and>
    (\<forall>c. chunk_ready r' c \<longleftrightarrow> chunk_ready r c \<and> ring_begin r' \<le> c \<and> c \<le> ring_end r')"
  using update_position_moved[OF assms(1,2), of is_forward] assms(3) ring_wfD(7,8)[of r']
  by (simp add: window_moved_def target_pos_def)

lemma center_steps_numeral:
  "center_steps (numeral k) r =
    (let e = add64 (ring_end r) 1 in
     center_steps (pred_numeral k) (r\<lparr>ring_begin := add64 (ring_begin r) 1, ring_end := e,
       read_state := (read_state r)[e mod ring_size r := False]\<rparr>))"
  by (simp add: numeral_eq_Suc)

definition example_ring :: "unit ring" where
  "example_ring = \<lparr>is_dir = False, chunk_size = 4, file_size = 39, last_chunk_size = 3,
     total_chunks = 10, read_state = [True, True, False, True, True], ring_begin = 0,
     ring_end = 4, ring_pos = 1, has_reader_thread = False, ring_stop = False,
     active_downloads = {}, store = ()\<rparr>"

theorem update_position_window_witness:
  "ring_pos (update_position 5 True example_ring) = 6 \<and>
   chunk_ready (update_position 5 True example_ring) 4 \<and>
   \<not> chunk_ready (update_position 5 True example_ring) 5"
proof -
  have wf: "ring_wf example_ring"
    by (simp add: example_ring_def ring_wf_def window_size_def divide_with_ceiling_def
        last_chunk_size_of_def)
  have "ring_end (update_position 5 True example_ring) = 8"
    "ring_begin (update_position 5 True example_ring) = 4"
    by (simp_all add: example_ring_def update_position_def center_ring_def add64_def sub64_def
        Let_def center_steps_numeral)
  moreover have "ring_pos example_ring = 1" "total_chunks example_ring = 10"
    "chunk_ready example_ring 4" "\<not> chunk_ready example_ring 5"
    by (simp_all add: example_ring_def chunk_ready_def)
  ultimately show ?thesis
    using update_position_window[OF wf, of 5 _ True] by simp
qed

section \<open>What the background readers do\<close>

lemma reader_next_forward:
  assumes "ring_begin r \<le> ring_pos r" "ring_pos r + 1 < 2 ^ 64" "snd v \<le> fst v"
  shows "fst (reader_next True v r) = ring_pos r \<and> snd (reader_next True v r) \<le> ring_pos r"
proof -
  obtain l n where v: "v = (l, n)" by (cases v)
  have "n + 1 < 2 ^ 64" if "l = ring_pos r" using assms(2,3) that v by simp
  then show ?thesis
    using assms by (auto simp: reader_next_def v add64_exact Let_def split: if_splits)
qed

lemma reader_iteration_marker:
  assumes "fst (reader_next True v r) = ring_pos r" "snd (reader_next True v r) \<le> ring_pos r"
  shows "snd (fst (reader_iteration True v r w)) \<le> fst (fst (reader_iteration True v r w))"
    and "snd (reader_iteration True v r w) = Download c \<Longrightarrow> c \<le> ring_pos r"
  using assms by (auto simp: reader_iteration_def Let_def split: prod.splits if_splits)

lemma reader_run_ahead:
  assumes "snd v \<le> fst v"
    and "\<forall>(r, w) \<in> set rs. ring_begin r \<le> ring_pos r \<and> ring_pos r + 1 < 2 ^ 64"
    and "i < length (reader_run True v rs)" "reader_run True v rs ! i = Download c"
  shows "c \<le> ring_pos (fst (rs ! i))"
  using assms
proof (induction rs arbitrary: v i)
  case Nil
  then show ?case by simp
next
  case (Cons p rs)
  obtain r w where p: "p = (r, w)" by (cases p)
  obtain v' a where it: "reader_iteration True v r w = (v', a)"
    by (cases "reader_iteration True v r w")
  have nx: "fst (reader_next True v r) = ring_pos r" "snd (reader_next True v r) \<le> ring_pos r"
    using reader_next_forward[of r v] Cons.prems by (auto simp: p)
  note m = reader_iteration_marker[OF nx, of w, unfolded it, simplified]
  show ?case
  proof (cases i)
    case 0
    then show ?thesis using Cons.prems(4) m(2) it by (simp add: p)
  next
    case (Suc j)
    then show ?thesis
      using Cons.IH[of v' j] Cons.prems m(1) it by (auto simp: p split: if_splits)
  qed
qed

text \<open>
  The forward reader thread never reads ahead: whatever states it finds, every chunk it
  downloads is at or before the position of the moment.
\<close>

theorem forward_reader_never_ahead:
  assumes "\<forall>(r, w) \<in> set rs. ring_begin r \<le> ring_pos r \<and> ring_pos r + 1 < 2 ^ 64"
    and "i < length (reader_run True (reader_start True r0) rs)"
    and "reader_run True (reader_start True r0) rs ! i = Download c"
  shows "c \<le> ring_pos (fst (rs ! i))"
  using reader_run_ahead[OF _ assms] by (simp add: reader_start_def)

theorem forward_reader_never_ahead_witness:
  "reader_run True (reader_start True example_ring)
      [(example_ring\<lparr>read_state := replicate 5 False\<rparr>, example_ring)] = [Download 1] \<and>
   1 \<le> ring_pos example_ring"
proof -
  let ?rs = "[(example_ring\<lparr>read_state := replicate 5 False\<rparr>, example_ring)]"
  have run: "reader_run True (reader_start True example_ring) ?rs = [Download 1]"
    by (simp add: reader_start_def reader_iteration_def reader_next_def example_ring_def add64_def)
  have "1 \<le> ring_pos (fst (?rs ! 0))"
    by (rule forward_reader_never_ahead[of ?rs 0 example_ring 1], unfold run)
      (simp_all add: example_ring_def)
  then show ?thesis using run by simp
qed

lemma reader_spin:
  assumes "reader_next fwd v r = v" "read_state r ! (snd v mod ring_size r)" "\<not> ring_stop r"
    and "if fwd then has_unread_forward r else has_unread_reverse r"
  shows "reader_run fwd v (replicate n (r, w)) = replicate n Spun"
proof (induction n)
  case (Suc n)
  have "reader_iteration fwd v r w = (v, Spun)"
    using assms by (cases v) (auto simp: reader_iteration_def)
  then show ?case using Suc.IH by simp
qed simp

text \<open>
  The readers busy-wait.  While the current chunk is in the ring and a later one is not, the
  forward reader started there runs any number of iterations without downloading anything or
  waiting; the same holds for the reverse reader once it has reached the beginning of the
  window, if the position has moved past a chunk that is not read.
\<close>

theorem readers_busy_wait:
  assumes "ring_wf r" "\<not> ring_stop r"
    and "if is_forward then ring_pos r < ring_end r \<and> chunk_ready r (ring_pos r) \<and> has_unread_forward r
         else chunk_ready r (ring_begin r) \<and> has_unread_reverse r"
    and "v = (if is_forward then reader_start True r else (ring_begin r, ring_begin r))"
  shows "reader_run is_forward v (replicate n (r, woken)) = replicate n Spun"
proof (rule reader_spin)
  have w: "ring_pos r + 1 < 2 ^ 64" "ring_begin r \<le> ring_pos r"
    using ring_wfD[OF assms(1)] by auto
  show "reader_next is_forward v r = v"
    using assms(3,4) w by (auto simp: reader_next_def reader_start_def add64_exact)
  show "read_state r ! (snd v mod ring_size r)"
    using assms(3,4) by (auto simp: reader_start_def chunk_ready_def)
qed (use assms in auto)

theorem readers_busy_wait_witness:
  "reader_run True (reader_start True example_ring) (replicate 3 (example_ring, example_ring))
     = [Spun, Spun, Spun]"
proof -
  have wf: "ring_wf example_ring"
    by (simp add: example_ring_def ring_wf_def window_size_def divide_with_ceiling_def
        last_chunk_size_of_def)
  have u: "[Suc (ring_pos example_ring)..<Suc (ring_end example_ring)] = [2, 3, 4]"
    by (simp add: example_ring_def upt_rec)
  have "has_unread_forward example_ring"
    unfolding has_unread_forward_def u by (simp add: example_ring_def)
  moreover have "\<not> ring_stop example_ring" "ring_pos example_ring < ring_end example_ring"
    "chunk_ready example_ring (ring_pos example_ring)"
    by (simp_all add: example_ring_def chunk_ready_def)
  ultimately show ?thesis
    using readers_busy_wait[OF wf, of True "reader_start True example_ring" 3 example_ring]
    by (simp add: numeral_3_eq_3)
qed

end
