(* ===== verification/Ring_Store.thy ===== *)
theory Ring_Store imports Ring_Buffer begin

text \<open>
  The contract between ring_buffer_base and the classes that own the chunks' bytes
  (direct_open_file, ring_buffer_open_file), as the locale \<open>ring_store\<close>, and what reading
  through it returns.  \<open>inv cs n s\<close> is the provider's invariant for chunk size \<open>cs\<close> and \<open>n\<close> slots,
  \<open>content cs s k\<close> the bytes in slot \<open>k\<close>, \<open>started s\<close> that \<open>on_check_start\<close> has set the store up,
  \<open>healthy s\<close> that its I/O does not fail.
\<close>

locale ring_store =
  fixes ops :: "'s ring_ops"
    and inv :: "nat \<Rightarrow> nat \<Rightarrow> 's \<Rightarrow> bool"
    and content :: "nat \<Rightarrow> 's \<Rightarrow> nat \<Rightarrow> bytes"
    and started :: "'s \<Rightarrow> bool"
    and healthy :: "'s \<Rightarrow> bool"
  assumes start_inv: "inv (chunk_size r) (ring_size r) (store r) \<Longrightarrow>
      on_check_start ops r = (b, st) \<Longrightarrow>
      inv (chunk_size r) (ring_size r) st \<and> (b \<noteq> None \<longrightarrow> started st) \<and>
      (started (store r) \<longrightarrow> st = store r)"
    and start_healthy: "healthy (store r) \<Longrightarrow>
      \<exists>b st. on_check_start ops r = (Some b, st) \<and> healthy st"
    and use_inv: "inv (chunk_size r) (ring_size r) (store r) \<Longrightarrow> started (store r) \<Longrightarrow>
      0 < ring_size r \<Longrightarrow>
      inv (chunk_size r) (ring_size r) (use_buffer ops r c d) \<and> started (use_buffer ops r c d) \<and>
      (healthy (store r) \<longrightarrow> healthy (use_buffer ops r c d)) \<and>
      (\<forall>k < ring_size r. k \<noteq> c mod ring_size r \<longrightarrow>
         content (chunk_size r) (use_buffer ops r c d) k = content (chunk_size r) (store r) k)"
    and commit_inv: "inv (chunk_size r) (ring_size r) (store r) \<Longrightarrow> started (store r) \<Longrightarrow>
      0 < ring_size r \<Longrightarrow> length d \<le> chunk_size r \<Longrightarrow>
      on_chunk_downloaded ops r c d = (res, st) \<Longrightarrow>
      inv (chunk_size r) (ring_size r) st \<and> started st \<and> res \<noteq> invalid_ring_buffer_position \<and>
      (healthy (store r) \<longrightarrow> healthy st \<and> res = success) \<and>
      (\<forall>k < ring_size r. k \<noteq> c mod ring_size r \<longrightarrow>
         content (chunk_size r) st k = content (chunk_size r) (store r) k)"
    and commit_data: "inv (chunk_size r) (ring_size r) (store r) \<Longrightarrow> started (store r) \<Longrightarrow>
      0 < ring_size r \<Longrightarrow> length d \<le> chunk_size r \<Longrightarrow>
      on_chunk_downloaded ops (r\<lparr>store := use_buffer ops r c d\<rparr>) c d = (success, st) \<Longrightarrow>
      take (length d) (content (chunk_size r) st (c mod ring_size r)) = d"
    and read_data: "inv (chunk_size r) (ring_size r) (store r) \<Longrightarrow> started (store r) \<Longrightarrow>
      0 < ring_size r \<Longrightarrow> length d \<le> chunk_size r \<Longrightarrow> off + m \<le> length d \<Longrightarrow>
      take (length d) (content (chunk_size r) (store r) (c mod ring_size r)) = d \<Longrightarrow>
      on_read_chunk ops r c m off = (res, bs, k) \<Longrightarrow>
      (res = success \<longrightarrow> bs = slice off m d \<and> k = m) \<and> (healthy (store r) \<longrightarrow> res = success)"

section \<open>The chunks of a file\<close>

definition chunk_len :: "'s ring \<Rightarrow> nat \<Rightarrow> nat" where
  "chunk_len r c = (if c = total_chunks r - 1 then last_chunk_size r else chunk_size r)"

definition chunk_data :: "'s ring \<Rightarrow> bytes \<Rightarrow> nat \<Rightarrow> bytes" where
  "chunk_data r remote c = slice (c * chunk_size r) (chunk_len r c) remote"

lemma chunk_len_props:
  assumes wf: "ring_wf r" and c: "c < total_chunks r"
  shows "0 < chunk_len r c" "chunk_len r c \<le> chunk_size r"
    "c * chunk_size r + chunk_len r c = min ((c + 1) * chunk_size r) (file_size r)"
proof -
  have w: "0 < chunk_size r" "0 < file_size r"
    "total_chunks r = divide_with_ceiling (file_size r) (chunk_size r)"
    "last_chunk_size r = last_chunk_size_of (file_size r) (chunk_size r)"
    using wf by (auto simp: ring_wf_def)
  have "chunk_len r c = (if c = divide_with_ceiling (file_size r) (chunk_size r) - 1
      then file_size r - (divide_with_ceiling (file_size r) (chunk_size r) - 1) * chunk_size r
      else chunk_size r)"
    unfolding chunk_len_def w(3,4) last_chunk_size_of_eq[OF w(1,2)] ..
  from chunk_span[OF w(1,2) c[unfolded w(3)] this]
  show "0 < chunk_len r c" "chunk_len r c \<le> chunk_size r"
    "c * chunk_size r + chunk_len r c = min ((c + 1) * chunk_size r) (file_size r)" .
qed

lemma length_chunk_data:
  assumes "ring_wf r" "c < total_chunks r" "length remote = file_size r"
  shows "length (chunk_data r remote c) = chunk_len r c"
  using chunk_len_props[OF assms(1,2)] assms(3) by (auto simp: chunk_data_def)

section \<open>Reading through the contract\<close>

lemma window_slot_eq:
  assumes "ring_wf r" "ring_begin r \<le> c" "c \<le> ring_end r" "ring_begin r \<le> d" "d \<le> ring_end r"
  shows "c mod ring_size r = d mod ring_size r \<longleftrightarrow> c = d"
proof -
  have "Suc (ring_end r) \<le> ring_begin r + ring_size r"
    using ring_wfD(9)[OF assms(1)] by (simp add: window_size_def)
  then show ?thesis using assms(2-5) by (intro window_slot_inj[of "ring_begin r"]) auto
qed

lemma ring_wf_store [simp]: "ring_wf (r\<lparr>store := st\<rparr>) = ring_wf r"
  by (simp add: ring_wf_def window_size_def)

lemma ring_wf_active [simp]: "ring_wf (r\<lparr>active_downloads := A\<rparr>) = ring_wf r"
  by (simp add: ring_wf_def window_size_def)

lemma ring_wf_read_state [simp]:
  "length bs = ring_size r \<Longrightarrow> ring_wf (r\<lparr>read_state := bs\<rparr>) = ring_wf r"
  by (simp add: ring_wf_def window_size_def)

lemma chunk_ready_store [simp]:
  "chunk_ready (r\<lparr>store := st\<rparr>) c = chunk_ready r c"
  "chunk_ready (r\<lparr>active_downloads := A\<rparr>) c = chunk_ready r c"
  by (simp_all add: chunk_ready_def)

lemma chunk_data_update [simp]:
  "chunk_data (r\<lparr>store := st\<rparr>) remote c = chunk_data r remote c"
  "chunk_data (r\<lparr>active_downloads := A\<rparr>) remote c = chunk_data r remote c"
  "chunk_len (r\<lparr>store := st\<rparr>) c = chunk_len r c"
  "chunk_len (r\<lparr>active_downloads := A\<rparr>) c = chunk_len r c"
  by (simp_all add: chunk_data_def chunk_len_def)

text \<open>What a provider promises of \<open>read_file_bytes\<close>: if it succeeds, the bytes are the file's.\<close>

definition fetch_ok :: "bytes \<Rightarrow> (nat \<Rightarrow> nat \<Rightarrow> api_error \<times> bytes) \<Rightarrow> bool" where
  "fetch_ok remote fetch \<longleftrightarrow>
    (\<forall>sz off. fst (fetch sz off) \<noteq> invalid_ring_buffer_position \<and>
       (fst (fetch sz off) = success \<longrightarrow> snd (fetch sz off) = slice off sz remote))"

definition fetch_succeeds :: "(nat \<Rightarrow> nat \<Rightarrow> api_error \<times> bytes) \<Rightarrow> bool" where
  "fetch_succeeds fetch \<longleftrightarrow> (\<forall>sz off. fst (fetch sz off) = success)"

context ring_store begin

definition good :: "bytes \<Rightarrow> 's ring \<Rightarrow> bool" where
  "good remote r \<longleftrightarrow> ring_wf r \<and> length remote = file_size r \<and>
    inv (chunk_size r) (ring_size r) (store r) \<and>
    (\<forall>c. chunk_ready r c \<longrightarrow> started (store r) \<and>
       take (chunk_len r c) (content (chunk_size r) (store r) (c mod ring_size r))
         = chunk_data r remote c)"

lemma chunk_len_same_file: "same_file r r' \<Longrightarrow> chunk_len r' c = chunk_len r c"
  by (simp add: chunk_len_def same_file_def)

lemma chunk_data_same_file: "same_file r r' \<Longrightarrow> chunk_data r' remote c = chunk_data r remote c"
  by (simp add: chunk_data_def chunk_len_same_file) (simp add: same_file_def)

lemma good_moved:
  assumes "good remote r" "window_moved r r'"
  shows "good remote r'"
proof -
  have s: "same_file r r'" and st: "store r' = store r" and wf: "ring_wf r'"
    and rdy: "\<And>c. chunk_ready r' c \<Longrightarrow> chunk_ready r c"
    using assms(2) by (auto simp: window_moved_def)
  show ?thesis
    using assms(1) wf rdy s st
    by (auto simp: good_def chunk_len_same_file[OF s] chunk_data_same_file[OF s])
      (auto simp: same_file_def)
qed

lemma check_start_good:
  assumes g: "good remote r" and cs: "check_start ops r = (res, r')"
  shows "good remote r' \<and> same_file r r' \<and> active_downloads r' = active_downloads r \<and>
    ring_pos r' = ring_pos r \<and>
    (res = success \<longrightarrow> started (store r')) \<and> res \<noteq> invalid_ring_buffer_position \<and>
    (healthy (store r) \<longrightarrow> res = success \<and> healthy (store r'))"
proof -
  obtain b st where p: "on_check_start ops r = (b, st)" by (cases "on_check_start ops r")
  have i: "inv (chunk_size r) (ring_size r) st" "b \<noteq> None \<longrightarrow> started st"
    "started (store r) \<longrightarrow> st = store r"
    using start_inv[of r b st] g p by (auto simp: good_def)
  have r': "store r' = st" "same_file r r'" "ring_wf r' = ring_wf r"
    "active_downloads r' = active_downloads r" "ring_pos r' = ring_pos r"
    "\<And>c. chunk_ready r' c = chunk_ready r c" "chunk_size r' = chunk_size r"
    "ring_size r' = ring_size r" "file_size r' = file_size r"
    "res = (if b = None then error else success)"
    using cs p by (auto simp: check_start_def same_file_def ring_wf_def window_size_def
        chunk_ready_def split: option.splits bool.splits)
  have "healthy (store r) \<longrightarrow> b \<noteq> None \<and> healthy st"
    using start_healthy[of r] p by auto
  then show ?thesis
    using g i r' by (auto simp: good_def chunk_len_same_file[OF r'(2)] chunk_data_same_file[OF r'(2)])
qed

lemma good_active: "good remote r \<Longrightarrow> good remote (r\<lparr>active_downloads := A\<rparr>)"
  by (simp add: good_def)

lemma good_put:
  assumes g: "good remote r" and c: "ring_begin r \<le> c" "c \<le> ring_end r"
    and nrd: "\<not> chunk_ready r c"
    and i: "inv (chunk_size r) (ring_size r) st" "started st"
    and others: "\<And>k. k < ring_size r \<Longrightarrow> k \<noteq> c mod ring_size r \<Longrightarrow>
      content (chunk_size r) st k = content (chunk_size r) (store r) k"
    and data: "b \<Longrightarrow> take (chunk_len r c) (content (chunk_size r) st (c mod ring_size r))
      = chunk_data r remote c"
  shows "good remote (r\<lparr>store := st,
    read_state := (if b then (read_state r)[c mod ring_size r := True] else read_state r)\<rparr>)"
    (is "good remote ?r")
proof -
  have w: "ring_wf r" using g by (simp add: good_def)
  have wf: "ring_wf ?r" using w by simp
  have ready: "chunk_ready ?r d \<longleftrightarrow> chunk_ready r d \<or> (b \<and> d = c)" for d
  proof (cases "ring_begin r \<le> d \<and> d \<le> ring_end r")
    case True
    have "c mod ring_size r = d mod ring_size r \<longleftrightarrow> c = d"
      using True c by (intro window_slot_eq[OF w]) auto
    then show ?thesis
      using True ring_wfD(2)[OF w] by (auto simp: chunk_ready_def nth_list_update)
  qed (use c in \<open>auto simp: chunk_ready_def\<close>)
  have slot: "content (chunk_size r) st (d mod ring_size r)
      = content (chunk_size r) (store r) (d mod ring_size r)" if "chunk_ready r d" for d
  proof -
    have "d \<noteq> c" using nrd that by auto
    then have "d mod ring_size r \<noteq> c mod ring_size r"
      using window_slot_eq[OF w, of d c] that c by (auto simp: chunk_ready_def)
    then show ?thesis using others ring_wfD(2)[OF w] by simp
  qed
  have same: "same_file r ?r" by (simp add: same_file_def)
  show ?thesis
    using g wf i data slot
    by (auto simp: good_def ready chunk_len_same_file[OF same] chunk_data_same_file[OF same])
qed

end

context ring_store begin

lemma download_chunk_good:
  assumes g: "good remote r" and st: "started (store r)" and act: "active_downloads r = {}"
    and c: "ring_begin r \<le> c" "c \<le> ring_end r" and pos: "ring_pos r = c"
    and f: "fetch_ok remote fetch"
    and d: "download_chunk ops fetch others c skip r = (res, r')"
  shows "good remote r' \<and> same_file r r' \<and> active_downloads r' = {} \<and> started (store r') \<and>
    ring_pos r' = c \<and> res \<noteq> invalid_ring_buffer_position \<and>
    (res = success \<longrightarrow> chunk_ready r' c) \<and>
    (healthy (store r) \<and> fetch_succeeds fetch \<longrightarrow> res = success \<and> healthy (store r'))"
proof (cases "read_state r ! (c mod ring_size r)")
  case True
  then have "download_chunk ops fetch others c skip r = (success, r)"
    using c pos act by (simp add: download_chunk_def download_begin_def)
  then show ?thesis
    using d g st act pos c True by (auto simp: chunk_ready_def)
next
  case False
  have w: "ring_wf r" and len: "length remote = file_size r"
    using g by (auto simp: good_def)
  note wd = ring_wfD[OF w]
  have ct: "c < total_chunks r" using c wd(6) by simp
  define sz where "sz = chunk_len r c"
  define ra where "ra = r\<lparr>active_downloads := {c}\<rparr>"
  define res1 where "res1 = fst (fetch sz (c * chunk_size r))"
  define data where "data = snd (fetch sz (c * chunk_size r))"
  define ru where "ru = ra\<lparr>store := use_buffer ops ra c data\<rparr>"
  have "c * chunk_size r < 2 ^ 64"
    using chunk_len_props(3)[OF w ct] w by (auto simp: ring_wf_def)
  then have started_dl: "download_begin c skip r = (Transfer c sz (c * chunk_size r), ra)"
    using c act False pos wd(3,4)
    by (simp add: download_begin_def mul64_exact sub64_exact sz_def chunk_len_def ra_def)
  have dl: "download_chunk ops fetch others c skip r = download_finish ops c res1 data ru"
    by (simp add: download_chunk_def started_dl ru_def res1_def data_def case_prod_unfold)
  have ga: "good remote ra" using good_active[OF g] by (simp add: ra_def)
  have n0: "0 < ring_size r" using wd by simp
  have u: "inv (chunk_size r) (ring_size r) (store ru)" "started (store ru)"
    "healthy (store r) \<longrightarrow> healthy (store ru)"
    "\<And>k. k < ring_size r \<Longrightarrow> k \<noteq> c mod ring_size r \<Longrightarrow>
      content (chunk_size r) (store ru) k = content (chunk_size r) (store r) k"
    using use_inv[of ra c data] ga st n0 by (auto simp: ru_def ra_def good_def)
  have nrd: "\<not> chunk_ready ra c" using False by (simp add: ra_def chunk_ready_def)
  have win: "ring_begin ra \<le> c" "c \<le> ring_end ra" using c by (auto simp: ra_def)
  have gu: "good remote ru"
    using good_put[OF ga win nrd, of "store ru" False] u by (simp add: ru_def ra_def)
  show ?thesis
  proof (cases "res1 = success")
    case fail: False
    have "download_finish ops c res1 data ru = (res1, ru\<lparr>active_downloads := {}\<rparr>)"
      using c fail by (simp add: download_finish_def ru_def ra_def)
    moreover have "res1 \<noteq> invalid_ring_buffer_position" "\<not> fetch_succeeds fetch"
      using f fail by (auto simp: fetch_ok_def fetch_succeeds_def res1_def)
    ultimately show ?thesis
      using d dl good_active[OF gu] u fail pos by (auto simp: same_file_def ru_def ra_def)
  next
    case True
    have data: "data = chunk_data r remote c"
      using f True by (auto simp: fetch_ok_def res1_def data_def chunk_data_def sz_def)
    have ld: "length data = chunk_len r c" "length data \<le> chunk_size r"
      using length_chunk_data[OF w ct len] chunk_len_props(2)[OF w ct] data by auto
    obtain res2 st2 where oc: "on_chunk_downloaded ops ru c data = (res2, st2)"
      by (cases "on_chunk_downloaded ops ru c data")
    have fields: "chunk_size ru = chunk_size r" "ring_size ru = ring_size r"
      "ring_begin ru = ring_begin r" "ring_end ru = ring_end r" "read_state ru = read_state r"
      "active_downloads ru = {c}" "ring_pos ru = c" "same_file r ru" "chunk_len ru c = chunk_len r c"
      "chunk_data ru remote c = chunk_data r remote c" "\<not> chunk_ready ru c"
      using nrd pos by (simp_all add: ru_def ra_def same_file_def)
    have i: "inv (chunk_size r) (ring_size r) st2" "started st2"
      "res2 \<noteq> invalid_ring_buffer_position" "healthy (store ru) \<longrightarrow> healthy st2 \<and> res2 = success"
      "\<And>k. k < ring_size r \<Longrightarrow> k \<noteq> c mod ring_size r \<Longrightarrow>
        content (chunk_size r) st2 k = content (chunk_size r) (store ru) k"
      using commit_inv[of ru data c res2 st2] u(1,2) n0 ld(2) oc by (simp_all add: fields)
    have cd: "res2 = success \<Longrightarrow>
        take (chunk_len r c) (content (chunk_size r) st2 (c mod ring_size r)) = chunk_data r remote c"
    proof -
      assume "res2 = success"
      then have "on_chunk_downloaded ops (ra\<lparr>store := use_buffer ops ra c data\<rparr>) c data
          = (success, st2)"
        using oc by (simp add: ru_def)
      moreover have "inv (chunk_size ra) (ring_size ra) (store ra)" "started (store ra)"
        "chunk_size ra = chunk_size r" "ring_size ra = ring_size r"
        using ga st by (auto simp: good_def ra_def)
      ultimately show ?thesis using commit_data[of ra data c st2] n0 ld data by simp
    qed
    let ?b = "res2 = success"
    let ?r2 = "ru\<lparr>store := st2, read_state := (if ?b then (read_state ru)[c mod ring_size ru := True]
        else read_state ru)\<rparr>"
    have g2: "good remote ?r2"
      using c i(1,2) cd i(5) fields by (intro good_put[OF gu]) auto
    have fin: "download_finish ops c res1 data ru = (res2, ?r2\<lparr>active_downloads := {}\<rparr>)"
      using c True oc by (simp add: download_finish_def fields)
    have "?b \<longrightarrow> chunk_ready (?r2\<lparr>active_downloads := {}\<rparr>) c"
      using c n0 by (simp add: chunk_ready_def fields)
    moreover have "same_file r (?r2\<lparr>active_downloads := {}\<rparr>)"
      using fields(8) by (simp add: same_file_def)
    ultimately show ?thesis
      using d dl fin good_active[OF g2] i u(3) fields by auto
  qed
qed

end

definition seek :: "nat \<Rightarrow> 's ring \<Rightarrow> 's ring" where
  "seek chunk r =
    (if chunk > ring_pos r then forward (sub64 chunk (ring_pos r)) r
     else if chunk < ring_pos r then reverse (sub64 (ring_pos r) chunk) r
     else r)"

lemma seek_moved:
  assumes wf: "ring_wf r" and c: "c < total_chunks r"
  shows "window_moved r (seek c r) \<and> ring_pos (seek c r) = c"
proof -
  note w = ring_wfD[OF wf]
  have small: "c < 2 ^ 62" "ring_pos r < 2 ^ 62" using w c by auto
  consider "c > ring_pos r" | "c < ring_pos r" | "c = ring_pos r" by linarith
  then show ?thesis
  proof cases
    case 1
    then have e: "seek c r = update_position (c - ring_pos r) True r"
      using small by (simp add: seek_def forward_def sub64_exact)
    have "c - ring_pos r < 2 ^ 63" using small by simp
    from update_position_moved[OF wf this, of True] show ?thesis
      using 1 c by (simp add: e target_pos_def min_def)
  next
    case 2
    then have e: "seek c r = update_position (ring_pos r - c) False r"
      using small by (simp add: seek_def reverse_def sub64_exact)
    have "ring_pos r - c < 2 ^ 63" using small by simp
    from update_position_moved[OF wf this, of False] show ?thesis
      using 2 by (simp add: e target_pos_def)
  next
    case 3
    then show ?thesis using window_moved_refl[OF wf] by (simp add: seek_def)
  qed
qed

lemma window_movedD:
  assumes "window_moved r r'"
  shows "ring_wf r'" "same_file r r'" "store r' = store r" "active_downloads r' = active_downloads r"
    "ring_begin r' \<le> ring_pos r'" "ring_pos r' \<le> ring_end r'"
  using assms ring_wfD[of r'] by (auto simp: window_moved_def)

lemma same_fileD:
  assumes "same_file r r'"
  shows "chunk_size r' = chunk_size r" "file_size r' = file_size r" "is_dir r' = is_dir r"
    "total_chunks r' = total_chunks r" "ring_stop r' = ring_stop r" "ring_size r' = ring_size r"
  using assms by (auto simp: same_file_def)

text \<open>One pass of the loop of \<open>read\<close>, over \<open>seek\<close>.\<close>

lemma read_loop_step:
  "read_loop ops fetch others (Suc fuel) chunk read_size read_offset data r =
    (if ring_stop r then Some (download_stopped, data, r)
     else if read_size = 0 then Some (success, data, r)
     else case download_chunk ops fetch others chunk False (seek chunk r) of (res, r) \<Rightarrow>
            if res \<noteq> success then
              (if res = invalid_ring_buffer_position
               then read ops fetch others fuel read_size read_offset data r
               else Some (res, data, r))
            else
              (case on_read_chunk ops r chunk
                      (min (sub64 (chunk_size r) read_offset) read_size) read_offset of
                 (res, appended, bytes_read) \<Rightarrow>
                   if res \<noteq> success then Some (res, data, r)
                   else read_loop ops fetch others fuel (add64 chunk 1)
                          (sub64 read_size bytes_read) 0 (data @ appended) r))"
  by (simp add: seek_def Let_def)

lemma next_chunk_span:
  fixes c cs off m :: nat
  assumes "m = min (cs - off) sz" "off < cs" "c * cs + off + sz \<le> fs"
  shows "(c + 1) * cs + (sz - m) \<le> fs \<or> sz - m = 0"
    "sz - m > 0 \<Longrightarrow> (c + 1) * cs = c * cs + off + m"
  using assms by (auto simp: min_def algebra_simps)

context ring_store begin

lemma on_read_chunk_good:
  assumes g: "good remote r" and rdy: "chunk_ready r c"
    and m: "off + m \<le> chunk_len r c"
    and o: "on_read_chunk ops r c m off = (res, bs, k)"
  shows "(res = success \<longrightarrow> bs = slice (c * chunk_size r + off) m remote \<and> k = m) \<and>
    (healthy (store r) \<longrightarrow> res = success)"
proof -
  have w: "ring_wf r" and len: "length remote = file_size r"
    and s: "inv (chunk_size r) (ring_size r) (store r)" "started (store r)"
      "take (chunk_len r c) (content (chunk_size r) (store r) (c mod ring_size r))
        = chunk_data r remote c"
    using g rdy by (auto simp: good_def)
  have ct: "c < total_chunks r" using rdy ring_wfD(6)[OF w] by (simp add: chunk_ready_def)
  have ld: "length (chunk_data r remote c) = chunk_len r c"
    using length_chunk_data[OF w ct len] .
  have "slice off m (chunk_data r remote c) = slice (c * chunk_size r + off) m remote"
    using m by (simp add: chunk_data_def slice_def drop_take add.commute min_def)
  then show ?thesis
    using read_data[OF s(1,2) ring_wfD(2)[OF w] _ _ _ o, of "chunk_data r remote c"]
      chunk_len_props(2)[OF w ct] m s(3) ld by simp
qed

lemma read_loop_good:
  assumes "good remote r" "started (store r)" "active_downloads r = {}" "\<not> ring_stop r"
    and "fetch_ok remote fetch" and "off < chunk_size r"
    and "0 < sz \<longrightarrow> c * chunk_size r + off + sz \<le> length remote"
    and "total_chunks r - c < fuel"
  shows "\<exists>res data' r'. read_loop ops fetch others fuel c sz off data r = Some (res, data', r') \<and>
    good remote r' \<and> same_file r r' \<and> active_downloads r' = {} \<and>
    (res = success \<longrightarrow> data' = data @ slice (c * chunk_size r + off) sz remote) \<and>
    (healthy (store r) \<and> fetch_succeeds fetch \<longrightarrow> res = success)"
  using assms
proof (induction fuel arbitrary: c sz off data r)
  case 0
  then show ?case by simp
next
  case (Suc fuel)
  note g = Suc.prems(1) and st = Suc.prems(2) and act = Suc.prems(3) and stop = Suc.prems(4)
    and f = Suc.prems(5) and off = Suc.prems(6) and inside = Suc.prems(7)
  have w: "ring_wf r" and len: "length remote = file_size r" using g by (auto simp: good_def)
  show ?case
  proof (cases "sz = 0")
    case True
    then show ?thesis using g act stop by (simp add: read_loop_step del: read_loop.simps)
  next
    case False
    have span: "c * chunk_size r + off + sz \<le> file_size r" using inside False len by simp
    have ct: "c < total_chunks r"
    proof -
      have "c * chunk_size r < file_size r" using span False by simp
      also have "\<dots> \<le> total_chunks r * chunk_size r"
        using w total_chunks_bounds(3)[of "chunk_size r" "file_size r"] by (simp add: ring_wf_def)
      finally show ?thesis by simp
    qed
    define r1 where "r1 = seek c r"
    have mv: "window_moved r r1" and pos: "ring_pos r1 = c"
      using seek_moved[OF w ct] by (auto simp: r1_def)
    note m1 = window_movedD[OF mv]
    note s1 = same_fileD[OF m1(2)]
    obtain res r2 where d: "download_chunk ops fetch others c False r1 = (res, r2)"
      by (cases "download_chunk ops fetch others c False r1")
    have D: "good remote r2" "same_file r r2" "active_downloads r2 = {}" "started (store r2)"
      "res \<noteq> invalid_ring_buffer_position" "res = success \<Longrightarrow> chunk_ready r2 c"
      "healthy (store r) \<and> fetch_succeeds fetch \<longrightarrow> res = success \<and> healthy (store r2)"
      using download_chunk_good[OF good_moved[OF g mv] _ _ _ _ pos f d] st act m1 pos
        same_file_trans[OF m1(2)] by auto
    note s2 = same_fileD[OF D(2)]
    define m where "m = min (chunk_size r - off) sz"
    have cs: "chunk_size r < 2 ^ 64" "file_size r < 2 ^ 64" "total_chunks r < 2 ^ 62"
      using w ring_wfD(4)[OF w] by (auto simp: ring_wf_def)
    have m64: "min (sub64 (chunk_size r2) off) sz = m"
      using off cs s2 by (simp add: m_def sub64_exact)
    obtain res3 bs k where o: "on_read_chunk ops r2 c m off = (res3, bs, k)"
      by (cases "on_read_chunk ops r2 c m off")
    have "chunk_len r2 c = chunk_len r c" using chunk_len_same_file[OF D(2)] .
    moreover have "off + m \<le> chunk_len r c"
    proof -
      have "c * chunk_size r + off + m \<le> min ((c + 1) * chunk_size r) (file_size r)"
        using span off by (auto simp: m_def algebra_simps)
      then show ?thesis using chunk_len_props(3)[OF w ct] by linarith
    qed
    ultimately have R: "res = success \<Longrightarrow>
        (res3 = success \<longrightarrow> bs = slice (c * chunk_size r + off) m remote \<and> k = m) \<and>
        (healthy (store r2) \<longrightarrow> res3 = success)"
      using on_read_chunk_good[OF D(1) D(6) _ o] s2 by simp
    have unfold: "read_loop ops fetch others (Suc fuel) c sz off data r =
        (if res \<noteq> success then Some (res, data, r2)
         else if res3 \<noteq> success then Some (res3, data, r2)
         else read_loop ops fetch others fuel (add64 c 1) (sub64 sz k) 0 (data @ bs) r2)"
      using stop False D(5) d[unfolded r1_def] m64 o
      by (simp add: read_loop_step del: read_loop.simps)
    show ?thesis
    proof (cases "res = success \<and> res3 = success")
      case fails: False
      then show ?thesis using unfold D R by auto
    next
      case ok: True
      then have bs: "bs = slice (c * chunk_size r + off) m remote" "k = m" using R by auto
      have m_le: "m \<le> sz" "0 < m" using False off by (auto simp: m_def)
      have c1: "add64 c 1 = c + 1" using ct cs by (simp add: add64_exact)
      have k1: "sub64 sz k = sz - m" using bs m_le span cs by (simp add: sub64_exact)
      have nxt: "sz - m > 0 \<Longrightarrow> (c + 1) * chunk_size r = c * chunk_size r + off + m"
        using next_chunk_span(2)[OF m_def off span] .
      have in2: "0 < sz - m \<longrightarrow> (c + 1) * chunk_size r2 + 0 + (sz - m) \<le> length remote"
        using nxt span len s2 m_le by auto
      have stop2: "\<not> ring_stop r2" and off2: "0 < chunk_size r2"
        and fuel2: "total_chunks r2 - (c + 1) < fuel"
        using stop s2 Suc.prems(8) off ct by auto
      obtain res' data' r' where L:
        "read_loop ops fetch others fuel (c + 1) (sz - m) 0 (data @ bs) r2 = Some (res', data', r')"
        "good remote r'" "same_file r2 r'" "active_downloads r' = {}"
        "res' = success \<longrightarrow> data' = (data @ bs) @ slice ((c + 1) * chunk_size r2 + 0) (sz - m) remote"
        "healthy (store r2) \<and> fetch_succeeds fetch \<longrightarrow> res' = success"
        using Suc.IH[OF D(1,4,3) stop2 f off2 in2 fuel2, of "data @ bs"] by blast
      have "bs @ slice ((c + 1) * chunk_size r2 + 0) (sz - m) remote
          = slice (c * chunk_size r + off) sz remote"
      proof (cases "sz - m > 0")
        case True
        have "bs @ slice (c * chunk_size r + off + m) (sz - m) remote
            = slice (c * chunk_size r + off) (m + (sz - m)) remote"
          unfolding bs(1) using span len m_le by (intro slice_append_slice) simp
        then show ?thesis unfolding s2(1) nxt[OF True] using m_le by simp
      next
        case False
        then have "sz = m" using m_le by simp
        then show ?thesis using bs by simp
      qed
      then show ?thesis
        using unfold ok L c1 k1 D(7) same_file_trans[OF D(2) L(3)] by auto
    qed
  qed
qed

theorem read_good:
  assumes g: "good remote r" and act: "active_downloads r = {}" and stop: "\<not> ring_stop r"
    and dir: "\<not> is_dir r" and f: "fetch_ok remote fetch"
    and small: "off + sz < 2 ^ 64" and fuel: "total_chunks r + 1 < fuel"
  shows "\<exists>res data' r'. read ops fetch others fuel sz off [] r = Some (res, data', r') \<and>
    good remote r' \<and> same_file r r' \<and> active_downloads r' = {} \<and>
    (res = success \<longrightarrow> data' = slice off sz remote) \<and>
    (healthy (store r) \<and> fetch_succeeds fetch \<longrightarrow> res = success)"
proof -
  have w: "ring_wf r" and len: "length remote = file_size r" using g by (auto simp: good_def)
  obtain fl where fl: "fuel = Suc fl" "total_chunks r < fl" using fuel by (cases fuel) auto
  have fs: "file_size r < 2 ^ 64" using w by (auto simp: ring_wf_def)
  define n where "n = min sz (file_size r - off)"
  have n: "calculate_read_size (file_size r) sz off = n"
    using calculate_read_size_exact[OF small fs] by (simp add: n_def)
  have sl: "slice off sz remote = slice off n remote"
    using len by (simp add: slice_def n_def min_def)
  show ?thesis
  proof (cases "n = 0")
    case True
    then show ?thesis using fl dir n sl g act by simp
  next
    case False
    have offl: "off < file_size r" using False by (simp add: n_def)
    define c where "c = off div chunk_size r"
    have cs: "0 < chunk_size r" using ring_wfD(1)[OF w] .
    have rel: "sub64 off (mul64 c (chunk_size r)) = off mod chunk_size r"
      and abs: "c * chunk_size r + off mod chunk_size r = off"
    proof -
      show "c * chunk_size r + off mod chunk_size r = off" by (simp add: c_def)
      then have "c * chunk_size r \<le> off" "off - c * chunk_size r = off mod chunk_size r"
        by (metis le_add1, metis add_diff_cancel_left')
      then show "sub64 off (mul64 c (chunk_size r)) = off mod chunk_size r"
        using offl fs by (simp add: mul64_exact sub64_exact)
    qed
    obtain res r1 where s: "check_start ops r = (res, r1)" by (cases "check_start ops r")
    note S = check_start_good[OF g s]
    have unfold: "read ops fetch others fuel sz off [] r =
        (if res \<noteq> success then Some (res, [], r1)
         else read_loop ops fetch others fl c n (off mod chunk_size r) [] r1)"
      using fl dir n False s rel by (simp add: Let_def c_def)
    show ?thesis
    proof (cases "res = success")
      case False
      then show ?thesis using unfold S act by auto
    next
      case True
      have g1: "good remote r1" "started (store r1)" "active_downloads r1 = {}" "same_file r r1"
        using S act True by auto
      note s1 = same_fileD[OF g1(4)]
      have in1: "0 < n \<longrightarrow> c * chunk_size r1 + off mod chunk_size r + n \<le> length remote"
        using s1 abs len offl by (auto simp: n_def min_def)
      have stop1: "\<not> ring_stop r1" and off1: "off mod chunk_size r < chunk_size r1"
        and fuel1: "total_chunks r1 - c < fl"
        using stop s1 cs fl by auto
      obtain res' data' r' where L:
        "read_loop ops fetch others fl c n (off mod chunk_size r) [] r1 = Some (res', data', r')"
        "good remote r'" "same_file r1 r'" "active_downloads r' = {}"
        "res' = success \<longrightarrow> data' = [] @ slice (c * chunk_size r1 + off mod chunk_size r) n remote"
        "healthy (store r1) \<and> fetch_succeeds fetch \<longrightarrow> res' = success"
        using read_loop_good[OF g1(1-3) stop1 f off1 in1 fuel1, of others "[]"] by blast
      then show ?thesis
        using unfold True S s1(1) sl abs same_file_trans[OF g1(4) L(3)] by auto
    qed
  qed
qed

end

section \<open>Interleavings of downloads and moves\<close>

text \<open>
  The atomic steps of a started ring buffer: a move of the window, the two critical sections of
  \<open>download_chunk\<close>, and the transfer between them, which writes to the memory of \<open>use_buffer\<close>
  without the lock.  A reader thread downloads with \<open>skip_active\<close>; \<open>read\<close> holds \<open>read_mtx_\<close> and has
  moved the position to the chunk it asks for.  \<open>res\<close> is what the provider returns; its bytes
  are those of the file.
\<close>

inductive ring_step :: "'s ring_ops \<Rightarrow> bytes \<Rightarrow> 's ring \<Rightarrow> 's ring \<Rightarrow> bool"
  for ops :: "'s ring_ops" and remote :: bytes where
  move: "count < 2 ^ 63 \<Longrightarrow> ring_step ops remote r (update_position count fwd r)"
| begin_background: "download_begin c True r = (b, r') \<Longrightarrow> ring_step ops remote r r'"
| begin_read: "download_begin (ring_pos r) False r = (b, r') \<Longrightarrow> ring_step ops remote r r'"
| transfer: "c \<in> active_downloads r \<Longrightarrow>
    ring_step ops remote r (r\<lparr>store := use_buffer ops r c (chunk_data r remote c)\<rparr>)"
| finish: "c \<in> active_downloads r \<Longrightarrow>
    download_finish ops c res (chunk_data r remote c) r = (res', r') \<Longrightarrow>
    ring_step ops remote r r'"

inductive_cases ring_stepE: "ring_step ops remote r r'"

abbreviation ring_steps :: "'s ring_ops \<Rightarrow> bytes \<Rightarrow> 's ring \<Rightarrow> 's ring \<Rightarrow> bool" where
  "ring_steps ops remote \<equiv> (ring_step ops remote)\<^sup>*\<^sup>*"

lemma download_begin_state:
  assumes "download_begin c skip r = (b, r')" "skip \<or> c = ring_pos r"
  shows "r' = r \<or> r' = r\<lparr>active_downloads := insert c (active_downloads r)\<rparr> \<and>
    ring_begin r \<le> c \<and> c \<le> ring_end r \<and> \<not> read_state r ! (c mod ring_size r)"
proof -
  have "(if skip then r else r\<lparr>ring_pos := c\<rparr>) = r"
    using assms(2) by (cases skip) auto
  then have d: "snd (download_begin c skip r) =
      (if c < ring_begin r \<or> c > ring_end r \<or> c \<in> active_downloads r \<or>
          read_state r ! (c mod ring_size r) then r
       else r\<lparr>active_downloads := insert c (active_downloads r)\<rparr>)"
    by (simp only: download_begin_def Let_def) simp
  have "r' = snd (download_begin c skip r)" using assms(1) by simp
  then show ?thesis unfolding d by simp
qed

text \<open>
  A store that hands out memory of its own for a transfer and copies it into the slot under the
  lock.
\<close>

locale isolated_store = ring_store +
  assumes use_isolated: "use_buffer ops r c d = store r"
    and commit_any: "inv (chunk_size r) (ring_size r) (store r) \<Longrightarrow> started (store r) \<Longrightarrow>
      0 < ring_size r \<Longrightarrow> length d \<le> chunk_size r \<Longrightarrow>
      on_chunk_downloaded ops r c d = (success, st) \<Longrightarrow>
      take (length d) (content (chunk_size r) st (c mod ring_size r)) = d"
begin

definition sound :: "bytes \<Rightarrow> 'a ring \<Rightarrow> bool" where
  "sound remote r \<longleftrightarrow> good remote r \<and> started (store r) \<and>
    (\<forall>c \<in> active_downloads r. c < total_chunks r \<and> \<not> chunk_ready r c)"

lemma begin_sound:
  assumes "sound remote r" "download_begin c skip r = (b, r')" "skip \<or> c = ring_pos r"
  shows "sound remote r'"
proof -
  have w: "ring_wf r" using assms(1) by (simp add: sound_def good_def)
  consider "r' = r" | "r' = r\<lparr>active_downloads := insert c (active_downloads r)\<rparr>"
      "ring_begin r \<le> c" "c \<le> ring_end r" "\<not> read_state r ! (c mod ring_size r)"
    using download_begin_state[OF assms(2,3)] by blast
  then show ?thesis
  proof cases
    case 2
    then show ?thesis
      using assms(1) good_active[of remote r] ring_wfD(6)[OF w]
      by (auto simp: sound_def chunk_ready_def)
  qed (use assms(1) in simp)
qed

lemma finish_sound:
  assumes s: "sound remote r" and c: "c \<in> active_downloads r"
    and f: "download_finish ops c res (chunk_data r remote c) r = (res', r')"
  shows "sound remote r'"
proof -
  have g: "good remote r" and st: "started (store r)" and ct: "c < total_chunks r"
    and nrd: "\<not> chunk_ready r c" and w: "ring_wf r" and len: "length remote = file_size r"
    using s c by (auto simp: sound_def good_def)
  show ?thesis
  proof (cases "ring_begin r \<le> c \<and> c \<le> ring_end r \<and> res = success")
    case False
    then have "r' = r\<lparr>active_downloads := active_downloads r - {c}\<rparr>"
      using f by (auto simp: download_finish_def Let_def split: if_splits)
    then show ?thesis using s good_active[OF g] by (auto simp: sound_def)
  next
    case True
    let ?d = "chunk_data r remote c"
    have ld: "length ?d = chunk_len r c" "length ?d \<le> chunk_size r"
      using length_chunk_data[OF w ct len] chunk_len_props(2)[OF w ct] by auto
    obtain res2 st2 where oc: "on_chunk_downloaded ops r c ?d = (res2, st2)"
      by (cases "on_chunk_downloaded ops r c ?d")
    have i: "inv (chunk_size r) (ring_size r) st2" "started st2"
      "\<And>k. k < ring_size r \<Longrightarrow> k \<noteq> c mod ring_size r \<Longrightarrow>
        content (chunk_size r) st2 k = content (chunk_size r) (store r) k"
      using commit_inv[OF _ st ring_wfD(2)[OF w] ld(2) oc] g by (auto simp: good_def)
    have d: "res2 = success \<Longrightarrow>
        take (chunk_len r c) (content (chunk_size r) st2 (c mod ring_size r)) = ?d"
      using commit_any[OF _ st ring_wfD(2)[OF w] ld(2), of c st2] g oc ld(1) by (simp add: good_def)
    let ?r2 = "r\<lparr>store := st2, read_state := (if res2 = success
        then (read_state r)[c mod ring_size r := True] else read_state r)\<rparr>"
    have g2: "good remote ?r2"
      using good_put[OF g _ _ nrd i(1,2) i(3) d] True by blast
    have r': "r' = ?r2\<lparr>active_downloads := active_downloads r - {c}\<rparr>"
      using f True oc by (auto simp: download_finish_def)
    have "\<not> chunk_ready ?r2 a" if "a \<in> active_downloads r - {c}" for a
    proof
      assume a: "chunk_ready ?r2 a"
      then have aw: "ring_begin r \<le> a" "a \<le> ring_end r" by (auto simp: chunk_ready_def)
      have "a mod ring_size r \<noteq> c mod ring_size r"
        using window_slot_eq[OF w aw] True that by auto
      then have "chunk_ready r a"
        using a by (auto simp: chunk_ready_def split: if_splits)
      then show False using s that by (auto simp: sound_def)
    qed
    then show ?thesis
      using s good_active[OF g2] i(2) by (auto simp: sound_def r')
  qed
qed

lemma step_sound:
  assumes "sound remote r" "ring_step ops remote r r'"
  shows "sound remote r'"
  using assms(2)
proof (cases rule: ring_step.cases)
  case (move count fwd)
  have w: "ring_wf r" using assms(1) by (simp add: sound_def good_def)
  have mv: "window_moved r r'" using update_position_moved[OF w move(2)] move(1) by simp
  then show ?thesis
    using assms(1) good_moved[OF _ mv] by (auto simp: sound_def window_moved_def same_file_def)
next
  case (begin_background c b)
  then show ?thesis using begin_sound[OF assms(1)] by blast
next
  case (begin_read b)
  then show ?thesis using begin_sound[OF assms(1)] by blast
next
  case (transfer c)
  then show ?thesis using assms(1) use_isolated by simp
next
  case (finish c res res')
  then show ?thesis using finish_sound[OF assms(1)] by blast
qed

lemma steps_sound:
  "ring_steps ops remote r r' \<Longrightarrow> sound remote r \<Longrightarrow> sound remote r'"
  by (induction rule: rtranclp_induct) (auto intro: step_sound)

text \<open>Whatever the interleaving, the bytes a read takes from a ready chunk are the file's.\<close>

theorem steps_read_chunk:
  assumes "sound remote r" "ring_steps ops remote r r'" "chunk_ready r' c"
    and "off + m \<le> chunk_len r' c" "on_read_chunk ops r' c m off = (success, bs, k)"
  shows "bs = slice (c * chunk_size r' + off) m remote \<and> k = m"
  using on_read_chunk_good[of remote r' c off m success bs k] steps_sound[OF assms(2,1)] assms
  by (simp add: sound_def)

end

end
