(* ===== verification/Direct_Open_File.thy ===== *)
theory Direct_Open_File imports Ring_Store begin

text \<open>
  direct_open_file: the ring buffer whose slots are \<open>min_ring_size\<close> buffers in memory,
  \<open>ring_data_\<close>.  A transfer writes its slot's buffer directly, and nothing is left to do when it
  is finished.  Reading past a buffer's end is undefined behaviour in the code; the model
  gives the bytes there are.
\<close>

type_synonym direct_store = "bytes list"

definition direct_on_check_start :: "direct_store ring \<Rightarrow> bool option \<times> direct_store" where
  "direct_on_check_start r = (Some (file_size r = 0 \<or> has_reader_thread r), store r)"

definition direct_on_chunk_downloaded ::
  "direct_store ring \<Rightarrow> nat \<Rightarrow> bytes \<Rightarrow> api_error \<times> direct_store" where
  "direct_on_chunk_downloaded r chunk buffer = (success, store r)"

definition direct_on_read_chunk ::
  "direct_store ring \<Rightarrow> nat \<Rightarrow> nat \<Rightarrow> nat \<Rightarrow> api_error \<times> bytes \<times> nat" where
  "direct_on_read_chunk r chunk read_size read_offset =
    (let buffer = store r ! (chunk mod ring_size r) in
     (success, slice read_offset read_size buffer, read_size))"

definition direct_use_buffer :: "direct_store ring \<Rightarrow> nat \<Rightarrow> bytes \<Rightarrow> direct_store" where
  "direct_use_buffer r chunk data = (store r)[chunk mod ring_size r := data]"

definition direct_ops :: "direct_store ring_ops" where
  "direct_ops = \<lparr>on_check_start = direct_on_check_start, use_buffer = direct_use_buffer,
     on_chunk_downloaded = direct_on_chunk_downloaded, on_read_chunk = direct_on_read_chunk\<rparr>"

definition direct_open_file :: "nat \<Rightarrow> nat \<Rightarrow> bool \<Rightarrow> exn + direct_store ring" where
  "direct_open_file csize fsize directory =
    ring_buffer_base csize fsize directory min_ring_size True (replicate min_ring_size [])"

definition direct_inv :: "nat \<Rightarrow> nat \<Rightarrow> direct_store \<Rightarrow> bool" where
  "direct_inv cs n s \<longleftrightarrow> n \<le> length s"

lemmas direct_defs = direct_ops_def direct_on_check_start_def direct_on_chunk_downloaded_def
  direct_on_read_chunk_def direct_use_buffer_def direct_inv_def

interpretation direct: ring_store direct_ops direct_inv "\<lambda>cs s k. s ! k" "\<lambda>s. True" "\<lambda>s. True"
proof unfold_locales
  fix r :: "direct_store ring" and d st :: bytes and c st'
  assume inv: "direct_inv (chunk_size r) (ring_size r) (store r)" and n: "0 < ring_size r"
    and o: "on_chunk_downloaded direct_ops (r\<lparr>store := use_buffer direct_ops r c d\<rparr>) c d = (success, st')"
  have "c mod ring_size r < length (store r)"
    using inv n by (meson direct_inv_def mod_less_divisor order_less_le_trans)
  then show "take (length d) (st' ! (c mod ring_size r)) = d"
    using o by (auto simp: direct_defs)
next
  fix r :: "direct_store ring" and d bs :: bytes and off m c k res
  assume m: "off + m \<le> length d" and t: "take (length d) (store r ! (c mod ring_size r)) = d"
    and o: "on_read_chunk direct_ops r c m off = (res, bs, k)"
  have "slice off m d = slice off m (store r ! (c mod ring_size r))"
    using slice_take[OF m, of "store r ! (c mod ring_size r)"] t by simp
  with o show "(res = success \<longrightarrow> bs = slice off m d \<and> k = m) \<and> (True \<longrightarrow> res = success)"
    by (auto simp: direct_defs Let_def)
qed (auto simp: direct_defs)

lemma direct_open_file_good:
  assumes "direct_open_file cs (length remote) False = Inr r"
    and "0 < cs" "0 < length remote" "length remote + cs < 2 ^ 62"
  shows "direct.good remote r \<and> active_downloads r = {} \<and> \<not> ring_stop r \<and> \<not> is_dir r \<and>
    total_chunks r \<le> length remote"
proof -
  have c: "ring_buffer_base cs (length remote) False min_ring_size True (replicate min_ring_size [])
      = Inr r"
    using assms(1) by (simp add: direct_open_file_def)
  have n: "0 < min_ring_size" "min_ring_size < 2 ^ 62" by (simp_all add: min_ring_size_def)
  note k = constructed_ring_wf[OF c assms(2-4) n]
  have "total_chunks r = divide_with_ceiling (length remote) cs"
    using k by (auto simp: ring_wf_def)
  then show ?thesis
    using k total_chunks_bounds(2)[OF assms(2,3)]
    by (auto simp: direct.good_def direct_inv_def)
qed

text \<open>
  \<open>direct_open_file::read\<close> on a freshly opened file, before any reader thread runs, returns a result;
  if the provider delivers the file's bytes, the result is success and the data is exactly the
  part of the file that was asked for, cut off at its end.
\<close>

theorem direct_read_correct:
  assumes "direct_open_file cs (length remote) False = Inr r"
    and "0 < cs" "0 < length remote" "length remote + cs < 2 ^ 62"
    and "fetch_ok remote fetch" "off + sz < 2 ^ 64" "length remote + 1 < fuel"
  shows "\<exists>res data r'. read direct_ops fetch others fuel sz off [] r = Some (res, data, r') \<and>
    (res = success \<longrightarrow> data = slice off sz remote) \<and>
    (fetch_succeeds fetch \<longrightarrow> res = success)"
proof -
  have g: "direct.good remote r" "active_downloads r = {}" "\<not> ring_stop r" "\<not> is_dir r"
    "total_chunks r + 1 < fuel"
    using direct_open_file_good[OF assms(1-4)] assms(7) by auto
  show ?thesis
    using direct.read_good[OF g(1-4) assms(5,6) g(5), of others] by auto
qed

definition example_file :: bytes where
  "example_file = [10, 11, 12, 13, 14, 15, 16, 17, 18, 19, 20, 21]"

theorem direct_read_correct_witness:
  "\<exists>r data r'. direct_open_file 2 (length example_file) False = Inr r \<and>
     read direct_ops (\<lambda>sz off. (success, slice off sz example_file)) (\<lambda>c r. (error, r)) 14 5 3 [] r
       = Some (success, data, r') \<and> data = [13, 14, 15, 16, 17]"
proof -
  obtain r where r: "direct_open_file 2 (length example_file) False = Inr r"
    by (simp add: direct_open_file_def ring_buffer_base_def example_file_def Let_def)
  have f: "fetch_ok example_file (\<lambda>sz off. (success, slice off sz example_file))"
    "fetch_succeeds (\<lambda>sz off. (success, slice off sz example_file))"
    by (simp_all add: fetch_ok_def fetch_succeeds_def)
  have "slice 3 5 example_file = [13, 14, 15, 16, 17]"
    by (simp add: slice_def example_file_def)
  then show ?thesis
    using direct_read_correct[OF r, of "\<lambda>sz off. (success, slice off sz example_file)" 3 5 14
        "\<lambda>c r. (error, r)"] f r
    by (fastforce simp: example_file_def)
qed

section \<open>Interleavings\<close>

text \<open>
  The atomic steps of a started direct ring, with the set of the chunks whose transfer has delivered its
  bytes.  As in \<open>ring_step\<close>, but the memory that a transfer writes is the slot itself, so the bytes are
  in the store as soon as the transfer runs: \<open>spoil\<close> is a transfer that writes something else and fails,
  and \<open>finish\<close> succeeds only behind a transfer that delivered.  The window moves only as long as no
  download that is running falls out of it.
\<close>

inductive direct_step :: "bytes \<Rightarrow> direct_store ring \<times> nat set \<Rightarrow> direct_store ring \<times> nat set \<Rightarrow> bool"
  for remote :: bytes where
  direct_move: "count < 2 ^ 63 \<Longrightarrow> r' = update_position count fwd r \<Longrightarrow>
    \<forall>c \<in> active_downloads r. ring_begin r' \<le> c \<and> c \<le> ring_end r' \<Longrightarrow> direct_step remote (r, W) (r', W)"
| direct_begin_background: "download_begin c True r = (b, r') \<Longrightarrow> direct_step remote (r, W) (r', W)"
| direct_begin_read: "download_begin (ring_pos r) False r = (b, r') \<Longrightarrow> direct_step remote (r, W) (r', W)"
| direct_transfer: "c \<in> active_downloads r \<Longrightarrow>
    direct_step remote (r, W) (r\<lparr>store := use_buffer direct_ops r c (chunk_data r remote c)\<rparr>, insert c W)"
| direct_spoil: "c \<in> active_downloads r \<Longrightarrow>
    direct_step remote (r, W) (r\<lparr>store := use_buffer direct_ops r c data\<rparr>, W - {c})"
| direct_finish: "c \<in> active_downloads r \<Longrightarrow> res = success \<longrightarrow> c \<in> W \<Longrightarrow>
    download_finish direct_ops c res (chunk_data r remote c) r = (res', r') \<Longrightarrow>
    direct_step remote (r, W) (r', W - {c})"

abbreviation direct_steps :: "bytes \<Rightarrow> direct_store ring \<times> nat set \<Rightarrow> direct_store ring \<times> nat set \<Rightarrow> bool" where
  "direct_steps remote \<equiv> (direct_step remote)\<^sup>*\<^sup>*"

text \<open>Every running download is for a chunk of the window that is not marked; a delivered one is in its slot.\<close>

definition direct_sound :: "bytes \<Rightarrow> direct_store ring \<times> nat set \<Rightarrow> bool" where
  "direct_sound remote s \<longleftrightarrow> (case s of (r, W) \<Rightarrow>
    direct.good remote r \<and> W \<subseteq> active_downloads r \<and>
    (\<forall>c \<in> active_downloads r. ring_begin r \<le> c \<and> c \<le> ring_end r \<and> \<not> chunk_ready r c) \<and>
    (\<forall>c \<in> W. take (chunk_len r c) (store r ! (c mod ring_size r)) = chunk_data r remote c))"

lemma direct_soundD:
  assumes "direct_sound remote (r, W)"
  shows "direct.good remote r" "ring_wf r" "W \<subseteq> active_downloads r" "length remote = file_size r"
    "ring_size r \<le> length (store r)"
    "c \<in> active_downloads r \<Longrightarrow> ring_begin r \<le> c \<and> c \<le> ring_end r \<and> \<not> chunk_ready r c"
    "c \<in> W \<Longrightarrow> take (chunk_len r c) (store r ! (c mod ring_size r)) = chunk_data r remote c"
  using assms by (auto simp: direct_sound_def direct.good_def direct_inv_def)

lemma direct_begin_sound:
  assumes s: "direct_sound remote (r, W)" and b: "download_begin c skip r = (b, r')" "skip \<or> c = ring_pos r"
  shows "direct_sound remote (r', W)"
proof -
  consider "r' = r" | "r' = r\<lparr>active_downloads := insert c (active_downloads r)\<rparr>"
      "ring_begin r \<le> c" "c \<le> ring_end r" "\<not> read_state r ! (c mod ring_size r)"
    using download_begin_state[OF b] by blast
  then show ?thesis
  proof cases
    case 2
    then show ?thesis
      using s direct.good_active[of remote r] by (auto simp: direct_sound_def chunk_ready_def)
  qed (use s in simp)
qed

text \<open>A write into the slot of a running download.\<close>

lemma direct_write_sound:
  assumes s: "direct_sound remote (r, W)" and c: "c \<in> active_downloads r"
    and W: "W' \<subseteq> insert c W" "c \<in> W' \<Longrightarrow> take (chunk_len r c) data = chunk_data r remote c"
  shows "direct_sound remote (r\<lparr>store := use_buffer direct_ops r c data\<rparr>, W')"
proof -
  note d = direct_soundD[OF s]
  let ?st = "use_buffer direct_ops r c data"
  have n: "0 < ring_size r" using ring_wfD(2)[OF d(2)] .
  then have slot: "c mod ring_size r < length (store r)" using d(5) by (meson mod_less_divisor order_less_le_trans)
  have "direct.good remote (r\<lparr>store := ?st, read_state := (if False then (read_state r)[c mod ring_size r := True] else read_state r)\<rparr>)"
    by (rule direct.good_put[OF d(1)]) (use d(5) d(6)[OF c] in \<open>auto simp: direct_defs\<close>)
  then have g: "direct.good remote (r\<lparr>store := ?st\<rparr>)" by simp
  have "take (chunk_len r a) (?st ! (a mod ring_size r)) = chunk_data r remote a" if a: "a \<in> W'" for a
  proof (cases "a = c")
    case True
    then show ?thesis using W(2) a slot by (simp add: direct_defs)
  next
    case False
    then have aW: "a \<in> W" using a W(1) by auto
    then have "a \<in> active_downloads r" using d(3) by auto
    then have "a mod ring_size r \<noteq> c mod ring_size r"
      using window_slot_eq[OF d(2), of a c] d(6)[OF c] d(6)[of a] False by simp
    then show ?thesis using d(7)[OF aW] by (simp add: direct_defs)
  qed
  then show ?thesis using g d(3) d(6) c W(1) by (auto simp: direct_sound_def)
qed

lemma direct_finish_sound:
  assumes s: "direct_sound remote (r, W)" and c: "c \<in> active_downloads r" and W: "res = success \<longrightarrow> c \<in> W"
    and f: "download_finish direct_ops c res (chunk_data r remote c) r = (res', r')"
  shows "direct_sound remote (r', W - {c})"
proof -
  note d = direct_soundD[OF s]
  have win: "ring_begin r \<le> c" "c \<le> ring_end r" "\<not> chunk_ready r c" using d(6)[OF c] by auto
  show ?thesis
  proof (cases "res = success")
    case False
    then have "r' = r\<lparr>active_downloads := active_downloads r - {c}\<rparr>"
      using f win by (simp add: download_finish_def)
    then show ?thesis using s direct.good_active[OF d(1)] by (auto simp: direct_sound_def)
  next
    case True
    let ?m = "r\<lparr>read_state := (read_state r)[c mod ring_size r := True]\<rparr>"
    have r': "r' = ?m\<lparr>active_downloads := active_downloads r - {c}\<rparr>"
      using f win True by (auto simp: download_finish_def direct_defs)
    have "direct.good remote (r\<lparr>store := store r, read_state := (if True then (read_state r)[c mod ring_size r := True]
        else read_state r)\<rparr>)"
      by (rule direct.good_put[OF d(1) win]) (use d(5) d(7)[of c] W True in \<open>auto simp: direct_defs\<close>)
    then have g: "direct.good remote ?m" by simp
    have "\<not> chunk_ready ?m a" if a: "a \<in> active_downloads r - {c}" for a
    proof
      assume ra: "chunk_ready ?m a"
      have "a mod ring_size r \<noteq> c mod ring_size r"
        using window_slot_eq[OF d(2), of a c] win d(6)[of a] a by auto
      then have "chunk_ready r a" using ra by (auto simp: chunk_ready_def)
      then show False using d(6)[of a] a by auto
    qed
    moreover have "chunk_len ?m a = chunk_len r a" "chunk_data ?m remote a = chunk_data r remote a" for a
      by (simp_all add: chunk_len_def chunk_data_def)
    ultimately show ?thesis using direct.good_active[OF g] d(3,6,7) by (auto simp: direct_sound_def r')
  qed
qed

lemma direct_move_sound:
  assumes s: "direct_sound remote (r, W)" and m: "count < 2 ^ 63" "r' = update_position count fwd r"
    and inside: "\<forall>c \<in> active_downloads r. ring_begin r' \<le> c \<and> c \<le> ring_end r'"
  shows "direct_sound remote (r', W)"
proof -
  note d = direct_soundD[OF s]
  have mv: "window_moved r r'" using update_position_moved[OF d(2) m(1)] m(2) by simp
  then have "same_file r r'" "store r' = store r" "active_downloads r' = active_downloads r" "ring_size r' = ring_size r"
    "\<And>c. chunk_ready r' c \<Longrightarrow> chunk_ready r c"
    by (auto simp: window_moved_def same_file_def)
  then show ?thesis
    using direct.good_moved[OF d(1) mv] d(3,6,7) inside
    by (auto simp: direct_sound_def direct.chunk_len_same_file direct.chunk_data_same_file)
qed

lemma direct_step_sound: "direct_step remote p s \<Longrightarrow> direct_sound remote p \<Longrightarrow> direct_sound remote s"
proof (induction rule: direct_step.induct)
  case (direct_move count r' fwd r W)
  then show ?case using direct_move_sound by blast
next
  case (direct_begin_background c r b r' W)
  then show ?case using direct_begin_sound by blast
next
  case (direct_begin_read r b r' W)
  then show ?case using direct_begin_sound by blast
next
  case (direct_transfer c r W)
  then have "c < total_chunks r" "length remote = file_size r" "ring_wf r"
    using direct_soundD(2,4,6)[OF direct_transfer(2)] ring_wfD(6) by (auto intro: le_less_trans)
  then have "take (chunk_len r c) (chunk_data r remote c) = chunk_data r remote c"
    using length_chunk_data by (metis order_refl take_all)
  then show ?case using direct_transfer direct_write_sound[of remote r W c "insert c W"] by simp
next
  case (direct_spoil c r W data)
  then show ?case using direct_write_sound[of remote r W c "W - {c}"] by auto
next
  case (direct_finish c r res W res' r')
  then show ?case using direct_finish_sound by blast
qed

lemma direct_steps_sound: "direct_steps remote s s' \<Longrightarrow> direct_sound remote s \<Longrightarrow> direct_sound remote s'"
  by (induction rule: rtranclp_induct) (auto intro: direct_step_sound)

text \<open>
  C28. Once a direct_open_file is started, every interleaving of window moves, downloads by the reader threads and
  by \<open>read\<close>, and transfers that deliver or fail, in which no window move leaves a running download behind, keeps this:
  a read of a chunk that is inside the window and marked succeeds with exactly the file's bytes.  The condition
  on the moves is needed, and the code does not see to it: \<open>direct_stale_transfer\<close>.
\<close>

theorem direct_interleavings:
  assumes "direct_open_file cs (length remote) False = Inr r0"
    and "0 < cs" "0 < length remote" "length remote + cs < 2 ^ 62"
    and "check_start direct_ops r0 = (success, r)" "direct_steps remote (r, {}) (r', W)"
    and "chunk_ready r' c" "off + m \<le> chunk_len r' c"
  shows "on_read_chunk direct_ops r' c m off = (success, slice (c * chunk_size r' + off) m remote, m)"
proof -
  have g: "direct.good remote r0" "active_downloads r0 = {}"
    using direct_open_file_good[OF assms(1-4)] by auto
  have "direct_sound remote (r, {})"
    using direct.check_start_good[OF g(1) assms(5)] g(2) by (simp add: direct_sound_def)
  then have g': "direct.good remote r'" using direct_steps_sound[OF assms(6)] by (simp add: direct_sound_def)
  obtain res bs k where o: "on_read_chunk direct_ops r' c m off = (res, bs, k)"
    by (cases "on_read_chunk direct_ops r' c m off")
  then show ?thesis using direct.on_read_chunk_good[OF g' assms(7,8) o] by auto
qed

text \<open>
  The transfer of \<open>direct_open_file\<close> writes the slot without the lock.  A ring that streams
  twelve one-byte chunks: the reader thread begins chunk 0, the window moves on so that chunk 5
  gets slot 0, \<open>read\<close> downloads it, and then the transfer of chunk 0 arrives.
\<close>

definition stale_ring :: "direct_store ring" where
  "stale_ring = \<lparr>is_dir = False, chunk_size = 1, file_size = 12, last_chunk_size = 1,
     total_chunks = 12, read_state = replicate 5 False, ring_begin = 0, ring_end = 4,
     ring_pos = 0, has_reader_thread = True, ring_stop = False, active_downloads = {},
     store = replicate 5 []\<rparr>"

text \<open>
  The direct store is not safe against a transfer that outlives its window: from a freshly
  started ring an interleaving of the code's steps, in which every provider call delivers the
  right bytes, leads to a chunk that is inside the window and marked as read while a read of it
  returns the bytes of another chunk.
\<close>

theorem direct_stale_transfer:
  "\<exists>r0 r. direct_open_file 1 (length example_file) False = Inr r0 \<and>
     check_start direct_ops r0 = (success, stale_ring) \<and>
     ring_steps direct_ops example_file stale_ring r \<and> chunk_ready r 5 \<and>
     on_read_chunk direct_ops r 5 1 0 = (success, slice 0 1 example_file, 1) \<and>
     slice 5 1 example_file \<noteq> slice 0 1 example_file"
proof -
  let ?S = "ring_step direct_ops example_file"
  define r1 where "r1 = stale_ring\<lparr>active_downloads := {0}\<rparr>"
  define r2 where "r2 = r1\<lparr>ring_begin := 3, ring_end := 7, ring_pos := 5\<rparr>"
  define r3 where "r3 = r2\<lparr>active_downloads := {0, 5}\<rparr>"
  define r4 where "r4 = r3\<lparr>store := [[15], [], [], [], []]\<rparr>"
  define r5 where "r5 = r4\<lparr>active_downloads := {0}, read_state := [True, False, False, False, False]\<rparr>"
  define r6 where "r6 = r5\<lparr>store := [[10], [], [], [], []]\<rparr>"
  have five: "replicate 5 x = [x, x, x, x, x]" for x :: 'b
    by (simp add: numeral_eq_Suc)
  have s0: "direct_open_file 1 (length example_file) False = Inr (stale_ring\<lparr>has_reader_thread := False\<rparr>)"
    "check_start direct_ops (stale_ring\<lparr>has_reader_thread := False\<rparr>) = (success, stale_ring)"
    by (simp_all add: direct_open_file_def ring_buffer_base_def stale_ring_def example_file_def Let_def
        divide_with_ceiling_def last_chunk_size_of_def min_ring_size_def add64_def sub64_def
        check_start_def direct_defs five)
  have "download_begin 0 True stale_ring = (Transfer 0 1 0, r1)"
    by (simp add: download_begin_def stale_ring_def r1_def five sub64_def mul64_def)
  then have s1: "?S stale_ring r1" by (rule begin_background)
  have "update_position 5 True r1 = r2"
    by (simp add: r2_def r1_def stale_ring_def update_position_def center_ring_def add64_def
        sub64_def Let_def center_steps_numeral five)
  then have s2: "?S r1 r2" using move[of 5 direct_ops example_file r1 True] by simp
  have "download_begin (ring_pos r2) False r2 = (Transfer 5 1 5, r3)"
    by (simp add: insert_commute download_begin_def stale_ring_def r1_def r2_def r3_def five sub64_def mul64_def)
  then have s3: "?S r2 r3" by (rule begin_read)
  have c5: "chunk_data r example_file 5 = [15]" "chunk_data r example_file 0 = [10]"
    if "total_chunks r = 12" "chunk_size r = 1" for r :: "direct_store ring"
    using that by (simp_all add: chunk_data_def chunk_len_def slice_def example_file_def)
  have s4: "?S r3 r4"
    using transfer[of 5 r3 direct_ops example_file] c5(1)[of r3]
    by (simp add: r4_def r3_def r2_def r1_def stale_ring_def direct_defs five)
  have "download_finish direct_ops 5 success (chunk_data r4 example_file 5) r4 = (success, r5)"
    by (auto simp: download_finish_def r5_def r4_def r3_def r2_def r1_def stale_ring_def direct_defs five)
  then have s5: "?S r4 r5"
    by (intro finish[of 5]) (simp_all add: r4_def r3_def)
  have s6: "?S r5 r6"
    using transfer[of 0 r5 direct_ops example_file] c5(2)[of r5]
    by (simp add: r6_def r5_def r4_def r3_def r2_def r1_def stale_ring_def direct_defs)
  have "ring_steps direct_ops example_file stale_ring r6"
    using s1 s2 s3 s4 s5 s6 by (meson converse_rtranclp_into_rtranclp rtranclp.rtrancl_refl)
  moreover have "chunk_ready r6 5"
    "on_read_chunk direct_ops r6 5 1 0 = (success, slice 0 1 example_file, 1)"
    by (simp_all add: chunk_ready_def r6_def r5_def r4_def r3_def r2_def r1_def stale_ring_def
        direct_defs slice_def example_file_def)
  moreover have "slice 5 1 example_file \<noteq> slice 0 1 example_file"
    by (simp add: slice_def example_file_def)
  ultimately show ?thesis using s0 by blast
qed

text \<open>The same ring: the reader thread downloads chunk 0, and \<open>read\<close> takes it.\<close>

theorem direct_interleavings_witness:
  "\<exists>r' W. direct_steps example_file (stale_ring, {}) (r', W) \<and> chunk_ready r' 0 \<and>
     on_read_chunk direct_ops r' 0 1 0 = (success, [10], 1)"
proof -
  define r1 where "r1 = stale_ring\<lparr>active_downloads := {0}\<rparr>"
  define r2 where "r2 = r1\<lparr>store := [[10], [], [], [], []]\<rparr>"
  define r3 where "r3 = r2\<lparr>active_downloads := {}, read_state := [True, False, False, False, False]\<rparr>"
  have five: "replicate 5 x = [x, x, x, x, x]" for x :: 'b
    by (simp add: numeral_eq_Suc)
  have o: "direct_open_file 1 (length example_file) False = Inr (stale_ring\<lparr>has_reader_thread := False\<rparr>)"
    "check_start direct_ops (stale_ring\<lparr>has_reader_thread := False\<rparr>) = (success, stale_ring)"
    by (simp_all add: direct_open_file_def ring_buffer_base_def stale_ring_def example_file_def Let_def
        divide_with_ceiling_def last_chunk_size_of_def min_ring_size_def add64_def sub64_def
        check_start_def direct_defs five)
  have "download_begin 0 True stale_ring = (Transfer 0 1 0, r1)"
    by (simp add: download_begin_def stale_ring_def r1_def five sub64_def mul64_def)
  then have s1: "direct_step example_file (stale_ring, {}) (r1, {})" by (rule direct_begin_background)
  have "chunk_data r1 example_file 0 = [10]"
    by (simp add: chunk_data_def chunk_len_def slice_def example_file_def r1_def stale_ring_def)
  then have "r1\<lparr>store := use_buffer direct_ops r1 0 (chunk_data r1 example_file 0)\<rparr> = r2"
    by (simp add: r2_def r1_def stale_ring_def direct_defs five)
  then have s2: "direct_step example_file (r1, {}) (r2, {0})"
    using direct_transfer[of 0 r1 example_file "{}"] by (simp add: r1_def)
  have "download_finish direct_ops 0 success (chunk_data r2 example_file 0) r2 = (success, r3)"
    by (simp add: download_finish_def r3_def r2_def r1_def stale_ring_def direct_defs five)
  then have s3: "direct_step example_file (r2, {0}) (r3, {0} - {0})"
    by (intro direct_finish[of 0]) (simp_all add: r2_def r1_def)
  have steps: "direct_steps example_file (stale_ring, {}) (r3, {0} - {0})"
    using s1 s2 s3 by (meson converse_rtranclp_into_rtranclp rtranclp.rtrancl_refl)
  have rdy: "chunk_ready r3 0" "0 + 1 \<le> chunk_len r3 0" "chunk_size r3 = 1"
    by (simp_all add: chunk_ready_def chunk_len_def r3_def r2_def r1_def stale_ring_def)
  have "on_read_chunk direct_ops r3 0 1 0 = (success, slice (0 * chunk_size r3 + 0) 1 example_file, 1)"
    by (rule direct_interleavings[OF o(1) _ _ _ o(2) steps rdy(1,2)]) (simp_all add: example_file_def)
  then show ?thesis using steps rdy by (auto simp: slice_def example_file_def)
qed

end
