(* ===== verification/Ring_Buffer_Open_File.thy ===== *)
theory Ring_Buffer_Open_File imports Ring_Store begin

text \<open>
  ring_buffer_open_file: the ring buffer whose slots are the chunks of one file on disk.  The
  store holds that file's bytes and the state of the handle \<open>nf_\<close>: null, an object whose file is
  not open (what \<open>open_or_create_file\<close> returns when it fails), or an open file.  The remaining
  fields say which of the operating system's calls fail: a failing write leaves the first \<open>k\<close>
  bytes written.  A read at the end of the file is short and succeeds, as \<open>file::read\<close> does.
\<close>

datatype native_handle = Null_handle | Not_open | Opened

record ring_file =
  disk :: bytes
  nf :: native_handle
  directory_ok :: bool
  open_ok :: bool
  truncate_ok :: bool
  write_fails :: "nat option"
  read_ok :: bool

definition can_handle_file :: "nat \<Rightarrow> nat \<Rightarrow> nat \<Rightarrow> bool" where
  "can_handle_file fsize csize rsize \<longleftrightarrow> fsize \<ge> mul64 rsize csize"

definition file_on_check_start :: "ring_file ring \<Rightarrow> bool option \<times> ring_file" where
  "file_on_check_start r =
    (let s = store r in
     if nf s \<noteq> Null_handle then (Some True, s)
     else if \<not> directory_ok s then (None, s)
     else if \<not> open_ok s then (None, s\<lparr>nf := Not_open\<rparr>)
     else if \<not> truncate_ok s then (None, s\<lparr>nf := Null_handle\<rparr>)
     else (Some False, s\<lparr>nf := Opened, disk := resize_to 0 (mul64 (ring_size r) (chunk_size r)) (disk s)\<rparr>))"

definition file_on_chunk_downloaded ::
  "ring_file ring \<Rightarrow> nat \<Rightarrow> bytes \<Rightarrow> api_error \<times> ring_file" where
  "file_on_chunk_downloaded r chunk buffer =
    (let s = store r; at = mul64 (chunk mod ring_size r) (chunk_size r) in
     if nf s \<noteq> Opened then (os_error, s)
     else case write_fails s of
       None \<Rightarrow> (success, s\<lparr>disk := splice_at 0 at buffer (disk s)\<rparr>)
     | Some k \<Rightarrow> (os_error, s\<lparr>disk := splice_at 0 at (take k buffer) (disk s)\<rparr>))"

definition file_on_read_chunk ::
  "ring_file ring \<Rightarrow> nat \<Rightarrow> nat \<Rightarrow> nat \<Rightarrow> api_error \<times> bytes \<times> nat" where
  "file_on_read_chunk r chunk read_size read_offset =
    (let s = store r;
         got = slice (add64 (mul64 (chunk mod ring_size r) (chunk_size r)) read_offset) read_size (disk s)
     in if nf s \<noteq> Opened \<or> \<not> read_ok s then (os_error, [], 0)
        else (success, pad_to 0 read_size got, length got))"

definition file_use_buffer :: "ring_file ring \<Rightarrow> nat \<Rightarrow> bytes \<Rightarrow> ring_file" where
  "file_use_buffer r chunk data = store r"

definition file_ops :: "ring_file ring_ops" where
  "file_ops = \<lparr>on_check_start = file_on_check_start, use_buffer = file_use_buffer,
     on_chunk_downloaded = file_on_chunk_downloaded, on_read_chunk = file_on_read_chunk\<rparr>"

definition ring_buffer_open_file ::
  "nat \<Rightarrow> nat \<Rightarrow> bool \<Rightarrow> nat \<Rightarrow> ring_file \<Rightarrow> exn + ring_file ring" where
  "ring_buffer_open_file csize fsize directory rsize st =
    (case ring_buffer_base csize fsize directory rsize False st of
       Inl e \<Rightarrow> Inl e
     | Inr r \<Rightarrow>
         if \<not> can_handle_file fsize csize rsize
         then Inl (runtime_error ''file size is less than ring buffer size'')
         else Inr r)"

section \<open>The contract\<close>

definition file_inv :: "nat \<Rightarrow> nat \<Rightarrow> ring_file \<Rightarrow> bool" where
  "file_inv cs n s \<longleftrightarrow> n * cs < 2 ^ 63 \<and> (nf s = Opened \<longrightarrow> length (disk s) = n * cs)"

definition slot_content :: "nat \<Rightarrow> ring_file \<Rightarrow> nat \<Rightarrow> bytes" where
  "slot_content cs s k = slice (k * cs) cs (disk s)"

definition file_started :: "ring_file \<Rightarrow> bool" where
  "file_started s \<longleftrightarrow> nf s \<noteq> Null_handle"

definition file_healthy :: "ring_file \<Rightarrow> bool" where
  "file_healthy s \<longleftrightarrow> directory_ok s \<and> open_ok s \<and> truncate_ok s \<and> write_fails s = None \<and> read_ok s \<and>
    nf s \<noteq> Not_open"

lemmas file_defs = file_ops_def file_on_check_start_def file_use_buffer_def file_inv_def
  file_started_def file_healthy_def

lemma slot_inside:
  fixes k n cs :: nat
  assumes "k < n" shows "k * cs + cs \<le> n * cs"
proof -
  have "(k + 1) * cs \<le> n * cs" using assms by (intro mult_right_mono) auto
  then show ?thesis by simp
qed

lemma splice_slot:
  assumes d: "length d \<le> cs" and k: "k < n" and len: "length xs = n * cs"
  shows "length (splice_at 0 (k * cs) d xs) = n * cs"
    and "take (length d) (slice (k * cs) cs (splice_at 0 (k * cs) d xs)) = d"
    and "j < n \<Longrightarrow> j \<noteq> k \<Longrightarrow>
      slice (j * cs) cs (splice_at (0 :: byte) (k * cs) d xs) = slice (j * cs) cs xs"
proof -
  show "length (splice_at 0 (k * cs) d xs) = n * cs"
    using slot_inside[OF k, of cs] d len by simp
  have "slice (k * cs) (length d) (splice_at 0 (k * cs) d xs) = d" by simp
  then show "take (length d) (slice (k * cs) cs (splice_at 0 (k * cs) d xs)) = d"
    using d by (simp add: slice_def min_def)
  assume j: "j < n" "j \<noteq> k"
  show "slice (j * cs) cs (splice_at 0 (k * cs) d xs) = slice (j * cs) cs xs"
  proof (cases "j < k")
    case True
    then show ?thesis
      using slot_inside[of j k cs] slot_inside[of j n cs] j len by (intro slice_splice_before) auto
  next
    case False
    then show ?thesis
      using slot_inside[of k j cs] j d by (intro slice_splice_after) auto
  qed
qed

lemma file_commit:
  assumes inv: "file_inv (chunk_size r) (ring_size r) (store r)" and st: "file_started (store r)"
    and n: "0 < ring_size r" and d: "length d \<le> chunk_size r"
    and o: "on_chunk_downloaded file_ops r c d = (res, s)"
  shows "file_inv (chunk_size r) (ring_size r) s \<and> file_started s \<and>
    res \<noteq> invalid_ring_buffer_position \<and>
    (file_healthy (store r) \<longrightarrow> file_healthy s \<and> res = success) \<and>
    (\<forall>k < ring_size r. k \<noteq> c mod ring_size r \<longrightarrow>
       slot_content (chunk_size r) s k = slot_content (chunk_size r) (store r) k) \<and>
    (res = success \<longrightarrow> take (length d) (slot_content (chunk_size r) s (c mod ring_size r)) = d)"
proof (cases "nf (store r) = Opened")
  case False
  then show ?thesis
    using o inv st by (cases "nf (store r)") (auto simp: file_defs file_on_chunk_downloaded_def)
next
  case True
  let ?k = "c mod ring_size r" and ?cs = "chunk_size r" and ?n = "ring_size r"
  have k: "?k < ?n" using n by simp
  have len: "length (disk (store r)) = ?n * ?cs" "?n * ?cs < 2 ^ 63"
    using inv True by (auto simp: file_inv_def)
  have at: "mul64 ?k ?cs = ?k * ?cs"
    using slot_inside[OF k, of ?cs] len by (simp add: mul64_exact)
  define d' where "d' = (case write_fails (store r) of None \<Rightarrow> d | Some j \<Rightarrow> take j d)"
  have d': "length d' \<le> ?cs" using d by (auto simp: d'_def split: option.splits)
  have s: "s = (store r)\<lparr>disk := splice_at 0 (?k * ?cs) d' (disk (store r))\<rparr>"
    "res = (if write_fails (store r) = None then success else os_error)"
    using o True at by (auto simp: file_ops_def file_on_chunk_downloaded_def d'_def Let_def split: option.splits)
  note sp = splice_slot[OF d' k len(1)]
  show ?thesis
    using s sp st len True by (auto simp: file_defs slot_content_def d'_def)
qed

interpretation ring_file: isolated_store file_ops file_inv slot_content file_started file_healthy
proof unfold_locales
  fix r :: "ring_file ring" and b st
  assume "file_inv (chunk_size r) (ring_size r) (store r)" "on_check_start file_ops r = (b, st)"
  then show "file_inv (chunk_size r) (ring_size r) st \<and> (b \<noteq> None \<longrightarrow> file_started st) \<and>
      (file_started (store r) \<longrightarrow> st = store r)"
    by (auto simp: file_defs Let_def mul64_exact split: if_splits)
next
  fix r :: "ring_file ring" and d bs :: bytes and off m c k res
  assume inv: "file_inv (chunk_size r) (ring_size r) (store r)" and n: "0 < ring_size r"
    and d: "length d \<le> chunk_size r" "off + m \<le> length d"
    and t: "take (length d) (slot_content (chunk_size r) (store r) (c mod ring_size r)) = d"
    and st: "file_started (store r)" and o: "on_read_chunk file_ops r c m off = (res, bs, k)"
  show "(res = success \<longrightarrow> bs = slice off m d \<and> k = m) \<and> (file_healthy (store r) \<longrightarrow> res = success)"
  proof (cases "nf (store r) = Opened \<and> read_ok (store r)")
    case False
    then show ?thesis
      using o st by (cases "nf (store r)") (auto simp: file_defs file_on_read_chunk_def Let_def)
  next
    case True
    let ?at = "c mod ring_size r * chunk_size r"
    have in_disk: "?at + chunk_size r \<le> length (disk (store r))" "length (disk (store r)) < 2 ^ 63"
      using slot_inside[of "c mod ring_size r" "ring_size r" "chunk_size r"] inv n True
      by (auto simp: file_inv_def)
    have at: "add64 (mul64 (c mod ring_size r) (chunk_size r)) off = ?at + off"
      using in_disk d by (simp add: mul64_exact add64_exact)
    have "slice off m d = slice off m (slot_content (chunk_size r) (store r) (c mod ring_size r))"
      using slice_take[OF d(2), of "slot_content (chunk_size r) (store r) (c mod ring_size r)"] t by simp
    also have "\<dots> = slice (?at + off) m (disk (store r))"
      using d by (simp add: slot_content_def slice_def drop_take add.commute)
    finally have s: "slice off m d = slice (?at + off) m (disk (store r))" .
    have "length (slice (?at + off) m (disk (store r))) = m" using in_disk d by simp
    then show ?thesis
      using o True at s by (auto simp: file_ops_def file_on_read_chunk_def Let_def pad_to_def)
  qed
next
  fix r :: "ring_file ring" and d :: bytes and c st
  assume a: "file_inv (chunk_size r) (ring_size r) (store r)" "file_started (store r)"
    "0 < ring_size r" "length d \<le> chunk_size r"
  show "take (length d) (slot_content (chunk_size r) st (c mod ring_size r)) = d"
    if "on_chunk_downloaded file_ops (r\<lparr>store := use_buffer file_ops r c d\<rparr>) c d = (success, st)"
  proof -
    have "r\<lparr>store := use_buffer file_ops r c d\<rparr> = r" by (simp add: file_defs)
    then show ?thesis using file_commit[OF a] that by simp
  qed
  show "take (length d) (slot_content (chunk_size r) st (c mod ring_size r)) = d"
    if "on_chunk_downloaded file_ops r c d = (success, st)"
    using file_commit[OF a that] by blast
  show "file_inv (chunk_size r) (ring_size r) st \<and> file_started st \<and>
      res \<noteq> invalid_ring_buffer_position \<and>
      (file_healthy (store r) \<longrightarrow> file_healthy st \<and> res = success) \<and>
      (\<forall>k < ring_size r. k \<noteq> c mod ring_size r \<longrightarrow>
         slot_content (chunk_size r) st k = slot_content (chunk_size r) (store r) k)"
    if "on_chunk_downloaded file_ops r c d = (res, st)" for res
    using file_commit[OF a that] by blast
next
  fix r :: "ring_file ring"
  assume "file_healthy (store r)"
  then show "\<exists>b st. on_check_start file_ops r = (Some b, st) \<and> file_healthy st"
    by (auto simp: file_defs Let_def)
qed (simp_all add: file_use_buffer_def file_ops_def)

section \<open>Properties\<close>

definition fresh_file :: ring_file where
  "fresh_file = \<lparr>disk = [], nf = Null_handle, directory_ok = True, open_ok = True,
     truncate_ok = True, write_fails = None, read_ok = True\<rparr>"

lemma ring_buffer_open_file_good:
  assumes o: "ring_buffer_open_file cs (length remote) False n st = Inr r"
    and cs: "0 < cs" "0 < length remote" "length remote + cs < 2 ^ 62" "n * cs < 2 ^ 62"
    and st: "nf st = Null_handle"
  shows "ring_file.good remote r \<and> active_downloads r = {} \<and> \<not> ring_stop r \<and> \<not> is_dir r \<and>
    total_chunks r \<le> length remote \<and> store r = st \<and> n = ring_size r \<and> 5 \<le> n"
proof -
  have c: "ring_buffer_base cs (length remote) False n False st = Inr r"
    using o by (auto simp: ring_buffer_open_file_def split: sum.splits if_splits)
  then have n: "5 \<le> n"
    by (auto simp: ring_buffer_base_def Let_def min_ring_size_def split: if_splits)
  moreover have "n * 1 \<le> n * cs" using cs(1) by (intro mult_left_mono) auto
  ultimately have n2: "0 < n" "n < 2 ^ 62" using cs(4) by linarith+
  note k = constructed_ring_wf[OF c cs(1-3) n2]
  have "total_chunks r = divide_with_ceiling (length remote) cs"
    using k by (auto simp: ring_wf_def)
  then show ?thesis
    using k total_chunks_bounds(2)[OF cs(1,2)] st cs(4) n
    by (auto simp: ring_file.good_def file_inv_def)
qed

text \<open>
  \<open>ring_buffer_open_file::read\<close> on a freshly opened file returns a result, whatever I/O or
  provider call fails; success means the data is exactly the part of the file asked for, and
  without failures the result is success.
\<close>

theorem ring_file_read_correct:
  assumes "ring_buffer_open_file cs (length remote) False n st = Inr r"
    and "0 < cs" "0 < length remote" "length remote + cs < 2 ^ 62" "n * cs < 2 ^ 62"
    and "nf st = Null_handle"
    and "fetch_ok remote fetch" "off + sz < 2 ^ 64" "length remote + 1 < fuel"
  shows "\<exists>res data r'. read file_ops fetch others fuel sz off [] r = Some (res, data, r') \<and>
    (res = success \<longrightarrow> data = slice off sz remote) \<and>
    (file_healthy st \<and> fetch_succeeds fetch \<longrightarrow> res = success)"
proof -
  have g: "ring_file.good remote r" "active_downloads r = {}" "\<not> ring_stop r" "\<not> is_dir r"
    "total_chunks r + 1 < fuel" "store r = st"
    using ring_buffer_open_file_good[OF assms(1-6)] assms(9) by auto
  show ?thesis
    using ring_file.read_good[OF g(1-4) assms(7,8) g(5), of others] g(6) by auto
qed

definition six_bytes :: bytes where
  "six_bytes = [10, 11, 12, 13, 14, 15]"

definition six_ring :: "ring_file ring" where
  "six_ring = \<lparr>is_dir = False, chunk_size = 1, file_size = 6, last_chunk_size = 1,
     total_chunks = 6, read_state = replicate 5 False, ring_begin = 0, ring_end = 4,
     ring_pos = 0, has_reader_thread = False, ring_stop = False, active_downloads = {},
     store = fresh_file\<rparr>"

lemma six_ring_open: "ring_buffer_open_file 1 (length six_bytes) False 5 fresh_file = Inr six_ring"
  by (simp add: ring_buffer_open_file_def ring_buffer_base_def six_ring_def six_bytes_def Let_def
      divide_with_ceiling_def last_chunk_size_of_def min_ring_size_def add64_def sub64_def
      can_handle_file_def mul64_def)

theorem ring_file_read_correct_witness:
  "\<exists>data r'. read file_ops (\<lambda>sz off. (success, slice off sz six_bytes)) (\<lambda>c r. (error, r)) 8 3 2 [] six_ring
     = Some (success, data, r') \<and> data = [12, 13, 14]"
proof -
  have f: "fetch_ok six_bytes (\<lambda>sz off. (success, slice off sz six_bytes))"
    "fetch_succeeds (\<lambda>sz off. (success, slice off sz six_bytes))"
    by (simp_all add: fetch_ok_def fetch_succeeds_def)
  have h: "nf fresh_file = Null_handle" "file_healthy fresh_file"
    by (simp_all add: fresh_file_def file_healthy_def)
  have "slice 2 3 six_bytes = [12, 13, 14]"
    by (simp add: slice_def six_bytes_def)
  then show ?thesis
    using ring_file_read_correct[OF six_ring_open _ _ _ _ h(1) f(1), of 2 3 8 "\<lambda>c r. (error, r)"] f(2) h(2)
    by (fastforce simp: six_bytes_def)
qed

text \<open>
  C26. Once a ring_buffer_open_file is started, every interleaving of window moves, downloads by
  the reader threads and by \<open>read\<close>, transfers and their failures keeps this: what \<open>on_read_chunk\<close>
  delivers from a chunk that is inside the window and marked as read are the file's bytes.
\<close>

theorem ring_file_interleavings:
  assumes "ring_buffer_open_file cs (length remote) False n st = Inr r0"
    and "0 < cs" "0 < length remote" "length remote + cs < 2 ^ 62" "n * cs < 2 ^ 62"
    and "nf st = Null_handle"
    and "check_start file_ops r0 = (success, r)" "ring_steps file_ops remote r r'"
    and "chunk_ready r' c" "off + m \<le> chunk_len r' c"
    and "on_read_chunk file_ops r' c m off = (success, bs, k)"
  shows "bs = slice (c * chunk_size r' + off) m remote \<and> k = m"
proof -
  have g: "ring_file.good remote r0" "active_downloads r0 = {}"
    using ring_buffer_open_file_good[OF assms(1-6)] by auto
  have "ring_file.sound remote r"
    using ring_file.check_start_good[OF g(1) assms(7)] g(2) by (simp add: ring_file.sound_def)
  then show ?thesis
    using ring_file.steps_read_chunk assms(8-11) by blast
qed

theorem ring_file_interleavings_witness:
  "\<exists>r r'. check_start file_ops six_ring = (success, r) \<and> ring_steps file_ops six_bytes r r' \<and>
     chunk_ready r' 3 \<and> on_read_chunk file_ops r' 3 1 0 = (success, [13], 1)"
proof -
  define s where "s = fresh_file\<lparr>nf := Opened, disk := [0, 0, 0, 0, 0]\<rparr>"
  define r where "r = six_ring\<lparr>store := s, has_reader_thread := True\<rparr>"
  define r1 where "r1 = r\<lparr>active_downloads := {3}\<rparr>"
  define r2 where "r2 = r\<lparr>store := s\<lparr>disk := [0, 0, 0, 13, 0]\<rparr>,
    read_state := [False, False, False, True, False]\<rparr>"
  have five: "replicate 5 x = [x, x, x, x, x]" for x :: 'b
    by (simp add: numeral_eq_Suc)
  have c: "check_start file_ops six_ring = (success, r)"
    by (simp add: check_start_def file_defs six_ring_def fresh_file_def r_def s_def Let_def
        mul64_def resize_to_def pad_to_def five)
  have "download_begin 3 True r = (Transfer 3 1 3, r1)"
    by (simp add: download_begin_def r_def r1_def six_ring_def five sub64_def mul64_def)
  then have s1: "ring_step file_ops six_bytes r r1" by (rule begin_background)
  have "download_finish file_ops 3 success (chunk_data r1 six_bytes 3) r1 = (success, r2)"
    by (simp add: download_finish_def r2_def r1_def r_def s_def six_ring_def file_ops_def Let_def
        file_on_chunk_downloaded_def fresh_file_def mul64_def splice_at_def pad_to_def five
        chunk_data_def chunk_len_def slice_def six_bytes_def)
  then have s2: "ring_step file_ops six_bytes r1 r2"
    by (intro finish[of 3]) (simp_all add: r1_def)
  have steps: "ring_steps file_ops six_bytes r r2" using s1 s2 by auto
  have rdy: "chunk_ready r2 3" "0 + 1 \<le> chunk_len r2 3" "chunk_size r2 = 1"
    by (simp_all add: chunk_ready_def chunk_len_def r2_def r_def six_ring_def)
  obtain bs k where o: "on_read_chunk file_ops r2 3 1 0 = (success, bs, k)"
    by (simp add: file_ops_def file_on_read_chunk_def Let_def r2_def r_def s_def fresh_file_def)
  have h: "nf fresh_file = Null_handle" by (simp add: fresh_file_def)
  have "bs = slice (3 * chunk_size r2 + 0) 1 six_bytes \<and> k = 1"
    by (rule ring_file_interleavings[OF six_ring_open _ _ _ _ h c steps rdy(1,2) o])
      (simp_all add: six_bytes_def)
  then show ?thesis using c steps rdy o by (auto simp: slice_def six_bytes_def)
qed

text \<open>
  A failed open is not retried: when the backing file cannot be opened, \<open>check_start\<close> reports
  an error and leaves a handle that is not null, so that the next call, even if opening would
  work by then, succeeds without starting the readers, and every chunk read fails with
  \<open>os_error\<close>.
\<close>

theorem failed_open_not_retried:
  assumes "nf (store r) = Null_handle" "directory_ok (store r)" "\<not> open_ok (store r)"
  shows "\<exists>r1. check_start file_ops r = (error, r1) \<and>
    (let r2 = r1\<lparr>store := (store r1)\<lparr>open_ok := True\<rparr>\<rparr> in
     check_start file_ops r2 = (success, r2) \<and>
     has_reader_thread r2 = has_reader_thread r \<and>
     fst (on_read_chunk file_ops r2 c m off) = os_error)"
  using assms
  by (simp add: check_start_def file_defs Let_def file_on_read_chunk_def)

theorem failed_open_not_retried_witness:
  "\<exists>r1. check_start file_ops (six_ring\<lparr>store := fresh_file\<lparr>open_ok := False\<rparr>\<rparr>) = (error, r1) \<and>
     nf (store r1) = Not_open"
proof -
  have "\<exists>r1. check_start file_ops (six_ring\<lparr>store := fresh_file\<lparr>open_ok := False\<rparr>\<rparr>) = (error, r1)"
    using failed_open_not_retried[of "six_ring\<lparr>store := fresh_file\<lparr>open_ok := False\<rparr>\<rparr>" 0 1 0]
    by (auto simp: fresh_file_def)
  then show ?thesis
    by (auto simp: check_start_def file_defs fresh_file_def Let_def)
qed

end
