(* ===== verification/Paths.thy ===== *)
theory Paths imports Strings Api_Errors begin

text \<open>
  API paths (support/include/utils/path.hpp, on the platforms without drive letters): the
  normal form \<open>create_api_path\<close> gives every path that reaches a provider or the file manager,
  and the parent of such a path.  None is a call that does not return, \<open>Inl\<close> an exception.
\<close>

abbreviation slash :: char where "slash \<equiv> CHR ''/''"
abbreviation backslash :: char where "backslash \<equiv> CHR 0x5C"

section \<open>What \<open>replace\<close> computes\<close>

function replace_all :: "'a list \<Rightarrow> 'a list \<Rightarrow> 'a list \<Rightarrow> 'a list" where
  "replace_all v w [] = []"
| "replace_all v w (c # cs) =
    (if v \<noteq> [] \<and> is_prefix v (c # cs) then w @ replace_all v w (drop (length v) (c # cs))
     else c # replace_all v w cs)"
  by pat_completeness auto
termination
  by (relation "measure (\<lambda>(v, w, s). length s)") (auto simp: neq_Nil_conv)

declare replace_all.simps(2) [simp del]

lemma replace_all_find:
  assumes "v \<noteq> []"
  shows "find_at v i s = None \<Longrightarrow> replace_all v w s = s"
    and "find_at v i s = Some k \<Longrightarrow>
      replace_all v w s = take (k - i) s @ w @ replace_all v w (drop (k - i + length v) s)"
proof (induction s arbitrary: i)
  case Nil
  { case 1 then show ?case by simp }
  { case 2 then show ?case using assms by simp }
next
  case (Cons c cs)
  { case 1 then show ?case
      using Cons.IH(1)[of "Suc i"] by (auto simp: replace_all.simps split: if_splits) }
  { case 2
    show ?case
    proof (cases "is_prefix v (c # cs)")
      case True
      then show ?thesis using 2 assms by (simp add: replace_all.simps(2))
    next
      case False
      then have f: "find_at v (Suc i) cs = Some k" using 2 by simp
      then have "Suc i \<le> k" using find_at_bounds by blast
      then have "k - i = Suc (k - Suc i)" by simp
      then show ?thesis using Cons.IH(2)[OF f] False by (simp add: replace_all.simps(2))
    qed }
qed

lemma replace_loop_eq:
  assumes "v \<noteq> []" "pos \<le> length src"
  shows "replace_loop src v w pos = Some (take pos src @ replace_all v w (drop pos src))"
  using assms(2)
proof (induction "length src - pos" arbitrary: src pos rule: less_induct)
  case less
  show ?case
  proof (cases "str_find src v pos")
    case None
    then have "find_at v pos (drop pos src) = None"
      using less.prems by (simp add: str_find_def)
    then show ?thesis
      using None replace_all_find(1)[OF assms(1)] by (simp add: replace_loop.simps)
  next
    case (Some k)
    let ?src = "take k src @ w @ drop (k + length v) src"
    have f: "find_at v pos (drop pos src) = Some k"
      using Some less.prems by (simp add: str_find_def)
    have b: "pos \<le> k" "k + length v \<le> length src" using str_find_bounds[OF Some] by auto
    have v0: "0 < length v" using assms(1) by simp
    have "length src - (k + length v) < length src - pos" using b v0 by linarith
    then have "length ?src - (k + length w) < length src - pos" "k + length w \<le> length ?src"
      using b by simp_all
    then have "replace_loop ?src v w (k + length w)
        = Some (take (k + length w) ?src @ replace_all v w (drop (k + length w) ?src))"
      using less.hyps by blast
    moreover have "take (k + length w) ?src = take k src @ w" "drop (k + length w) ?src = drop (k + length v) src"
      using b by simp_all
    moreover have "take pos src @ take (k - pos) (drop pos src) = take k src"
      using b by (metis le_add_diff_inverse take_add)
    ultimately show ?thesis
      using Some replace_all_find(2)[OF assms(1) f, of w] b
      by (simp add: replace_loop.simps add.commute flip: append_assoc)
  qed
qed

lemma replace_str_eq: "v \<noteq> [] \<Longrightarrow> replace_str src v w 0 = Some (replace_all v w src)"
  by (cases src) (simp_all add: replace_str_def replace_loop_eq)

lemma replace_all_char: "replace_all [a] [b] s = map (\<lambda>c. if c = a then b else c) s"
  by (induction s) (auto simp: replace_all.simps)

lemma set_replace_all: "set (replace_all v w s) \<subseteq> set s \<union> set w"
proof (induction v w s rule: replace_all.induct)
  case (2 v w c cs)
  note sub = set_drop_subset[of "length v" "c # cs"]
  show ?case
  proof (cases "v \<noteq> [] \<and> is_prefix v (c # cs)")
    case True
    then have "replace_all v w (c # cs) = w @ replace_all v w (drop (length v) (c # cs))"
      by (simp add: replace_all.simps(2))
    then show ?thesis using 2(1)[OF True] sub by auto
  next
    case False
    then have "replace_all v w (c # cs) = c # replace_all v w cs"
      by (auto simp: replace_all.simps(2))
    then show ?thesis using 2(2)[OF False] by auto
  qed
qed simp

lemma length_replace_all:
  assumes "length w < length v"
  shows "length (replace_all v w s) \<le> length s \<and>
    (str_contains s v \<longrightarrow> length (replace_all v w s) < length s)"
proof (induction "length s" arbitrary: s rule: less_induct)
  case less
  have v: "v \<noteq> []" using assms by auto
  show ?case
  proof (cases "find_at v 0 s")
    case None
    then show ?thesis
      using replace_all_find(1)[OF v None] by (simp add: str_contains_def str_find_def)
  next
    case (Some k)
    have b: "k + length v \<le> length s" using find_at_bounds[OF Some] by simp
    have "length (drop (k + length v) s) < length s" using b v by (cases v) auto
    then have "length (replace_all v w (drop (k + length v) s)) \<le> length s - (k + length v)"
      using less.hyps[of "drop (k + length v) s"] by simp
    then have "length (replace_all v w s) < length s"
      using replace_all_find(2)[OF v Some, of w] b assms by simp
    then show ?thesis by simp
  qed
qed

section \<open>The normal form\<close>

partial_function (option) collapse_seps :: "char \<Rightarrow> string \<Rightarrow> string option" where
  "collapse_seps sep path =
    (if str_contains path [sep, sep] then
       (case replace_str path [sep, sep] [sep] 0 of
          None \<Rightarrow> None
        | Some p \<Rightarrow> collapse_seps sep p)
     else Some path)"

definition format_path :: "char \<Rightarrow> char \<Rightarrow> string \<Rightarrow> string option" where
  "format_path sep not_sep path =
    (case replace_str path [not_sep] [sep] 0 of
       None \<Rightarrow> None
     | Some p \<Rightarrow>
         (case collapse_seps sep p of
            None \<Rightarrow> None
          | Some p \<Rightarrow> Some (if p \<noteq> [sep] then right_trim sep p else p)))"

function strip_dot_slash :: "string \<Rightarrow> string" where
  "strip_dot_slash s = (if begins_with s ''./'' then strip_dot_slash (drop 2 s) else s)"
  by pat_completeness auto
termination
  by (relation "measure length") (auto simp: begins_with_iff)

declare strip_dot_slash.simps [simp del]

definition create_api_path :: "string \<Rightarrow> (exn + string) option" where
  "create_api_path path =
    (if path = [] \<or> path = [backslash] \<or> path = ''.'' \<or> path = ''./'' \<or> path = ''/'' \<or>
        path = [CHR ''.'', backslash]
     then Some (Inr ''/'')
     else case format_path slash backslash path of
       None \<Rightarrow> None
     | Some p \<Rightarrow>
         (case strip_dot_slash p of
            [] \<Rightarrow> Some (Inl out_of_range)
          | c # cs \<Rightarrow> Some (Inr (if c \<noteq> slash then slash # c # cs else c # cs))))"

definition get_parent_api_path :: "string \<Rightarrow> (exn + string) option" where
  "get_parent_api_path path =
    create_api_path
      (let ret = right_trim slash path in
       if ret = ''/'' \<or> ret = [] then path
       else rev (dropWhile (\<lambda>c. c \<noteq> slash) (rev ret)))"

section \<open>Canonical paths\<close>

definition canonical :: "string \<Rightarrow> bool" where
  "canonical p \<longleftrightarrow> p \<noteq> [] \<and> hd p = slash \<and> \<not> str_contains p [slash, slash] \<and>
    backslash \<notin> set p \<and> (p \<noteq> [slash] \<longrightarrow> last p \<noteq> slash)"

lemma collapse_seps_total:
  "\<exists>r. collapse_seps sep path = Some r \<and> \<not> str_contains r [sep, sep] \<and>
    set r \<subseteq> insert sep (set path) \<and> (path \<noteq> [] \<longrightarrow> r \<noteq> []) \<and>
    (\<not> str_contains path [sep, sep] \<longrightarrow> r = path)"
proof (induction "length path" arbitrary: path rule: less_induct)
  case less
  show ?case
  proof (cases "str_contains path [sep, sep]")
    case False
    then have "collapse_seps sep path = Some path" by (subst collapse_seps.simps) simp
    then show ?thesis using False by blast
  next
    case True
    let ?p = "replace_all [sep, sep] [sep] path"
    have lt: "length ?p < length path"
      using length_replace_all[of "[sep]" "[sep, sep]" path] True by simp
    obtain r where r: "collapse_seps sep ?p = Some r" "\<not> str_contains r [sep, sep]"
      "set r \<subseteq> insert sep (set ?p)" "?p \<noteq> [] \<longrightarrow> r \<noteq> []"
      using less.hyps[OF lt] by blast
    have ne: "?p \<noteq> []" if "path \<noteq> []"
      using that by (cases path) (simp_all add: replace_all.simps(2))
    have c: "collapse_seps sep path = Some r"
      by (subst collapse_seps.simps) (simp add: True r(1) replace_str_eq)
    have "set r \<subseteq> insert sep (set path)"
      using r(3) set_replace_all[of "[sep, sep]" "[sep]" path] by auto
    then show ?thesis using True r(2,4) ne c by blast
  qed
qed

lemma contains_prefix: "str_contains a v \<Longrightarrow> str_contains (a @ b) v"
  by (auto simp: str_contains_iff) (metis append.assoc)

lemma contains_suffix: "str_contains b v \<Longrightarrow> str_contains (a @ b) v"
  by (auto simp: str_contains_iff) (metis append.assoc)

lemma right_trim_chars_decomp: "\<exists>k. s = right_trim ch s @ replicate k ch"
proof -
  have "rev s = takeWhile (\<lambda>c. c = ch) (rev s) @ dropWhile (\<lambda>c. c = ch) (rev s)" by simp
  moreover have "takeWhile (\<lambda>c. c = ch) (rev s) = replicate (length (takeWhile (\<lambda>c. c = ch) (rev s))) ch"
    by (intro replicate_eqI) (auto dest: set_takeWhileD)
  ultimately show ?thesis
    by (metis rev_append rev_replicate rev_rev_ident right_trim_def)
qed

lemma last_right_trim: "right_trim ch s \<noteq> [] \<Longrightarrow> last (right_trim ch s) \<noteq> ch"
  unfolding right_trim_def using hd_dropWhile[of "\<lambda>c. c = ch" "rev s"]
  by (simp add: last_rev)

lemma format_path_props:
  assumes "path \<noteq> []"
  shows "\<exists>p. format_path slash backslash path = Some p \<and> p \<noteq> [] \<and>
    \<not> str_contains p [slash, slash] \<and> backslash \<notin> set p \<and> (p \<noteq> [slash] \<longrightarrow> last p \<noteq> slash)"
proof -
  let ?m = "map (\<lambda>c. if c = backslash then slash else c) path"
  obtain r where r: "collapse_seps slash ?m = Some r" "\<not> str_contains r [slash, slash]"
    "set r \<subseteq> insert slash (set ?m)" "r \<noteq> []"
    using collapse_seps_total[of slash ?m] assms by auto
  have nb: "backslash \<notin> set r" using r(3) by auto
  have f: "format_path slash backslash path = Some (if r \<noteq> [slash] then right_trim slash r else r)"
    by (simp add: format_path_def replace_str_eq replace_all_char r)
  show ?thesis
  proof (cases "r = [slash]")
    case True
    then show ?thesis using f r nb by auto
  next
    case False
    obtain k where k: "r = right_trim slash r @ replicate k slash" using right_trim_chars_decomp by metis
    have ne: "right_trim slash r \<noteq> []"
    proof
      assume e: "right_trim slash r = []"
      then have rk: "r = replicate k slash" using k by simp
      then obtain j where "k = Suc (Suc j)" using False r(4) by (cases k; cases "k - 1") auto
      then have "r = [] @ [slash, slash] @ replicate j slash" using rk by simp
      then show False using r(2) by (metis str_contains_iff)
    qed
    have "\<not> str_contains (right_trim slash r) [slash, slash]"
      using r(2) k contains_prefix by metis
    moreover have "backslash \<notin> set (right_trim slash r)" using nb k by (metis UnI1 set_append)
    ultimately show ?thesis using f False ne last_right_trim[OF ne] by auto
  qed
qed
lemma contains_Cons: "str_contains (c # cs) v \<longleftrightarrow> is_prefix v (c # cs) \<or> str_contains cs v"
proof -
  have "find_at v (Suc 0) cs = None \<longleftrightarrow> find_at v 0 cs = None"
    by (simp only: find_at_None)
  then show ?thesis by (auto simp: str_contains_def str_find_def)
qed

lemma strip_dot_slash_props:
  assumes "p \<noteq> []" "\<not> str_contains p [slash, slash]" "p \<noteq> [slash] \<longrightarrow> last p \<noteq> slash"
  shows "strip_dot_slash p \<noteq> [] \<and> (\<exists>q. p = q @ strip_dot_slash p) \<and>
    (hd (strip_dot_slash p) = slash \<longrightarrow> strip_dot_slash p = p)"
  using assms
proof (induction p rule: strip_dot_slash.induct)
  case (1 s)
  show ?case
  proof (cases "begins_with s ''./''")
    case False
    then show ?thesis using "1.prems" by (simp add: strip_dot_slash.simps[of s])
  next
    case True
    then obtain t where t: "s = CHR ''.'' # slash # t" by (auto simp: begins_with_iff)
    have ne: "t \<noteq> []" using "1.prems"(3) t by auto
    have hd: "hd t \<noteq> slash"
      using "1.prems"(2) ne by (cases t) (auto simp: t contains_Cons)
    have "\<not> str_contains t [slash, slash]" using "1.prems"(2) by (simp add: t contains_Cons)
    moreover have "last t \<noteq> slash" using "1.prems"(3) ne by (simp add: t)
    ultimately have IH: "strip_dot_slash t \<noteq> []" "\<exists>q. t = q @ strip_dot_slash t"
      "hd (strip_dot_slash t) = slash \<longrightarrow> strip_dot_slash t = t"
      using "1.IH"[OF True] ne by (auto simp: t)
    have "strip_dot_slash s = strip_dot_slash t"
      using True by (simp add: strip_dot_slash.simps[of s]) (simp add: t)
    moreover have "\<exists>q. s = q @ strip_dot_slash t"
      using IH(2) t by (metis append_Cons)
    ultimately show ?thesis using IH hd by auto
  qed
qed

lemma right_trim_unchanged: "s \<noteq> [] \<Longrightarrow> last s \<noteq> ch \<Longrightarrow> right_trim ch s = s"
  by (cases s rule: rev_cases) (simp_all add: right_trim_def)

lemma right_trim_snoc: "s \<noteq> [] \<Longrightarrow> last s \<noteq> ch \<Longrightarrow> right_trim ch (s @ [ch]) = s"
  by (cases s rule: rev_cases) (simp_all add: right_trim_def)

lemma no_backslash_map: "backslash \<notin> set p \<Longrightarrow> map (\<lambda>c. if c = backslash then slash else c) p = p"
  by (induction p) auto

lemma format_path_single:
  assumes "backslash \<notin> set p" "\<not> str_contains p [slash, slash]"
  shows "format_path slash backslash p = Some (if p \<noteq> [slash] then right_trim slash p else p)"
  using collapse_seps_total[of slash p] assms
  by (auto simp: format_path_def replace_str_eq replace_all_char no_backslash_map)

lemma strip_dot_slash_rooted: "hd p = slash \<Longrightarrow> strip_dot_slash p = p"
proof -
  assume h: "hd p = slash"
  have "\<not> begins_with p ''./''" using h by (auto simp: begins_with_iff)
  then show ?thesis by (simp add: strip_dot_slash.simps[of p])
qed

lemma create_api_path_rooted:
  assumes "format_path slash backslash p = Some r" "r \<noteq> []" "hd r = slash" "p \<noteq> []" "hd p = slash"
    and "r \<noteq> [slash] \<or> p = [slash]"
  shows "create_api_path p = Some (Inr r)"
proof (cases "p = [slash]")
  case True
  then have "r = [slash]"
    using assms(1) by (simp add: format_path_single contains_Cons str_contains_def str_find_def)
  then show ?thesis using True by (simp add: create_api_path_def)
next
  case False
  then have "\<not> (p = [] \<or> p = [backslash] \<or> p = ''.'' \<or> p = ''./'' \<or> p = ''/'' \<or> p = [CHR ''.'', backslash])"
    using assms(4,5) by auto
  then show ?thesis
    using assms strip_dot_slash_rooted[of r] by (cases r) (simp_all add: create_api_path_def)
qed

lemma create_api_path_canonical_id:
  assumes "canonical p"
  shows "create_api_path p = Some (Inr p)"
proof -
  have "format_path slash backslash p = Some p"
    using assms right_trim_unchanged[of p slash] by (auto simp: canonical_def format_path_single)
  then show ?thesis using assms by (intro create_api_path_rooted) (auto simp: canonical_def)
qed

lemma canonical_root: "canonical ''/''"
  by (simp add: canonical_def contains_Cons str_contains_def str_find_def)

lemma create_api_path_canonical:
  "\<exists>r. create_api_path path = Some (Inr r) \<and> canonical r"
proof (cases "path = [] \<or> path = [backslash] \<or> path = ''.'' \<or> path = ''./'' \<or> path = ''/'' \<or>
        path = [CHR ''.'', backslash]")
  case True
  then show ?thesis using canonical_root by (simp add: create_api_path_def)
next
  case False
  obtain p where p: "format_path slash backslash path = Some p" "p \<noteq> []"
    "\<not> str_contains p [slash, slash]" "backslash \<notin> set p" "p \<noteq> [slash] \<longrightarrow> last p \<noteq> slash"
    using format_path_props[of path] False by blast
  let ?r = "strip_dot_slash p"
  obtain q where q: "?r \<noteq> []" "p = q @ ?r" "hd ?r = slash \<longrightarrow> ?r = p"
    using strip_dot_slash_props[OF p(2,3,5)] by blast
  then obtain c cs where c: "?r = c # cs" by (cases ?r) auto
  have r: "\<not> str_contains ?r [slash, slash]" "backslash \<notin> set ?r" "last ?r = last p"
    using contains_suffix p q by (metis, metis UnI2 set_append, metis last_appendR)
  have e: "create_api_path path = Some (Inr (if c \<noteq> slash then slash # ?r else ?r))"
    using False p(1) c by (simp add: create_api_path_def)
  show ?thesis
  proof (cases "c = slash")
    case True
    then have "?r = p" using q c by simp
    then show ?thesis using e True c p by (auto simp: canonical_def)
  next
    case nsl: False
    have "last ?r \<noteq> slash"
      using r(3) p(5) q c nsl by (cases "p = [slash]") (auto simp: Cons_eq_append_conv append_eq_Cons_conv)
    then have "canonical (slash # ?r)"
      using r q(1) c nsl by (auto simp: canonical_def contains_Cons)
    then show ?thesis using e nsl by auto
  qed
qed

text \<open>
  C34. \<open>create_api_path\<close> always returns, whatever the string, and what it returns is canonical: it
  starts at the root, has no backslash, no empty component and no trailing separator.  A
  canonical path is returned as it is, so the normal form is unique and the function idempotent.
\<close>

theorem create_api_path_normal_form:
  "(\<exists>r. create_api_path path = Some (Inr r) \<and> canonical r \<and> create_api_path r = Some (Inr r)) \<and>
   (create_api_path path = Some (Inr path) \<longleftrightarrow> canonical path)"
  using create_api_path_canonical[of path] create_api_path_canonical_id by fastforce

text \<open>
  C40. The parent of a canonical path other than the root is canonical, and the path is that
  parent, a separator (unless the parent is the root) and one component.
\<close>

theorem get_parent_api_path_canonical:
  assumes "canonical p" "p \<noteq> ''/''"
  shows "\<exists>q name. get_parent_api_path p = Some (Inr q) \<and> canonical q \<and> name \<noteq> [] \<and>
    slash \<notin> set name \<and> p = (if q = ''/'' then q else q @ ''/'') @ name"
proof -
  let ?d = "rev (dropWhile (\<lambda>c. c \<noteq> slash) (rev p))"
  let ?name = "rev (takeWhile (\<lambda>c. c \<noteq> slash) (rev p))"
  have c: "p \<noteq> []" "hd p = slash" "\<not> str_contains p [slash, slash]" "backslash \<notin> set p"
    "last p \<noteq> slash"
    using assms by (auto simp: canonical_def)
  have p: "p = ?d @ ?name" by (metis rev_append rev_rev_ident takeWhile_dropWhile_id)
  have name: "slash \<notin> set ?name" by (auto dest: set_takeWhileD)
  have "last p = hd (rev p)" using c(1) by (simp add: hd_rev)
  then have name_ne: "?name \<noteq> []" using c(1,5) by (cases "rev p") auto
  have "slash \<in> set (rev p)" using c(1,2) by (metis hd_in_set set_rev)
  then have dw: "dropWhile (\<lambda>c. c \<noteq> slash) (rev p) \<noteq> []" by (auto simp: dropWhile_eq_Nil_conv)
  then have "last ?d = slash" using hd_dropWhile[OF dw] by (simp add: last_rev)
  then obtain q where q: "?d = q @ [slash]" using dw by (metis append_butlast_last_id rev_is_Nil_conv)
  have get: "get_parent_api_path p = create_api_path ?d"
    using right_trim_unchanged[OF c(1,5)] assms(2) c(1) by (simp add: get_parent_api_path_def)
  show ?thesis
  proof (cases "q = []")
    case True
    then have "get_parent_api_path p = Some (Inr ''/'')"
      using get q create_api_path_canonical_id[OF canonical_root] by simp
    moreover have "p = (if ''/'' = (''/'' :: string) then ''/'' else ''/'' @ ''/'') @ ?name"
      using p q True by (metis append_Nil)
    ultimately show ?thesis using name name_ne canonical_root by blast
  next
    case False
    have pq: "p = q @ [slash] @ ?name" using p q by simp
    have "\<not> str_contains (q @ [slash]) [slash, slash]"
      using c(3) pq contains_prefix by (metis append.assoc)
    moreover from this have nq: "\<not> str_contains q [slash, slash]" using contains_prefix by metis
    ultimately have lq: "last q \<noteq> slash"
      using False by (metis append_butlast_last_id append.assoc append_Cons append_Nil str_contains_iff append_Nil2)
    have hq: "hd q = slash" using c(2) False pq by (metis hd_append2)
    have bq: "backslash \<notin> set q" using c(4) pq by (metis UnI1 set_append)
    have cq: "canonical q" using False hq nq bq lq by (simp add: canonical_def)
    have fq: "format_path slash backslash (q @ [slash]) = Some q"
      using format_path_single[of "q @ [slash]"] right_trim_snoc[OF False lq] bq False
        \<open>\<not> str_contains (q @ [slash]) [slash, slash]\<close> by simp
    have "q \<noteq> [slash]" using lq by auto
    then have "get_parent_api_path p = Some (Inr q)"
      using get q create_api_path_rooted[OF fq False hq] hq False by simp
    then show ?thesis
      using cq name name_ne pq \<open>q \<noteq> [slash]\<close> by (intro exI[of _ q] exI[of _ ?name]) simp
  qed
qed

theorem get_parent_api_path_canonical_witness:
  "canonical ''/a/bc'' \<and> (\<exists>q name. get_parent_api_path ''/a/bc'' = Some (Inr q) \<and> slash \<notin> set name \<and>
     ''/a/bc'' = (if q = ''/'' then q else q @ ''/'') @ name)"
proof -
  have "canonical ''/a/bc''" by (simp add: canonical_def contains_Cons str_contains_def str_find_def)
  moreover have "''/a/bc'' \<noteq> (''/'' :: string)" by simp
  ultimately show ?thesis using get_parent_api_path_canonical[of "''/a/bc''"] by blast
qed

end
