(* ===== verification/Open_File_Base.thy ===== *)
theory Open_File_Base imports Chunks Paths "HOL-Library.AList" begin

text \<open>
  The state every open file shares (file_manager/open_file_base.cpp): the file system item, the
  open handles, the latched error, the flags that decide when it may be closed or must be
  uploaded.  Every setter runs under one of the object's locks and is one step of the state.
  The events that are raised are kept in \<open>item_events\<close>.  \<open>std::map\<close> of handles is an association
  list; \<open>open_file_data\<close> is an \<open>int\<close> outside Windows.  The I/O thread executes the queued actions
  one after the other, so \<open>do_io\<close> is the action itself in the models of the open files.
\<close>

record filesystem_item =
  api_path :: string
  api_parent :: string
  directory :: bool
  item_size :: nat
  source_path :: string

datatype item_event =
  item_opened
| handle_opened nat
| handle_closed nat bool     \<comment> \<open>handle, \<open>modified_\<close>\<close>
| item_closed bool
| download_began
| download_ended api_error

record open_base =
  f_chunk_size :: nat
  f_chunk_timeout :: nat
  fsi :: filesystem_item
  f_last_chunk_size :: nat
  open_data :: "(nat \<times> int) list"
  api_err :: api_error
  io_thread :: bool
  io_stop_requested :: bool
  last_access :: nat
  modified :: bool
  removed :: bool
  unlinked :: bool
  unlinked_meta :: "(string \<times> string) list"
  item_events :: "item_event list"

definition f_size :: "'a open_base_scheme \<Rightarrow> nat" where
  [simp]: "f_size s = item_size (fsi s)"

text \<open>The constructor; \<open>now\<close> is the clock.\<close>

definition open_file_base ::
  "nat \<Rightarrow> nat \<Rightarrow> filesystem_item \<Rightarrow> (nat \<times> int) list \<Rightarrow> bool \<Rightarrow> nat \<Rightarrow> open_base" where
  "open_file_base csize timeout item data disable_io now =
    \<lparr>f_chunk_size = csize, f_chunk_timeout = timeout, fsi = item,
     f_last_chunk_size = last_chunk_size_of (item_size item) csize, open_data = data,
     api_err = success, io_thread = (\<not> directory item \<and> \<not> disable_io),
     io_stop_requested = False, last_access = now, modified = False, removed = False,
     unlinked = False, unlinked_meta = [], item_events = []\<rparr>"

definition raise_item_event :: "item_event \<Rightarrow> 'a open_base_scheme \<Rightarrow> 'a open_base_scheme" where
  "raise_item_event e s = s\<lparr>item_events := item_events s @ [e]\<rparr>"

definition base_add ::
  "nat \<Rightarrow> int \<Rightarrow> bool \<Rightarrow> 'a open_base_scheme \<Rightarrow> 'a open_base_scheme" where
  "base_add handle ofd notify s =
    (let s = s\<lparr>open_data := AList.update handle ofd (open_data s)\<rparr> in
     if \<not> notify then s
     else raise_item_event (handle_opened handle)
            (if length (open_data s) = 1 then raise_item_event item_opened s else s))"

definition has_handle :: "nat \<Rightarrow> 'a open_base_scheme \<Rightarrow> bool" where
  "has_handle handle s \<longleftrightarrow> handle \<in> fst ` set (open_data s)"

definition get_handles :: "'a open_base_scheme \<Rightarrow> nat list" where
  "get_handles s = map fst (open_data s)"

definition get_open_file_count :: "'a open_base_scheme \<Rightarrow> nat" where
  "get_open_file_count s = length (open_data s)"

definition get_open_data :: "nat \<Rightarrow> 'a open_base_scheme \<Rightarrow> exn + int" where
  "get_open_data handle s =
    (case map_of (open_data s) handle of None \<Rightarrow> Inl out_of_range | Some d \<Rightarrow> Inr d)"

definition can_close :: "bool \<Rightarrow> bool \<Rightarrow> nat \<Rightarrow> 'a open_base_scheme \<Rightarrow> bool" where
  "can_close is_complete is_read_only now s =
    (if directory (fsi s) then True
     else if open_data s \<noteq> [] then False
     else if modified s then False
     else if api_err s \<noteq> success then True
     else if is_complete then True
     else if is_read_only then True
     else int now - int (last_access s) \<ge> int (f_chunk_timeout s))"

definition base_close :: "'a open_base_scheme \<Rightarrow> bool \<times> 'a open_base_scheme" where
  "base_close s =
    (if io_stop_requested s \<or> \<not> io_thread s then (False, s)
     else (True, s\<lparr>io_stop_requested := True, io_thread := False\<rparr>))"

definition base_remove :: "nat \<Rightarrow> 'a open_base_scheme \<Rightarrow> 'a open_base_scheme" where
  "base_remove handle s =
    (if \<not> has_handle handle s then s
     else
       let s = raise_item_event (handle_closed handle (modified s))
                 (s\<lparr>open_data := AList.delete handle (open_data s)\<rparr>)
       in if open_data s \<noteq> [] then s else raise_item_event (item_closed (modified s)) s)"

definition base_remove_all :: "'a open_base_scheme \<Rightarrow> 'a open_base_scheme" where
  "base_remove_all s =
    (if open_data s = [] then s
     else
       let handles = map fst (open_data s);
           s = foldl (\<lambda>s h. raise_item_event (handle_closed h (modified s)) s)
                 (s\<lparr>open_data := []\<rparr>) handles
       in raise_item_event (item_closed (modified s)) s)"

definition reset_timeout :: "nat \<Rightarrow> 'a open_base_scheme \<Rightarrow> 'a open_base_scheme" where
  "reset_timeout now s = s\<lparr>last_access := now\<rparr>"

definition set_api_error :: "api_error \<Rightarrow> 'a open_base_scheme \<Rightarrow> api_error \<times> 'a open_base_scheme" where
  "set_api_error err s =
    (if api_err s = err then (api_err s, s)
     else
       let e = (if api_err s = success \<or> api_err s = download_incomplete \<or>
                   api_err s = download_stopped then err else api_err s)
       in (e, s\<lparr>api_err := e\<rparr>))"

definition set_api_path :: "string \<Rightarrow> 'a open_base_scheme \<Rightarrow> (exn + 'a open_base_scheme) option" where
  "set_api_path path s =
    (case get_parent_api_path path of
       None \<Rightarrow> None
     | Some (Inl e) \<Rightarrow> Some (Inl e)
     | Some (Inr parent) \<Rightarrow> Some (Inr (s\<lparr>fsi := (fsi s)\<lparr>api_path := path, api_parent := parent\<rparr>\<rparr>)))"

definition set_file_size :: "nat \<Rightarrow> 'a open_base_scheme \<Rightarrow> 'a open_base_scheme" where
  "set_file_size sz s = s\<lparr>fsi := (fsi s)\<lparr>item_size := sz\<rparr>\<rparr>"

definition set_source_path :: "string \<Rightarrow> 'a open_base_scheme \<Rightarrow> 'a open_base_scheme" where
  "set_source_path path s = s\<lparr>fsi := (fsi s)\<lparr>source_path := path\<rparr>\<rparr>"

section \<open>Downloads other threads wait for\<close>

text \<open>The shared object of a download: \<open>wait\<close> returns once it is complete (None is a wait that
  blocks), with the result the downloading thread left.\<close>

record download_state =
  complete :: bool
  download_error :: api_error

definition download_init :: download_state where
  "download_init = \<lparr>complete = False, download_error = success\<rparr>"

definition download_notify :: "api_error \<Rightarrow> download_state \<Rightarrow> download_state" where
  "download_notify err d = d\<lparr>complete := True, download_error := err\<rparr>"

definition download_wait :: "download_state \<Rightarrow> api_error option" where
  "download_wait d = (if complete d then Some (download_error d) else None)"

section \<open>Laws\<close>

definition hard_error :: "api_error \<Rightarrow> bool" where
  "hard_error e \<longleftrightarrow> e \<notin> {success, download_incomplete, download_stopped}"

lemma set_api_error_result [simp]: "fst (set_api_error e s) = api_err (snd (set_api_error e s))"
  by (simp add: set_api_error_def Let_def)

lemma api_err_set [simp]:
  "api_err (snd (set_api_error e s)) = (if hard_error (api_err s) then api_err s else e)"
  by (auto simp: set_api_error_def hard_error_def Let_def)

lemma set_api_error_success: "api_err s = success \<Longrightarrow> set_api_error e s = (e, s\<lparr>api_err := e\<rparr>)"
  by (auto simp: set_api_error_def Let_def)

text \<open>
  The error of an open file is a latch: after any sequence of reported errors it holds the
  first one that is not success, \<open>download_incomplete\<close> or \<open>download_stopped\<close>; only if there is
  none it holds the last one reported.
\<close>

theorem set_api_error_latch:
  "api_err (foldl (\<lambda>s e. snd (set_api_error e s)) s errs) =
    (case List.find hard_error (api_err s # errs) of
       Some e \<Rightarrow> e
     | None \<Rightarrow> last (api_err s # errs))"
proof (induction errs arbitrary: s)
  case Nil
  then show ?case by simp
next
  case (Cons e errs)
  show ?case
    using Cons.IH[of "snd (set_api_error e s)"] by (auto split: option.splits)
qed

lemma distinct_handles_add:
  "distinct (get_handles s) \<Longrightarrow> distinct (get_handles (base_add h d n s))"
  by (simp add: base_add_def get_handles_def raise_item_event_def Let_def AList.distinct_update)

lemma has_handle_add [simp]: "has_handle h' (base_add h d n s) \<longleftrightarrow> h' = h \<or> has_handle h' s"
  by (auto simp: base_add_def has_handle_def raise_item_event_def Let_def AList.update_conv'
      simp flip: dom_map_of_conv_image_fst)

lemma has_handle_remove [simp]: "has_handle h' (base_remove h s) \<longleftrightarrow> h' \<noteq> h \<and> has_handle h' s"
proof -
  have "open_data (base_remove h s) = (if has_handle h s then AList.delete h (open_data s) else open_data s)"
    by (simp add: base_remove_def raise_item_event_def Let_def)
  then show ?thesis
    by (auto simp: has_handle_def AList.delete_conv' simp flip: dom_map_of_conv_image_fst)
qed

lemma has_handle_remove_all [simp]: "\<not> has_handle h (base_remove_all s)"
proof -
  have "open_data (foldl (\<lambda>s h. raise_item_event (handle_closed h (modified s)) s) t hs) = open_data t"
    for t :: "'a open_base_scheme" and hs
    by (induction hs arbitrary: t) (simp_all add: raise_item_event_def)
  then show ?thesis by (simp add: base_remove_all_def has_handle_def raise_item_event_def Let_def)
qed

lemma can_close_no_handles:
  "can_close c ro now s \<Longrightarrow> \<not> directory (fsi s) \<Longrightarrow> get_handles s = [] \<and> \<not> modified s"
  by (auto simp: can_close_def get_handles_def split: if_splits)

end
