(* ===== verification/Open_File.thy ===== *)
theory Open_File imports Open_File_Base Cache_Size begin

text \<open>
  open_file (file_manager/open_file.cpp): an item of a provider, cached in a local file.  The
  file is cut into chunks, \<open>read_state_\<close> says which of them the local file holds, and the rest
  is downloaded on demand.  The model keeps the local file \<open>nf_\<close> with its bytes and with the
  operating system failures that are to happen, the calls that reach the upload manager and
  the provider's meta data, and the cache size manager the file is accounted in.

  What the environment supplies to a call is the record \<open>file_env\<close>.  The asynchronous block of
  \<open>download_chunk\<close> is waited for at once, so the whole download is one call; a download that
  another thread has begun is \<open>others\<close>.  \<open>expand\<close> may block: None is a call that does not
  return.
\<close>

section \<open>State\<close>

record local_file =
  opened :: bool
  contents :: bytes
  size_ok :: bool
  truncate_works :: bool
  reopens :: bool          \<comment> \<open>truncate closes the file and opens it again\<close>
  reads_ok :: bool
  writes_fail :: "nat option"

datatype upload_call =
  Queue_upload string nat                \<comment> \<open>path and size of the file at the time\<close>
| Store_resume string "bool list"
| Remove_upload string
| Remove_resume string string

record open_file = open_base +
  allocated :: bool
  nf_file :: local_file
  notified :: bool
  read_chunk :: nat
  chunks_read :: "bool list"
  reader_thread :: bool
  stopped :: bool
  downloading :: "nat set"
  upload_calls :: "upload_call list"
  meta_calls :: "(string \<times> (string \<times> string) list) list"
  cache :: cache_mgr

record file_env =
  read_only :: bool
  read_file_bytes :: "nat \<Rightarrow> nat \<Rightarrow> api_error \<times> bytes"     \<comment> \<open>size, offset\<close>
  set_item_meta :: "string \<Rightarrow> (string \<times> string) list \<Rightarrow> api_error"
  clock :: nat
  time_text :: string
  wakes :: "(cache_mgr \<Rightarrow> cache_mgr) list"
  others :: "nat \<Rightarrow> open_file \<Rightarrow> open_file"
  uuid_path :: string
  remove_works :: bool

section \<open>The local file\<close>

definition file_size_of :: "local_file \<Rightarrow> nat option" where
  "file_size_of f = (if size_ok f then Some (length (contents f)) else None)"

definition file_write :: "nat \<Rightarrow> bytes \<Rightarrow> local_file \<Rightarrow> bool \<times> local_file" where
  "file_write off bs f =
    (if \<not> opened f then (False, f)
     else case writes_fail f of
       None \<Rightarrow> (True, f\<lparr>contents := (if bs = [] then contents f else splice_at 0 off bs (contents f))\<rparr>)
     | Some k \<Rightarrow> (False, f\<lparr>contents := (if take k bs = [] then contents f
                                         else splice_at 0 off (take k bs) (contents f))\<rparr>))"

definition file_read :: "nat \<Rightarrow> nat \<Rightarrow> local_file \<Rightarrow> bool \<times> bytes" where
  "file_read n off f =
    (if opened f \<and> reads_ok f then (True, slice off n (contents f)) else (False, []))"

definition file_truncate :: "nat \<Rightarrow> local_file \<Rightarrow> bool \<times> local_file" where
  "file_truncate n f =
    (let g = (if truncate_works f then f\<lparr>contents := resize_to 0 n (contents f)\<rparr> else f)
     in if opened f \<and> \<not> reopens f then (False, g\<lparr>opened := False\<rparr>) else (truncate_works f, g))"

section \<open>Accounting and allocation\<close>

definition adjust_cache_size ::
  "file_env \<Rightarrow> nat \<Rightarrow> bool \<Rightarrow> open_file \<Rightarrow> (api_error \<times> open_file) option" where
  "adjust_cache_size env sz shrinking s =
    (if sz = f_size s then Some (success, s)
     else
       let grow = sz > f_size s;
           n = (if grow then sub64 sz (f_size s) else sub64 (f_size s) sz)
       in case (if grow = shrinking then Some (shrink n (cache s))
                else expand (wakes env) n (cache s)) of
            None \<Rightarrow> None
          | Some (res, c) \<Rightarrow>
              if res = success then Some (res, s\<lparr>cache := c\<rparr>)
              else Some (set_api_error res (s\<lparr>cache := c\<rparr>)))"

definition f_check_start :: "file_env \<Rightarrow> open_file \<Rightarrow> (api_error \<times> open_file) option" where
  "f_check_start env s =
    (if allocated s then Some (success, s)
     else case file_size_of (nf_file s) of
       None \<Rightarrow> Some (set_api_error os_error s)
     | Some sz \<Rightarrow>
         if sz = f_size s then Some (success, s\<lparr>allocated := True\<rparr>)
         else case adjust_cache_size env sz True s of
           None \<Rightarrow> None
         | Some (res, s) \<Rightarrow>
             if res \<noteq> success then Some (res, s)
             else case file_truncate (f_size s) (nf_file s) of
               (False, f) \<Rightarrow> Some (set_api_error res (s\<lparr>nf_file := f\<rparr>))
             | (True, f) \<Rightarrow> Some (success, s\<lparr>nf_file := f, allocated := True\<rparr>))"

section \<open>Downloads\<close>

definition all_read :: "open_file \<Rightarrow> bool" where
  "all_read s \<longleftrightarrow> list_all (\<lambda>b. b) (chunks_read s)"

definition notify_complete :: "nat \<Rightarrow> open_file \<Rightarrow> open_file" where
  "notify_complete chunk s =
    (let s = s\<lparr>downloading := downloading s - {chunk}\<rparr> in
     if api_err s = success then
       (if all_read s \<and> \<not> notified s
        then raise_item_event (download_ended success) (s\<lparr>notified := True\<rparr>) else s)
     else if \<not> notified s
     then raise_item_event (download_ended (api_err s)) (s\<lparr>notified := True\<rparr>)
     else s)"

definition touch :: "file_env \<Rightarrow> bool \<Rightarrow> open_file \<Rightarrow> open_file" where
  "touch env should_reset s = (if should_reset then reset_timeout (clock env) s else s)"

text \<open>The asynchronous block.\<close>

definition fetch_chunk :: "file_env \<Rightarrow> nat \<Rightarrow> nat \<Rightarrow> nat \<Rightarrow> bool \<Rightarrow> open_file \<Rightarrow> open_file" where
  "fetch_chunk env chunk sz off should_reset s =
    (case read_file_bytes env sz off of (res, buffer) \<Rightarrow>
       if res \<noteq> success then notify_complete chunk (snd (set_api_error res s))
       else
         case file_write off buffer (nf_file s) of (ok, f) \<Rightarrow>
           let s = touch env should_reset (s\<lparr>nf_file := f\<rparr>) in
           if \<not> ok then notify_complete chunk (snd (set_api_error os_error s))
           else notify_complete chunk (s\<lparr>chunks_read := (chunks_read s)[chunk := True]\<rparr>))"

definition f_download_chunk :: "file_env \<Rightarrow> nat \<Rightarrow> bool \<Rightarrow> bool \<Rightarrow> open_file \<Rightarrow> open_file" where
  "f_download_chunk env chunk skip_active should_reset s =
    (let s = touch env should_reset s in
     if api_err s = success \<and> chunk < length (chunks_read s) \<and> \<not> chunks_read s ! chunk then
       if chunk \<in> downloading s then (if skip_active then s else others env chunk s)
       else
         let off = mul64 chunk (f_chunk_size s);
             sz = (if chunk = length (chunks_read s) - 1 then f_last_chunk_size s else f_chunk_size s);
             s = (if downloading s = {} \<and> \<not> list_ex (\<lambda>b. b) (chunks_read s)
                  then raise_item_event download_began s else s)
         in fetch_chunk env chunk sz off should_reset
              (touch env should_reset (s\<lparr>downloading := insert chunk (downloading s)\<rparr>))
     else s)"

fun download_each :: "file_env \<Rightarrow> nat list \<Rightarrow> bool \<Rightarrow> open_file \<Rightarrow> open_file" where
  "download_each env [] should_reset s = s"
| "download_each env (c # rest) should_reset s =
    (if api_err s = success
     then download_each env rest should_reset (f_download_chunk env c False should_reset s)
     else s)"

definition download_range :: "file_env \<Rightarrow> nat \<Rightarrow> nat \<Rightarrow> bool \<Rightarrow> open_file \<Rightarrow> open_file" where
  "download_range env begin_chunk end_chunk should_reset s =
    download_each env [begin_chunk..<Suc end_chunk] should_reset s"

definition update_reader :: "nat \<Rightarrow> open_file \<Rightarrow> open_file" where
  "update_reader chunk s =
    (let s = s\<lparr>read_chunk := chunk\<rparr> in
     if reader_thread s \<or> stopped s then s else s\<lparr>reader_thread := True\<rparr>)"

definition force_download :: "open_file \<Rightarrow> open_file" where
  "force_download s = update_reader (read_chunk s) s"

text \<open>
  One iteration of the thread \<open>update_reader\<close> starts, with its variables \<open>next_chunk\<close> and
  \<open>read_chunk\<close>: it waits if nothing is left to download.
\<close>

definition reader_pass ::
  "file_env \<Rightarrow> nat \<times> nat \<Rightarrow> open_file \<Rightarrow> (nat \<times> nat) \<times> open_file" where
  "reader_pass env v s =
    (case v of (next_chunk, rchunk) \<Rightarrow>
       if f_size s = 0 \<or> all_read s then (v, s)
       else
         let (next_chunk, rchunk) =
               (if rchunk \<noteq> read_chunk s then (read_chunk s, read_chunk s) else (next_chunk, rchunk));
             next_chunk = (if next_chunk + 1 \<ge> length (chunks_read s) then 0 else next_chunk + 1)
         in ((next_chunk, rchunk), f_download_chunk env next_chunk True False s))"

section \<open>Modification flags and meta data\<close>

definition call_mgr :: "upload_call \<Rightarrow> open_file \<Rightarrow> open_file" where
  "call_mgr c s = s\<lparr>upload_calls := upload_calls s @ [c]\<rparr>"

abbreviation path_of :: "open_file \<Rightarrow> string" where
  "path_of s \<equiv> api_path (fsi s)"

definition set_modified :: "open_file \<Rightarrow> open_file" where
  "set_modified s =
    (if unlinked s then (if \<not> modified s then s\<lparr>modified := True\<rparr> else s)
     else
       let s = (if \<not> modified s
                then call_mgr (Store_resume (path_of s) (chunks_read s)) (s\<lparr>modified := True\<rparr>)
                else s)
       in if \<not> removed s then call_mgr (Remove_upload (path_of s)) (s\<lparr>removed := True\<rparr>) else s)"

definition update_meta :: "file_env \<Rightarrow> (string \<times> string) list \<Rightarrow> open_file \<Rightarrow> api_error \<times> open_file" where
  "update_meta env meta s =
    (set_item_meta env (path_of s) meta, s\<lparr>meta_calls := meta_calls s @ [(path_of s, meta)]\<rparr>)"

definition update_unlinked_meta :: "(string \<times> string) list \<Rightarrow> open_file \<Rightarrow> open_file" where
  "update_unlinked_meta meta s =
    s\<lparr>unlinked_meta := foldl (\<lambda>m (k, v). AList.update k v m) (unlinked_meta s) meta\<rparr>"

section \<open>Operations\<close>

definition native_operation ::
  "file_env \<Rightarrow> (local_file \<Rightarrow> api_error \<times> local_file) \<Rightarrow> open_file \<Rightarrow> (api_error \<times> open_file) option" where
  "native_operation env callback s =
    (if stopped s then Some (set_api_error download_stopped s)
     else case f_check_start env s of
       None \<Rightarrow> None
     | Some (res, s) \<Rightarrow>
         if res \<noteq> success then Some (res, s)
         else case callback (nf_file s) of (res, f) \<Rightarrow> Some (res, s\<lparr>nf_file := f\<rparr>))"

text \<open>The part of \<open>native_operation(new_file_size, callback)\<close> behind the download of the last chunk.\<close>

definition apply_resize ::
  "file_env \<Rightarrow> nat \<Rightarrow> (local_file \<Rightarrow> api_error \<times> local_file) \<Rightarrow> open_file \<Rightarrow> api_error \<times> open_file" where
  "apply_resize env new_size callback s =
    (let is_empty = (new_size = 0);
         last_chunk = (if is_empty then 0
                       else sub64 (divide_with_ceiling new_size (f_chunk_size s)) 1);
         original_size = f_size s
     in case callback (nf_file s) of (res, f) \<Rightarrow>
       let s = s\<lparr>nf_file := f\<rparr> in
       if res \<noteq> success then (res, s)
       else case file_size_of (nf_file s) of
         None \<Rightarrow> set_api_error error s
       | Some sz \<Rightarrow>
           if sz \<noteq> new_size then set_api_error error s
           else
             let s = (if is_empty \<or> length (chunks_read s) \<noteq> last_chunk + 1 then
                        s\<lparr>chunks_read := (if is_empty then []
                            else resize_to True (last_chunk + 1) (chunks_read s)),
                          f_last_chunk_size := last_chunk_size_of new_size (f_chunk_size s)\<rparr>
                      else s)
             in if original_size = new_size then (res, s)
                else
                  let s = set_file_size new_size (set_modified s);
                      now = time_text env;
                      meta = [(''changed'', now), (''modified'', now), (''size'', decimal new_size),
                              (''written'', now)]
                  in if unlinked s then (success, update_unlinked_meta meta s)
                     else case update_meta env meta s of (res, s) \<Rightarrow>
                       if res = success then (res, s) else set_api_error res s)"

definition native_operation_size ::
  "file_env \<Rightarrow> nat \<Rightarrow> (local_file \<Rightarrow> api_error \<times> local_file) \<Rightarrow> open_file \<Rightarrow>
   (api_error \<times> open_file) option" where
  "native_operation_size env new_size callback s =
    (if directory (fsi s) then Some (set_api_error invalid_operation s)
     else if stopped s then Some (set_api_error download_stopped s)
     else case f_check_start env s of
       None \<Rightarrow> None
     | Some (res, s) \<Rightarrow>
         if res \<noteq> success then Some (res, s)
         else case adjust_cache_size env new_size False s of
           None \<Rightarrow> None
         | Some (res, s) \<Rightarrow>
             if res \<noteq> success then Some (res, s)
             else
               let is_empty = (new_size = 0);
                   last_chunk = (if is_empty then 0
                                 else sub64 (divide_with_ceiling new_size (f_chunk_size s)) 1)
               in if \<not> is_empty \<and> last_chunk < length (chunks_read s) then
                    let s = f_download_chunk env last_chunk False True (update_reader 0 s) in
                    if api_err s \<noteq> success then Some (api_err s, s)
                    else Some (apply_resize env new_size callback s)
                  else Some (apply_resize env new_size callback s))"

definition resize :: "file_env \<Rightarrow> nat \<Rightarrow> open_file \<Rightarrow> (api_error \<times> open_file) option" where
  "resize env new_size s =
    (if directory (fsi s) then Some (set_api_error invalid_operation s)
     else if new_size = f_size s then Some (success, s)
     else native_operation_size env new_size
            (\<lambda>f. case file_truncate new_size f of (ok, f) \<Rightarrow> (if ok then success else os_error, f)) s)"

definition read_from_source ::
  "file_env \<Rightarrow> nat \<Rightarrow> nat \<Rightarrow> bytes \<Rightarrow> open_file \<Rightarrow> api_error \<times> bytes" where
  "read_from_source env sz off data s =
    (if read_only env then
       (case read_file_bytes env sz off of (res, bs) \<Rightarrow> (res, if res = success then bs else data))
     else
       let data = resize_to 0 sz data in
       case file_read sz off (nf_file s) of (ok, bs) \<Rightarrow>
         (if ok then success else os_error, bs @ drop (length bs) data))"

definition f_read ::
  "file_env \<Rightarrow> nat \<Rightarrow> nat \<Rightarrow> bytes \<Rightarrow> open_file \<Rightarrow> (api_error \<times> bytes \<times> open_file) option" where
  "f_read env read_size off data s =
    (if directory (fsi s) then
       (case set_api_error invalid_operation s of (res, s) \<Rightarrow> Some (res, data, s))
     else if stopped s then
       (case set_api_error download_stopped s of (res, s) \<Rightarrow> Some (res, data, s))
     else
       let sz = calculate_read_size (f_size s) read_size off in
       if sz = 0 then Some (success, [], s)
       else case f_check_start env s of
         None \<Rightarrow> None
       | Some (res, s) \<Rightarrow>
           if res \<noteq> success then Some (res, data, s)
           else if all_read s then
             let s = reset_timeout (clock env) s in
             (case read_from_source env sz off data s of (res, bs) \<Rightarrow> Some (res, bs, s))
           else
             let begin_chunk = off div f_chunk_size s;
                 end_chunk = add64 sz off div f_chunk_size s;
                 s = download_range env begin_chunk end_chunk True (update_reader begin_chunk s)
             in if api_err s \<noteq> success then Some (api_err s, data, s)
                else (case read_from_source env sz off data s of (res, bs) \<Rightarrow> Some (res, bs, s)))"

text \<open>The part of \<open>write\<close> behind the resize; the number is \<open>bytes_written\<close>.\<close>

definition store_data ::
  "file_env \<Rightarrow> nat \<Rightarrow> bytes \<Rightarrow> open_file \<Rightarrow> api_error \<times> nat \<times> open_file" where
  "store_data env off data s =
    (case file_write off data (nf_file s) of (ok, f) \<Rightarrow>
       let s = s\<lparr>nf_file := f\<rparr> in
       if \<not> ok then (case set_api_error os_error s of (res, s) \<Rightarrow> (res, 0, s))
       else
         let s = reset_timeout (clock env) s;
             now = time_text env;
             meta = [(''changed'', now), (''modified'', now), (''written'', now)]
         in if unlinked s then (success, length data, set_modified (update_unlinked_meta meta s))
            else case update_meta env meta s of (res, s) \<Rightarrow>
              if res \<noteq> success
              then (case set_api_error res s of (res, s) \<Rightarrow> (res, length data, s))
              else (success, length data, set_modified s))"

definition f_write ::
  "file_env \<Rightarrow> nat \<Rightarrow> bytes \<Rightarrow> open_file \<Rightarrow> (api_error \<times> nat \<times> open_file) option" where
  "f_write env off data s =
    (if directory (fsi s) \<or> read_only env then
       (case set_api_error invalid_operation s of (res, s) \<Rightarrow> Some (res, 0, s))
     else if data = [] then Some (success, 0, s)
     else if stopped s then
       (case set_api_error download_stopped s of (res, s) \<Rightarrow> Some (res, 0, s))
     else case f_check_start env s of
       None \<Rightarrow> None
     | Some (res, s) \<Rightarrow>
         if res \<noteq> success then Some (res, 0, s)
         else
           let begin_chunk = off div f_chunk_size s;
               end_chunk = add64 off (length data) div f_chunk_size s;
               s = download_range env begin_chunk
                     (min (sub64 (length (chunks_read s)) 1) end_chunk) True
                     (update_reader begin_chunk s)
           in if api_err s \<noteq> success then Some (api_err s, 0, s)
              else if add64 off (length data) > f_size s then
                (case resize env (add64 off (length data)) s of
                   None \<Rightarrow> None
                 | Some (res, s) \<Rightarrow>
                     if res \<noteq> success then Some (res, 0, s)
                     else Some (store_data env off data s))
              else Some (store_data env off data s))"
section \<open>Handles, closing and construction\<close>

definition f_remove :: "nat \<Rightarrow> open_file \<Rightarrow> open_file" where
  "f_remove handle s =
    (let s = base_remove handle s;
         s = (if modified s \<and> all_read s \<and> api_err s = success
              then (call_mgr (Queue_upload (path_of s) (f_size s)) s)\<lparr>modified := False\<rparr> else s)
     in if removed s \<and> get_open_file_count s = 0 then s\<lparr>removed := False\<rparr> else s)"

definition f_remove_all :: "open_file \<Rightarrow> open_file" where
  "f_remove_all s =
    (let s = (base_remove_all s)\<lparr>modified := False, removed := True\<rparr>
     in snd (set_api_error success (call_mgr (Remove_upload (path_of s)) s)))"

text \<open>\<open>file_manager::remove_source_and_shrink_cache\<close>: the bytes are given back to the cache only
  if the file could be removed, was allocated and was not empty on disk.\<close>

definition remove_source_and_shrink_cache ::
  "bool \<Rightarrow> nat option \<Rightarrow> nat \<Rightarrow> bool \<Rightarrow> cache_mgr \<Rightarrow> bool \<times> cache_mgr" where
  "remove_source_and_shrink_cache remove_ok on_disk file_size was_allocated c =
    (let source_size = (case on_disk of None \<Rightarrow> 0 | Some n \<Rightarrow> n) in
     if \<not> remove_ok then (False, c)
     else if \<not> was_allocated \<or> source_size = 0 then (True, snd (shrink 0 c))
     else (True, snd (shrink file_size c)))"

definition f_close :: "file_env \<Rightarrow> open_file \<Rightarrow> bool \<times> open_file" where
  "f_close env s =
    (if directory (fsi s) \<or> stopped s then (False, s)
     else
       let s = s\<lparr>stopped := True, reader_thread := False\<rparr>
       in case base_close s of
         (False, s) \<Rightarrow> (False, s)
       | (True, s) \<Rightarrow>
           let err = api_err s;
               s = (if err = success \<or> err = download_incomplete \<or> err = download_stopped then
                      (if modified s \<and> \<not> all_read s then snd (set_api_error download_incomplete s)
                       else if \<not> modified s \<and> f_size s > 0 \<and> \<not> all_read s
                       then snd (set_api_error download_stopped s)
                       else s)
                    else s);
               err = api_err s;
               s = s\<lparr>nf_file := (nf_file s)\<lparr>opened := False\<rparr>\<rparr>
           in if unlinked s then (True, s)
              else if modified s \<and> err = success
              then (True, call_mgr (Queue_upload (path_of s) (f_size s)) s)
              else if modified s \<and> err = download_incomplete
              then (True, call_mgr (Store_resume (path_of s) (chunks_read s)) s)
              else
                let s = (if err \<noteq> success \<or> all_read s
                         then call_mgr (Remove_resume (path_of s) (source_path (fsi s))) s else s)
                in if err = success then (True, s)
                   else
                     let s = s\<lparr>cache := snd (remove_source_and_shrink_cache (remove_works env)
                           (file_size_of (nf_file s)) (f_size s) (allocated s) (cache s))\<rparr>;
                         s = set_source_path (uuid_path env) s
                     in (True, snd (update_meta env [(''source'', uuid_path env)] s)))"

definition new_open_file ::
  "file_env \<Rightarrow> nat \<Rightarrow> nat \<Rightarrow> filesystem_item \<Rightarrow> (nat \<times> int) list \<Rightarrow> bool list option \<Rightarrow>
   local_file \<Rightarrow> cache_mgr \<Rightarrow> open_file" where
  "new_open_file env csize timeout item data resume_state f c =
    (let s = open_base.extend (open_file_base csize timeout item data False (clock env))
           \<lparr>allocated = False, nf_file = f, notified = False, read_chunk = 0, chunks_read = [],
            reader_thread = False, stopped = False, downloading = {}, upload_calls = [],
            meta_calls = [], cache = c\<rparr>
     in if directory item then s
        else
          let s = snd (set_api_error (if opened f then success else os_error) s) in
          if api_err s \<noteq> success then s
          else case resume_state of
            Some rs \<Rightarrow> update_reader 0 ((set_modified (s\<lparr>chunks_read := rs\<rparr>))\<lparr>allocated := True\<rparr>)
          | None \<Rightarrow>
              if item_size item = 0 then s
              else
                let s = s\<lparr>chunks_read := replicate (divide_with_ceiling (item_size item) csize) False\<rparr>
                in case file_size_of f of
                     None \<Rightarrow> snd (set_api_error os_error s)
                   | Some n \<Rightarrow>
                       if read_only env \<or> n = item_size item
                       then s\<lparr>chunks_read := replicate (divide_with_ceiling (item_size item) csize) True,
                              allocated := True\<rparr>
                       else s)"

end
