(* ===== verification/Open_File_Spec.thy ===== *)
theory Open_File_Spec imports Open_File begin

text \<open>
  What open_file promises: an abstract file, a list of bytes of the file's size, in which a
  chunk that is not downloaded yet shows the provider's bytes (zeros past its end), and the
  proof that reading, writing and resizing are the operations on that list, downloads
  invisible.
\<close>

section \<open>The abstract file\<close>

definition byte_at :: "bytes \<Rightarrow> open_file \<Rightarrow> nat \<Rightarrow> byte" where
  "byte_at remote s i =
    (if chunks_read s ! (i div f_chunk_size s) then contents (nf_file s) ! i
     else if i < length remote then remote ! i else 0)"

definition abs_file :: "bytes \<Rightarrow> open_file \<Rightarrow> bytes" where
  "abs_file remote s = map (byte_at remote s) [0..<f_size s]"

lemma length_abs_file [simp]: "length (abs_file remote s) = f_size s"
  by (simp add: abs_file_def)

lemma nth_abs_file [simp]: "i < f_size s \<Longrightarrow> abs_file remote s ! i = byte_at remote s i"
  by (simp add: abs_file_def)

text \<open>Bytes the provider cannot deliver are zero in the local file until the chunk is read.\<close>

definition zero_tail :: "bytes \<Rightarrow> open_file \<Rightarrow> bool" where
  "zero_tail remote s \<longleftrightarrow>
    (\<forall>i < f_size s. length remote \<le> i \<and> \<not> chunks_read s ! (i div f_chunk_size s) \<longrightarrow>
       contents (nf_file s) ! i = 0)"

definition file_wf :: "bytes \<Rightarrow> open_file \<Rightarrow> bool" where
  "file_wf remote s \<longleftrightarrow>
    0 < f_chunk_size s \<and> f_size s + f_chunk_size s < 2 ^ 62 \<and> \<not> directory (fsi s) \<and>
    truncate_works (nf_file s) \<and> reopens (nf_file s) \<and> downloading s = {} \<and>
    length (chunks_read s) = divide_with_ceiling (f_size s) (f_chunk_size s) \<and>
    (allocated s \<longrightarrow> length (contents (nf_file s)) = f_size s \<and> zero_tail remote s) \<and>
    (\<not> allocated s \<longrightarrow> f_size s = length remote \<and> (\<forall>c < length (chunks_read s). \<not> chunks_read s ! c)) \<and>
    (chunks_read s \<noteq> [] \<and> \<not> last (chunks_read s) \<longrightarrow>
       f_last_chunk_size s = f_size s - (length (chunks_read s) - 1) * f_chunk_size s \<and>
       f_size s = length remote)"

text \<open>What a download leaves as it is.\<close>

definition frame :: "open_file \<Rightarrow> open_file \<Rightarrow> bool" where
  "frame s s' \<longleftrightarrow>
    f_chunk_size s' = f_chunk_size s \<and> fsi s' = fsi s \<and> f_last_chunk_size s' = f_last_chunk_size s \<and>
    stopped s' = stopped s \<and> unlinked s' = unlinked s \<and> allocated s' = allocated s \<and>
    modified s' = modified s \<and> cache s' = cache s \<and>
    nf_file s' = (nf_file s)\<lparr>contents := contents (nf_file s')\<rparr>"

lemma frame_refl [simp, intro]: "frame s s"
  by (simp add: frame_def)

lemma frameD:
  assumes "frame s s'"
  shows "f_chunk_size s' = f_chunk_size s" "fsi s' = fsi s" "allocated s' = allocated s"
    "f_last_chunk_size s' = f_last_chunk_size s" "stopped s' = stopped s" "unlinked s' = unlinked s"
    "cache s' = cache s" "modified s' = modified s"
    "opened (nf_file s') = opened (nf_file s)" "size_ok (nf_file s') = size_ok (nf_file s)"
    "truncate_works (nf_file s') = truncate_works (nf_file s)" "reopens (nf_file s') = reopens (nf_file s)"
    "reads_ok (nf_file s') = reads_ok (nf_file s)"
    "writes_fail (nf_file s') = writes_fail (nf_file s)"
proof -
  have e: "nf_file s' = (nf_file s)\<lparr>contents := contents (nf_file s')\<rparr>"
    using assms by (simp add: frame_def)
  show "opened (nf_file s') = opened (nf_file s)" "size_ok (nf_file s') = size_ok (nf_file s)"
    "truncate_works (nf_file s') = truncate_works (nf_file s)" "reopens (nf_file s') = reopens (nf_file s)"
    "reads_ok (nf_file s') = reads_ok (nf_file s)"
    "writes_fail (nf_file s') = writes_fail (nf_file s)"
    by (subst e, simp)+
qed (use assms in \<open>auto simp: frame_def\<close>)

lemma frame_trans:
  assumes "frame a b" "frame b c" shows "frame a c"
  using frameD[OF assms(1)] frameD[OF assms(2)] by (simp add: frame_def)

text \<open>States that differ only where neither the abstract file nor well-formedness looks.\<close>

definition core :: "open_file \<Rightarrow> open_file \<Rightarrow> bool" where
  "core s s' \<longleftrightarrow> frame s s' \<and> contents (nf_file s') = contents (nf_file s) \<and>
    chunks_read s' = chunks_read s \<and> downloading s' = downloading s"

lemma core_frame: "core s s' \<Longrightarrow> frame s s'"
  by (simp add: core_def)

lemma core_trans: "core a b \<Longrightarrow> core b c \<Longrightarrow> core a c"
  using frame_trans[of a b c] by (simp add: core_def)

lemma core_abs: "core s s' \<Longrightarrow> abs_file remote s' = abs_file remote s"
  by (simp add: core_def frame_def abs_file_def byte_at_def)

lemma core_wf: "core s s' \<Longrightarrow> file_wf remote s \<Longrightarrow> file_wf remote s'"
  by (auto simp: core_def frame_def file_wf_def zero_tail_def)

lemma core_set_api_error [simp]: "core s (snd (set_api_error e s))"
  by (simp add: core_def frame_def set_api_error_def Let_def)

lemma core_touch [simp]: "core s (touch env b s)"
  by (simp add: core_def frame_def touch_def reset_timeout_def)

lemma core_reset_timeout [simp]: "core s (reset_timeout now s)"
  by (simp add: core_def frame_def reset_timeout_def)

lemma core_raise [simp]: "core s (raise_item_event e s)"
  by (simp add: core_def frame_def raise_item_event_def)

lemma core_update_reader [simp]: "core s (update_reader c s)"
  by (simp add: core_def frame_def update_reader_def Let_def)

lemma api_err_touch [simp]: "api_err (touch env b s) = api_err s"
  by (simp add: touch_def reset_timeout_def)

lemma api_err_raise [simp]: "api_err (raise_item_event e s) = api_err s"
  by (simp add: raise_item_event_def)

lemma api_err_update_reader [simp]: "api_err (update_reader c s) = api_err s"
  by (simp add: update_reader_def Let_def)
section \<open>Downloads are invisible\<close>

definition provider_ok :: "bytes \<Rightarrow> file_env \<Rightarrow> bool" where
  "provider_ok remote env \<longleftrightarrow>
    (\<forall>sz off. fst (read_file_bytes env sz off) = success \<longrightarrow>
       snd (read_file_bytes env sz off) = slice off sz remote)"

lemma frame_notify_complete: "frame s (notify_complete c s)"
  by (simp add: frame_def notify_complete_def raise_item_event_def Let_def)

lemma notify_complete_fields [simp]:
  "chunks_read (notify_complete c s) = chunks_read s"
  "contents (nf_file (notify_complete c s)) = contents (nf_file s)"
  "downloading (notify_complete c s) = downloading s - {c}"
  "api_err (notify_complete c s) = api_err s"
  by (simp_all add: notify_complete_def raise_item_event_def Let_def)

lemma abs_notify_complete [simp]: "abs_file remote (notify_complete c s) = abs_file remote s"
  using frame_notify_complete[of s c] by (simp add: abs_file_def byte_at_def frame_def)

lemma chunk_of_byte:
  assumes "0 < n" "i < fs"
  shows "i div n < divide_with_ceiling fs n" "i div n * n \<le> i" "i < (i div n + 1) * n"
  using chunk_in_range[OF assms] assms(1) by (simp_all add: dividend_less_div_times)

text \<open>Which bytes the splice of a chunk's data touches.\<close>

lemma chunk_splice:
  assumes wf: "file_wf remote s" and al: "allocated s" and c: "c < length (chunks_read s)"
    and unread: "\<not> chunks_read s ! c"
    and len: "len = (if c = length (chunks_read s) - 1 then f_last_chunk_size s else f_chunk_size s)"
    and d: "d = slice (c * f_chunk_size s) k remote" "k \<le> len"
    and c': "contents' = (if d = [] then contents (nf_file s)
      else splice_at 0 (c * f_chunk_size s) d (contents (nf_file s)))"
  shows "length contents' = f_size s"
    and "i < f_size s \<Longrightarrow> i div f_chunk_size s \<noteq> c \<Longrightarrow> contents' ! i = contents (nf_file s) ! i"
    and "i < f_size s \<Longrightarrow> i div f_chunk_size s = c \<Longrightarrow> k = len \<Longrightarrow>
      contents' ! i = (if i < length remote then remote ! i else 0)"
    and "i < f_size s \<Longrightarrow> length remote \<le> i \<Longrightarrow> contents' ! i = contents (nf_file s) ! i"
    and "c * f_chunk_size s + len = min ((c + 1) * f_chunk_size s) (f_size s)" "0 < len"
proof -
  let ?n = "f_chunk_size s" and ?fs = "f_size s"
  have n: "0 < ?n" and t: "length (chunks_read s) = divide_with_ceiling ?fs ?n"
    and lc: "length (contents (nf_file s)) = ?fs" and z: "zero_tail remote s"
    using wf al by (auto simp: file_wf_def)
  have fs: "0 < ?fs" using c t n by (cases "?fs = 0") (auto simp: divide_with_ceiling_def)
  have "c = length (chunks_read s) - 1 \<Longrightarrow> f_last_chunk_size s = ?fs - (length (chunks_read s) - 1) * ?n"
  proof -
    assume "c = length (chunks_read s) - 1"
    then have "chunks_read s \<noteq> [] \<and> \<not> last (chunks_read s)"
      using c unread by (cases "chunks_read s = []") (simp_all add: last_conv_nth)
    then show ?thesis using wf by (simp add: file_wf_def)
  qed
  then have "len = (if c = divide_with_ceiling ?fs ?n - 1
      then ?fs - (divide_with_ceiling ?fs ?n - 1) * ?n else ?n)"
    using len t by simp
  note sp = chunk_span[OF n fs c[unfolded t] this]
  show span: "c * ?n + len = min ((c + 1) * ?n) ?fs" "0 < len" using sp by auto
  have dl: "length d \<le> len" "c * ?n + length d \<le> ?fs" using d span by auto
  show "length contents' = ?fs" using dl lc by (simp add: c')
  have nth: "contents' ! i = (if c * ?n \<le> i \<and> i < c * ?n + length d then d ! (i - c * ?n)
      else contents (nf_file s) ! i)" if "i < ?fs" for i
    using that lc dl by (auto simp: c' nth_splice_at)
  have dn: "d ! (i - c * ?n) = remote ! i \<and> i < length remote"
    if "c * ?n \<le> i" "i < c * ?n + length d" for i
    using that d(1) by (auto simp: slice_def)
  show "contents' ! i = contents (nf_file s) ! i" if "i < ?fs" "i div ?n \<noteq> c"
  proof -
    have "\<not> (c * ?n \<le> i \<and> i < c * ?n + length d)"
    proof
      assume a: "c * ?n \<le> i \<and> i < c * ?n + length d"
      then have "i < (c + 1) * ?n" using dl sp(2) by simp
      then have "i div ?n = c" using a n by (intro div_nat_eqI) (simp_all add: mult.commute)
      then show False using that by simp
    qed
    then show ?thesis using nth[OF that(1)] by (simp only: if_False)
  qed
  show "contents' ! i = contents (nf_file s) ! i" if "i < ?fs" "length remote \<le> i"
    using nth[OF that(1)] dn[of i] that(2) by auto
  show "contents' ! i = (if i < length remote then remote ! i else 0)"
    if "i < ?fs" "i div ?n = c" "k = len"
  proof (cases "c * ?n \<le> i \<and> i < c * ?n + length d")
    case True
    then show ?thesis using nth[OF that(1)] dn[of i] by auto
  next
    case False
    have i: "c * ?n \<le> i" "i < (c + 1) * ?n" using chunk_of_byte[OF n that(1)] that(2) by auto
    then have "i < c * ?n + len" using span that(1) by simp
    then have rl: "length remote \<le> i" using False i d that(3) by (auto simp: slice_def)
    then have "contents (nf_file s) ! i = 0"
      using z that(1,2) unread by (auto simp: zero_tail_def)
    then show ?thesis using nth[OF that(1)] False rl by auto
  qed
qed

lemma put_chunk:
  assumes wf: "file_wf remote s" and al: "allocated s" and c: "c < length (chunks_read s)"
    and unread: "\<not> chunks_read s ! c"
    and len: "len = (if c = length (chunks_read s) - 1 then f_last_chunk_size s else f_chunk_size s)"
    and d: "d = slice (c * f_chunk_size s) k remote" "k \<le> len" "ready \<longrightarrow> k = len"
    and f: "frame s t" "downloading t = {}"
      "chunks_read t = (if ready then (chunks_read s)[c := True] else chunks_read s)"
      "contents (nf_file t) = (if d = [] then contents (nf_file s)
        else splice_at 0 (c * f_chunk_size s) d (contents (nf_file s)))"
  shows "file_wf remote t \<and> abs_file remote t = abs_file remote s"
proof -
  note sp = chunk_splice[OF wf al c unread len d(1,2) f(4)]
  have n: "0 < f_chunk_size s" and t: "length (chunks_read s) = divide_with_ceiling (f_size s) (f_chunk_size s)"
    and z: "zero_tail remote s"
    using wf al by (auto simp: file_wf_def)
  have fr: "f_chunk_size t = f_chunk_size s" "fsi t = fsi s" "allocated t"
    "f_last_chunk_size t = f_last_chunk_size s" "truncate_works (nf_file t) = truncate_works (nf_file s)"
    "reopens (nf_file t) = reopens (nf_file s)"
    using frameD[OF f(1)] al by auto
  have cr: "chunks_read t ! j \<longleftrightarrow> chunks_read s ! j \<or> (ready \<and> j = c)" if "j < length (chunks_read s)" for j
    using that f(3) c by (auto simp: nth_list_update)
  have byte: "byte_at remote t i = byte_at remote s i" if i: "i < f_size s" for i
  proof -
    let ?j = "i div f_chunk_size s"
    have j: "?j < length (chunks_read s)" using chunk_of_byte(1)[OF n i] t by simp
    show ?thesis
      using cr[OF j] sp(2,3)[OF i] unread d(3) by (auto simp: byte_at_def fr)
  qed
  have "zero_tail remote t"
    unfolding zero_tail_def
  proof (intro allI impI)
    fix i assume i: "i < f_size t" and r: "length remote \<le> i \<and> \<not> chunks_read t ! (i div f_chunk_size t)"
    have j: "i div f_chunk_size s < length (chunks_read s)"
      using chunk_of_byte(1)[OF n, of i] i t fr by simp
    have "\<not> chunks_read s ! (i div f_chunk_size s)" using r cr[OF j] fr by simp
    then show "contents (nf_file t) ! i = 0"
      using sp(4)[of i] i r z fr by (simp add: zero_tail_def)
  qed
  moreover have lenr: "length (chunks_read t) = length (chunks_read s)" using f(3) by simp
  moreover have "chunks_read s \<noteq> [] \<and> \<not> last (chunks_read s)"
    if "chunks_read t \<noteq> [] \<and> \<not> last (chunks_read t)"
  proof -
    have ne: "chunks_read s \<noteq> []" using that lenr by (metis length_0_conv)
    then have "\<not> chunks_read t ! (length (chunks_read s) - 1)"
      using that lenr last_conv_nth[of "chunks_read t"] by simp
    then show ?thesis using cr[of "length (chunks_read s) - 1"] ne by (simp add: last_conv_nth)
  qed
  ultimately have "file_wf remote t"
    using wf sp(1) fr f(2) unfolding file_wf_def f_size_def by simp
  moreover have "abs_file remote t = abs_file remote s"
    using byte fr by (simp add: abs_file_def)
  ultimately show ?thesis by simp
qed
text \<open>\<open>fetched remote s t\<close>: \<open>t\<close> is \<open>s\<close> after any number of downloads, failed ones included.\<close>

definition fetched :: "bytes \<Rightarrow> open_file \<Rightarrow> open_file \<Rightarrow> bool" where
  "fetched remote s t \<longleftrightarrow> file_wf remote t \<and> abs_file remote t = abs_file remote s \<and> frame s t \<and>
    length (chunks_read t) = length (chunks_read s) \<and>
    (\<forall>c < length (chunks_read s). chunks_read s ! c \<longrightarrow> chunks_read t ! c)"

lemma fetched_core: "file_wf remote s \<Longrightarrow> core s t \<Longrightarrow> fetched remote s t"
  by (simp add: fetched_def core_wf core_abs core_frame) (simp add: core_def)

lemma fetched_trans: "fetched remote a b \<Longrightarrow> fetched remote b c \<Longrightarrow> fetched remote a c"
  by (auto simp: fetched_def intro: frame_trans)

lemma fetched_put:
  assumes wf: "file_wf remote s" and al: "allocated s" and c: "c < length (chunks_read s)"
    and unread: "\<not> chunks_read s ! c"
    and len: "len = (if c = length (chunks_read s) - 1 then f_last_chunk_size s else f_chunk_size s)"
    and d: "d = slice (c * f_chunk_size s) k remote" "k \<le> len" "ready \<longrightarrow> k = len"
    and f: "frame s t" "downloading t = {}"
      "chunks_read t = (if ready then (chunks_read s)[c := True] else chunks_read s)"
      "contents (nf_file t) = (if d = [] then contents (nf_file s)
        else splice_at 0 (c * f_chunk_size s) d (contents (nf_file s)))"
  shows "fetched remote s t"
  using put_chunk[OF assms] f c by (auto simp: fetched_def nth_list_update)

lemma take_slice: "take k (slice off n xs) = slice off (min k n) xs"
  by (simp add: slice_def)

lemma download_chunk_fetched:
  assumes wf: "file_wf remote s" and al: "allocated s" and p: "provider_ok remote env"
  shows "fetched remote s (f_download_chunk env c skip rst s) \<and>
    (api_err (f_download_chunk env c skip rst s) = success \<and> c < length (chunks_read s) \<longrightarrow>
       chunks_read (f_download_chunk env c skip rst s) ! c)"
proof -
  let ?t = "f_download_chunk env c skip rst s"
  let ?s1 = "touch env rst s"
  have c1: "core s ?s1" by simp
  note e1 = c1[unfolded core_def]
  have dl: "downloading s = {}" using wf by (simp add: file_wf_def)
  show ?thesis
  proof (cases "api_err s = success \<and> c < length (chunks_read s) \<and> \<not> chunks_read s ! c")
    case False
    then have "\<not> (api_err ?s1 = success \<and> c < length (chunks_read ?s1) \<and> \<not> chunks_read ?s1 ! c)"
      using e1 by auto
    then have t: "?t = ?s1"
      unfolding f_download_chunk_def Let_def by (rule if_not_P)
    then show ?thesis
      using fetched_core[OF wf c1] False e1 by auto
  next
    case True
    define sz where "sz = (if c = length (chunks_read s) - 1 then f_last_chunk_size s else f_chunk_size s)"
    define s2 where "s2 = (if downloading ?s1 = {} \<and> \<not> list_ex (\<lambda>b. b) (chunks_read ?s1)
      then raise_item_event download_began ?s1 else ?s1)"
    define s3 where "s3 = touch env rst (s2\<lparr>downloading := insert c (downloading s2)\<rparr>)"
    have n: "0 < f_chunk_size s" "f_size s < 2 ^ 64"
      "length (chunks_read s) = divide_with_ceiling (f_size s) (f_chunk_size s)"
      using wf by (auto simp: file_wf_def)
    have "c * f_chunk_size s \<le> divide_with_ceiling (f_size s) (f_chunk_size s) * f_chunk_size s"
      using True n(3) by (intro mult_right_mono) auto
    then have "c * f_chunk_size s < f_size s + f_chunk_size s"
      using divide_with_ceiling_bounds(2)[OF n(1), of "f_size s"] by linarith
    then have off: "mul64 c (f_chunk_size s) = c * f_chunk_size s"
      using wf by (simp add: mul64_exact file_wf_def)
    have s2: "core s s2" using c1 core_trans[OF c1 core_raise] by (simp add: s2_def)
    have s3: "frame s s3" "chunks_read s3 = chunks_read s" "downloading s3 = {c}"
      "contents (nf_file s3) = contents (nf_file s)" "api_err s3 = success" "nf_file s3 = nf_file s"
      using s2 dl True
      by (simp_all add: s3_def core_def frame_def touch_def reset_timeout_def)
        (simp_all add: s2_def touch_def reset_timeout_def raise_item_event_def)
    have t: "?t = fetch_chunk env c sz (c * f_chunk_size s) rst s3"
      using True e1 dl off
      by (simp add: f_download_chunk_def Let_def s3_def s2_def sz_def frame_def del: core_touch)
    obtain res d where rd: "read_file_bytes env sz (c * f_chunk_size s) = (res, d)"
      by (cases "read_file_bytes env sz (c * f_chunk_size s)")
    show ?thesis
    proof (cases "res = success")
      case fail: False
      have t': "?t = notify_complete c (snd (set_api_error res s3))"
        using t rd fail by (simp add: fetch_chunk_def)
      have fr: "frame s ?t"
        unfolding t' using frame_trans[OF s3(1) frame_trans[OF core_frame frame_notify_complete]] by simp
      have k: "chunks_read ?t = chunks_read s" "downloading ?t = {}"
        "contents (nf_file ?t) = contents (nf_file s)" "api_err ?t \<noteq> success"
        unfolding t' using s3 fail core_set_api_error[of s3 res] by (auto simp: core_def hard_error_def)
      have "core (s\<lparr>api_err := api_err ?t\<rparr>) (s\<lparr>api_err := api_err ?t\<rparr>)" by (simp add: core_def)
      have "core s ?t" using fr k dl by (simp add: core_def)
      then show ?thesis using fetched_core[OF wf] k by simp
    next
      case ok: True
      have d: "d = slice (c * f_chunk_size s) sz remote"
        using p rd ok unfolding provider_ok_def by (metis fst_conv snd_conv)
      obtain w f where w: "file_write (c * f_chunk_size s) d (nf_file s) = (w, f)"
        by (cases "file_write (c * f_chunk_size s) d (nf_file s)")
      define j where "j = (if opened (nf_file s) then
        (case writes_fail (nf_file s) of None \<Rightarrow> sz | Some j \<Rightarrow> min j sz) else 0)"
      have wj: "f = (nf_file s)\<lparr>contents := contents f\<rparr>" "w \<longrightarrow> j = sz" "j \<le> sz"
        "contents f = (if slice (c * f_chunk_size s) j remote = [] then contents (nf_file s)
          else splice_at 0 (c * f_chunk_size s) (slice (c * f_chunk_size s) j remote) (contents (nf_file s)))"
        using w d by (auto simp: file_write_def j_def take_slice split: option.splits if_splits)
      define s4 where "s4 = touch env rst (s3\<lparr>nf_file := f\<rparr>)"
      define s5 where "s5 = (if w then s4\<lparr>chunks_read := (chunks_read s4)[c := True]\<rparr>
        else snd (set_api_error os_error s4))"
      have t': "?t = notify_complete c s5"
        using t rd ok w s3(6) by (simp add: fetch_chunk_def s5_def s4_def Let_def)
      have f4: "frame s s4"
        using s3(1) wj(1) by (auto simp: s4_def touch_def reset_timeout_def frame_def)
      then have f5: "frame s s5"
        using frame_trans[OF f4 core_frame[OF core_set_api_error]] by (auto simp: s5_def frame_def)
      have fr: "frame s ?t" unfolding t' using frame_trans[OF f5 frame_notify_complete] .
      have e4: "chunks_read s4 = chunks_read s" "downloading s4 = {c}" "contents (nf_file s4) = contents f"
        "api_err s4 = success"
        using s3 by (simp_all add: s4_def touch_def reset_timeout_def)
      have k: "chunks_read ?t = (if w then (chunks_read s)[c := True] else chunks_read s)"
        "downloading ?t = {}" "contents (nf_file ?t) = contents f" "\<not> w \<longrightarrow> api_err ?t \<noteq> success"
        unfolding t' using e4 core_set_api_error[of s4 os_error]
        by (auto simp: s5_def core_def hard_error_def)
      have "fetched remote s ?t"
        using True by (intro fetched_put[OF wf al _ _ sz_def refl wj(3,2) fr k(2,1)]) (simp_all add: k(3) wj(4))
      then show ?thesis using k True by (auto simp: nth_list_update)
    qed
  qed
qed
lemma fetched_keeps:
  assumes "fetched remote s t"
  shows "file_wf remote t" "abs_file remote t = abs_file remote s" "f_size t = f_size s"
    "f_chunk_size t = f_chunk_size s" "allocated t = allocated s" "stopped t = stopped s"
    "directory (fsi t) = directory (fsi s)" "length (chunks_read t) = length (chunks_read s)"
    "unlinked t = unlinked s" "fsi t = fsi s"
  using assms frameD[of s t] by (auto simp: fetched_def)

lemma download_each_fetched:
  assumes "file_wf remote s" "allocated s" "provider_ok remote env"
  shows "fetched remote s (download_each env cl rst s) \<and>
    (api_err (download_each env cl rst s) = success \<longrightarrow>
      (\<forall>c \<in> set cl. c < length (chunks_read s) \<longrightarrow> chunks_read (download_each env cl rst s) ! c))"
  using assms(1,2)
proof (induction cl arbitrary: s)
  case Nil
  then show ?case using fetched_core[of remote s s] by (simp add: core_def)
next
  case (Cons c cl)
  show ?case
  proof (cases "api_err s = success")
    case False
    then show ?thesis using fetched_core[of remote s s] Cons.prems by (simp add: core_def)
  next
    case True
    let ?u = "f_download_chunk env c False rst s"
    let ?t = "download_each env cl rst ?u"
    have d: "fetched remote s ?u"
      "api_err ?u = success \<and> c < length (chunks_read s) \<longrightarrow> chunks_read ?u ! c"
      using download_chunk_fetched[OF Cons.prems assms(3)] by auto
    note k = fetched_keeps[OF d(1)]
    have IH: "fetched remote ?u ?t" "api_err ?t = success \<longrightarrow>
        (\<forall>c \<in> set cl. c < length (chunks_read ?u) \<longrightarrow> chunks_read ?t ! c)"
      using Cons.IH[OF k(1)] k(5) Cons.prems by auto
    have err: "api_err ?t = success \<Longrightarrow> api_err ?u = success"
      by (cases cl) (auto split: if_splits)
    have "chunks_read ?t ! c" if "api_err ?t = success" "c < length (chunks_read s)"
      using d(2) err[OF that(1)] that(2) IH(1) k(8) by (auto simp: fetched_def)
    then show ?thesis
      using True fetched_trans[OF d(1) IH(1)] IH(2) k(8) by auto
  qed
qed

lemma download_range_fetched:
  assumes "file_wf remote s" "allocated s" "provider_ok remote env"
    and t: "t = download_range env b e rst (update_reader c s)"
  shows "fetched remote s t"
    and "api_err t = success \<Longrightarrow> b \<le> i \<Longrightarrow> i \<le> e \<Longrightarrow> i < length (chunks_read s) \<Longrightarrow> chunks_read t ! i"
proof -
  have c: "core s (update_reader c s)" by simp
  have u: "file_wf remote (update_reader c s)" "allocated (update_reader c s)"
    "chunks_read (update_reader c s) = chunks_read s"
    using core_wf[OF c assms(1)] assms(2) c by (auto simp: core_def frame_def)
  note d = download_each_fetched[OF u(1,2) assms(3), of "[b..<Suc e]" rst]
  show "fetched remote s t"
    using fetched_trans[OF fetched_core[OF assms(1) c]] d by (auto simp: t download_range_def)
  show "chunks_read t ! i" if "api_err t = success" "b \<le> i" "i \<le> e" "i < length (chunks_read s)"
    using d that u(3) by (auto simp: t download_range_def)
qed

section \<open>Accounting and allocation\<close>

definition same_content :: "open_file \<Rightarrow> open_file \<Rightarrow> bool" where
  "same_content s t \<longleftrightarrow> core s (t\<lparr>cache := cache s\<rparr>)"

lemma adjust_cache_size_cases:
  assumes "adjust_cache_size env n shr s = Some (res, t)"
  obtains (same) "res = success" "t = s"
  | (counted) c where "res = success" "t = s\<lparr>cache := c\<rparr>"
  | (failed) c r where "r \<noteq> success" "(res, t) = set_api_error r (s\<lparr>cache := c\<rparr>)"
proof (cases "n = f_size s")
  case True
  then have "Some (res, t) = Some (success, s)"
    using assms by (simp only: adjust_cache_size_def refl if_True)
  then show ?thesis using same by blast
next
  case False
  define k where "k = (if n > f_size s then sub64 n (f_size s) else sub64 (f_size s) n)"
  define q where "q = (if (n > f_size s) = shr then Some (shrink k (cache s))
    else expand (wakes env) k (cache s))"
  have q: "Some (res, t) = (case q of None \<Rightarrow> None
      | Some (r, c) \<Rightarrow> if r = success then Some (r, s\<lparr>cache := c\<rparr>)
          else Some (set_api_error r (s\<lparr>cache := c\<rparr>)))"
    using False assms by (simp only: adjust_cache_size_def Let_def k_def q_def if_False)
  show ?thesis
  proof (cases q)
    case None
    then have "Some (res, t) = None" using q by (simp only: option.case)
    then show ?thesis by blast
  next
    case (Some p)
    obtain r c where p: "p = (r, c)" by (cases p)
    have "Some (res, t) = (if r = success then Some (r, s\<lparr>cache := c\<rparr>)
      else Some (set_api_error r (s\<lparr>cache := c\<rparr>)))"
      using q by (simp only: Some p option.case prod.case)
    then show ?thesis
      using counted[of c] failed[of r c] by (metis option.inject prod.inject)
  qed
qed

lemma adjust_cache_size_core:
  assumes "adjust_cache_size env n shr s = Some (res, t)"
  shows "same_content s t" "res = success \<Longrightarrow> api_err t = api_err s"
proof -
  have e: "(snd (set_api_error r (s\<lparr>cache := c\<rparr>)))\<lparr>cache := cache s\<rparr> = snd (set_api_error r s)" for r c
    by (simp add: set_api_error_def Let_def)
  have "same_content s t \<and> (res = success \<longrightarrow> api_err t = api_err s)"
    using assms
  proof (cases rule: adjust_cache_size_cases)
    case same
    then show ?thesis by (simp add: same_content_def core_def frame_def)
  next
    case (counted c)
    then show ?thesis by (simp add: same_content_def core_def frame_def)
  next
    case (failed c r)
    then have t: "t = snd (set_api_error r (s\<lparr>cache := c\<rparr>))" "res = api_err t"
      using set_api_error_result[of r "s\<lparr>cache := c\<rparr>"] by (metis snd_conv, metis fst_conv snd_conv)
    have "res \<noteq> success" using t failed(1) by (auto simp: hard_error_def)
    then show ?thesis using t(1) e by (simp add: same_content_def)
  qed
  then show "same_content s t" "res = success \<Longrightarrow> api_err t = api_err s" by auto
qed

lemma byte_at_cache [simp]: "byte_at remote (t\<lparr>cache := c\<rparr>) = byte_at remote t"
  by (simp add: byte_at_def fun_eq_iff)

lemma same_content_wf: "same_content s t \<Longrightarrow> file_wf remote s \<Longrightarrow> file_wf remote t"
proof -
  assume a: "same_content s t" "file_wf remote s"
  have "file_wf remote (t\<lparr>cache := cache s\<rparr>)" using core_wf a by (auto simp: same_content_def)
  then show ?thesis by (simp add: file_wf_def zero_tail_def)
qed

lemma same_content_keeps:
  assumes "same_content s t"
  shows "abs_file remote t = abs_file remote s" "f_size t = f_size s"
    "f_chunk_size t = f_chunk_size s" "allocated t = allocated s" "stopped t = stopped s"
    "chunks_read t = chunks_read s" "nf_file t = nf_file s" "unlinked t = unlinked s"
    "fsi t = fsi s" "downloading t = downloading s" "f_last_chunk_size t = f_last_chunk_size s"
proof -
  have c: "core s (t\<lparr>cache := cache s\<rparr>)" using assms by (simp add: same_content_def)
  show "abs_file remote t = abs_file remote s"
    using core_abs[OF c, of remote] by (simp add: abs_file_def)
  have "nf_file (t\<lparr>cache := cache s\<rparr>)
      = (nf_file s)\<lparr>contents := contents (nf_file (t\<lparr>cache := cache s\<rparr>))\<rparr>"
    "contents (nf_file (t\<lparr>cache := cache s\<rparr>)) = contents (nf_file s)"
    using c unfolding core_def frame_def by blast+
  then show "nf_file t = nf_file s" by simp
qed (use assms in \<open>auto simp: same_content_def core_def frame_def\<close>)

lemma check_start_ok:
  assumes wf: "file_wf remote s" and cs: "f_check_start env s = Some (res, t)"
  shows "file_wf remote t" "abs_file remote t = abs_file remote s" "f_size t = f_size s"
    "f_chunk_size t = f_chunk_size s" "stopped t = stopped s" "directory (fsi t) = directory (fsi s)"
    "res = success \<Longrightarrow> allocated t \<and> api_err t = api_err s"
    "unlinked t = unlinked s" "fsi t = fsi s"
proof -
  have all: "file_wf remote t \<and> abs_file remote t = abs_file remote s \<and> fsi t = fsi s \<and>
      f_chunk_size t = f_chunk_size s \<and> stopped t = stopped s \<and> unlinked t = unlinked s \<and>
      (res = success \<longrightarrow> allocated t \<and> api_err t = api_err s)"
  proof (cases "allocated s")
    case True
    then show ?thesis using wf cs by (simp add: f_check_start_def)
  next
    case na: False
    have unread: "\<forall>c < length (chunks_read s). \<not> chunks_read s ! c" and len: "f_size s = length remote"
      and tw: "truncate_works (nf_file s)" "reopens (nf_file s)" and n: "0 < f_chunk_size s"
      and crl: "length (chunks_read s) = divide_with_ceiling (f_size s) (f_chunk_size s)"
      using wf na by (auto simp: file_wf_def)
    have abs: "abs_file remote u = abs_file remote s"
      if "fsi u = fsi s" "f_chunk_size u = f_chunk_size s" "chunks_read u = chunks_read s" for u
    proof -
      have "byte_at remote u i = byte_at remote s i" if "i < f_size s" for i
        using chunk_of_byte(1)[OF n that] unread crl
          \<open>f_chunk_size u = f_chunk_size s\<close> \<open>chunks_read u = chunks_read s\<close>
        by (simp add: byte_at_def)
      then show ?thesis using that by (simp add: abs_file_def)
    qed
    have wf': "file_wf remote u"
      if "fsi u = fsi s" "f_chunk_size u = f_chunk_size s" "chunks_read u = chunks_read s"
        "f_last_chunk_size u = f_last_chunk_size s" "downloading u = downloading s"
        "truncate_works (nf_file u)" "reopens (nf_file u)" "length (contents (nf_file u)) = f_size s" "allocated u" for u
      using wf that len by (auto simp: file_wf_def zero_tail_def)
    show ?thesis
    proof (cases "file_size_of (nf_file s)")
      case None
      have ne: "fst (set_api_error os_error s) \<noteq> success" by (simp add: hard_error_def)
      have p: "set_api_error os_error s = (res, t)"
        using cs na None by (simp add: f_check_start_def)
      have t: "t = snd (set_api_error os_error s)" "res \<noteq> success"
        using ne p by auto
      have c: "core s t" by (simp add: t)
      then show ?thesis
        using core_wf[OF c wf] core_abs[OF c, of remote] t(2) by (simp add: core_def frame_def)
    next
      case (Some k)
      show ?thesis
      proof (cases "k = f_size s")
        case True
        have t: "t = s\<lparr>allocated := True\<rparr>" "res = success"
          using cs na Some True by (auto simp: f_check_start_def)
        have "length (contents (nf_file s)) = f_size s"
          using Some True by (auto simp: file_size_of_def split: if_splits)
        then show ?thesis using wf'[of t] abs[of t] tw t by simp
      next
        case False
        obtain res1 u where a: "adjust_cache_size env k True s = Some (res1, u)"
          using cs na Some False by (auto simp: f_check_start_def split: option.splits)
        note ac = adjust_cache_size_core[OF a]
        note k = same_content_keeps[OF ac(1)]
        show ?thesis
        proof (cases "res1 = success")
          case False
          then have "t = u" "res = res1"
            using cs na Some \<open>k \<noteq> f_size s\<close> a by (auto simp: f_check_start_def)
          then show ?thesis using same_content_wf[OF ac(1) wf] k False by simp
        next
          case True
          have t: "t = u\<lparr>nf_file := (nf_file s)\<lparr>contents := resize_to 0 (f_size s) (contents (nf_file s))\<rparr>,
              allocated := True\<rparr>" "res = success"
            using cs na Some \<open>k \<noteq> f_size s\<close> a True tw k(2,7)
            by (auto simp: f_check_start_def file_truncate_def)
          have "file_wf remote t" using k tw by (intro wf') (simp_all add: t)
          moreover have "abs_file remote t = abs_file remote s" using k by (intro abs) (simp_all add: t)
          ultimately show ?thesis using k ac(2)[OF True] t by simp
        qed
      qed
    qed
  qed
  then show "file_wf remote t" "abs_file remote t = abs_file remote s" "f_size t = f_size s"
    "f_chunk_size t = f_chunk_size s" "stopped t = stopped s" "directory (fsi t) = directory (fsi s)"
    "unlinked t = unlinked s" "fsi t = fsi s" by auto
  show "res = success \<Longrightarrow> allocated t \<and> api_err t = api_err s" using all by auto
qed

end
