(* ===== verification/Open_File_Sample.thy ===== *)
theory Open_File_Sample imports Open_File_Spec begin

text \<open>
  A file of five bytes in chunks of two, nothing of it downloaded yet, and what reading its end
  does, evaluated step by step: the concrete inputs of the theorems about open_file.
\<close>

definition sample_env :: file_env where
  "sample_env = \<lparr>read_only = False, read_file_bytes = (\<lambda>n off. (success, slice off n [1, 2, 3, 4, 5])),
    set_item_meta = (\<lambda>p m. success), clock = 1, time_text = ''1'', wakes = [],
    others = (\<lambda>c s. s), uuid_path = ''/c/b'', remove_works = True\<rparr>"

definition sample_item :: filesystem_item where
  "sample_item = \<lparr>api_path = ''/a'', api_parent = ''/'', directory = False, item_size = 5,
    source_path = ''/c/a''\<rparr>"

definition sample_file :: open_file where
  "sample_file = new_open_file sample_env 2 3 sample_item [] None
     \<lparr>opened = True, contents = [], size_ok = True, truncate_works = True, reopens = True, reads_ok = True,
      writes_fail = None\<rparr>
     (cache_init\<lparr>has_cfg := True, max_cache_size := 100\<rparr>)"

lemma replicates [simp]:
  "replicate 2 x = [x, x]" "replicate 3 x = [x, x, x]" "replicate 4 x = [x, x, x, x]"
  "replicate 5 x = [x, x, x, x, x]"
  by (simp_all add: numeral_eq_Suc)

lemma sample_fields [simp]:
  "f_chunk_size sample_file = 2" "fsi sample_file = sample_item" "chunks_read sample_file = [False, False, False]"
  "downloading sample_file = {}" "f_last_chunk_size sample_file = 1" "\<not> allocated sample_file"
  "stopped sample_file = False" "api_err sample_file = success" "reader_thread sample_file = False"
  "nf_file sample_file = \<lparr>opened = True, contents = [], size_ok = True, truncate_works = True, reopens = True, reads_ok = True,
      writes_fail = None\<rparr>" "unlinked sample_file = False" "notified sample_file = False"
  "io_thread sample_file" "\<not> io_stop_requested sample_file"
  "modified sample_file = False" "removed sample_file = False" "upload_calls sample_file = []"
  "meta_calls sample_file = []"
  "cache sample_file = cache_init\<lparr>has_cfg := True, max_cache_size := 100\<rparr>"
  by (simp_all add: sample_file_def new_open_file_def sample_env_def sample_item_def open_base.defs
      open_file_base_def set_api_error_def file_size_of_def divide_with_ceiling_def last_chunk_size_of_def)

lemma sample_item [simp]: "item_size sample_item = 5" "\<not> directory sample_item" by (simp_all add: sample_item_def)

lemma sample_wf: "file_wf [1, 2, 3, 4, 5] sample_file"
  by (simp add: file_wf_def divide_with_ceiling_def less_Suc_eq numeral_3_eq_3)

lemma sample_provider: "provider_ok [1, 2, 3, 4, 5] sample_env"
  by (simp add: provider_ok_def sample_env_def)

lemmas run_simps = file_size_of_def adjust_cache_size_def shrink_def expand_def cache_init_def expand_wait.simps over_limit_def
  file_truncate_def sub64_def add64_def mul64_def calculate_read_size_def all_read_def update_reader_def
  download_range_def f_download_chunk_def fetch_chunk_def touch_def reset_timeout_def raise_item_event_def
  notify_complete_def file_write_def file_read_def read_from_source_def sample_env_def slice_def splice_at_def
  resize_to_def pad_to_def

definition started :: open_file where
  "started = sample_file\<lparr>nf_file := (nf_file sample_file)\<lparr>contents := [0,0,0,0,0]\<rparr>, allocated := True, 
  cache := (cache sample_file)\<lparr>cache_size := 5\<rparr>\<rparr>"

lemma sample_start: "f_check_start sample_env sample_file = Some (success, started)"
    by (simp add: f_check_start_def run_simps Let_def started_def)



definition got1 :: open_file where
  "got1 = started\<lparr>last_access := 1, read_chunk := 1, reader_thread := True, 
  nf_file := (nf_file started)\<lparr>contents := [0,0,3,4,0]\<rparr>, chunks_read := [False, True, False], 
  item_events := item_events started @ [download_began]\<rparr>"

definition got2 :: open_file where
  "got2 = started\<lparr>last_access := 1, read_chunk := 1, reader_thread := True, 
  nf_file := (nf_file started)\<lparr>contents := [0,0,3,4,5]\<rparr>, chunks_read := [False, True, True], 
  item_events := item_events started @ [download_began]\<rparr>"
lemma sample_download1: "f_download_chunk sample_env 1 False True (update_reader 1 started) = got1"
    by (simp add: got1_def started_def run_simps)
lemma sample_download2: "f_download_chunk sample_env 2 False True got1 = got2"
    by (simp add: got1_def got2_def started_def run_simps Let_def list_update_code)
lemma sample_errors: "api_err started = success" "api_err (update_reader 1 started) = success" "api_err got1 = success" "api_err got2 = success" "\<not> stopped started"
    by (simp_all add: got1_def got2_def started_def run_simps)
lemma sample_read: "f_read sample_env 9 3 [] sample_file = Some (success, [4, 5], got2)"
proof -
  have r: "download_range sample_env 1 2 True (update_reader 1 started) = got2"
    by (simp add: download_range_def upt_rec sample_download1 sample_download2 sample_errors del: One_nat_def) 
  have c: "calculate_read_size 5 9 3 = 2" "add64 2 3 = 5" "(3::nat) div 2 = 1" "(5::nat) div 2 = 2"
    by (simp_all add: calculate_read_size_def add64_def sub64_def)
  have s: "f_size started = 5" "f_chunk_size started = 2" "\<not> all_read started"
    by (simp_all add: started_def all_read_def)
  have q: "read_from_source sample_env 2 3 [] got2 = (success, [4, 5])"
    by (simp add: read_from_source_def got2_def started_def run_simps)
  show ?thesis
    using s sample_errors unfolding f_read_def Let_def by (simp add: c sample_start r q del: One_nat_def)
qed


lemma sample_abs: "abs_file [1, 2, 3, 4, 5] sample_file = [1, 2, 3, 4, 5]"
  by (simp add: abs_file_def byte_at_def upt_rec)

definition cut_ready :: open_file where
  "cut_ready = started\<lparr>last_access := 1, read_chunk := 0, reader_thread := True, downloading := {},
    nf_file := (nf_file started)\<lparr>contents := [0, 0, 3, 4, 0]\<rparr>,
    chunks_read := [False, True, False], item_events := item_events started @ [download_began],
    cache := (cache started)\<lparr>cache_size := 4\<rparr>\<rparr>"

lemma sample_cut_download:
  "f_download_chunk sample_env 1 False True (update_reader 0 (started\<lparr>cache := (cache started)\<lparr>cache_size := 4\<rparr>\<rparr>))
    = cut_ready"
  by (simp add: cut_ready_def started_def run_simps)

lemma sample_adjust:
  "adjust_cache_size sample_env 4 False started = Some (success, started\<lparr>cache := (cache started)\<lparr>cache_size := 4\<rparr>\<rparr>)"
  by (simp add: started_def run_simps Let_def)

definition cut :: open_file where
  "cut = snd (apply_resize sample_env 4 (\<lambda>f. case file_truncate 4 f of (ok, f) \<Rightarrow> (if ok then success else os_error, f)) cut_ready)"

lemma sample_apply:
 "apply_resize sample_env 4 (\<lambda>f. case file_truncate 4 f of (ok, f) \<Rightarrow> (if ok then success else os_error, f)) cut_ready = (success, cut)"
  by (simp add: cut_def apply_resize_def cut_ready_def started_def run_simps divide_with_ceiling_def Let_def set_file_size_def set_modified_def update_meta_def call_mgr_def)

lemma sample_resize: "resize sample_env 4 sample_file = Some (success, cut)"
proof -
  have e: "api_err cut_ready = success" "divide_with_ceiling 4 2 = 2" "sub64 2 1 = 1" by (simp_all add: cut_ready_def started_def sub64_def divide_with_ceiling_def)
  have s: "f_chunk_size started = 2" "length (chunks_read started) = 3"
    by (simp_all add: started_def)
  show ?thesis
    unfolding resize_def native_operation_size_def Let_def
    by (simp add: sample_start sample_adjust s e sample_cut_download sample_apply del: One_nat_def)
qed

definition grown :: open_file where
  "grown = (update_reader 3 started)\<lparr>cache := (cache started)\<lparr>cache_size := 7\<rparr>\<rparr>"

definition grown7 :: open_file where
  "grown7 = snd (apply_resize sample_env 7 (\<lambda>f. case file_truncate 7 f of (ok, f) \<Rightarrow> (if ok then success else os_error, f)) grown)"

lemma sample_grow: "resize sample_env 7 (update_reader 3 started) = Some (success, grown7)"
proof -
  have a: "adjust_cache_size sample_env 7 False (update_reader 3 started) = Some (success, grown)"
    by (simp add: grown_def started_def run_simps Let_def)
  have s: "f_chunk_size grown = 2" "length (chunks_read grown) = 3"
    "allocated (update_reader 3 started)" "\<not> stopped (update_reader 3 started)"
    "fsi (update_reader 3 started) = sample_item"
    "divide_with_ceiling 7 2 = 4" "sub64 4 1 = 3"
    by (simp_all add: started_def grown_def run_simps Let_def divide_with_ceiling_def)
  have ap: "apply_resize sample_env 7 (\<lambda>f. case file_truncate 7 f of (ok, f) \<Rightarrow> (if ok then success else os_error, f)) grown = (success, grown7)"
    by (simp add: grown7_def apply_resize_def grown_def started_def run_simps divide_with_ceiling_def Let_def set_file_size_def set_modified_def update_meta_def call_mgr_def)
  show ?thesis
    unfolding resize_def native_operation_size_def Let_def
    by (simp add: f_check_start_def s a ap del: One_nat_def)
qed

definition written :: open_file where
  "written = snd (snd (store_data sample_env 6 [9] grown7))"

lemma sample_write: "f_write sample_env 6 [9] sample_file = Some (success, 1, written)"
proof -
  have st: "store_data sample_env 6 [9] grown7 = (success, 1, written)"
    by (simp add: written_def store_data_def grown7_def apply_resize_def grown_def started_def run_simps divide_with_ceiling_def Let_def set_file_size_def set_modified_def update_meta_def call_mgr_def)
  have s: "f_chunk_size started = 2" "length (chunks_read started) = 3" "sub64 3 1 = 2" "add64 6 (Suc 0) = 7"
    "api_err (update_reader 3 started) = success" "fsi (update_reader 3 started) = sample_item"
    "(6::nat) div 2 = 3" "(7::nat) div 2 = 3" "min 2 (3::nat) = 2" "read_only sample_env = False"
    by (simp_all add: started_def run_simps Let_def)
  have d: "download_range sample_env 3 2 True (update_reader 3 started) = update_reader 3 started"
    by (simp add: download_range_def)
  show ?thesis
    unfolding f_write_def Let_def
    by (simp add: sample_start s d sample_grow st sample_errors del: One_nat_def)
qed

end
