(* ===== verification/Open_File_Ops.thy ===== *)
theory Open_File_Ops imports Open_File_Sample begin

text \<open>
  The operations of open_file on the abstract file: read, resize and write.
\<close>

section \<open>Reading\<close>

lemma slice_local:
  assumes "file_wf remote s" "allocated s" "off + n \<le> f_size s"
    "\<And>i. off \<le> i \<Longrightarrow> i < off + n \<Longrightarrow> chunks_read s ! (i div f_chunk_size s)"
  shows "slice off n (contents (nf_file s)) = slice off n (abs_file remote s)"
  using assms by (intro nth_equalityI) (auto simp: nth_slice byte_at_def file_wf_def)

lemma read_from_source_correct:
  assumes "file_wf remote s" "allocated s" "off + n \<le> f_size s" "\<not> read_only env"
    "\<And>i. off \<le> i \<Longrightarrow> i < off + n \<Longrightarrow> chunks_read s ! (i div f_chunk_size s)"
    and r: "read_from_source env n off data s = (success, bs)"
  shows "bs = slice off n (abs_file remote s)"
proof -
  have "length (contents (nf_file s)) = f_size s" using assms(1,2) by (simp add: file_wf_def)
  then have "length (slice off n (contents (nf_file s))) = n" using assms(3) by simp
  then show ?thesis
    using r assms(4) slice_local[OF assms(1-3,5)]
    by (auto simp: read_from_source_def file_read_def Let_def split: if_splits)
qed

lemma chunk_index:
  "file_wf remote s \<Longrightarrow> i < f_size s \<Longrightarrow> i div f_chunk_size s < length (chunks_read s)"
  using chunk_of_byte(1) by (auto simp: file_wf_def)

text \<open>The end of a read whose chunks are all there.\<close>

lemma read_all_chunks:
  assumes "file_wf remote s" "allocated s" "off + n \<le> f_size s" "\<not> read_only env" "all_read s"
    and "read_from_source env n off data (reset_timeout now s) = (success, bs)"
  shows "bs = slice off n (abs_file remote s)"
proof -
  let ?v = "reset_timeout now s"
  have c: "core s ?v" by simp
  have "chunks_read s ! (i div f_chunk_size s)" if "i < off + n" for i
    using assms(3,5) that chunk_index[OF assms(1), of i] by (auto simp: all_read_def list_all_length)
  then show ?thesis
    using read_from_source_correct[of remote ?v off n env data bs] assms core_wf[OF c] core_abs[OF c]
    by (simp add: reset_timeout_def)
qed

text \<open>The end of a read that downloads the chunks it needs.\<close>

lemma read_after_download:
  assumes wf: "file_wf remote s" "allocated s" "provider_ok remote env"
    and n: "off + n \<le> f_size s" "\<not> read_only env"
    and v: "v = download_range env (off div f_chunk_size s) (add64 n off div f_chunk_size s) True
      (update_reader (off div f_chunk_size s) s)" "api_err v = success"
    and "read_from_source env n off data v = (success, bs)"
  shows "bs = slice off n (abs_file remote s)"
proof -
  note d = download_range_fetched[OF wf v(1)]
  note k = fetched_keeps[OF d(1)]
  have "off + n < 2 ^ 62" using wf(1) n(1) by (simp add: file_wf_def)
  then have add: "add64 n off = off + n" by (simp add: add64_exact)
  have "chunks_read v ! (i div f_chunk_size s)" if "off \<le> i" "i < off + n" for i
    using that n(1) add by (intro d(2)[OF v(2)] chunk_index[OF wf(1)] div_le_mono) auto
  then show ?thesis
    using read_from_source_correct[of remote v off n env data bs] k assms by simp
qed

text \<open>
  C6. Reading an open file never changes it, whatever fails: the abstract file is the same
  and the state stays well formed.  If the read succeeds, the bytes are those of the abstract
  file at the offset, cut at its end, no matter which chunks had to be downloaded.
\<close>

theorem f_read_refines:
  assumes "file_wf remote s" "provider_ok remote env" "\<not> read_only env" "off + n < 2 ^ 64"
    and "f_read env n off data s = Some (res, bs, t)"
  shows "file_wf remote t \<and> abs_file remote t = abs_file remote s \<and>
    (res = success \<longrightarrow> bs = slice off n (abs_file remote s))"
proof -
  note wf = assms(1) and r = assms(5)
  let ?sz = "min n (f_size s - off)"
  have fs: "f_size s < 2 ^ 62" and nd: "\<not> directory (fsi s)" and cs: "0 < f_chunk_size s"
    using wf by (auto simp: file_wf_def)
  have sz: "calculate_read_size (f_size s) n off = ?sz"
    using assms(4) fs by (intro calculate_read_size_exact) auto
  show ?thesis
  proof (cases "stopped s")
    case True
    have "set_api_error download_stopped s = (res, t)"
      using r nd True by (auto simp: f_read_def split: prod.splits)
    then have t: "t = snd (set_api_error download_stopped s)" "res = fst (set_api_error download_stopped s)"
      by auto
    have c: "core s t" "res \<noteq> success" using t by (auto simp: hard_error_def)
    then show ?thesis using core_wf[OF c(1) wf] core_abs[OF c(1)] by simp
  next
    case ns: False
    show ?thesis
    proof (cases "?sz = 0")
      case True
      then have "res = success" "bs = []" "t = s"
        using r nd ns unfolding f_read_def Let_def sz by auto
      moreover have "slice off n (abs_file remote s) = []"
        using True by (simp flip: length_0_conv)
      ultimately show ?thesis using wf by simp
    next
      case False
      obtain res1 u where cs1: "f_check_start env s = Some (res1, u)"
        using r unfolding f_read_def Let_def sz
        by (cases "f_check_start env s") (simp_all only: nd ns False if_False option.case, auto)
      note u = check_start_ok[OF wf cs1]
      have tail: "(if res1 \<noteq> success then Some (res1, data, u)
           else if all_read u then
             let s = reset_timeout (clock env) u in
             (case read_from_source env ?sz off data s of (res, bs) \<Rightarrow> Some (res, bs, s))
           else
             let begin_chunk = off div f_chunk_size u;
                 end_chunk = add64 ?sz off div f_chunk_size u;
                 s = download_range env begin_chunk end_chunk True (update_reader begin_chunk u)
             in if api_err s \<noteq> success then Some (api_err s, data, s)
                else (case read_from_source env ?sz off data s of (res, bs) \<Rightarrow> Some (res, bs, s)))
          = Some (res, bs, t)"
        using r unfolding f_read_def Let_def sz
        by (simp only: nd ns False if_False cs1 option.case prod.case)
      show ?thesis
      proof (cases "res1 = success")
        case False
        then show ?thesis using tail u by auto
      next
        case ok: True
        have al: "allocated u" using u(7) ok by simp
        have inside: "off + ?sz \<le> f_size u" using False u(3) by (simp only:)
        have sl: "slice off ?sz (abs_file remote u) = slice off n (abs_file remote s)"
          by (simp add: slice_def min_def u(2,3))
        show ?thesis
        proof (cases "all_read u")
          case True
          let ?v = "reset_timeout (clock env) u"
          have c: "core u ?v" by simp
          have t: "t = ?v" "read_from_source env ?sz off data ?v = (res, bs)"
            using tail ok True by (auto simp: Let_def split: prod.splits)
          then show ?thesis
            using read_all_chunks[OF u(1) al inside assms(3) True, of data] core_wf[OF c u(1)]
              core_abs[OF c, of remote] sl u(2) by auto
        next
          case unread: False
          define v where "v = download_range env (off div f_chunk_size u)
            (add64 ?sz off div f_chunk_size u) True (update_reader (off div f_chunk_size u) u)"
          have t: "(if api_err v \<noteq> success then Some (api_err v, data, v)
              else (case read_from_source env ?sz off data v of (res, bs) \<Rightarrow> Some (res, bs, v)))
              = Some (res, bs, t)"
            using tail ok unread unfolding Let_def v_def by simp
          note k = fetched_keeps[OF download_range_fetched(1)[OF u(1) al assms(2) v_def]]
          show ?thesis
          proof (cases "api_err v = success")
            case False
            then show ?thesis using t k u by auto
          next
            case True
            then have "t = v" "read_from_source env ?sz off data v = (res, bs)"
              using t by (auto split: prod.splits)
            then show ?thesis
              using read_after_download[OF u(1) al assms(2) inside assms(3) v_def True] k u(2) sl
              by auto
          qed
        qed
      qed
    qed
  qed
qed


theorem f_read_refines_witness:
  "file_wf [1, 2, 3, 4, 5] sample_file \<and> (\<exists>t. f_read sample_env 9 3 [] sample_file = Some (success, [4, 5], t) \<and>
     file_wf [1, 2, 3, 4, 5] t \<and> abs_file [1, 2, 3, 4, 5] t = abs_file [1, 2, 3, 4, 5] sample_file)"
  using sample_wf sample_read f_read_refines[OF sample_wf sample_provider _ _ sample_read]
  by (simp add: sample_env_def)

lemma set_api_error_fails: "e \<noteq> success \<Longrightarrow> set_api_error e u \<noteq> (success, t)"
proof
  assume e: "e \<noteq> success" "set_api_error e u = (success, t)"
  then have "api_err (snd (set_api_error e u)) = success"
    using set_api_error_result[of e u] by simp
  then show False using e(1) unfolding api_err_set by (simp add: hard_error_def split: if_splits)
qed

section \<open>Resizing\<close>

lemma set_modified_fields [simp]:
  "f_chunk_size (set_modified s) = f_chunk_size s" "fsi (set_modified s) = fsi s"
  "chunks_read (set_modified s) = chunks_read s" "nf_file (set_modified s) = nf_file s"
  "allocated (set_modified s) = allocated s" "downloading (set_modified s) = downloading s"
  "f_last_chunk_size (set_modified s) = f_last_chunk_size s" "unlinked (set_modified s) = unlinked s"
  by (simp_all add: set_modified_def call_mgr_def Let_def)

text \<open>What a successful resize makes of the fields the abstract file is read from.\<close>

definition resized :: "nat \<Rightarrow> open_file \<Rightarrow> open_file \<Rightarrow> bool" where
  "resized n s t \<longleftrightarrow>
    f_chunk_size t = f_chunk_size s \<and> directory (fsi t) = directory (fsi s) \<and> f_size t = n \<and>
    truncate_works (nf_file t) = truncate_works (nf_file s) \<and>
    reopens (nf_file t) = reopens (nf_file s) \<and> downloading t = downloading s \<and>
    contents (nf_file t) = resize_to 0 n (contents (nf_file s)) \<and> allocated t = allocated s \<and>
    chunks_read t = resize_to True (divide_with_ceiling n (f_chunk_size s)) (chunks_read s)"

lemma resize_to_id: "length xs = n \<Longrightarrow> resize_to z n xs = xs"
  by (simp add: resize_to_def pad_to_def)

lemma resize_to_0 [simp]: "resize_to z 0 xs = []"
  by (simp add: resize_to_def)

lemma resized_wf:
  assumes wf: "file_wf remote s" and al: "allocated s" and r: "resized n s t"
    and n: "n + f_chunk_size s < 2 ^ 62"
    and last: "0 < n \<Longrightarrow> divide_with_ceiling n (f_chunk_size s) - 1 < length (chunks_read s) \<Longrightarrow>
      chunks_read s ! (divide_with_ceiling n (f_chunk_size s) - 1)"
  shows "file_wf remote t" "abs_file remote t = resize_to 0 n (abs_file remote s)"
proof -
  let ?cs = "f_chunk_size s" and ?k = "divide_with_ceiling n (f_chunk_size s)"
  note f = r[unfolded resized_def]
  have cs: "0 < ?cs" and l: "length (contents (nf_file s)) = f_size s" and z: "zero_tail remote s"
    and len: "length (chunks_read s) = divide_with_ceiling (f_size s) ?cs"
    using wf al by (auto simp: file_wf_def)
  have chunk: "chunks_read t ! c = (if c < length (chunks_read s) then chunks_read s ! c else True)"
    if "c < ?k" for c using that f by (simp add: nth_resize_to)
  have byte: "contents (nf_file t) ! i = (if i < f_size s then contents (nf_file s) ! i else 0)"
    if "i < n" for i using that f l by (simp add: nth_resize_to)
  have inside: "i div ?cs < ?k" if "i < n" for i using chunk_of_byte(1)[OF cs that] .
  have z': "zero_tail remote t"
    unfolding zero_tail_def
  proof (intro allI impI)
    fix i assume i: "i < f_size t" "length remote \<le> i \<and> \<not> chunks_read t ! (i div f_chunk_size t)"
    then have "\<not> chunks_read s ! (i div ?cs)"
      using chunk[OF inside] f by (auto split: if_splits)
    then show "contents (nf_file t) ! i = 0"
      using byte[of i] i z f by (simp add: zero_tail_def)
  qed
  have last_t: "last (chunks_read t)" if "chunks_read t \<noteq> []"
  proof -
    have "0 < ?k" using that f by (simp flip: length_greater_0_conv)
    moreover from this have "0 < n" by (cases n) (simp_all add: divide_with_ceiling_def split: if_splits)
    moreover have "last (chunks_read t) = chunks_read t ! (?k - 1)"
      using that f by (simp add: last_conv_nth)
    ultimately show ?thesis using chunk[of "?k - 1"] last by auto
  qed
  show "file_wf remote t"
    using wf al f n z' last_t unfolding file_wf_def by auto
  show "abs_file remote t = resize_to 0 n (abs_file remote s)"
  proof (rule nth_equalityI)
    show "length (abs_file remote t) = length (resize_to 0 n (abs_file remote s))" using f by simp
    fix i assume "i < length (abs_file remote t)"
    then have i: "i < n" using f by simp
    have "remote_zero": "length remote \<le> i"
      if "f_size s \<le> i" "i div ?cs < length (chunks_read s)" "\<not> chunks_read s ! (i div ?cs)"
    proof -
      have "(length (chunks_read s) - 1) * ?cs < f_size s"
      proof -
        have "f_size s = 0 \<Longrightarrow> length (chunks_read s) = 0" using len by (simp add: divide_with_ceiling_def)
        then have "0 < f_size s" using that(2) by (cases "f_size s = 0") simp_all
        then show ?thesis
          using chunk_span(1,3)[OF cs, of "f_size s" "length (chunks_read s) - 1"] len that(2)
          by (simp add: min_def split: if_splits)
      qed
      then have "length (chunks_read s) - 1 \<le> i div ?cs"
        using that(1) cs by (simp add: less_eq_div_iff_mult_less_eq)
      then have "i div ?cs = length (chunks_read s) - 1" using that(2) by simp
      then have "chunks_read s \<noteq> [] \<and> \<not> last (chunks_read s)"
        using that(2,3) by (cases "chunks_read s = []") (simp_all add: last_conv_nth)
      then show ?thesis using wf that(1) by (simp add: file_wf_def)
    qed
    moreover have "i < f_size s \<Longrightarrow> i div ?cs < length (chunks_read s)"
      using chunk_index[OF wf] by simp
    moreover have "byte_at remote t i = (if chunks_read t ! (i div ?cs) then contents (nf_file t) ! i
        else if i < length remote then remote ! i else 0)"
      using f by (simp add: byte_at_def)
    ultimately have "byte_at remote t i = (if i < f_size s then byte_at remote s i else 0)"
      using chunk[OF inside[OF i]] byte[OF i] by (auto simp: byte_at_def)
    then show "abs_file remote t ! i = resize_to 0 n (abs_file remote s) ! i"
      using i f by (simp add: nth_resize_to)
  qed
qed

text \<open>The callback of \<open>resize\<close>.\<close>

abbreviation truncate_to :: "nat \<Rightarrow> local_file \<Rightarrow> api_error \<times> local_file" where
  "truncate_to n \<equiv> \<lambda>f. case file_truncate n f of (ok, f) \<Rightarrow> (if ok then success else os_error, f)"

lemma apply_resize_ok:
  assumes r: "apply_resize env n (truncate_to n) s = (success, t)"
    and tw: "truncate_works (nf_file s)" "reopens (nf_file s)" and n: "n \<noteq> f_size s"
    and cs: "0 < f_chunk_size s" "n + f_chunk_size s < 2 ^ 62"
  shows "resized n s t"
proof -
  let ?k = "divide_with_ceiling n (f_chunk_size s)"
  define s1 where "s1 = s\<lparr>nf_file := (nf_file s)\<lparr>contents := resize_to 0 n (contents (nf_file s))\<rparr>\<rparr>"
  define last where "last = (if n = 0 then 0 else sub64 ?k 1)"
  define s2 where "s2 = (if n = 0 \<or> length (chunks_read s1) \<noteq> last + 1 then
      s1\<lparr>chunks_read := (if n = 0 then [] else resize_to True (last + 1) (chunks_read s1)),
         f_last_chunk_size := last_chunk_size_of n (f_chunk_size s1)\<rparr> else s1)"
  define s3 where "s3 = set_file_size n (set_modified s2)"
  have "last + 1 = ?k" if "0 < n"
    using total_chunks_bounds[OF cs(1) that] cs(2) that by (simp add: last_def sub64_exact)
  moreover have "n = 0 \<Longrightarrow> ?k = 0" by (simp add: divide_with_ceiling_def)
  ultimately have "resized n s s3"
    by (cases "n = 0")
      (auto simp: resized_def s3_def s2_def s1_def set_file_size_def resize_to_id)
  moreover have "resized n s s3 \<Longrightarrow> f_chunk_size t = f_chunk_size s3 \<Longrightarrow> fsi t = fsi s3 \<Longrightarrow>
      nf_file t = nf_file s3 \<Longrightarrow> downloading t = downloading s3 \<Longrightarrow> allocated t = allocated s3 \<Longrightarrow>
      chunks_read t = chunks_read s3 \<Longrightarrow> resized n s t"
    by (simp add: resized_def)
  moreover have "f_chunk_size t = f_chunk_size s3 \<and> fsi t = fsi s3 \<and> nf_file t = nf_file s3 \<and>
      downloading t = downloading s3 \<and> allocated t = allocated s3 \<and> chunks_read t = chunks_read s3"
  proof -
    let ?meta = "[(''changed'', time_text env), (''modified'', time_text env), (''size'', decimal n),
      (''written'', time_text env)]"
    have cb: "truncate_to n (nf_file s) = (success, (nf_file s)\<lparr>contents := resize_to 0 n (contents (nf_file s))\<rparr>)"
      using tw by (simp add: file_truncate_def)
    note bad = set_api_error_fails
    have fs1: "file_size_of (nf_file s1) = (if size_ok (nf_file s) then Some n else None)"
      by (simp add: file_size_of_def s1_def)
    define R where "R = (if unlinked s3 then (success, update_unlinked_meta ?meta s3)
           else case update_meta env ?meta s3 of (res, s) \<Rightarrow>
                  if res = success then (res, s) else set_api_error res s)"
    have "apply_resize env n (truncate_to n) s = (case file_size_of (nf_file s1) of
         None \<Rightarrow> set_api_error error s1
       | Some sz \<Rightarrow> if sz \<noteq> n then set_api_error error s1
           else if f_size s = n then (success, s2) else R)"
      unfolding apply_resize_def Let_def cb R_def s3_def s2_def s1_def last_def
      by (simp only: prod.case not_False_eq_True if_False simp_thms)
    then have "R = (success, t)"
      using r bad[of error s1 t] n by (auto simp: fs1 split: if_splits)
    then show ?thesis
      using bad by (cases "unlinked s3"; cases "set_item_meta env (api_path (fsi s3)) ?meta = success")
        (auto simp: R_def update_meta_def update_unlinked_meta_def)
  qed
  ultimately show ?thesis by blast
qed

lemma native_operation_size_success:
  assumes "native_operation_size env n cb s = Some (success, t)"
  obtains u v w where "\<not> directory (fsi s)" "\<not> stopped s" "f_check_start env s = Some (success, u)"
    "adjust_cache_size env n False u = Some (success, v)"
    "w = (let last = sub64 (divide_with_ceiling n (f_chunk_size v)) 1 in
       if n \<noteq> 0 \<and> last < length (chunks_read v)
       then f_download_chunk env last False True (update_reader 0 v) else v)"
    "n \<noteq> 0 \<and> sub64 (divide_with_ceiling n (f_chunk_size v)) 1 < length (chunks_read v) \<Longrightarrow> api_err w = success"
    "apply_resize env n cb w = (success, t)"
proof -
  define L where "L = (\<lambda>v :: open_file. if n = 0 then 0 else sub64 (divide_with_ceiling n (f_chunk_size v)) 1)"
  define W where "W = (\<lambda>v. f_download_chunk env (L v) False True (update_reader 0 v))"
  define G where "G = (\<lambda>v. if n \<noteq> 0 \<and> L v < length (chunks_read v) then
      (if api_err (W v) \<noteq> success then Some (api_err (W v), W v) else Some (apply_resize env n cb (W v)))
    else Some (apply_resize env n cb v))"
  define H where "H = (\<lambda>u. case adjust_cache_size env n False u of None \<Rightarrow> None
    | Some (res, v) \<Rightarrow> if res \<noteq> success then Some (res, v) else G v)"
  have "native_operation_size env n cb s = (if directory (fsi s) then Some (set_api_error invalid_operation s)
     else if stopped s then Some (set_api_error download_stopped s)
     else case f_check_start env s of None \<Rightarrow> None
     | Some (res, u) \<Rightarrow> if res \<noteq> success then Some (res, u) else H u)"
    unfolding native_operation_size_def H_def G_def W_def L_def Let_def
    by (rule refl)
  then have e: "(if directory (fsi s) then Some (set_api_error invalid_operation s)
     else if stopped s then Some (set_api_error download_stopped s)
     else case f_check_start env s of None \<Rightarrow> None
     | Some (res, u) \<Rightarrow> if res \<noteq> success then Some (res, u) else H u) = Some (success, t)"
    using assms by simp
  then obtain u where u: "\<not> directory (fsi s)" "\<not> stopped s" "f_check_start env s = Some (success, u)"
      "H u = Some (success, t)"
    using set_api_error_fails[of invalid_operation s t] set_api_error_fails[of download_stopped s t]
    by (auto split: if_splits option.splits)
  then obtain v where v: "adjust_cache_size env n False u = Some (success, v)" "G v = Some (success, t)"
    by (auto simp: H_def split: if_splits option.splits)
  define w where "w = (if n \<noteq> 0 \<and> L v < length (chunks_read v) then W v else v)"
  have "n \<noteq> 0 \<and> L v < length (chunks_read v) \<Longrightarrow> api_err w = success" "apply_resize env n cb w = (success, t)"
    using v(2) by (auto simp: G_def w_def split: if_splits)
  then show ?thesis
    by (intro that[OF u(1-3) v(1), of w]) (cases "n = 0"; simp add: w_def W_def L_def Let_def)+
qed

lemma last_chunk_downloaded:
  assumes "file_wf remote v" "allocated v" "provider_ok remote env"
    and w: "w = (let last = sub64 (divide_with_ceiling n (f_chunk_size v)) 1 in
      if n \<noteq> 0 \<and> last < length (chunks_read v)
      then f_download_chunk env last False True (update_reader 0 v) else v)"
  shows "fetched remote v w"
    and "n \<noteq> 0 \<Longrightarrow> sub64 (divide_with_ceiling n (f_chunk_size v)) 1 < length (chunks_read v) \<Longrightarrow>
      api_err w = success \<Longrightarrow> chunks_read w ! sub64 (divide_with_ceiling n (f_chunk_size v)) 1"
proof -
  have c: "core v (update_reader 0 v)" by simp
  have u: "file_wf remote (update_reader 0 v)" "allocated (update_reader 0 v)"
    "chunks_read (update_reader 0 v) = chunks_read v"
    using core_wf[OF c assms(1)] assms(2) c by (auto simp: core_def frame_def)
  let ?last = "sub64 (divide_with_ceiling n (f_chunk_size v)) 1"
  note d = download_chunk_fetched[OF u(1,2) assms(3), of ?last False True]
  have "core v v" by (simp add: core_def)
  then show "fetched remote v w"
    using fetched_trans[OF fetched_core[OF assms(1) c]] d fetched_core[OF assms(1)]
    unfolding w Let_def by presburger
  show "chunks_read w ! ?last"
    if "n \<noteq> 0" "?last < length (chunks_read v)" "api_err w = success"
    using d that u(3) unfolding w Let_def by simp
qed

lemma resize_ok:
  assumes wf: "file_wf remote s" and p: "provider_ok remote env" and n: "n + f_chunk_size s < 2 ^ 62"
    and r: "resize env n s = Some (success, t)"
  shows "file_wf remote t" "abs_file remote t = resize_to 0 n (abs_file remote s)"
    and "f_size t = n" "f_chunk_size t = f_chunk_size s" "allocated s \<Longrightarrow> allocated t"
    and "allocated s \<Longrightarrow> c < length (chunks_read t) \<Longrightarrow>
      c < length (chunks_read s) \<longrightarrow> chunks_read s ! c \<Longrightarrow> chunks_read t ! c"
proof -
  have "file_wf remote t \<and> abs_file remote t = resize_to 0 n (abs_file remote s) \<and>
      f_size t = n \<and> f_chunk_size t = f_chunk_size s \<and> (allocated s \<longrightarrow> allocated t) \<and>
      (\<forall>c. allocated s \<longrightarrow> c < length (chunks_read t) \<longrightarrow>
        (c < length (chunks_read s) \<longrightarrow> chunks_read s ! c) \<longrightarrow> chunks_read t ! c)"
  proof (cases "n = f_size s")
    case True
    then have "t = s" using r wf by (simp add: resize_def file_wf_def)
    then show ?thesis using True wf by (auto simp: resize_to_id)
  next
    case ne: False
    have native: "native_operation_size env n (truncate_to n) s = Some (success, t)"
      using r wf ne by (simp add: resize_def file_wf_def)
    from native show ?thesis
    proof (cases rule: native_operation_size_success)
      case (1 u v w)
      note ku = check_start_ok[OF wf 1(3)]
      note cv = adjust_cache_size_core(1)[OF 1(4)]
      note kv = same_content_keeps[OF cv] same_content_wf[OF cv ku(1)]
      have k: "allocated u" "allocated v" "f_chunk_size v = f_chunk_size s" "f_size v = f_size s"
        using ku kv by auto
      note dl = last_chunk_downloaded[OF kv(12) k(2) p 1(5)]
      note kw = fetched_keeps[OF dl(1)]
      have rs: "resized n w t"
        using kw k ne n by (intro apply_resize_ok[OF 1(7)]) (auto simp: file_wf_def)
      have chunk: "chunks_read w ! (divide_with_ceiling n (f_chunk_size w) - 1)"
        if "0 < n" "divide_with_ceiling n (f_chunk_size w) - 1 < length (chunks_read w)"
      proof -
        have "sub64 (divide_with_ceiling n (f_chunk_size v)) 1 = divide_with_ceiling n (f_chunk_size v) - 1"
          using total_chunks_bounds[of "f_chunk_size v" n] wf k n that(1) by (simp add: sub64_exact file_wf_def)
        then show ?thesis using dl(2) 1(6) that kw(4,8) by simp
      qed
      have n': "n + f_chunk_size w < 2 ^ 62" using n kw k by simp
      note wf_t = resized_wf[OF kw(1) _ rs n' chunk]
      have al: "allocated w" using kw k by simp
      note r = rs[unfolded resized_def]
      have "chunks_read t ! c"
        if "allocated s" "c < length (chunks_read t)" "c < length (chunks_read s) \<longrightarrow> chunks_read s ! c" for c
      proof -
        have "u = s" using 1(3) that(1) by (simp add: f_check_start_def)
        then have "c < length (chunks_read w) \<longrightarrow> chunks_read w ! c"
          using that(3) dl(1) kv(6) by (simp add: fetched_def)
        then show ?thesis using r that(2) by (simp add: nth_resize_to)
      qed
      then show ?thesis using wf_t[OF al] kw kv ku k r al by simp
    qed
  qed
  then show "file_wf remote t" "abs_file remote t = resize_to 0 n (abs_file remote s)"
    "f_size t = n" "f_chunk_size t = f_chunk_size s" "allocated s \<Longrightarrow> allocated t"
    "allocated s \<Longrightarrow> c < length (chunks_read t) \<Longrightarrow>
      c < length (chunks_read s) \<longrightarrow> chunks_read s ! c \<Longrightarrow> chunks_read t ! c"
    by blast+
qed

text \<open>
  C25. A resize that succeeds cuts the abstract file or extends it by zeros, and keeps the state
  well formed: the chunk that becomes the last one was downloaded first, a chunk that is new
  counts as read, and a chunk beyond the new end is forgotten.
\<close>

theorem resize_refines:
  assumes "file_wf remote s" "provider_ok remote env" "n + f_chunk_size s < 2 ^ 62"
    and "resize env n s = Some (success, t)"
  shows "file_wf remote t \<and> f_size t = n \<and> abs_file remote t = resize_to 0 n (abs_file remote s)"
  using resize_ok(1-3)[OF assms] by blast

theorem resize_refines_witness:
  "\<exists>t. resize sample_env 4 sample_file = Some (success, t) \<and> abs_file [1, 2, 3, 4, 5] t = [1, 2, 3, 4]"
proof -
  have e: "4 + f_chunk_size sample_file < 2 ^ 62" by simp
  show ?thesis
    using resize_refines[OF sample_wf sample_provider e sample_resize] sample_resize
    by (simp add: sample_abs resize_to_def pad_to_def)
qed

section \<open>Writing\<close>

lemma store_data_ok:
  assumes wf: "file_wf remote s" and al: "allocated s" and inside: "off + length data \<le> f_size s"
    and data: "data \<noteq> []"
    and ready: "\<And>i. off \<le> i \<Longrightarrow> i < off + length data \<Longrightarrow> chunks_read s ! (i div f_chunk_size s)"
    and r: "store_data env off data s = (success, k, t)"
  shows "file_wf remote t" "abs_file remote t = splice_at 0 off data (abs_file remote s)" "k = length data"
proof -
  obtain ok f where w: "file_write off data (nf_file s) = (ok, f)" by (cases "file_write off data (nf_file s)")
  define s1 where "s1 = reset_timeout (clock env) (s\<lparr>nf_file := f\<rparr>)"
  have ok: "ok"
    using r w set_api_error_fails[of os_error "s\<lparr>nf_file := f\<rparr>"]
    by (auto simp: store_data_def Let_def split: if_splits prod.splits)
  then have f: "contents f = splice_at 0 off data (contents (nf_file s))"
    "truncate_works f = truncate_works (nf_file s)" "reopens f = reopens (nf_file s)"
    using w data by (auto simp: file_write_def split: if_splits option.splits)
  let ?meta = "[(''changed'', time_text env), (''modified'', time_text env), (''written'', time_text env)]"
  have e: "(if unlinked s1 then (success, length data, set_modified (update_unlinked_meta ?meta s1))
      else case update_meta env ?meta s1 of (res, s) \<Rightarrow>
        if res \<noteq> success then (case set_api_error res s of (res, s) \<Rightarrow> (res, length data, s))
        else (success, length data, set_modified s)) = (success, k, t)"
    using r w ok unfolding store_data_def s1_def Let_def by simp
  have t: "t = set_modified (if unlinked s1 then update_unlinked_meta ?meta s1 else snd (update_meta env ?meta s1))"
    and k: "k = length data"
    using e set_api_error_fails
    by (auto simp: update_meta_def split: if_splits prod.splits)
  show "k = length data" by (rule k)
  have same: "f_chunk_size t = f_chunk_size s" "fsi t = fsi s" "chunks_read t = chunks_read s"
    "allocated t" "downloading t = downloading s" "f_last_chunk_size t = f_last_chunk_size s" "nf_file t = f"
    using al by (auto simp: t s1_def update_unlinked_meta_def update_meta_def reset_timeout_def)
  have l: "length (contents (nf_file s)) = f_size s" and z: "zero_tail remote s"
    using wf al by (auto simp: file_wf_def)
  have byte: "contents f ! i = (if off \<le> i \<and> i < off + length data then data ! (i - off)
      else contents (nf_file s) ! i)" if "i < f_size s" for i
    using that inside l by (auto simp: f nth_splice_at)
  have "zero_tail remote t"
    unfolding zero_tail_def
  proof (intro allI impI)
    fix i assume i: "i < f_size t" "length remote \<le> i \<and> \<not> chunks_read t ! (i div f_chunk_size t)"
    then have "\<not> (off \<le> i \<and> i < off + length data)" using ready[of i] same by auto
    then have "contents f ! i = contents (nf_file s) ! i" using byte[of i] i(1) same(2) by auto
    then show "contents (nf_file t) ! i = 0" using i z same by (simp add: zero_tail_def)
  qed
  then show "file_wf remote t"
    using wf al inside l f same unfolding file_wf_def f_size_def by simp
  show "abs_file remote t = splice_at 0 off data (abs_file remote s)"
    using byte ready inside same
    by (intro nth_equalityI) (auto simp: nth_splice_at byte_at_def)
qed

lemma splice_resize:
  "length xs \<le> off + length ys \<Longrightarrow>
    splice_at z off ys (resize_to z (off + length ys) xs) = splice_at z off ys xs"
  by (intro nth_equalityI) (auto simp: nth_splice_at nth_resize_to)

lemma chunk_count: "file_wf remote s \<Longrightarrow> length (chunks_read s) \<le> f_size s"
  using total_chunks_bounds(2)[of "f_chunk_size s" "f_size s"]
  by (cases "f_size s = 0") (auto simp: file_wf_def divide_with_ceiling_def)

lemma f_write_success:
  assumes "f_write env off data s = Some (success, k, t)" "data \<noteq> []"
  obtains u v w where "f_check_start env s = Some (success, u)"
    "v = download_range env (off div f_chunk_size u)
      (min (sub64 (length (chunks_read u)) 1) (add64 off (length data) div f_chunk_size u)) True
      (update_reader (off div f_chunk_size u) u)"
    "api_err v = success"
    "(if add64 off (length data) > f_size v then resize env (add64 off (length data)) v = Some (success, w) else w = v)"
    "store_data env off data w = (success, k, t)"
proof -
  define V where "V = (\<lambda>u. download_range env (off div f_chunk_size u)
      (min (sub64 (length (chunks_read u)) 1) (add64 off (length data) div f_chunk_size u)) True
      (update_reader (off div f_chunk_size u) u))"
  define G where "G = (\<lambda>v. if api_err v \<noteq> success then Some (api_err v, 0, v)
      else if add64 off (length data) > f_size v then
        (case resize env (add64 off (length data)) v of None \<Rightarrow> None
         | Some (res, w) \<Rightarrow> if res \<noteq> success then Some (res, 0, w) else Some (store_data env off data w))
      else Some (store_data env off data v))"
  have "f_write env off data s = (if directory (fsi s) \<or> read_only env then
       (case set_api_error invalid_operation s of (res, s) \<Rightarrow> Some (res, 0, s))
     else if data = [] then Some (success, 0, s)
     else if stopped s then
       (case set_api_error download_stopped s of (res, s) \<Rightarrow> Some (res, 0, s))
     else case f_check_start env s of None \<Rightarrow> None
     | Some (res, u) \<Rightarrow> if res \<noteq> success then Some (res, 0, u) else G (V u))"
    unfolding f_write_def G_def V_def Let_def by (rule refl)
  then obtain u where u: "f_check_start env s = Some (success, u)" "G (V u) = Some (success, k, t)"
    using assms set_api_error_fails[of invalid_operation s] set_api_error_fails[of download_stopped s]
    by (auto split: if_splits option.splits prod.splits)
  then obtain w where w: "api_err (V u) = success"
    "(if add64 off (length data) > f_size (V u) then resize env (add64 off (length data)) (V u) = Some (success, w) else w = V u)"
    "store_data env off data w = (success, k, t)"
    by (auto simp: G_def split: if_splits option.splits prod.splits)
  have "V u = download_range env (off div f_chunk_size u)
      (min (sub64 (length (chunks_read u)) 1) (add64 off (length data) div f_chunk_size u)) True
      (update_reader (off div f_chunk_size u) u)" by (simp add: V_def)
  from that[OF u(1) this w] show ?thesis .
qed

text \<open>
  C5. A write that succeeds reports all bytes written and has put them into the abstract file at
  the offset, extending it with zeros up to the offset if that lies past the end; whatever was
  not downloaded stays what the provider holds.
\<close>

theorem f_write_refines:
  assumes "file_wf remote s" "provider_ok remote env" "off + length data + f_chunk_size s < 2 ^ 62"
    and "f_write env off data s = Some (success, k, t)"
  shows "file_wf remote t \<and> k = length data \<and>
    abs_file remote t = (if data = [] then abs_file remote s else splice_at 0 off data (abs_file remote s))"
proof (cases "data = []")
  case True
  have "\<not> read_only env" "\<not> directory (fsi s)"
    using assms(1,4) set_api_error_fails[of invalid_operation s]
    by (auto simp: file_wf_def f_write_def split: if_splits prod.splits)
  then show ?thesis using assms(1,4) True by (simp add: f_write_def)
next
  case ne: False
  with assms(4) show ?thesis
  proof (cases rule: f_write_success)
    case (1 u v w)
    note ku = check_start_ok[OF assms(1) 1(1)]
    have al: "allocated u" using ku(7) by simp
    note d = download_range_fetched[OF ku(1) al assms(2) 1(2)]
    note kv = fetched_keeps[OF d(1)]
    let ?e = "off + length data"
    have add: "add64 off (length data) = ?e" using assms(3) by (simp add: add64_exact)
    have rv: "chunks_read v ! c" if "off div f_chunk_size u \<le> c" "c \<le> ?e div f_chunk_size u"
      "c < length (chunks_read v)" for c
    proof -
      have "sub64 (length (chunks_read u)) 1 = length (chunks_read u) - 1"
        using that(3) kv(8) chunk_count[OF ku(1)] ku(1) by (intro sub64_exact) (auto simp: file_wf_def)
      then show ?thesis using d(2)[OF 1(3), of c] that kv(8) add by simp
    qed
    have w: "file_wf remote w \<and> allocated w \<and> f_chunk_size w = f_chunk_size u \<and> ?e \<le> f_size w \<and>
        splice_at 0 off data (abs_file remote w) = splice_at 0 off data (abs_file remote s) \<and>
        (\<forall>c. c < length (chunks_read w) \<longrightarrow> (c < length (chunks_read v) \<longrightarrow> chunks_read v ! c) \<longrightarrow> chunks_read w ! c)"
    proof (cases "?e > f_size v")
      case True
      then have r: "resize env ?e v = Some (success, w)" using 1(4) add by simp
      have "?e + f_chunk_size v < 2 ^ 62" using assms(3) kv ku by simp
      note w = resize_ok[OF kv(1) assms(2) this r]
      have sp: "splice_at 0 off data (resize_to 0 ?e (abs_file remote s)) = splice_at 0 off data (abs_file remote s)"
        using True kv(3) ku(3) by (intro splice_resize) simp
      show ?thesis
        using w kv ku al sp by auto
    next
      case False
      then show ?thesis
        using 1(4) add kv ku al by auto
    qed
    have "chunks_read w ! (i div f_chunk_size w)" if "off \<le> i" "i < ?e" for i
    proof -
      have "off div f_chunk_size u \<le> i div f_chunk_size w" "i div f_chunk_size w \<le> ?e div f_chunk_size u"
        using that w by (auto intro: div_le_mono)
      moreover have "i div f_chunk_size w < length (chunks_read w)"
        using that w by (intro chunk_index) auto
      ultimately show ?thesis using rv w by blast
    qed
    then show ?thesis using store_data_ok[of remote w, OF _ _ _ ne _ 1(5)] w ne by simp
  qed
qed


theorem f_write_refines_witness:
  "\<exists>t. f_write sample_env 6 [9] sample_file = Some (success, 1, t) \<and>
     abs_file [1, 2, 3, 4, 5] t = [1, 2, 3, 4, 5, 0, 9]"
proof -
  have e: "6 + length [9 :: byte] + f_chunk_size sample_file < 2 ^ 62" by simp
  show ?thesis
    using f_write_refines[OF sample_wf sample_provider e sample_write] sample_write
    by (simp add: sample_abs splice_at_def pad_to_def)
qed

end
