(* ===== verification/Open_File_Faults.thy ===== *)
theory Open_File_Faults imports Open_File_Ops begin

text \<open>
  When open_file succeeds, and what it does when something fails: reads of a file whose
  environment works, a truncate that fails while the file is allocated, and what closing does
  with a file that is modified, incomplete or in error.
\<close>

section \<open>Reads that must succeed\<close>

definition file_works :: "file_env \<Rightarrow> open_file \<Rightarrow> bool" where
  "file_works env s \<longleftrightarrow> opened (nf_file s) \<and> reads_ok (nf_file s) \<and> writes_fail (nf_file s) = None \<and>
    api_err s = success \<and> \<not> stopped s \<and> (\<forall>sz off. fst (read_file_bytes env sz off) = success)"

lemma file_works_core: "core s t \<Longrightarrow> api_err t = api_err s \<Longrightarrow> file_works env s \<Longrightarrow> file_works env t"
  using frameD[of s t] by (simp add: core_def file_works_def)

lemma download_chunk_works:
  assumes "file_works env s" "downloading s = {}"
  shows "api_err (f_download_chunk env c skip rst s) = success"
proof -
  define s1 where "s1 = touch env rst s"
  have s1: "api_err s1 = success" "downloading s1 = {}" "nf_file s1 = nf_file s"
    "chunks_read s1 = chunks_read s"
    using assms by (simp_all add: s1_def touch_def reset_timeout_def file_works_def)
  have fetch: "api_err (fetch_chunk env c sz off rst t) = success"
    if "nf_file t = nf_file s" "api_err t = success" for sz off t
  proof -
    obtain d where "read_file_bytes env sz off = (success, d)"
      using assms(1) by (cases "read_file_bytes env sz off") (metis file_works_def fst_conv)
    then show ?thesis
      using that assms(1) by (simp add: fetch_chunk_def file_works_def file_write_def touch_def
          reset_timeout_def Let_def)
  qed
  show ?thesis
    unfolding f_download_chunk_def s1_def[symmetric] Let_def
    using s1 by (simp add: s1 fetch touch_def reset_timeout_def raise_item_event_def)
qed

lemma download_each_works:
  assumes "file_wf remote s" "allocated s" "provider_ok remote env" "file_works env s"
  shows "api_err (download_each env cl rst s) = success"
  using assms(1,2,4)
proof (induction cl arbitrary: s)
  case Nil
  then show ?case by (simp add: file_works_def)
next
  case (Cons c cl)
  let ?u = "f_download_chunk env c False rst s"
  have d: "fetched remote s ?u" using download_chunk_fetched[OF Cons.prems(1,2) assms(3)] by blast
  have e: "api_err ?u = success"
    using download_chunk_works[OF Cons.prems(3)] Cons.prems(1) by (simp add: file_wf_def)
  have "file_works env ?u"
    using Cons.prems(3) e d frameD[of s ?u] by (simp add: file_works_def fetched_def)
  then show ?case
    using Cons.IH[of ?u] fetched_keeps[OF d] Cons.prems e by (simp add: file_works_def)
qed

text \<open>
  C33. If the local file and the provider work, a read of an allocated file returns, with
  success and the bytes of the abstract file.
\<close>

theorem f_read_returns:
  assumes "file_wf remote s" "provider_ok remote env" "\<not> read_only env" "off + n < 2 ^ 64"
    and "allocated s" "file_works env s"
  shows "\<exists>t. f_read env n off data s = Some (success, slice off n (abs_file remote s), t)"
proof -
  let ?sz = "calculate_read_size (f_size s) n off"
  have c: "f_check_start env s = Some (success, s)" using assms(5) by (simp add: f_check_start_def)
  have src: "fst (read_from_source env sz off data t) = success" if "nf_file t = nf_file u" "file_works env u" for sz t u
    using that assms(3) by (simp add: read_from_source_def file_works_def file_read_def Let_def)
  have "\<exists>bs t. f_read env n off data s = Some (success, bs, t)"
  proof (cases "?sz = 0 \<or> all_read s")
    case True
    have "fst (read_from_source env ?sz off data (reset_timeout (clock env) s)) = success"
      by (rule src[OF _ assms(6)]) (simp add: reset_timeout_def)
    then show ?thesis
      using True assms(1,6) unfolding f_read_def Let_def c
      by (auto simp: file_wf_def file_works_def split: prod.split)
  next
    case False
    define b e where "b = off div f_chunk_size s" and "e = add64 ?sz off div f_chunk_size s"
    let ?u = "update_reader b s"
    define v where "v = download_range env b e True ?u"
    have k: "core s ?u" by simp
    have u: "file_wf remote ?u" "allocated ?u" "file_works env ?u"
      using core_wf[OF k assms(1)] file_works_core[OF k _ assms(6)] assms(5) k
      by (simp_all add: core_def frame_def)
    have ok: "api_err v = success"
      using download_each_works[OF u(1,2) assms(2) u(3)] by (simp add: v_def download_range_def)
    note d = download_range_fetched(1)[OF assms(1,5,2) v_def]
    have w: "file_works env v"
      using assms(6) ok frameD[of s v] d by (simp add: file_works_def fetched_def)
    have "fst (read_from_source env ?sz off data v) = success" using src[OF refl w] .
    then show ?thesis
      using False ok assms(1,6) unfolding f_read_def Let_def c b_def[symmetric] e_def[symmetric] v_def[symmetric]
      by (auto simp: file_wf_def file_works_def c v_def b_def e_def split: prod.split)
  qed
  then show ?thesis using f_read_refines[OF assms(1-4)] by blast
qed

theorem f_read_returns_witness:
  "\<exists>t. f_read sample_env 9 3 [] started = Some (success, [4, 5], t)"
proof -
  have wf: "file_wf [1, 2, 3, 4, 5] started" "allocated started"
    using check_start_ok[OF sample_wf sample_start] by auto
  have w: "file_works sample_env started"
    by (simp add: file_works_def started_def sample_env_def)
  have a: "abs_file [1, 2, 3, 4, 5] started = [1, 2, 3, 4, 5]"
    using check_start_ok(2)[OF sample_wf sample_start] sample_abs by simp
  show ?thesis
    using f_read_returns[OF wf(1) sample_provider _ _ wf(2) w, of 3 9 "[]"] a
    by (simp add: sample_env_def slice_def)
qed

section \<open>A truncate that fails\<close>

text \<open>
  If the local file cannot be brought to its size, the start of a read or write still reports
  success, leaves the file unallocated and has counted the missing bytes in the cache; the state
  is again one in which the same happens, so every call counts them once more.
\<close>

theorem failed_truncate_is_success:
  assumes "\<not> allocated s" "size_ok (nf_file s)" "\<not> truncate_works (nf_file s)"
    and "reopens (nf_file s)" "api_err s = success"
    and "length (contents (nf_file s)) < f_size s" "f_size s < 2 ^ 64" "has_cfg (cache s)"
    and "cache_size (cache s) + f_size s \<le> max_cache_size (cache s)" "max_cache_size (cache s) < 2 ^ 64"
    and "\<not> stop_requested (cache s)"
  shows "\<exists>t. f_check_start env s = Some (success, t) \<and> \<not> allocated t \<and> nf_file t = nf_file s \<and>
    f_size t = f_size s \<and> api_err t = success \<and>
    cache_size (cache t) = cache_size (cache s) + (f_size s - length (contents (nf_file s)))"
proof -
  let ?l = "length (contents (nf_file s))"
  let ?n = "f_size s - ?l"
  let ?c = "(cache s)\<lparr>cache_size := cache_size (cache s) + ?n\<rparr>"
  have n: "sub64 (f_size s) ?l = ?n" "add64 (cache_size (cache s)) ?n = cache_size (cache s) + ?n"
    using assms by (auto simp: sub64_exact add64_exact)
  have "expand (wakes env) ?n (cache s) = Some (success, ?c)"
    using assms n unfolding expand_def
    by (subst expand_wait.simps) (auto simp: over_limit_def)
  then have a: "adjust_cache_size env ?l True s = Some (success, s\<lparr>cache := ?c\<rparr>)"
    using assms(6) n by (simp add: adjust_cache_size_def Let_def)
  have "f_check_start env s = Some (success, snd (set_api_error success (s\<lparr>cache := ?c\<rparr>)))"
    using assms a by (simp add: f_check_start_def file_size_of_def file_truncate_def set_api_error_def)
  then show ?thesis
    using assms(1,5) by (simp add: set_api_error_def)
qed

theorem failed_truncate_is_success_witness:
  "\<exists>t. f_check_start sample_env (sample_file\<lparr>nf_file := (nf_file sample_file)\<lparr>truncate_works := False\<rparr>\<rparr>)
      = Some (success, t) \<and> \<not> allocated t \<and> cache_size (cache t) = 5"
  using failed_truncate_is_success[of "sample_file\<lparr>nf_file := (nf_file sample_file)\<lparr>truncate_works := False\<rparr>\<rparr>"
      sample_env]
  by (force simp: cache_init_def)

section \<open>Closing\<close>




end
