(* ===== verification/Open_Table.thy ===== *)
theory Open_Table imports Api_Errors "HOL-Library.AList" begin

text \<open>
  The table of open files of the remote drive server
  (drives/remote/remote_open_file_table.cpp): which file every handle belongs to, which client
  opened a file, the open directories of every client, and the handles that are closed when a
  client goes away.  The table of the Windows compatible handles and the one of the native
  handles have the same operations, so they are one polymorphic type.  \<open>unordered_map\<close> is an
  association list; every theorem is independent of its order.  A lookup by \<open>at\<close> that finds
  nothing is the exception \<open>out_of_range\<close>.
\<close>

section \<open>One table\<close>

record 'h open_info =
  info_client :: string
  info_handles :: "'h list"
  info_path :: string

record 'h table =
  file_lookup :: "(string \<times> 'h open_info) list"
  handle_lookup :: "('h \<times> string) list"

definition empty_table :: "'h table" where
  "empty_table = \<lparr>file_lookup = [], handle_lookup = []\<rparr>"

definition has_key :: "('k \<times> 'v) list \<Rightarrow> 'k \<Rightarrow> bool" where
  "has_key m k \<longleftrightarrow> map_of m k \<noteq> None"

definition set_info :: "'h \<Rightarrow> 'h open_info \<Rightarrow> 'h table \<Rightarrow> 'h table" where
  "set_info h oi t =
    (if has_key (handle_lookup t) h then t
     else
       let p = info_path oi;
           files = (if has_key (file_lookup t) p then file_lookup t
                    else AList.update p oi (file_lookup t))
       in \<lparr>file_lookup = AList.map_entry p (\<lambda>i. i\<lparr>info_handles := info_handles i @ [h]\<rparr>) files,
           handle_lookup = AList.update h p (handle_lookup t)\<rparr>)"

definition remove_element :: "'a \<Rightarrow> 'a list \<Rightarrow> 'a list" where
  "remove_element x xs = filter (\<lambda>y. y \<noteq> x) xs"

definition remove_info :: "'h \<Rightarrow> 'h table \<Rightarrow> exn + 'h table" where
  "remove_info h t =
    (case map_of (handle_lookup t) h of
       None \<Rightarrow> Inr t
     | Some p \<Rightarrow>
         (case map_of (file_lookup t) p of
            None \<Rightarrow> Inl out_of_range
          | Some i \<Rightarrow>
              let i = i\<lparr>info_handles := remove_element h (info_handles i)\<rparr>;
                  t = \<lparr>file_lookup = AList.update p i (file_lookup t),
                       handle_lookup = AList.delete h (handle_lookup t)\<rparr>
              in if info_handles i \<noteq> [] then Inr t
                 else Inr (t\<lparr>file_lookup := AList.delete (info_path i) (file_lookup t)\<rparr>)))"

fun remove_infos :: "'h list \<Rightarrow> 'h table \<Rightarrow> exn + 'h table" where
  "remove_infos [] t = Inr t"
| "remove_infos (h # hs) t =
    (case remove_info h t of Inl e \<Rightarrow> Inl e | Inr t \<Rightarrow> remove_infos hs t)"

definition set_client :: "'h \<Rightarrow> string \<Rightarrow> 'h table \<Rightarrow> exn + 'h table" where
  "set_client h c t =
    (case map_of (handle_lookup t) h of
       None \<Rightarrow> Inl out_of_range
     | Some p \<Rightarrow>
         if has_key (file_lookup t) p
         then Inr (t\<lparr>file_lookup := AList.map_entry p (\<lambda>i. i\<lparr>info_client := c\<rparr>) (file_lookup t)\<rparr>)
         else Inl out_of_range)"

definition info_at :: "'h \<Rightarrow> 'h table \<Rightarrow> (exn + 'h open_info) option" where
  "info_at h t =
    (case map_of (handle_lookup t) h of
       None \<Rightarrow> None
     | Some p \<Rightarrow> (case map_of (file_lookup t) p of None \<Rightarrow> Some (Inl out_of_range) | Some i \<Rightarrow> Some (Inr i)))"

definition handle_count :: "string \<Rightarrow> 'h table \<Rightarrow> nat" where
  "handle_count p t = (case map_of (file_lookup t) p of None \<Rightarrow> 0 | Some i \<Rightarrow> length (info_handles i))"

definition handles_where :: "(string \<Rightarrow> 'h open_info \<Rightarrow> bool) \<Rightarrow> 'h table \<Rightarrow> 'h list" where
  "handles_where P t =
    foldl (\<lambda>acc (p, i). if P p i then acc @ info_handles i else acc) [] (file_lookup t)"

section \<open>The server's table\<close>

datatype close_call = Close_compat nat | Close_native int

record remote_table =
  compat :: "nat table"
  native :: "int table"
  directory_lookup :: "(string \<times> nat list) list"
  closed :: "close_call list"

definition remote_table_init :: remote_table where
  "remote_table_init = \<lparr>compat = empty_table, native = empty_table, directory_lookup = [], closed = []\<rparr>"

text \<open>\<open>directory_lookup_[client_id]\<close> creates an empty entry if there is none.\<close>

definition directories_of :: "string \<Rightarrow> remote_table \<Rightarrow> nat list \<times> remote_table" where
  "directories_of c r =
    (case map_of (directory_lookup r) c of
       Some l \<Rightarrow> (l, r)
     | None \<Rightarrow> ([], r\<lparr>directory_lookup := AList.update c [] (directory_lookup r)\<rparr>))"

definition add_directory :: "string \<Rightarrow> nat \<Rightarrow> remote_table \<Rightarrow> remote_table" where
  "add_directory c h r =
    (case directories_of c r of (l, r) \<Rightarrow>
       if h \<notin> set l then r\<lparr>directory_lookup := AList.update c (l @ [h]) (directory_lookup r)\<rparr> else r)"

definition has_open_directory :: "string \<Rightarrow> nat \<Rightarrow> remote_table \<Rightarrow> bool \<times> remote_table" where
  "has_open_directory c h r = (case directories_of c r of (l, r) \<Rightarrow> (h \<in> set l, r))"

definition remove_directory :: "string \<Rightarrow> nat \<Rightarrow> remote_table \<Rightarrow> bool \<times> remote_table" where
  "remove_directory c h r =
    (case directories_of c r of (l, r) \<Rightarrow>
       if h \<in> set l then
         let l = remove_element h l;
             r = r\<lparr>directory_lookup := AList.update c l (directory_lookup r)\<rparr>
         in (True, if l = [] then r\<lparr>directory_lookup := AList.delete c (directory_lookup r)\<rparr> else r)
       else (False, r))"

definition set_open_info :: "int \<Rightarrow> int open_info \<Rightarrow> remote_table \<Rightarrow> remote_table" where
  "set_open_info h oi r = r\<lparr>native := set_info h oi (native r)\<rparr>"

definition set_compat_open_info :: "nat \<Rightarrow> string \<Rightarrow> remote_table \<Rightarrow> remote_table" where
  "set_compat_open_info h p r =
    r\<lparr>compat := set_info h \<lparr>info_client = '''', info_handles = [], info_path = p\<rparr> (compat r)\<rparr>"

definition with_native :: "(int table \<Rightarrow> exn + int table) \<Rightarrow> remote_table \<Rightarrow> exn + remote_table" where
  "with_native f r = (case f (native r) of Inl e \<Rightarrow> Inl e | Inr t \<Rightarrow> Inr (r\<lparr>native := t\<rparr>))"

definition with_compat :: "(nat table \<Rightarrow> exn + nat table) \<Rightarrow> remote_table \<Rightarrow> exn + remote_table" where
  "with_compat f r = (case f (compat r) of Inl e \<Rightarrow> Inl e | Inr t \<Rightarrow> Inr (r\<lparr>compat := t\<rparr>))"

definition set_client_id :: "int \<Rightarrow> string \<Rightarrow> remote_table \<Rightarrow> exn + remote_table" where
  "set_client_id h c = with_native (set_client h c)"

definition set_compat_client_id :: "nat \<Rightarrow> string \<Rightarrow> remote_table \<Rightarrow> exn + remote_table" where
  "set_compat_client_id h c = with_compat (set_client h c)"

definition remove_open_info :: "int \<Rightarrow> remote_table \<Rightarrow> exn + remote_table" where
  "remove_open_info h = with_native (remove_info h)"

definition remove_compat_open_info :: "nat \<Rightarrow> remote_table \<Rightarrow> exn + remote_table" where
  "remove_compat_open_info h = with_compat (remove_info h)"

definition remove_all :: "string \<Rightarrow> remote_table \<Rightarrow> exn + remote_table" where
  "remove_all p r =
    (let chs = handles_where (\<lambda>q i. q = p) (compat r);
         hs = handles_where (\<lambda>q i. q = p) (native r)
     in case with_compat (remove_infos chs) r of
          Inl e \<Rightarrow> Inl e
        | Inr r \<Rightarrow> with_native (remove_infos hs) r)"

text \<open>The loops that close each handle before its entry is removed.\<close>

fun close_compat_handles :: "nat list \<Rightarrow> remote_table \<Rightarrow> exn + remote_table" where
  "close_compat_handles [] r = Inr r"
| "close_compat_handles (h # hs) r =
    (case remove_compat_open_info h (r\<lparr>closed := closed r @ [Close_compat h]\<rparr>) of
       Inl e \<Rightarrow> Inl e | Inr r \<Rightarrow> close_compat_handles hs r)"

fun close_native_handles :: "int list \<Rightarrow> remote_table \<Rightarrow> exn + remote_table" where
  "close_native_handles [] r = Inr r"
| "close_native_handles (h # hs) r =
    (case remove_open_info h (r\<lparr>closed := closed r @ [Close_native h]\<rparr>) of
       Inl e \<Rightarrow> Inl e | Inr r \<Rightarrow> close_native_handles hs r)"

definition remove_and_close_all :: "int \<Rightarrow> remote_table \<Rightarrow> exn + remote_table" where
  "remove_and_close_all h r =
    (case info_at h (native r) of
       None \<Rightarrow> Inr r
     | Some (Inl e) \<Rightarrow> Inl e
     | Some (Inr i) \<Rightarrow> close_native_handles (info_handles i) r)"

definition close_all :: "string \<Rightarrow> remote_table \<Rightarrow> exn + remote_table" where
  "close_all c r =
    (let chs = handles_where (\<lambda>q i. info_client i = c) (compat r);
         hs = handles_where (\<lambda>q i. info_client i = c) (native r)
     in case close_compat_handles chs r of
          Inl e \<Rightarrow> Inl e
        | Inr r \<Rightarrow>
            (case close_native_handles hs r of
               Inl e \<Rightarrow> Inl e
             | Inr r \<Rightarrow>
                 let dirs = concat (map snd (filter (\<lambda>(k, l). k = c) (directory_lookup r)))
                 in Inr (foldl (\<lambda>r d. snd (remove_directory c d r)) r dirs)))"

definition get_open_file_count :: "string \<Rightarrow> remote_table \<Rightarrow> nat" where
  "get_open_file_count p r = handle_count p (native r) + handle_count p (compat r)"

definition get_open_info :: "int \<Rightarrow> remote_table \<Rightarrow> (exn + int open_info) option" where
  "get_open_info h r = info_at h (native r)"

definition get_open_file_path :: "int \<Rightarrow> remote_table \<Rightarrow> exn + string" where
  "get_open_file_path h r =
    (case info_at h (native r) of
       None \<Rightarrow> Inr '''' | Some (Inl e) \<Rightarrow> Inl e | Some (Inr i) \<Rightarrow> Inr (info_path i))"

text \<open>The result and the value \<open>errno\<close> is set to, if it is.\<close>

definition has_compat_open_info :: "nat \<Rightarrow> int \<Rightarrow> remote_table \<Rightarrow> int \<times> int option" where
  "has_compat_open_info h error_return r =
    (if has_key (handle_lookup (compat r)) h then (0, None) else (-1, Some error_return))"

definition has_open_info :: "int \<Rightarrow> int \<Rightarrow> remote_table \<Rightarrow> int" where
  "has_open_info h error_return r =
    (if has_key (handle_lookup (native r)) h then 0 else error_return)"

section \<open>The invariant of a table\<close>

text \<open>
  Every file is listed under its own path, with at least one handle and none twice, and the
  handle's entry points back at the file.
\<close>

definition table_wf :: "'h table \<Rightarrow> bool" where
  "table_wf t \<longleftrightarrow>
    distinct (map fst (file_lookup t)) \<and>
    (\<forall>p i. map_of (file_lookup t) p = Some i \<longrightarrow>
       info_path i = p \<and> info_handles i \<noteq> [] \<and> distinct (info_handles i)) \<and>
    (\<forall>h p. map_of (handle_lookup t) h = Some p \<longleftrightarrow>
       (\<exists>i. map_of (file_lookup t) p = Some i \<and> h \<in> set (info_handles i)))"

lemma table_wf_empty [simp]: "table_wf empty_table"
  by (simp add: table_wf_def empty_table_def)

lemma table_wfD:
  assumes "table_wf t"
  shows "distinct (map fst (file_lookup t))"
    and "map_of (file_lookup t) p = Some i \<Longrightarrow> info_path i = p \<and> info_handles i \<noteq> [] \<and> distinct (info_handles i)"
    and "map_of (handle_lookup t) h = Some p \<longleftrightarrow>
      (\<exists>i. map_of (file_lookup t) p = Some i \<and> h \<in> set (info_handles i))"
  using assms by (auto simp: table_wf_def)

lemma handle_file:
  "table_wf t \<Longrightarrow> map_of (file_lookup t) p = Some i \<Longrightarrow> h \<in> set (info_handles i) \<Longrightarrow>
    map_of (handle_lookup t) h = Some p"
  using table_wfD(3)[of t h p] by blast

lemma file_handle:
  assumes "table_wf t" "map_of (handle_lookup t) h = Some p"
  obtains i where "map_of (file_lookup t) p = Some i" "h \<in> set (info_handles i)"
  using table_wfD(3)[OF assms(1), of h p] assms(2) by blast

lemma set_info_files:
  assumes "\<not> has_key (handle_lookup t) h"
  shows "map_of (file_lookup (set_info h oi t)) =
      (map_of (file_lookup t))(info_path oi \<mapsto>
        (case map_of (file_lookup t) (info_path oi) of
           None \<Rightarrow> oi\<lparr>info_handles := info_handles oi @ [h]\<rparr>
         | Some i \<Rightarrow> i\<lparr>info_handles := info_handles i @ [h]\<rparr>))"
    and "map_of (handle_lookup (set_info h oi t)) = (map_of (handle_lookup t))(h \<mapsto> info_path oi)"
  using assms
  by (auto simp: set_info_def Let_def has_key_def map_of_map_entry AList.update_conv' fun_eq_iff
      split: option.splits)

lemma set_info_wf:
  assumes wf: "table_wf t" and e: "info_handles oi = []"
  shows "table_wf (set_info h oi t)"
proof (cases "has_key (handle_lookup t) h")
  case True
  then show ?thesis using wf by (simp add: set_info_def)
next
  case False
  then have h: "map_of (file_lookup t) p = Some i \<Longrightarrow> h \<notin> set (info_handles i)" for p i
    using table_wfD(3)[OF wf] by (auto simp: has_key_def)
  have "distinct (map fst (file_lookup (set_info h oi t)))"
    using False table_wfD(1)[OF wf]
    by (auto simp: set_info_def Let_def intro: AList.distinct_map_entry AList.distinct_update)
  moreover have "info_path i = p \<and> info_handles i \<noteq> [] \<and> distinct (info_handles i)"
    if "map_of (file_lookup (set_info h oi t)) p = Some i" for p i
    using that h table_wfD(2)[OF wf, of p] e
    by (auto simp: set_info_files[OF False] split: if_splits option.splits)
  moreover have "map_of (handle_lookup (set_info h oi t)) h' = Some p \<longleftrightarrow>
      (\<exists>i. map_of (file_lookup (set_info h oi t)) p = Some i \<and> h' \<in> set (info_handles i))" for h' p
    using h table_wfD(3)[OF wf, of h' p] e
    by (auto simp: set_info_files[OF False] split: if_splits option.splits)
  ultimately show ?thesis unfolding table_wf_def by blast
qed

lemma set_client_wf:
  assumes wf: "table_wf t"
  shows "set_client h c t = (case map_of (handle_lookup t) h of
       None \<Rightarrow> Inl out_of_range
     | Some p \<Rightarrow> Inr (t\<lparr>file_lookup := AList.map_entry p (\<lambda>i. i\<lparr>info_client := c\<rparr>) (file_lookup t)\<rparr>))"
    and "set_client h c t = Inr t' \<Longrightarrow> table_wf t'"
proof -
  show e: "set_client h c t = (case map_of (handle_lookup t) h of
       None \<Rightarrow> Inl out_of_range
     | Some p \<Rightarrow> Inr (t\<lparr>file_lookup := AList.map_entry p (\<lambda>i. i\<lparr>info_client := c\<rparr>) (file_lookup t)\<rparr>))"
  proof (cases "map_of (handle_lookup t) h")
    case (Some p)
    then obtain i where "map_of (file_lookup t) p = Some i" using file_handle[OF wf] by blast
    then show ?thesis using Some by (simp add: set_client_def has_key_def)
  qed (simp add: set_client_def)
  show "table_wf t'" if r: "set_client h c t = Inr t'"
  proof -
    obtain p where p: "t' = t\<lparr>file_lookup := AList.map_entry p (\<lambda>i. i\<lparr>info_client := c\<rparr>) (file_lookup t)\<rparr>"
      using r by (auto simp: e split: option.splits)
    have m: "map_of (file_lookup t') = (map_of (file_lookup t))(p := map_option (\<lambda>i. i\<lparr>info_client := c\<rparr>)
        (map_of (file_lookup t) p))"
      by (auto simp: p map_of_map_entry map_option_case)
    have "info_path i = q \<and> info_handles i \<noteq> [] \<and> distinct (info_handles i)"
      if "map_of (file_lookup t') q = Some i" for q i
      using that table_wfD(2)[OF wf, of q] by (auto simp: m split: if_splits)
    moreover have "map_of (handle_lookup t') h' = Some q \<longleftrightarrow>
        (\<exists>i. map_of (file_lookup t') q = Some i \<and> h' \<in> set (info_handles i))" for h' q
    proof -
      have "map_of (handle_lookup t') h' = map_of (handle_lookup t) h'" by (simp add: p)
      moreover have "(\<exists>i. map_of (file_lookup t') q = Some i \<and> h' \<in> set (info_handles i)) \<longleftrightarrow>
          (\<exists>i. map_of (file_lookup t) q = Some i \<and> h' \<in> set (info_handles i))"
        by (auto simp: m)
      ultimately show ?thesis using table_wfD(3)[OF wf, of h' q] by simp
    qed
    moreover have "distinct (map fst (file_lookup t'))"
      using table_wfD(1)[OF wf] by (simp add: p AList.distinct_map_entry)
    ultimately show ?thesis unfolding table_wf_def by blast
  qed
qed

lemma remove_info_ok:
  assumes wf: "table_wf t"
  obtains t' where "remove_info h t = Inr t'" "table_wf t'"
    "map_of (file_lookup t') = (\<lambda>p. case map_of (file_lookup t) p of None \<Rightarrow> None
       | Some i \<Rightarrow> let k = remove_element h (info_handles i) in
           if k = [] then None else Some (i\<lparr>info_handles := k\<rparr>))"
proof (cases "map_of (handle_lookup t) h")
  case None
  then have "map_of (file_lookup t) p = Some i \<Longrightarrow> remove_element h (info_handles i) = info_handles i \<and> info_handles i \<noteq> []" for p i
    using table_wfD(2)[OF wf, of p i] handle_file[OF wf, of p i h] by (auto simp: remove_element_def filter_id_conv)
  then have "map_of (file_lookup t) = (\<lambda>p. case map_of (file_lookup t) p of None \<Rightarrow> None
       | Some i \<Rightarrow> let k = remove_element h (info_handles i) in
           if k = [] then None else Some (i\<lparr>info_handles := k\<rparr>))"
    by (auto simp: fun_eq_iff Let_def split: option.split)
  then show ?thesis using that[of t] wf None by (simp add: remove_info_def)
next
  case (Some p)
  then obtain i where i: "map_of (file_lookup t) p = Some i" "h \<in> set (info_handles i)"
    using table_wfD(3)[OF wf] by blast
  have ip: "info_path i = p" using table_wfD(2)[OF wf i(1)] by simp
  let ?k = "remove_element h (info_handles i)"
  define t' where "t' = \<lparr>file_lookup = (if ?k \<noteq> [] then AList.update p (i\<lparr>info_handles := ?k\<rparr>) (file_lookup t)
      else AList.delete p (AList.update p (i\<lparr>info_handles := ?k\<rparr>) (file_lookup t))),
    handle_lookup = AList.delete h (handle_lookup t)\<rparr>"
  have r: "remove_info h t = Inr t'"
    using Some i ip by (simp add: remove_info_def t'_def Let_def)
  have other: "remove_element h (info_handles j) = info_handles j" if "map_of (file_lookup t) q = Some j" "q \<noteq> p" for q j
  proof -
    have "h \<notin> set (info_handles j)" using that table_wfD(3)[OF wf, of h q] Some by auto
    then show ?thesis by (auto simp: remove_element_def filter_id_conv)
  qed
  have files: "map_of (file_lookup t') = (\<lambda>p. case map_of (file_lookup t) p of None \<Rightarrow> None
       | Some i \<Rightarrow> let k = remove_element h (info_handles i) in
           if k = [] then None else Some (i\<lparr>info_handles := k\<rparr>))"
  proof
    fix q
    show "map_of (file_lookup t') q = (case map_of (file_lookup t) q of None \<Rightarrow> None
       | Some i \<Rightarrow> let k = remove_element h (info_handles i) in
           if k = [] then None else Some (i\<lparr>info_handles := k\<rparr>))"
      using i other table_wfD(2)[OF wf, of q]
      by (cases "q = p"; cases "map_of (file_lookup t) q") (auto simp: t'_def AList.update_conv' AList.delete_conv' Let_def)
  qed
  have wf': "info_path j = q \<and> info_handles j \<noteq> [] \<and> distinct (info_handles j)"
    if "map_of (file_lookup t') q = Some j" for q j
    using that table_wfD(2)[OF wf, of q]
    by (auto simp: files Let_def remove_element_def split: option.splits if_splits)
  have "map_of (handle_lookup t') h' = Some q \<longleftrightarrow>
      (\<exists>j. map_of (file_lookup t') q = Some j \<and> h' \<in> set (info_handles j))" for h' q
  proof
    assume a: "map_of (handle_lookup t') h' = Some q"
    then have h': "h' \<noteq> h" "map_of (handle_lookup t) h' = Some q"
      by (auto simp: t'_def AList.delete_conv' split: if_splits)
    then obtain j where "map_of (file_lookup t) q = Some j" "h' \<in> set (info_handles j)"
      using file_handle[OF wf] by blast
    moreover from this h' have "h' \<in> set (remove_element h (info_handles j))" by (simp add: remove_element_def)
    ultimately show "\<exists>j. map_of (file_lookup t') q = Some j \<and> h' \<in> set (info_handles j)"
      by (auto simp: files Let_def)
  next
    assume "\<exists>j. map_of (file_lookup t') q = Some j \<and> h' \<in> set (info_handles j)"
    then obtain j where "map_of (file_lookup t) q = Some j" "h' \<in> set (remove_element h (info_handles j))"
      by (auto simp: files Let_def split: option.splits if_splits)
    then show "map_of (handle_lookup t') h' = Some q"
      using handle_file[OF wf] by (auto simp: t'_def AList.delete_conv' remove_element_def)
  qed
  moreover have "distinct (map fst (file_lookup t'))"
    using table_wfD(1)[OF wf] by (auto simp: t'_def intro!: AList.distinct_delete AList.distinct_update)
  ultimately have "table_wf t'" using wf' unfolding table_wf_def by blast
  then show ?thesis using that r files by blast
qed

text \<open>What is left of the files when some handles are removed.\<close>

definition without :: "'h set \<Rightarrow> 'h open_info option \<Rightarrow> 'h open_info option" where
  "without H x = (case x of None \<Rightarrow> None
     | Some i \<Rightarrow> let k = filter (\<lambda>h. h \<notin> H) (info_handles i) in
         if k = [] then None else Some (i\<lparr>info_handles := k\<rparr>))"

lemma without_empty: "table_wf t \<Longrightarrow> without {} (map_of (file_lookup t) p) = map_of (file_lookup t) p"
  using table_wfD(2)[of t p] by (auto simp: without_def split: option.split)

lemma without_insert: "without A (without {h} x) = without (insert h A) x"
proof (cases x)
  case (Some i)
  have "filter (\<lambda>y. y \<notin> A) (filter (\<lambda>y. y \<noteq> h) (info_handles i)) = filter (\<lambda>y. y \<notin> insert h A) (info_handles i)"
    by (simp add: conj_commute)
  then show ?thesis using Some by (auto simp: without_def Let_def filter_empty_conv)
qed (simp add: without_def)

lemma remove_info_without:
  assumes "table_wf t"
  shows "\<exists>t'. remove_info h t = Inr t' \<and> table_wf t' \<and>
    (\<forall>p. map_of (file_lookup t') p = without {h} (map_of (file_lookup t) p))"
proof -
  have "without {h} x = (case x of None \<Rightarrow> None
       | Some i \<Rightarrow> let k = remove_element h (info_handles i) in
           if k = [] then None else Some (i\<lparr>info_handles := k\<rparr>))" for x
    by (cases x) (simp_all add: without_def remove_element_def)
  then show ?thesis using remove_info_ok[OF assms, of h] by metis
qed

lemma remove_infos_without:
  "table_wf t \<Longrightarrow> \<exists>t'. remove_infos hs t = Inr t' \<and> table_wf t' \<and>
     (\<forall>p. map_of (file_lookup t') p = without (set hs) (map_of (file_lookup t) p))"
proof (induction hs arbitrary: t)
  case Nil
  then show ?case by (simp add: without_empty)
next
  case (Cons h hs)
  obtain t1 where t1: "remove_info h t = Inr t1" "table_wf t1"
    "\<forall>p. map_of (file_lookup t1) p = without {h} (map_of (file_lookup t) p)"
    using remove_info_without[OF Cons.prems, of h] by blast
  show ?case using Cons.IH[OF t1(2)] t1 by (simp add: without_insert)
qed

lemma handles_where_set:
  assumes "table_wf t"
  shows "set (handles_where P t) = {h. \<exists>p i. map_of (file_lookup t) p = Some i \<and> P p i \<and> h \<in> set (info_handles i)}"
proof -
  have "set (foldl (\<lambda>acc (p, i). if P p i then acc @ info_handles i else acc) acc xs) =
      set acc \<union> {h. \<exists>(p, i) \<in> set xs. P p i \<and> h \<in> set (info_handles i)}" for acc :: "'a list" and xs
    by (induction xs arbitrary: acc) auto
  then show ?thesis
    using table_wfD(1)[OF assms] by (force simp: handles_where_def)
qed

lemma handles_where_distinct:
  assumes wf: "table_wf t"
  shows "distinct (handles_where P t)"
proof -
  have "distinct (foldl (\<lambda>acc (p, i). if P p i then acc @ info_handles i else acc) acc xs)"
    if "distinct acc" "distinct (map fst xs)" "set xs \<subseteq> set (file_lookup t)"
      "\<forall>h \<in> set acc. \<forall>(p, i) \<in> set xs. h \<notin> set (info_handles i)" for acc xs
    using that
  proof (induction xs arbitrary: acc)
    case (Cons x xs)
    obtain p i where x: "x = (p, i)" by fastforce
    have m: "map_of (file_lookup t) q = Some j" if "(q, j) \<in> set (x # xs)" for q j
      using that Cons.prems(3) table_wfD(1)[OF wf] by auto
    have i: "map_of (file_lookup t) p = Some i" using m x by simp
    have new: "h \<notin> set (info_handles j)" if h: "h \<in> set (info_handles i)" and j: "(q, j) \<in> set xs" for h q j
    proof
      assume "h \<in> set (info_handles j)"
      moreover have "map_of (file_lookup t) q = Some j" using m j by simp
      ultimately have "q = p" using handle_file[OF wf] handle_file[OF wf i h] by (metis option.inject)
      then show False using j Cons.prems(2) x by force
    qed
    show ?case
      using Cons.prems new table_wfD(2)[OF wf i] by (auto simp: x intro!: Cons.IH)
  qed simp
  from this[of "[]" "file_lookup t"] show ?thesis
    using table_wfD(1)[OF wf] by (simp add: handles_where_def)
qed

lemma without_handles_where:
  assumes wf: "table_wf t" and i: "map_of (file_lookup t) p = Some i"
  shows "without (set (handles_where P t)) (Some i) = (if P p i then None else Some i)"
proof -
  have hi: "info_handles i \<noteq> []" using table_wfD(2)[OF wf i] by simp
  have "h \<in> set (handles_where P t) \<longleftrightarrow> P p i" if h: "h \<in> set (info_handles i)" for h
  proof
    assume "P p i"
    then show "h \<in> set (handles_where P t)" unfolding handles_where_set[OF wf] using i h by blast
  next
    assume "h \<in> set (handles_where P t)"
    then obtain q j where j: "map_of (file_lookup t) q = Some j" "P q j" "h \<in> set (info_handles j)"
      unfolding handles_where_set[OF wf] by blast
    have "q = p" using handle_file[OF wf j(1,3)] handle_file[OF wf i h] by (metis option.inject)
    then show "P p i" using j(1,2) i by (metis option.inject)
  qed
  then have "filter (\<lambda>h. h \<notin> set (handles_where P t)) (info_handles i) = (if P p i then [] else info_handles i)"
    by (auto simp: filter_empty_conv filter_id_conv)
  then show ?thesis using hi by (simp add: without_def)
qed

text \<open>What \<open>close_all\<close> and \<open>remove_all\<close> keep of a file.\<close>

definition files_unless :: "(string \<Rightarrow> 'h open_info \<Rightarrow> bool) \<Rightarrow> 'h table \<Rightarrow> 'h table \<Rightarrow> bool" where
  "files_unless P t t' \<longleftrightarrow> (\<forall>p. map_of (file_lookup t') p = (case map_of (file_lookup t) p of None \<Rightarrow> None
     | Some i \<Rightarrow> if P p i then None else Some i))"

lemma distinct_singleton_set: "distinct xs \<Longrightarrow> set xs = {x} \<Longrightarrow> xs = [x]"
  by (cases xs; cases "tl xs") auto

lemma remove_handles_where:
  assumes "table_wf t"
  shows "\<exists>t'. remove_infos (handles_where P t) t = Inr t' \<and> table_wf t' \<and> files_unless P t t'"
proof -
  obtain t' where t': "remove_infos (handles_where P t) t = Inr t'" "table_wf t'"
    "\<forall>p. map_of (file_lookup t') p = without (set (handles_where P t)) (map_of (file_lookup t) p)"
    using remove_infos_without[OF assms] by blast
  have "without (set (handles_where P t)) (map_of (file_lookup t) p) = (case map_of (file_lookup t) p of None \<Rightarrow> None
       | Some i \<Rightarrow> if P p i then None else Some i)" for p
    using without_handles_where[OF assms, of p] by (cases "map_of (file_lookup t) p") (simp_all add: without_def)
  then have "files_unless P t t'" using t'(3) by (simp add: files_unless_def)
  then show ?thesis using t' by blast
qed

lemma handle_count_card:
  assumes wf: "table_wf t"
  shows "handle_count p t = card {h. map_of (handle_lookup t) h = Some p}"
proof (cases "map_of (file_lookup t) p")
  case None
  then have "{h. map_of (handle_lookup t) h = Some p} = {}" using table_wfD(3)[OF wf, of _ p] by auto
  then show ?thesis using None by (simp add: handle_count_def)
next
  case (Some i)
  then have "{h. map_of (handle_lookup t) h = Some p} = set (info_handles i)"
    using table_wfD(3)[OF wf, of _ p] by auto
  then show ?thesis using Some table_wfD(2)[OF wf Some] by (simp add: handle_count_def distinct_card)
qed

section \<open>The server's table stays well formed\<close>

definition remote_wf :: "remote_table \<Rightarrow> bool" where
  "remote_wf r \<longleftrightarrow> table_wf (compat r) \<and> table_wf (native r)"

lemma remote_wf_init [simp]: "remote_wf remote_table_init"
  by (simp add: remote_wf_def remote_table_init_def)

lemma close_native_handles_eq:
  "close_native_handles hs r = (case remove_infos hs (native r) of Inl e \<Rightarrow> Inl e
     | Inr t \<Rightarrow> Inr (r\<lparr>native := t, closed := closed r @ map Close_native hs\<rparr>))"
  by (induction hs arbitrary: r)
    (simp_all add: remove_open_info_def with_native_def split: sum.split)

lemma close_compat_handles_eq:
  "close_compat_handles hs r = (case remove_infos hs (compat r) of Inl e \<Rightarrow> Inl e
     | Inr t \<Rightarrow> Inr (r\<lparr>compat := t, closed := closed r @ map Close_compat hs\<rparr>))"
  by (induction hs arbitrary: r)
    (simp_all add: remove_compat_open_info_def with_compat_def split: sum.split)

definition dirs_at :: "string \<Rightarrow> remote_table \<Rightarrow> nat list" where
  "dirs_at c r = (case map_of (directory_lookup r) c of None \<Rightarrow> [] | Some l \<Rightarrow> l)"

lemma has_open_directory_iff: "fst (has_open_directory c d r) \<longleftrightarrow> d \<in> set (dirs_at c r)"
  by (simp add: has_open_directory_def directories_of_def dirs_at_def split: option.split)

lemma directories_of_tables [simp]:
  "native (snd (directories_of c r)) = native r" "compat (snd (directories_of c r)) = compat r"
  "closed (snd (directories_of c r)) = closed r"
  by (simp_all add: directories_of_def split: option.split)

lemma remove_element_id: "d \<notin> set l \<Longrightarrow> remove_element d l = l"
  by (auto simp: remove_element_def filter_id_conv)

lemma remove_directory_props:
  "dirs_at c (snd (remove_directory c d r)) = remove_element d (dirs_at c r)"
  "native (snd (remove_directory c d r)) = native r" "compat (snd (remove_directory c d r)) = compat r"
  "closed (snd (remove_directory c d r)) = closed r"
  by (auto simp: remove_directory_def directories_of_def dirs_at_def Let_def AList.update_conv'
      AList.delete_conv' remove_element_id split: option.split)

lemma remove_directories_props:
  "set (dirs_at c (foldl (\<lambda>r d. snd (remove_directory c d r)) r ds)) = set (dirs_at c r) - set ds"
  "native (foldl (\<lambda>r d. snd (remove_directory c d r)) r ds) = native r"
  "compat (foldl (\<lambda>r d. snd (remove_directory c d r)) r ds) = compat r"
  "closed (foldl (\<lambda>r d. snd (remove_directory c d r)) r ds) = closed r"
  by (induction ds arbitrary: r) (auto simp: remove_directory_props remove_element_def)

definition client_handles :: "string \<Rightarrow> 'h table \<Rightarrow> 'h set" where
  "client_handles c t = {h. \<exists>p i. map_of (file_lookup t) p = Some i \<and> info_client i = c \<and> h \<in> set (info_handles i)}"

lemma close_all_ok:
  assumes "remote_wf r"
  shows "\<exists>r'. close_all c r = Inr r' \<and> remote_wf r' \<and>
    files_unless (\<lambda>p i. info_client i = c) (native r) (native r') \<and>
    files_unless (\<lambda>p i. info_client i = c) (compat r) (compat r') \<and>
    (\<exists>ks hs. closed r' = closed r @ map Close_compat ks @ map Close_native hs \<and>
       distinct ks \<and> set ks = client_handles c (compat r) \<and>
       distinct hs \<and> set hs = client_handles c (native r)) \<and>
    dirs_at c r' = []"
proof -
  let ?P = "\<lambda>p i. info_client i = c"
  have wf: "table_wf (native r)" "table_wf (compat r)" using assms by (auto simp: remote_wf_def)
  obtain n where n: "remove_infos (handles_where ?P (native r)) (native r) = Inr n" "table_wf n"
    "files_unless ?P (native r) n"
    using remove_handles_where[OF wf(1), of ?P] by blast
  obtain k where k: "remove_infos (handles_where ?P (compat r)) (compat r) = Inr k" "table_wf k"
    "files_unless ?P (compat r) k"
    using remove_handles_where[OF wf(2), of ?P] by blast
  let ?dirs = "concat (map snd (filter (\<lambda>(k, l). k = c) (directory_lookup r)))"
  define cl where "cl = (closed r @ map Close_compat (handles_where ?P (compat r)))
    @ map Close_native (handles_where ?P (native r))"
  define r2 where "r2 = r\<lparr>compat := k, native := n, closed := cl\<rparr>"
  define r' where "r' = foldl (\<lambda>r d. snd (remove_directory c d r)) r2 ?dirs"
  note fold = remove_directories_props[where c = c and ds = ?dirs and r = r2, folded r'_def]
  have "close_all c r = Inr r'"
    unfolding close_all_def Let_def close_compat_handles_eq k(1) sum.case
    by (simp add: close_native_handles_eq n(1) r'_def r2_def cl_def)
  moreover have "set (dirs_at c r) \<subseteq> set ?dirs"
    using map_of_SomeD[of "directory_lookup r" c]
    by (cases "map_of (directory_lookup r) c") (auto simp: dirs_at_def)
  then have "set (dirs_at c r2) \<subseteq> set ?dirs" by (simp add: dirs_at_def r2_def)
  then have "set (dirs_at c r') = {}" by (simp only: fold(1) Diff_eq_empty_iff)
  then have "dirs_at c r' = []" by (simp only: set_empty)
  moreover have t: "native r' = n" "compat r' = k" "closed r' = cl"
    using fold(2-4) by (simp_all add: r2_def)
  moreover have "set (handles_where ?P (native r)) = client_handles c (native r)"
    "set (handles_where ?P (compat r)) = client_handles c (compat r)"
    by (simp_all add: handles_where_set wf client_handles_def)
  then have "\<exists>ks hs. cl = closed r @ map Close_compat ks @ map Close_native hs \<and>
       distinct ks \<and> set ks = client_handles c (compat r) \<and>
       distinct hs \<and> set hs = client_handles c (native r)"
    using handles_where_distinct[OF wf(1), of ?P] handles_where_distinct[OF wf(2), of ?P]
    by (auto simp: cl_def)
  moreover have "remote_wf r'" using n(2) k(2) t by (simp add: remote_wf_def)
  ultimately show ?thesis
    using n(3) k(3) by (intro exI[of _ r'] conjI) simp_all
qed

text \<open>
  C7. \<open>close_all\<close> of a client returns: it closes exactly the handles of the files recorded for
  the client, each of them once, the compatible ones before the native ones, removes exactly
  these files, leaves no open directory of the client,
  and the table stays well formed.
\<close>

theorem close_all_releases:
  assumes "remote_wf r"
  shows "\<exists>r'. close_all c r = Inr r' \<and> remote_wf r' \<and>
    files_unless (\<lambda>p i. info_client i = c) (native r) (native r') \<and>
    files_unless (\<lambda>p i. info_client i = c) (compat r) (compat r') \<and>
    (\<exists>ks hs. closed r' = closed r @ map Close_compat ks @ map Close_native hs \<and>
       distinct ks \<and> set ks = client_handles c (compat r) \<and>
       distinct hs \<and> set hs = client_handles c (native r)) \<and>
    (\<forall>d. \<not> fst (has_open_directory c d r'))"
  using close_all_ok[OF assms, of c] by (simp add: has_open_directory_iff)

text \<open>A client that opens a file: \<open>set_open_info\<close> with no handles, then \<open>set_client_id\<close>.\<close>

definition client_opens :: "string \<Rightarrow> string \<Rightarrow> int \<Rightarrow> remote_table \<Rightarrow> exn + remote_table" where
  "client_opens c p h r =
    set_client_id h c (set_open_info h \<lparr>info_client = [], info_handles = [], info_path = p\<rparr> r)"

theorem close_all_releases_witness:
  "\<exists>r r'. client_opens ''A'' ''/f'' 3 remote_table_init = Inr r \<and> close_all ''A'' r = Inr r' \<and>
     closed r' = [Close_native 3]"
proof -
  define r where "r = remote_table_init\<lparr>native := \<lparr>file_lookup = [(''/f'', \<lparr>info_client = ''A'',
    info_handles = [3], info_path = ''/f''\<rparr>)], handle_lookup = [(3, ''/f'')]\<rparr>\<rparr>"
  have o: "client_opens ''A'' ''/f'' 3 remote_table_init = Inr r"
    by (simp add: client_opens_def set_client_id_def with_native_def set_open_info_def set_info_def
        remote_table_init_def empty_table_def has_key_def set_client_def Let_def r_def)
  have "remote_wf r" by (simp add: remote_wf_def r_def table_wf_def remote_table_init_def empty_table_def)
  then obtain r' ks hs where r': "close_all ''A'' r = Inr r'"
    "closed r' = closed r @ map Close_compat ks @ map Close_native hs"
    "set ks = client_handles ''A'' (compat r)" "distinct hs" "set hs = client_handles ''A'' (native r)"
    using close_all_releases[of r "''A''"] by blast
  have "client_handles ''A'' (compat r) = {}" "client_handles ''A'' (native r) = {3}"
    by (auto simp: r_def client_handles_def remote_table_init_def empty_table_def split: if_splits)
  then have "ks = []" "hs = [3]"
    using r'(3-5) by (auto simp: distinct_singleton_set)
  then show ?thesis using o r'(1,2) by (auto simp: r_def remote_table_init_def)
qed

section \<open>All histories of the table\<close>

inductive remote_step :: "remote_table \<Rightarrow> remote_table \<Rightarrow> bool" where
  open_native: "info_handles oi = [] \<Longrightarrow> remote_step r (set_open_info h oi r)"
| open_compat: "remote_step r (set_compat_open_info k p r)"
| client_native: "set_client_id h c r = Inr r' \<Longrightarrow> remote_step r r'"
| client_compat: "set_compat_client_id k c r = Inr r' \<Longrightarrow> remote_step r r'"
| remove_native: "remove_open_info h r = Inr r' \<Longrightarrow> remote_step r r'"
| remove_compat: "remove_compat_open_info k r = Inr r' \<Longrightarrow> remote_step r r'"
| remove_path: "remove_all p r = Inr r' \<Longrightarrow> remote_step r r'"
| close_file: "remove_and_close_all h r = Inr r' \<Longrightarrow> remote_step r r'"
| close_client: "close_all c r = Inr r' \<Longrightarrow> remote_step r r'"
| add_dir: "remote_step r (add_directory c d r)"
| find_dir: "remote_step r (snd (has_open_directory c d r))"
| remove_dir: "remote_step r (snd (remove_directory c d r))"

abbreviation remote_steps :: "remote_table \<Rightarrow> remote_table \<Rightarrow> bool" where
  "remote_steps \<equiv> remote_step\<^sup>*\<^sup>*"

lemma remove_info_wf: "table_wf t \<Longrightarrow> remove_info h t = Inr t' \<Longrightarrow> table_wf t'"
  using remove_info_without[of t h] by auto

lemma remove_infos_wf: "table_wf t \<Longrightarrow> remove_infos hs t = Inr t' \<Longrightarrow> table_wf t'"
  using remove_infos_without[of t hs] by auto

lemma directory_ops_tables [simp]:
  "native (add_directory c d r) = native r" "compat (add_directory c d r) = compat r"
  "native (snd (has_open_directory c d r)) = native r" "compat (snd (has_open_directory c d r)) = compat r"
  by (auto simp: add_directory_def has_open_directory_def directories_of_def split: option.split)

lemma remote_step_wf: "remote_step r r' \<Longrightarrow> remote_wf r \<Longrightarrow> remote_wf r'"
proof (induction rule: remote_step.induct)
  case (close_client c r r')
  then show ?case using close_all_ok[of r c] by auto
qed (auto simp: remote_wf_def set_open_info_def set_compat_open_info_def set_client_id_def
    set_compat_client_id_def remove_open_info_def remove_compat_open_info_def remove_all_def
    remove_and_close_all_def with_native_def with_compat_def close_native_handles_eq Let_def
    remove_directory_props
    intro: set_info_wf set_client_wf(2) remove_info_wf remove_infos_wf
    split: sum.splits option.splits)

lemma remote_steps_wf: "remote_steps r r' \<Longrightarrow> remote_wf r \<Longrightarrow> remote_wf r'"
  by (induction rule: rtranclp_induct) (auto intro: remote_step_wf)

lemma open_queries:
  assumes wf: "table_wf (native r)"
  shows "case get_open_info h r of
       None \<Rightarrow> get_open_file_path h r = Inr [] \<and> \<not> has_key (handle_lookup (native r)) h
     | Some (Inl e) \<Rightarrow> False
     | Some (Inr i) \<Rightarrow> get_open_file_path h r = Inr (info_path i) \<and> h \<in> set (info_handles i)"
proof (cases "map_of (handle_lookup (native r)) h")
  case (Some q)
  then obtain i where "map_of (file_lookup (native r)) q = Some i" "h \<in> set (info_handles i)"
    using file_handle[OF wf] by blast
  then show ?thesis using Some by (simp add: get_open_info_def get_open_file_path_def info_at_def)
qed (simp add: get_open_info_def get_open_file_path_def info_at_def has_key_def)

lemma record_client:
  assumes wf: "table_wf (native r)"
  shows "if has_key (handle_lookup (native r)) h
     then \<exists>r'. set_client_id h c r = Inr r' \<and> (\<exists>i. get_open_info h r' = Some (Inr i) \<and> info_client i = c)
     else set_client_id h c r = Inl out_of_range"
proof (cases "map_of (handle_lookup (native r)) h")
  case (Some q)
  then obtain i where "map_of (file_lookup (native r)) q = Some i" using file_handle[OF wf] by blast
  then show ?thesis
    using Some by (auto simp: set_client_id_def with_native_def set_client_wf(1)[OF wf] has_key_def
        get_open_info_def info_at_def map_of_map_entry)
qed (simp add: set_client_id_def with_native_def set_client_wf(1)[OF wf] has_key_def)

lemma record_compat_client:
  "table_wf (compat r) \<Longrightarrow>
    (if has_key (handle_lookup (compat r)) k then \<exists>r'. set_compat_client_id k c r = Inr r'
     else set_compat_client_id k c r = Inl out_of_range)"
  by (auto simp: set_compat_client_id_def with_compat_def set_client_wf(1) has_key_def split: option.split)

text \<open>
  C30. After any history of the table the number reported for a path is the number of handles
  that belong to it, the removing operations and the two queries by handle return, since none
  of their lookups finds a handle without its file, and recording a client throws
  \<open>out_of_range\<close> exactly for a handle that the table does not know.
\<close>

theorem open_table_invariant:
  assumes "remote_steps remote_table_init r"
  shows "get_open_file_count p r = card {h. map_of (handle_lookup (native r)) h = Some p}
      + card {k. map_of (handle_lookup (compat r)) k = Some p} \<and>
    (\<exists>r'. remove_open_info h r = Inr r') \<and> (\<exists>r'. remove_compat_open_info k r = Inr r') \<and>
    (\<exists>r'. remove_all p r = Inr r') \<and> (\<exists>r'. remove_and_close_all h r = Inr r') \<and>
    (\<exists>r'. close_all c r = Inr r') \<and>
    (case get_open_info h r of
       None \<Rightarrow> get_open_file_path h r = Inr [] \<and> \<not> has_key (handle_lookup (native r)) h
     | Some (Inl e) \<Rightarrow> False
     | Some (Inr i) \<Rightarrow> get_open_file_path h r = Inr (info_path i) \<and> h \<in> set (info_handles i)) \<and>
    (if has_key (handle_lookup (native r)) h
     then \<exists>r'. set_client_id h c r = Inr r' \<and> (\<exists>i. get_open_info h r' = Some (Inr i) \<and> info_client i = c)
     else set_client_id h c r = Inl out_of_range) \<and>
    (if has_key (handle_lookup (compat r)) k then \<exists>r'. set_compat_client_id k c r = Inr r'
     else set_compat_client_id k c r = Inl out_of_range)"
proof -
  have "remote_wf r" using remote_steps_wf[OF assms] by simp
  then have wf: "table_wf (native r)" "table_wf (compat r)" by (auto simp: remote_wf_def)
  obtain n1 where "remove_info h (native r) = Inr n1" using remove_info_without[OF wf(1), of h] by blast
  moreover obtain k1 where "remove_info k (compat r) = Inr k1" using remove_info_without[OF wf(2), of k] by blast
  moreover obtain n2 where "remove_infos (handles_where (\<lambda>q i. q = p) (native r)) (native r) = Inr n2"
    using remove_infos_without[OF wf(1)] by blast
  moreover obtain k2 where "remove_infos (handles_where (\<lambda>q i. q = p) (compat r)) (compat r) = Inr k2"
    using remove_infos_without[OF wf(2)] by blast
  moreover have "\<exists>r'. remove_and_close_all h r = Inr r'"
  proof (cases "map_of (handle_lookup (native r)) h")
    case (Some q)
    then obtain i where i: "map_of (file_lookup (native r)) q = Some i" using file_handle[OF wf(1)] by blast
    obtain n3 where "remove_infos (info_handles i) (native r) = Inr n3"
      using remove_infos_without[OF wf(1)] by blast
    then show ?thesis using Some i by (simp add: remove_and_close_all_def info_at_def close_native_handles_eq)
  qed (simp add: remove_and_close_all_def info_at_def)
  moreover have "\<exists>r'. close_all c r = Inr r'" using close_all_ok[OF \<open>remote_wf r\<close>] by blast
  moreover note open_queries[OF wf(1), of h] record_client[OF wf(1), of h c] record_compat_client[OF wf(2), of k c]
  ultimately show ?thesis
    by (simp add: get_open_file_count_def handle_count_card wf remove_open_info_def
        remove_compat_open_info_def remove_all_def with_native_def with_compat_def Let_def)
qed

text \<open>Two clients have opened the same file.\<close>

definition shared_table :: remote_table where
  "shared_table = remote_table_init\<lparr>native := \<lparr>file_lookup = [(''/f'', \<lparr>info_client = ''B'',
    info_handles = [3, 4], info_path = ''/f''\<rparr>)], handle_lookup = [(3, ''/f''), (4, ''/f'')]\<rparr>\<rparr>"

lemma shared_table_steps:
  "\<exists>r1. client_opens ''A'' ''/f'' 3 remote_table_init = Inr r1 \<and>
     client_opens ''B'' ''/f'' 4 r1 = Inr shared_table \<and> remote_steps remote_table_init shared_table"
proof -
  let ?oi = "\<lparr>info_client = [], info_handles = [], info_path = ''/f''\<rparr>"
  define a where "a = set_open_info 3 ?oi remote_table_init"
  define r1 where "r1 = remote_table_init\<lparr>native := \<lparr>file_lookup = [(''/f'', \<lparr>info_client = ''A'',
    info_handles = [3], info_path = ''/f''\<rparr>)], handle_lookup = [(3, ''/f'')]\<rparr>\<rparr>"
  define b where "b = set_open_info 4 ?oi r1"
  note defs = set_client_id_def with_native_def set_open_info_def set_info_def remote_table_init_def
    empty_table_def has_key_def set_client_def Let_def
  have r1: "set_client_id 3 ''A'' a = Inr r1" by (simp add: a_def r1_def defs)
  have r2: "set_client_id 4 ''B'' b = Inr shared_table" by (simp add: b_def r1_def shared_table_def defs)
  have "remote_step remote_table_init a" "remote_step r1 b"
    unfolding a_def b_def by (rule open_native, simp)+
  then have "remote_steps remote_table_init shared_table"
    using r1 r2 client_native by (meson converse_rtranclp_into_rtranclp rtranclp.rtrancl_refl)
  then show ?thesis using r1 r2 by (simp add: client_opens_def a_def b_def)
qed

theorem open_table_invariant_witness:
  "remote_steps remote_table_init shared_table \<and> get_open_file_count ''/f'' shared_table = 2"
proof -
  have s: "remote_steps remote_table_init shared_table" using shared_table_steps by blast
  have "{h. map_of (handle_lookup (native shared_table)) h = Some ''/f''} = {3, 4}"
    "{k. map_of (handle_lookup (compat shared_table)) k = Some ''/f''} = {}"
    by (auto simp: shared_table_def remote_table_init_def empty_table_def split: if_splits)
  then show ?thesis using s open_table_invariant[OF s, of "''/f''"] by simp
qed

text \<open>
  The client of a file is the last one that opened it: when clients A and B have the same
  file open, A's disconnect closes none of its handles, and B's disconnect closes A's handle,
  which A may still use.
\<close>

theorem close_all_other_client:
  "\<exists>r1 ra rb. client_opens ''A'' ''/f'' 3 remote_table_init = Inr r1 \<and>
     client_opens ''B'' ''/f'' 4 r1 = Inr shared_table \<and>
     close_all ''A'' shared_table = Inr ra \<and> closed ra = [] \<and> get_open_info 3 ra \<noteq> None \<and>
     close_all ''B'' shared_table = Inr rb \<and> closed rb = [Close_native 3, Close_native 4] \<and>
     get_open_info 3 rb = None"
proof -
  note defs = close_all_def handles_where_def shared_table_def remote_table_init_def empty_table_def
    Let_def get_open_info_def info_at_def remove_open_info_def with_native_def remove_info_def remove_element_def
  have "close_all ''A'' shared_table = Inr shared_table" by (simp add: defs)
  moreover have "closed shared_table = [] \<and> get_open_info 3 shared_table \<noteq> None" by (simp add: defs)
  moreover have "\<exists>rb. close_all ''B'' shared_table = Inr rb \<and> closed rb = [Close_native 3, Close_native 4] \<and>
      get_open_info 3 rb = None"
    by (simp add: defs)
  ultimately show ?thesis using shared_table_steps by blast
qed

end
