(* ===== verification/Upload_Db.thy ===== *)
theory Upload_Db imports Api_Errors Strings "HOL-Library.Char_ord" "HOL-Library.List_Lexorder" "HOL-Library.RBT" begin

text \<open>
  The database of the file manager (db/i_file_mgr_db.hpp): the queue of pending uploads, the
  uploads that are running, and the state of interrupted downloads.  This theory has the
  interface as a record of operations, the contract both implementations keep as a locale, and
  the RocksDB implementation (db/impl/rdb_file_mgr_db.cpp) over a parameter: RocksDB is not part
  of the repository, so a column family is an abstract type with the operations the code calls,
  and \<open>column_family\<close> states what their documentation says.
\<close>

section \<open>The interface\<close>

record resume_entry =
  resume_path :: string
  resume_chunk_size :: nat
  resume_read_state :: "bool list"
  resume_source :: string

type_synonym upload_entry = "string \<times> string"     \<comment> \<open>api path and source path\<close>

record 'd mgr_db =
  add_resume :: "resume_entry \<Rightarrow> 'd \<Rightarrow> bool \<times> 'd"
  add_upload :: "upload_entry \<Rightarrow> 'd \<Rightarrow> bool \<times> 'd"
  add_upload_active :: "upload_entry \<Rightarrow> 'd \<Rightarrow> bool \<times> 'd"
  clear_db :: "'d \<Rightarrow> 'd"
  get_next_upload :: "'d \<Rightarrow> upload_entry option"
  get_resume_list :: "'d \<Rightarrow> exn + resume_entry list"
  get_upload :: "string \<Rightarrow> 'd \<Rightarrow> upload_entry option"
  get_upload_active_list :: "'d \<Rightarrow> upload_entry list"
  remove_resume :: "string \<Rightarrow> 'd \<Rightarrow> bool \<times> 'd"
  remove_upload :: "string \<Rightarrow> 'd \<Rightarrow> bool \<times> 'd"
  remove_upload_active :: "string \<Rightarrow> 'd \<Rightarrow> bool \<times> 'd"
  rename_resume :: "string \<Rightarrow> string \<Rightarrow> 'd \<Rightarrow> (exn + bool) \<times> 'd"

section \<open>RocksDB\<close>

record ('c, 'v) kv_ops =
  kv_put :: "string \<Rightarrow> 'v \<Rightarrow> 'c \<Rightarrow> 'c"
  kv_delete :: "string \<Rightarrow> 'c \<Rightarrow> 'c"
  kv_get :: "string \<Rightarrow> 'c \<Rightarrow> 'v option"
  kv_list :: "'c \<Rightarrow> (string \<times> 'v) list"          \<comment> \<open>what an iterator from \<open>SeekToFirst\<close> visits\<close>
  kv_empty :: 'c

text \<open>
  The value of a resume entry is a JSON text; its printer and parser, with the serialisation of
  the bit set, are Boost's and nlohmann's, so they are a parameter as well.
\<close>

record codec =
  dump_resume :: "nat \<times> bool list \<times> string \<Rightarrow> string"
  parse_resume :: "string \<Rightarrow> (nat \<times> bool list \<times> string) option"

record 'c rdb =
  resume_family :: 'c
  upload_active_family :: 'c
  upload_family :: 'c
  upload_id :: nat
  outcomes :: "bool list"        \<comment> \<open>the outcome of the coming database actions; past its end all succeed\<close>

definition perform_action :: "('c rdb \<Rightarrow> 'c rdb) \<Rightarrow> 'c rdb \<Rightarrow> bool \<times> 'c rdb" where
  "perform_action action r =
    (case outcomes r of
       [] \<Rightarrow> (True, action r)
     | ok # rest \<Rightarrow>
         let r = r\<lparr>outcomes := rest\<rparr> in if ok then (True, action r) else (False, r))"

definition bar :: char where
  "bar = CHR ''|''"

definition upload_key :: "nat \<Rightarrow> string \<Rightarrow> string" where
  "upload_key n p = (case zero_pad (decimal n) 20 of None \<Rightarrow> [] | Some s \<Rightarrow> s) @ bar # p"

definition key_path :: "string \<Rightarrow> string" where
  "key_path k = join bar (tl (split_string k bar False))"

definition rdb_open :: "('c, string) kv_ops \<Rightarrow> bool \<Rightarrow> 'c rdb \<Rightarrow> 'c rdb" where
  "rdb_open kv clear r =
    (if clear then r\<lparr>resume_family := kv_empty kv, upload_active_family := kv_empty kv, upload_family := kv_empty kv\<rparr>
     else r)"

text \<open>A database that is opened again: the families are there, \<open>id_\<close> starts at 0.\<close>

definition rdb_reopen :: "'c rdb \<Rightarrow> 'c rdb" where
  "rdb_reopen r = r\<lparr>upload_id := 0\<rparr>"

definition rdb_add_resume :: "('c, string) kv_ops \<Rightarrow> codec \<Rightarrow> resume_entry \<Rightarrow> 'c rdb \<Rightarrow> bool \<times> 'c rdb" where
  "rdb_add_resume kv cd e =
    perform_action (\<lambda>r. r\<lparr>resume_family := kv_put kv (resume_path e)
      (dump_resume cd (resume_chunk_size e, resume_read_state e, resume_source e)) (resume_family r)\<rparr>)"

definition rdb_add_upload :: "('c, string) kv_ops \<Rightarrow> upload_entry \<Rightarrow> 'c rdb \<Rightarrow> bool \<times> 'c rdb" where
  "rdb_add_upload kv e r =
    (let r = r\<lparr>upload_id := add64 (upload_id r) 1\<rparr>
     in perform_action (\<lambda>r. r\<lparr>upload_family := kv_put kv (upload_key (upload_id r) (fst e)) (snd e) (upload_family r)\<rparr>) r)"

definition rdb_add_upload_active :: "('c, string) kv_ops \<Rightarrow> upload_entry \<Rightarrow> 'c rdb \<Rightarrow> bool \<times> 'c rdb" where
  "rdb_add_upload_active kv e =
    perform_action (\<lambda>r. r\<lparr>upload_active_family := kv_put kv (fst e) (snd e) (upload_active_family r)\<rparr>)"

definition rdb_get_next_upload :: "('c, string) kv_ops \<Rightarrow> 'c rdb \<Rightarrow> upload_entry option" where
  "rdb_get_next_upload kv r =
    (case kv_list kv (upload_family r) of [] \<Rightarrow> None | (k, v) # _ \<Rightarrow> Some (key_path k, v))"

text \<open>A value that does not parse is an exception.\<close>

fun rdb_resume_entries :: "codec \<Rightarrow> (string \<times> string) list \<Rightarrow> exn + resume_entry list" where
  "rdb_resume_entries cd [] = Inr []"
| "rdb_resume_entries cd ((k, v) # es) =
    (case parse_resume cd v of
       None \<Rightarrow> Inl bad_json
     | Some (n, bits, src) \<Rightarrow>
         (case rdb_resume_entries cd es of
            Inl e \<Rightarrow> Inl e
          | Inr l \<Rightarrow> Inr (\<lparr>resume_path = k, resume_chunk_size = n, resume_read_state = bits,
                            resume_source = src\<rparr> # l)))"

definition rdb_get_resume_list :: "('c, string) kv_ops \<Rightarrow> codec \<Rightarrow> 'c rdb \<Rightarrow> exn + resume_entry list" where
  "rdb_get_resume_list kv cd r = rdb_resume_entries cd (kv_list kv (resume_family r))"

definition rdb_find_upload :: "('c, string) kv_ops \<Rightarrow> string \<Rightarrow> 'c rdb \<Rightarrow> (string \<times> string) option" where
  "rdb_find_upload kv p r = List.find (\<lambda>(k, v). p = key_path k) (kv_list kv (upload_family r))"

definition rdb_get_upload :: "('c, string) kv_ops \<Rightarrow> string \<Rightarrow> 'c rdb \<Rightarrow> upload_entry option" where
  "rdb_get_upload kv p r = map_option (\<lambda>(k, v). (p, v)) (rdb_find_upload kv p r)"

definition rdb_get_upload_active_list :: "('c, string) kv_ops \<Rightarrow> 'c rdb \<Rightarrow> upload_entry list" where
  "rdb_get_upload_active_list kv r = kv_list kv (upload_active_family r)"

definition rdb_remove_resume :: "('c, string) kv_ops \<Rightarrow> string \<Rightarrow> 'c rdb \<Rightarrow> bool \<times> 'c rdb" where
  "rdb_remove_resume kv p =
    perform_action (\<lambda>r. r\<lparr>resume_family := kv_delete kv p (resume_family r)\<rparr>)"

definition rdb_remove_upload :: "('c, string) kv_ops \<Rightarrow> string \<Rightarrow> 'c rdb \<Rightarrow> bool \<times> 'c rdb" where
  "rdb_remove_upload kv p r =
    (case rdb_find_upload kv p r of
       None \<Rightarrow> (True, r)
     | Some (k, v) \<Rightarrow> perform_action (\<lambda>r. r\<lparr>upload_family := kv_delete kv k (upload_family r)\<rparr>) r)"

definition rdb_remove_upload_active :: "('c, string) kv_ops \<Rightarrow> string \<Rightarrow> 'c rdb \<Rightarrow> bool \<times> 'c rdb" where
  "rdb_remove_upload_active kv p =
    perform_action (\<lambda>r. r\<lparr>upload_active_family := kv_delete kv p (upload_active_family r)\<rparr>)"

text \<open>\<open>Get\<close> is an action of its own: it may fail, or find nothing, which is success here.\<close>

definition rdb_rename_resume ::
  "('c, string) kv_ops \<Rightarrow> codec \<Rightarrow> string \<Rightarrow> string \<Rightarrow> 'c rdb \<Rightarrow> (exn + bool) \<times> 'c rdb" where
  "rdb_rename_resume kv cd from to r =
    (case perform_action (\<lambda>r. r) r of
       (False, r) \<Rightarrow> (Inr False, r)
     | (True, r) \<Rightarrow>
         (case kv_get kv from (resume_family r) of
            None \<Rightarrow> (Inr True, r)
          | Some v \<Rightarrow>
              if v = [] then (Inr True, r)
              else
                (case parse_resume cd v of
                   None \<Rightarrow> (Inl bad_json, r)
                 | Some d \<Rightarrow>
                     (case perform_action (\<lambda>r. r\<lparr>resume_family := kv_put kv to (dump_resume cd d)
                                                 (kv_delete kv from (resume_family r))\<rparr>) r of
                        (ok, r) \<Rightarrow> (Inr ok, r)))))"

definition rdb_ops :: "('c, string) kv_ops \<Rightarrow> codec \<Rightarrow> 'c rdb mgr_db" where
  "rdb_ops kv cd = \<lparr>add_resume = rdb_add_resume kv cd, add_upload = rdb_add_upload kv,
    add_upload_active = rdb_add_upload_active kv, clear_db = rdb_open kv True,
    get_next_upload = rdb_get_next_upload kv, get_resume_list = rdb_get_resume_list kv cd,
    get_upload = rdb_get_upload kv, get_upload_active_list = rdb_get_upload_active_list kv,
    remove_resume = rdb_remove_resume kv, remove_upload = rdb_remove_upload kv,
    remove_upload_active = rdb_remove_upload_active kv, rename_resume = rdb_rename_resume kv cd\<rparr>"

section \<open>Keys of the upload queue\<close>

lemma getlines_Nil_iff [simp]: "getlines d acc s = [] \<longleftrightarrow> acc = [] \<and> s = []"
  by (induction d acc s rule: getlines.induct) auto

lemma join_getlines:
  "join d (getlines d acc s) =
    (if s \<noteq> [] \<and> last s = d then rev acc @ butlast s else rev acc @ s)"
proof (induction d acc s rule: getlines.induct)
  case (2 d acc c cs)
  then show ?case
    by (cases "cs = []") (auto simp: join_Cons simp del: join.simps(2), simp)
qed simp

lemma key_path_tail:
  assumes "bar \<notin> set n"
  shows "key_path (n @ bar # p) = (if p \<noteq> [] \<and> last p = bar then butlast p else p)"
  using getlines_acc[OF assms, of "[]" p] join_getlines[of bar "[]" p]
  by (simp add: key_path_def split_string_def)
text \<open>A number in decimal, with zeros in front up to a width.\<close>

primrec digits :: "nat \<Rightarrow> nat \<Rightarrow> string" where
  "digits 0 n = []"
| "digits (Suc w) n = digits w (n div 10) @ [char_of (48 + n mod 10)]"

lemma length_digits [simp]: "length (digits w n) = w"
  by (induction w arbitrary: n) simp_all

lemma char_zero: "char_of (48 :: nat) = CHR ''0''"
  by code_simp

lemma digits_0: "digits w 0 = replicate w (CHR ''0'')"
  by (induction w) (simp_all add: char_zero flip: replicate_append_same)

declare decimal.simps [simp del]

lemma decimal_digits:
  "n < 10 ^ Suc w \<Longrightarrow> length (decimal n) \<le> Suc w \<and>
     replicate (Suc w - length (decimal n)) (CHR ''0'') @ decimal n = digits (Suc w) n"
proof (induction w arbitrary: n)
  case 0
  then show ?case by (simp add: decimal.simps)
next
  case (Suc w)
  show ?case
  proof (cases "n < 10")
    case True
    then have "digits (Suc (Suc w)) n = replicate (Suc w) (CHR ''0'') @ [char_of (48 + n)]"
      by (simp add: digits_0 del: replicate_Suc)
    then show ?thesis using True by (simp add: decimal.simps del: digits.simps)
  next
    case False
    have "n div 10 < 10 ^ Suc w" using Suc.prems by (simp add: less_mult_imp_div_less)
    note IH = Suc.IH[OF this]
    have d: "decimal n = decimal (n div 10) @ [char_of (48 + n mod 10)]"
      using False by (simp add: decimal.simps[of n])
    have "digits (Suc (Suc w)) n = digits (Suc w) (n div 10) @ [char_of (48 + n mod 10)]" by simp
    then show ?thesis using IH by (simp add: d Suc_diff_le del: digits.simps)
  qed
qed

lemma upload_key_digits: "n < 2 ^ 64 \<Longrightarrow> upload_key n p = digits 20 n @ bar # p"
proof -
  assume "n < 2 ^ 64"
  then have n: "n < 10 ^ Suc 19" by simp
  note d = decimal_digits[OF n]
  have "sub64 20 (length (decimal n)) = 20 - length (decimal n)" using d by (intro sub64_exact) auto
  then have "zero_pad (decimal n) 20 = Some (digits 20 n)" using d by (simp add: zero_pad_def Let_def)
  then show ?thesis by (simp add: upload_key_def)
qed

lemma bar_not_in_digits: "bar \<notin> set (digits w n)"
proof (induction w arbitrary: n)
  case (Suc w)
  have "bar \<noteq> char_of (48 + n mod 10)"
  proof
    assume "bar = char_of (48 + n mod 10)"
    then have "of_char bar = (of_char (char_of (48 + n mod 10)) :: nat)" by simp
    then show False by (simp add: bar_def)
  qed
  then show ?case using Suc.IH by simp
qed simp

text \<open>
  What \<open>get_next_upload\<close> and \<open>get_upload\<close> read back from the key of an upload is the path it
  was made from, bars inside included, except that a path that ends in a bar loses it.
\<close>

theorem upload_key_roundtrip:
  assumes "n < 2 ^ 64"
  shows "key_path (upload_key n p) = (if p \<noteq> [] \<and> last p = bar then butlast p else p)"
  using key_path_tail[OF bar_not_in_digits] by (simp add: upload_key_digits[OF assms])

theorem upload_key_roundtrip_witness:
  "key_path (upload_key 7 ''/a|b'') = ''/a|b'' \<and> key_path (upload_key 7 ''/a|'') = ''/a''"
  using upload_key_roundtrip[of 7 "''/a|b''"] upload_key_roundtrip[of 7 "''/a|''"] by (simp add: bar_def)

lemma key_path_upload_key: "n < 2 ^ 64 \<Longrightarrow> p = [] \<or> last p \<noteq> bar \<Longrightarrow> key_path (upload_key n p) = p"
  using key_path_tail[OF bar_not_in_digits] by (auto simp: upload_key_digits)

lemma append_less:
  "length xs = length ys \<Longrightarrow> (xs @ as < ys @ bs) \<longleftrightarrow> xs < ys \<or> xs = ys \<and> as < (bs :: 'a :: order list)"
  by (induction xs ys rule: list_induct2) auto

lemma digit_less: "i < 10 \<Longrightarrow> j < 10 \<Longrightarrow> (char_of (48 + i) :: char) < char_of (48 + j) \<longleftrightarrow> i < (j :: nat)"
  by (simp add: less_char_def)

lemma digits_eq_iff: "m < 10 ^ w \<Longrightarrow> n < 10 ^ w \<Longrightarrow> digits w m = digits w n \<longleftrightarrow> m = n"
proof (induction w arbitrary: m n)
  case (Suc w)
  have "char_of (48 + m mod 10) = (char_of (48 + n mod 10) :: char) \<longleftrightarrow> m mod 10 = n mod 10"
    using digit_less[of "m mod 10" "n mod 10"] digit_less[of "n mod 10" "m mod 10"] by force
  moreover have "m div 10 < 10 ^ w" "n div 10 < 10 ^ w" using Suc.prems by (simp_all add: less_mult_imp_div_less)
  ultimately show ?case using Suc.IH by (auto, metis div_mult_mod_eq)
qed simp

lemma digits_less_iff: "m < 10 ^ w \<Longrightarrow> n < 10 ^ w \<Longrightarrow> digits w m < digits w n \<longleftrightarrow> m < n"
proof (induction w arbitrary: m n)
  case (Suc w)
  have b: "m div 10 < 10 ^ w" "n div 10 < 10 ^ w" using Suc.prems by (simp_all add: less_mult_imp_div_less)
  have "digits (Suc w) m < digits (Suc w) n \<longleftrightarrow>
      m div 10 < n div 10 \<or> m div 10 = n div 10 \<and> m mod 10 < n mod 10"
    by (simp add: append_less Suc.IH[OF b] digits_eq_iff[OF b] digit_less)
  also have "\<dots> \<longleftrightarrow> m < n"
  proof -
    have "m = 10 * (m div 10) + m mod 10" "n = 10 * (n div 10) + n mod 10"
      "m mod 10 < 10" "n mod 10 < 10" by simp_all
    then show ?thesis by linarith
  qed
  finally show ?case .
qed simp

lemma upload_key_less:
  assumes "m < n" "n < 2 ^ 64"
  shows "upload_key m p < upload_key n q"
proof -
  have "m < 10 ^ 20" "n < 10 ^ 20" "m < 2 ^ 64" using assms by auto
  then show ?thesis
    using assms by (simp add: upload_key_digits append_less digits_less_iff del: digits.simps)
qed
section \<open>The documented behaviour of a column family\<close>

text \<open>Iterators visit the keys in byte order; a put replaces, a delete removes.\<close>

locale column_family =
  fixes kv :: "('c, 'v) kv_ops"
  assumes list_sorted: "sorted_wrt (<) (map fst (kv_list kv c))"
    and get_list: "kv_get kv k c = map_of (kv_list kv c) k"
    and list_put: "map_of (kv_list kv (kv_put kv k v c)) = (map_of (kv_list kv c))(k \<mapsto> v)"
    and list_delete: "map_of (kv_list kv (kv_delete kv k c)) = (map_of (kv_list kv c))(k := None)"
    and list_empty: "kv_list kv (kv_empty kv) = []"

text \<open>An instance: red-black trees.\<close>

definition rbt_kv :: "((string, 'v) rbt, 'v) kv_ops" where
  "rbt_kv = \<lparr>kv_put = RBT.insert, kv_delete = RBT.delete, kv_get = (\<lambda>k c. RBT.lookup c k),
    kv_list = RBT.entries, kv_empty = RBT.empty\<rparr>"

interpretation rbt: column_family rbt_kv
proof
  fix c :: "(string, 'v) rbt" and k v
  have "sorted (map fst (RBT.entries c))" "distinct (map fst (RBT.entries c))"
    by (rule RBT.sorted_entries RBT.distinct_entries)+
  then show "sorted_wrt (<) (map fst (kv_list rbt_kv c))"
    by (simp add: rbt_kv_def strict_sorted_iff)
  show "kv_list (rbt_kv :: ((string, 'v) rbt, 'v) kv_ops) (kv_empty rbt_kv) = []"
    by (simp add: rbt_kv_def RBT.entries.rep_eq RBT.empty.rep_eq)
qed (simp_all add: rbt_kv_def RBT.map_of_entries)

lemma sorted_keys_unique:
  fixes xs ys :: "('k :: linorder \<times> 'v) list"
  assumes "sorted_wrt (<) (map fst xs)" "sorted_wrt (<) (map fst ys)" "map_of xs = map_of ys"
  shows "xs = ys"
proof -
  have d: "distinct (map fst xs)" "distinct (map fst ys)" "sorted (map fst xs)" "sorted (map fst ys)"
    using assms strict_sorted_iff by blast+
  have "set (map fst xs) = set (map fst ys)"
    using assms(3) by (metis dom_map_of_conv_image_fst list.set_map)
  then have k: "map fst xs = map fst ys" using d by (intro sorted_distinct_set_unique) auto
  have e: "zs = map (\<lambda>k. (k, the (map_of zs k))) (map fst zs)" if "distinct (map fst zs)" for zs :: "('k \<times> 'v) list"
    unfolding map_map o_def using that by (intro sym[OF map_idI]) auto
  show ?thesis using e[OF d(1)] e[OF d(2)] k assms(3) by simp
qed

context column_family begin

lemma list_distinct: "distinct (map fst (kv_list kv c))"
  using list_sorted strict_sorted_iff by blast

lemma list_delete_eq: "kv_list kv (kv_delete kv k c) = filter (\<lambda>e. fst e \<noteq> k) (kv_list kv c)"
proof (rule sorted_keys_unique)
  show "sorted_wrt (<) (map fst (filter (\<lambda>e. fst e \<noteq> k) (kv_list kv c)))"
    using list_sorted[of c] by (simp add: sorted_wrt_map sorted_wrt_filter)
  have "map_of (filter (\<lambda>e. fst e \<noteq> k) xs) = (map_of xs)(k := None)" for xs :: "(string \<times> 'v) list"
    by (induction xs) (auto simp: fun_eq_iff)
  then show "map_of (kv_list kv (kv_delete kv k c)) = map_of (filter (\<lambda>e. fst e \<noteq> k) (kv_list kv c))"
    by (simp add: list_delete)
qed (rule list_sorted)

lemma list_put_last:
  assumes "\<And>k'. k' \<in> set (map fst (kv_list kv c)) \<Longrightarrow> k' < k"
  shows "kv_list kv (kv_put kv k v c) = kv_list kv c @ [(k, v)]"
proof (rule sorted_keys_unique)
  show "sorted_wrt (<) (map fst (kv_list kv c @ [(k, v)]))"
    using list_sorted[of c] assms by (simp add: sorted_wrt_append)
  have "k \<notin> dom (map_of (kv_list kv c))"
    using assms by (auto simp: dom_map_of_conv_image_fst)
  then show "map_of (kv_list kv (kv_put kv k v c)) = map_of (kv_list kv c @ [(k, v)])"
    by (auto simp: list_put map_add_def fun_eq_iff split: option.split)
qed (rule list_sorted)

lemma list_put_first:
  assumes "\<And>k'. k' \<in> set (map fst (kv_list kv c)) \<Longrightarrow> k < k'"
  shows "kv_list kv (kv_put kv k v c) = (k, v) # kv_list kv c"
proof (rule sorted_keys_unique)
  show "sorted_wrt (<) (map fst ((k, v) # kv_list kv c))" using list_sorted[of c] assms by simp
qed (simp_all add: list_put list_sorted)

end

section \<open>The contract of the database\<close>

text \<open>
  What the file manager may rely on: the uploads are a queue, the active uploads and the resume
  states are maps, a failing operation changes nothing.  \<open>path_ok\<close> are the paths the
  implementation stores faithfully, \<open>full\<close> the states in which it cannot number another upload.
  An upload may only be added for a path that is not queued, and where a resume state is renamed
  onto another the implementations differ: one replaces it, the other refuses.
\<close>

type_synonym resume_data = "nat \<times> bool list \<times> string"

definition moved :: "('a \<rightharpoonup> 'b) \<Rightarrow> 'a \<Rightarrow> 'a \<Rightarrow> 'a \<rightharpoonup> 'b" where
  "moved m from to = (case m from of None \<Rightarrow> m | Some x \<Rightarrow> (m(from := None))(to \<mapsto> x))"

locale file_mgr_db =
  fixes db :: "'d mgr_db" and good :: "'d \<Rightarrow> bool" and full :: "'d \<Rightarrow> bool"
    and path_ok :: "string \<Rightarrow> bool"
    and uploads :: "'d \<Rightarrow> upload_entry list" and active :: "'d \<Rightarrow> string \<Rightarrow> string option"
    and resume :: "'d \<Rightarrow> string \<Rightarrow> resume_data option"
  assumes paths_distinct: "good d \<Longrightarrow> distinct (map fst (uploads d))"
    and next_law: "good d \<Longrightarrow>
      get_next_upload db d = (case uploads d of [] \<Rightarrow> None | e # _ \<Rightarrow> Some e)"
    and get_law: "good d \<Longrightarrow> path_ok p \<Longrightarrow>
      get_upload db p d = map_option (Pair p) (map_of (uploads d) p)"
    and active_law: "good d \<Longrightarrow> map_of (get_upload_active_list db d) = active d"
    and resume_law: "good d \<Longrightarrow> \<exists>l. get_resume_list db d = Inr l \<and>
      resume d = map_of (map (\<lambda>e. (resume_path e, resume_chunk_size e, resume_read_state e, resume_source e)) l)"
    and add_upload_law: "good d \<Longrightarrow> \<not> full d \<Longrightarrow> path_ok p \<Longrightarrow> p \<notin> fst ` set (uploads d) \<Longrightarrow>
      add_upload db (p, src) d = (ok, d') \<Longrightarrow>
      good d' \<and> uploads d' = (if ok then uploads d @ [(p, src)] else uploads d) \<and>
      active d' = active d \<and> resume d' = resume d"
    and remove_upload_law: "good d \<Longrightarrow> path_ok p \<Longrightarrow> remove_upload db p d = (ok, d') \<Longrightarrow>
      good d' \<and> uploads d' = (if ok then filter (\<lambda>e. fst e \<noteq> p) (uploads d) else uploads d) \<and>
      active d' = active d \<and> resume d' = resume d \<and> (full d' \<longrightarrow> full d)"
    and add_active_law: "good d \<Longrightarrow> add_upload_active db (p, src) d = (ok, d') \<Longrightarrow>
      good d' \<and> active d' = (if ok then (active d)(p \<mapsto> src) else active d) \<and>
      uploads d' = uploads d \<and> resume d' = resume d \<and> (full d' \<longrightarrow> full d)"
    and remove_active_law: "good d \<Longrightarrow> remove_upload_active db p d = (ok, d') \<Longrightarrow>
      good d' \<and> active d' = (if ok then (active d)(p := None) else active d) \<and>
      uploads d' = uploads d \<and> resume d' = resume d \<and> (full d' \<longrightarrow> full d)"
    and add_resume_law: "good d \<Longrightarrow> resume_chunk_size e < 2 ^ 64 \<Longrightarrow> add_resume db e d = (ok, d') \<Longrightarrow>
      good d' \<and> resume d' = (if ok then (resume d)(resume_path e \<mapsto>
        (resume_chunk_size e, resume_read_state e, resume_source e)) else resume d) \<and>
      uploads d' = uploads d \<and> active d' = active d \<and> (full d' \<longrightarrow> full d)"
    and remove_resume_law: "good d \<Longrightarrow> remove_resume db p d = (ok, d') \<Longrightarrow>
      good d' \<and> resume d' = (if ok then (resume d)(p := None) else resume d) \<and>
      uploads d' = uploads d \<and> active d' = active d \<and> (full d' \<longrightarrow> full d)"
    and rename_resume_law: "good d \<Longrightarrow> rename_resume db from to d = (res, d') \<Longrightarrow>
      good d' \<and> resume d' = (if res = Inr True then moved (resume d) from to else resume d) \<and>
      uploads d' = uploads d \<and> active d' = active d \<and> (full d' \<longrightarrow> full d)"
    and clear_law: "good d \<Longrightarrow> good (clear_db db d) \<and>
      (uploads (clear_db db d) = [] \<or> uploads (clear_db db d) = uploads d)"
section \<open>RocksDB keeps the contract\<close>

definition rdb_path_ok :: "string \<Rightarrow> bool" where
  "rdb_path_ok p \<longleftrightarrow> p = [] \<or> last p \<noteq> bar"

definition rdb_uploads :: "('c, string) kv_ops \<Rightarrow> 'c rdb \<Rightarrow> upload_entry list" where
  "rdb_uploads kv r = map (\<lambda>(k, v). (key_path k, v)) (kv_list kv (upload_family r))"

definition rdb_active :: "('c, string) kv_ops \<Rightarrow> 'c rdb \<Rightarrow> string \<Rightarrow> string option" where
  "rdb_active kv r = map_of (kv_list kv (upload_active_family r))"

definition rdb_resume :: "('c, string) kv_ops \<Rightarrow> codec \<Rightarrow> 'c rdb \<Rightarrow> string \<Rightarrow> resume_data option" where
  "rdb_resume kv cd r p = (case map_of (kv_list kv (resume_family r)) p of None \<Rightarrow> None | Some v \<Rightarrow> parse_resume cd v)"

text \<open>Every queued key was made by \<open>add_upload\<close> from a number \<open>id_\<close> has passed.\<close>

definition resume_ok :: "('c, string) kv_ops \<Rightarrow> codec \<Rightarrow> 'c \<Rightarrow> bool" where
  "resume_ok kv cd c \<longleftrightarrow>
    (\<forall>k v. map_of (kv_list kv c) k = Some v \<longrightarrow> v \<noteq> [] \<and> parse_resume cd v \<noteq> None)"

definition rdb_good :: "('c, string) kv_ops \<Rightarrow> codec \<Rightarrow> 'c rdb \<Rightarrow> bool" where
  "rdb_good kv cd r \<longleftrightarrow> upload_id r < 2 ^ 64 \<and>
    (\<forall>k \<in> fst ` set (kv_list kv (upload_family r)). \<exists>n p. k = upload_key n p \<and> n \<le> upload_id r \<and> rdb_path_ok p) \<and>
    distinct (map fst (rdb_uploads kv r)) \<and>
    resume_ok kv cd (resume_family r)"

definition rdb_full :: "'c rdb \<Rightarrow> bool" where
  "rdb_full r \<longleftrightarrow> upload_id r + 1 \<ge> 2 ^ 64"

lemma perform_action_cases:
  assumes "perform_action f r = (ok, r')"
  obtains (succeeded) os where "ok" "r' = f (r\<lparr>outcomes := os\<rparr>)"
  | (failed) os where "\<not> ok" "r' = r\<lparr>outcomes := os\<rparr>"
proof (cases "outcomes r")
  case Nil
  then have "r\<lparr>outcomes := []\<rparr> = r" by (cases r) simp
  then show ?thesis using Nil assms succeeded[of "[]"] \<open>r\<lparr>outcomes := []\<rparr> = r\<close> by (simp add: perform_action_def)
next
  case (Cons b os)
  then show ?thesis
    using assms succeeded[of os] failed[of os] by (cases b) (auto simp: perform_action_def)
qed

definition codec_ok :: "codec \<Rightarrow> bool" where
  "codec_ok cd \<longleftrightarrow> (\<forall>x. parse_resume cd (dump_resume cd x) = Some x \<and> dump_resume cd x \<noteq> [])"

locale rdb_store = column_family kv for kv :: "('c, string) kv_ops" +
  fixes cd :: codec
  assumes codec: "codec_ok cd"
begin

lemma key_path_key: "n < 2 ^ 64 \<Longrightarrow> rdb_path_ok p \<Longrightarrow> key_path (upload_key n p) = p"
  using key_path_upload_key by (simp add: rdb_path_ok_def)

lemma find_upload_iff:
  "rdb_find_upload kv p r = Some (k, v) \<Longrightarrow> (k, v) \<in> set (kv_list kv (upload_family r)) \<and> key_path k = p"
  by (auto simp: rdb_find_upload_def find_Some_iff) (metis nth_mem)

lemma get_upload_map_of: "map_option (\<lambda>(k, v). (p, v)) (List.find (\<lambda>(k, v). p = key_path k) xs)
    = map_option (Pair p) (map_of (map (\<lambda>(k, v). (key_path k, v)) xs) p)"
  by (induction xs) auto

lemma delete_upload:
  assumes "distinct (map fst (map (\<lambda>(k, v). (key_path k, v)) xs))" "(k, v) \<in> set xs"
  shows "map (\<lambda>(k, v). (key_path k, v)) (filter (\<lambda>e. fst e \<noteq> k) xs)
    = filter (\<lambda>e. fst e \<noteq> key_path k) (map (\<lambda>(k, v). (key_path k, v)) xs)"
proof -
  have "fst e \<noteq> k \<longleftrightarrow> key_path (fst e) \<noteq> key_path k" if "e \<in> set xs" for e
    using assms that by (force simp: distinct_map inj_on_def split_beta)
  then show ?thesis
    by (induction xs) (auto simp: filter_map o_def split_beta cong: filter_cong)
qed

lemma good_outcomes [simp]: "rdb_good kv cd (r\<lparr>outcomes := os\<rparr>) = rdb_good kv cd r"
  "rdb_uploads kv (r\<lparr>outcomes := os\<rparr>) = rdb_uploads kv r" "rdb_active kv (r\<lparr>outcomes := os\<rparr>) = rdb_active kv r"
  "rdb_resume kv cd (r\<lparr>outcomes := os\<rparr>) = rdb_resume kv cd r" "rdb_full (r\<lparr>outcomes := os\<rparr>) = rdb_full r"
  by (simp_all add: rdb_good_def rdb_uploads_def rdb_active_def rdb_resume_def rdb_full_def fun_eq_iff)

lemma codec_laws [simp]: "parse_resume cd (dump_resume cd x) = Some x" "dump_resume cd x \<noteq> []"
  using codec unfolding codec_ok_def by blast+

lemma resume_update:
  assumes "resume_ok kv cd c"
  shows "resume_ok kv cd (kv_put kv p (dump_resume cd x) c)" "resume_ok kv cd (kv_delete kv p c)"
proof -
  have old: "v \<noteq> [] \<and> parse_resume cd v \<noteq> None" if "map_of (kv_list kv c) k = Some v" for k v
    using assms that unfolding resume_ok_def by blast
  show "resume_ok kv cd (kv_put kv p (dump_resume cd x) c)"
    unfolding resume_ok_def list_put
  proof (intro allI impI)
    fix k v assume "((map_of (kv_list kv c))(p \<mapsto> dump_resume cd x)) k = Some v"
    then consider "v = dump_resume cd x" | "map_of (kv_list kv c) k = Some v"
      by (cases "k = p") simp_all
    then show "v \<noteq> [] \<and> parse_resume cd v \<noteq> None"
    proof cases
      case 1
      then show ?thesis using codec_laws(2) by (simp only: codec_laws(1)) blast
    qed (rule old)
  qed
  show "resume_ok kv cd (kv_delete kv p c)"
    unfolding resume_ok_def list_delete
  proof (intro allI impI)
    fix k v assume "((map_of (kv_list kv c))(p := None)) k = Some v"
    then have "map_of (kv_list kv c) k = Some v" by (cases "k = p") simp_all
    then show "v \<noteq> [] \<and> parse_resume cd v \<noteq> None" by (rule old)
  qed
qed

lemma good_upload_id:
  assumes "rdb_good kv cd r" "upload_id r \<le> n" "n < 2 ^ 64"
  shows "rdb_good kv cd (r\<lparr>upload_id := n\<rparr>)"
proof -
  have "\<exists>m p. k = upload_key m p \<and> m \<le> n \<and> rdb_path_ok p"
    if kk: "k \<in> fst ` set (kv_list kv (upload_family r))" for k
  proof -
    obtain m p where "k = upload_key m p" "m \<le> upload_id r" "rdb_path_ok p"
      using assms(1) kk unfolding rdb_good_def by blast
    then show ?thesis using assms(2) by (intro exI[of _ m] exI[of _ p]) simp
  qed
  then show ?thesis using assms unfolding rdb_good_def rdb_uploads_def by simp
qed

lemma put_resume:
  assumes "rdb_good kv cd r"
  shows "rdb_good kv cd (r\<lparr>resume_family := kv_put kv p (dump_resume cd x) (resume_family r)\<rparr>)"
    and "rdb_resume kv cd (r\<lparr>resume_family := kv_put kv p (dump_resume cd x) (resume_family r)\<rparr>)
      = (rdb_resume kv cd r)(p \<mapsto> x)"
  using assms resume_update(1)[of "resume_family r" p x]
  by (simp_all add: rdb_good_def rdb_uploads_def rdb_resume_def list_put fun_eq_iff)

lemma delete_resume:
  assumes "rdb_good kv cd r"
  shows "rdb_good kv cd (r\<lparr>resume_family := kv_delete kv p (resume_family r)\<rparr>)"
    and "rdb_resume kv cd (r\<lparr>resume_family := kv_delete kv p (resume_family r)\<rparr>)
      = (rdb_resume kv cd r)(p := None)"
  using assms resume_update(2)[of "resume_family r" p]
  by (simp_all add: rdb_good_def rdb_uploads_def rdb_resume_def list_delete fun_eq_iff)

lemma put_upload:
  assumes g: "rdb_good kv cd r" and n: "\<not> rdb_full r" and p: "rdb_path_ok p" "p \<notin> fst ` set (rdb_uploads kv r)"
    and r': "r' = r\<lparr>upload_id := upload_id r + 1,
      upload_family := kv_put kv (upload_key (upload_id r + 1) p) v (upload_family r)\<rparr>"
  shows "rdb_good kv cd r'" "rdb_uploads kv r' = rdb_uploads kv r @ [(p, v)]"
proof -
  have id: "upload_id r + 1 < 2 ^ 64" using n by (simp add: rdb_full_def)
  have "k < upload_key (upload_id r + 1) p" if "k \<in> set (map fst (kv_list kv (upload_family r)))" for k
  proof -
    have "k \<in> fst ` set (kv_list kv (upload_family r))" using that by simp
    then obtain m q where "k = upload_key m q" "m \<le> upload_id r"
      using g unfolding rdb_good_def by blast
    then show ?thesis using upload_key_less[of m "upload_id r + 1" q p] id by simp
  qed
  then have "kv_list kv (kv_put kv (upload_key (upload_id r + 1) p) v (upload_family r))
      = kv_list kv (upload_family r) @ [(upload_key (upload_id r + 1) p, v)]"
    by (rule list_put_last)
  then have l: "kv_list kv (upload_family r') = kv_list kv (upload_family r) @ [(upload_key (upload_id r + 1) p, v)]"
    by (simp add: r')
  show u: "rdb_uploads kv r' = rdb_uploads kv r @ [(p, v)]"
    using key_path_key[OF id p(1)] by (simp add: rdb_uploads_def l)
  have keys: "\<exists>n q. k = upload_key n q \<and> n \<le> upload_id r + 1 \<and> rdb_path_ok q"
    if "k \<in> fst ` set (kv_list kv (upload_family r'))" for k
  proof (cases "k = upload_key (upload_id r + 1) p")
    case True
    then show ?thesis using p(1) by blast
  next
    case False
    then have "k \<in> fst ` set (kv_list kv (upload_family r))" using that l by auto
    then obtain m q where "k = upload_key m q" "m \<le> upload_id r" "rdb_path_ok q"
      using g unfolding rdb_good_def by blast
    then show ?thesis by (intro exI[of _ m] exI[of _ q]) simp
  qed
  have "distinct (map fst (rdb_uploads kv r'))" using g p(2) by (simp add: u rdb_good_def)
  then show "rdb_good kv cd r'"
    using g id keys unfolding rdb_good_def by (simp add: r')
qed

lemma drop_upload:
  assumes g: "rdb_good kv cd r" and k: "(k, v) \<in> set (kv_list kv (upload_family r))"
    and r': "r' = r\<lparr>upload_family := kv_delete kv k (upload_family r)\<rparr>"
  shows "rdb_good kv cd r'" "rdb_uploads kv r' = filter (\<lambda>e. fst e \<noteq> key_path k) (rdb_uploads kv r)"
proof -
  have d: "distinct (map fst (rdb_uploads kv r))" using g by (simp add: rdb_good_def)
  show u: "rdb_uploads kv r' = filter (\<lambda>e. fst e \<noteq> key_path k) (rdb_uploads kv r)"
    using delete_upload[OF d[unfolded rdb_uploads_def] k] by (simp add: rdb_uploads_def r' list_delete_eq)
  have "distinct (map fst (rdb_uploads kv r'))" using d by (simp add: u distinct_map_filter)
  then show "rdb_good kv cd r'"
    using g unfolding rdb_good_def by (auto simp: r' list_delete_eq)
qed

lemma remove_upload_ok:
  assumes g: "rdb_good kv cd r" and rm: "rdb_remove_upload kv p r = (ok, r')"
  shows "rdb_good kv cd r' \<and>
    rdb_uploads kv r' = (if ok then filter (\<lambda>e. fst e \<noteq> p) (rdb_uploads kv r) else rdb_uploads kv r) \<and>
    rdb_active kv r' = rdb_active kv r \<and> rdb_resume kv cd r' = rdb_resume kv cd r \<and> (rdb_full r' \<longrightarrow> rdb_full r)"
proof (cases "rdb_find_upload kv p r")
  case None
  have r: "ok" "r' = r" using rm None by (simp_all add: rdb_remove_upload_def)
  have "\<forall>e \<in> set (rdb_uploads kv r). fst e \<noteq> p"
    using None unfolding rdb_find_upload_def find_None_iff by (auto simp: rdb_uploads_def)
  then have "filter (\<lambda>e. fst e \<noteq> p) (rdb_uploads kv r) = rdb_uploads kv r" by (simp add: filter_id_conv)
  then show ?thesis using r g by simp
next
  case (Some e)
  obtain k v where e: "e = (k, v)" by (cases e)
  have k: "(k, v) \<in> set (kv_list kv (upload_family r))" "key_path k = p"
    using find_upload_iff Some e by blast+
  have "perform_action (\<lambda>r. r\<lparr>upload_family := kv_delete kv k (upload_family r)\<rparr>) r = (ok, r')"
    using rm Some e by (simp add: rdb_remove_upload_def)
  then show ?thesis
  proof (cases rule: perform_action_cases)
    case (succeeded os)
    have g': "rdb_good kv cd (r\<lparr>outcomes := os\<rparr>)" using g by simp
    show ?thesis
      using drop_upload[OF g', of k v r'] k succeeded
      by (simp add: rdb_active_def rdb_resume_def rdb_full_def fun_eq_iff)
  next
    case (failed os)
    then show ?thesis using g by simp
  qed
qed

lemma add_upload_ok:
  assumes g: "rdb_good kv cd r" "\<not> rdb_full r" "rdb_path_ok p" "p \<notin> fst ` set (rdb_uploads kv r)"
    and ad: "rdb_add_upload kv (p, src) r = (ok, r')"
  shows "rdb_good kv cd r' \<and>
    rdb_uploads kv r' = (if ok then rdb_uploads kv r @ [(p, src)] else rdb_uploads kv r) \<and>
    rdb_active kv r' = rdb_active kv r \<and> rdb_resume kv cd r' = rdb_resume kv cd r"
proof -
  have id: "add64 (upload_id r) 1 = upload_id r + 1" using g(2) by (simp add: add64_exact rdb_full_def)
  let ?r1 = "r\<lparr>upload_id := upload_id r + 1\<rparr>"
  have "perform_action (\<lambda>r. r\<lparr>upload_family := kv_put kv (upload_key (upload_id r) p) src (upload_family r)\<rparr>) ?r1 = (ok, r')"
    using ad by (simp only: rdb_add_upload_def id Let_def fst_conv snd_conv)
  then show ?thesis
  proof (cases rule: perform_action_cases)
    case (succeeded os)
    have g': "rdb_good kv cd (r\<lparr>outcomes := os\<rparr>)" "\<not> rdb_full (r\<lparr>outcomes := os\<rparr>)"
      "p \<notin> fst ` set (rdb_uploads kv (r\<lparr>outcomes := os\<rparr>))" using g by simp_all
    show ?thesis
      using put_upload[OF g'(1,2) g(3) g'(3), of r' src] succeeded
      by (simp add: rdb_active_def rdb_resume_def fun_eq_iff)
  next
    case (failed os)
    have "rdb_good kv cd r'" using good_upload_id[OF g(1), of "upload_id r + 1"] g(2) failed by (simp add: rdb_full_def)
    then show ?thesis using failed by (simp add: rdb_uploads_def rdb_active_def rdb_resume_def fun_eq_iff)
  qed
qed

lemma resume_entries_ok:
  "\<forall>e \<in> set es. parse_resume cd (snd e) \<noteq> None \<Longrightarrow>
    \<exists>l. rdb_resume_entries cd es = Inr l \<and>
      map_of (map (\<lambda>e. (resume_path e, resume_chunk_size e, resume_read_state e, resume_source e)) l)
        = (\<lambda>p. case map_of es p of None \<Rightarrow> None | Some v \<Rightarrow> parse_resume cd v)"
proof (induction es)
  case (Cons e es)
  obtain k v where e: "e = (k, v)" by (cases e)
  obtain n bits src where v: "parse_resume cd v = Some (n, bits, src)"
    using Cons.prems e by auto
  obtain l where "rdb_resume_entries cd es = Inr l"
    "map_of (map (\<lambda>e. (resume_path e, resume_chunk_size e, resume_read_state e, resume_source e)) l)
      = (\<lambda>p. case map_of es p of None \<Rightarrow> None | Some v \<Rightarrow> parse_resume cd v)"
    using Cons.IH Cons.prems by auto
  then show ?case using e v by (simp add: fun_eq_iff)
qed simp

lemma rename_resume_ok:
  assumes g: "rdb_good kv cd r" and rn: "rdb_rename_resume kv cd from to r = (res, r')"
  shows "rdb_good kv cd r' \<and>
    rdb_resume kv cd r' = (if res = Inr True then moved (rdb_resume kv cd r) from to else rdb_resume kv cd r) \<and>
    rdb_uploads kv r' = rdb_uploads kv r \<and> rdb_active kv r' = rdb_active kv r \<and> (rdb_full r' \<longrightarrow> rdb_full r)"
proof -
  obtain ok1 r1 where r1: "perform_action (\<lambda>r. r) r = (ok1, r1)" by (cases "perform_action (\<lambda>r. r) r")
  then obtain os where os: "r1 = r\<lparr>outcomes := os\<rparr>" by (cases rule: perform_action_cases) auto
  show ?thesis
  proof (cases "ok1")
    case False
    then have "res = Inr False" "r' = r1" using rn r1 by (simp_all add: rdb_rename_resume_def)
    then show ?thesis using os g by simp
  next
    case ok: True
    show ?thesis
    proof (cases "kv_get kv from (resume_family r)")
      case None
      then have "rdb_resume kv cd r from = None" by (simp add: rdb_resume_def get_list)
      moreover have "res = Inr True" "r' = r1"
        using rn r1 os ok None by (simp_all add: rdb_rename_resume_def)
      ultimately show ?thesis using os g by (simp add: moved_def)
    next
      case (Some v)
      have v: "v \<noteq> []" "parse_resume cd v \<noteq> None"
        using g Some unfolding rdb_good_def resume_ok_def get_list by blast+
      then obtain d where d: "parse_resume cd v = Some d" by blast
      have rf: "rdb_resume kv cd r from = Some d" using Some d by (simp add: rdb_resume_def get_list)
      obtain ok2 r2 where r2: "perform_action (\<lambda>r. r\<lparr>resume_family := kv_put kv to (dump_resume cd d)
          (kv_delete kv from (resume_family r))\<rparr>) r1 = (ok2, r2)" by (metis surj_pair)
      have "kv_get kv from (resume_family r1) = Some v" using Some os by simp
      then have res: "res = Inr ok2" "r' = r2"
        using rn r1 ok v(1) d r2 by (simp_all add: rdb_rename_resume_def)
      show ?thesis
        using r2
      proof (cases rule: perform_action_cases)
        case (succeeded os')
        let ?r3 = "r\<lparr>outcomes := os'\<rparr>"
        let ?r4 = "?r3\<lparr>resume_family := kv_delete kv from (resume_family ?r3)\<rparr>"
        have g3: "rdb_good kv cd ?r3" using g by simp
        note g4 = delete_resume[OF g3, of "from"]
        note g5 = put_resume[OF g4(1), of to d]
        have r': "r' = ?r4\<lparr>resume_family := kv_put kv to (dump_resume cd d) (resume_family ?r4)\<rparr>"
          using succeeded res os by simp
        have "rdb_resume kv cd r' = (rdb_resume kv cd r)(from := None, to \<mapsto> d)"
          unfolding r' g5(2) g4(2) by simp
        moreover have "rdb_uploads kv r' = rdb_uploads kv r" "rdb_active kv r' = rdb_active kv r" "rdb_full r' = rdb_full r"
          unfolding r' by (simp_all add: rdb_uploads_def rdb_active_def rdb_full_def)
        moreover have "rdb_good kv cd r'" unfolding r' by (rule g5(1))
        ultimately show ?thesis using succeeded(1) res rf by (simp add: moved_def)
      next
        case (failed os')
        then show ?thesis using res os g by simp
      qed
    qed
  qed
qed

lemma put_active: "perform_action (\<lambda>r. r\<lparr>upload_active_family := f (upload_active_family r)\<rparr>) r = (ok, r') \<Longrightarrow>
    rdb_good kv cd r \<Longrightarrow> (\<And>c. map_of (kv_list kv (f c)) = (map_of (kv_list kv c))(p := x)) \<Longrightarrow>
    rdb_good kv cd r' \<and> rdb_active kv r' = (if ok then (rdb_active kv r)(p := x) else rdb_active kv r) \<and>
    rdb_uploads kv r' = rdb_uploads kv r \<and> rdb_resume kv cd r' = rdb_resume kv cd r \<and> (rdb_full r' \<longrightarrow> rdb_full r)"
  by (erule perform_action_cases)
    (simp_all add: rdb_good_def rdb_uploads_def rdb_active_def rdb_resume_def rdb_full_def fun_eq_iff)

lemma resume_action:
  assumes a: "perform_action (\<lambda>r. r\<lparr>resume_family := f (resume_family r)\<rparr>) r = (ok, r')" and g: "rdb_good kv cd r"
    and f: "\<And>r. rdb_good kv cd r \<Longrightarrow> rdb_good kv cd (r\<lparr>resume_family := f (resume_family r)\<rparr>)"
      "\<And>r. rdb_good kv cd r \<Longrightarrow> rdb_resume kv cd (r\<lparr>resume_family := f (resume_family r)\<rparr>)
        = (rdb_resume kv cd r)(p := x)"
  shows "rdb_good kv cd r' \<and> rdb_resume kv cd r' = (if ok then (rdb_resume kv cd r)(p := x) else rdb_resume kv cd r) \<and>
    rdb_uploads kv r' = rdb_uploads kv r \<and> rdb_active kv r' = rdb_active kv r \<and> (rdb_full r' \<longrightarrow> rdb_full r)"
  using a
proof (cases rule: perform_action_cases)
  case (succeeded os)
  have g': "rdb_good kv cd (r\<lparr>outcomes := os\<rparr>)" using g by simp
  show ?thesis
    using f(1)[OF g'] f(2)[OF g'] succeeded
    by (simp add: rdb_uploads_def rdb_active_def rdb_full_def)
next
  case (failed os)
  then show ?thesis using g by simp
qed

end

sublocale rdb_store \<subseteq> rdb: file_mgr_db "rdb_ops kv cd" "rdb_good kv cd" rdb_full rdb_path_ok
  "rdb_uploads kv" "rdb_active kv" "rdb_resume kv cd"
proof unfold_locales
  fix d :: "'c rdb" and p src ok d' e l
  assume g: "rdb_good kv cd d"
  show "distinct (map fst (rdb_uploads kv d))" using g by (simp add: rdb_good_def)
  show "get_next_upload (rdb_ops kv cd) d = (case rdb_uploads kv d of [] \<Rightarrow> None | e # _ \<Rightarrow> Some e)"
    by (simp add: rdb_ops_def rdb_get_next_upload_def rdb_uploads_def split: list.split)
  show "get_upload (rdb_ops kv cd) p d = map_option (Pair p) (map_of (rdb_uploads kv d) p)"
    by (simp add: rdb_ops_def rdb_get_upload_def rdb_find_upload_def rdb_uploads_def get_upload_map_of)
  show "map_of (get_upload_active_list (rdb_ops kv cd) d) = rdb_active kv d"
    by (simp add: rdb_ops_def rdb_get_upload_active_list_def rdb_active_def)
  have "parse_resume cd (snd e) \<noteq> None" if "e \<in> set (kv_list kv (resume_family d))" for e
  proof -
    have "map_of (kv_list kv (resume_family d)) (fst e) = Some (snd e)" using that list_distinct by simp
    then show ?thesis using g unfolding rdb_good_def resume_ok_def by blast
  qed
  then obtain l where "rdb_resume_entries cd (kv_list kv (resume_family d)) = Inr l"
    "map_of (map (\<lambda>e. (resume_path e, resume_chunk_size e, resume_read_state e, resume_source e)) l)
      = (\<lambda>p. case map_of (kv_list kv (resume_family d)) p of None \<Rightarrow> None | Some v \<Rightarrow> parse_resume cd v)"
    using resume_entries_ok by blast
  then show "\<exists>l. get_resume_list (rdb_ops kv cd) d = Inr l \<and> rdb_resume kv cd d =
      map_of (map (\<lambda>e. (resume_path e, resume_chunk_size e, resume_read_state e, resume_source e)) l)"
    by (intro exI[of _ l]) (simp add: rdb_ops_def rdb_get_resume_list_def rdb_resume_def fun_eq_iff)
next
  fix d :: "'c rdb" and p src ok d'
  assume "rdb_good kv cd d" "\<not> rdb_full d" "rdb_path_ok p" "p \<notin> fst ` set (rdb_uploads kv d)"
    "add_upload (rdb_ops kv cd) (p, src) d = (ok, d')"
  then show "rdb_good kv cd d' \<and> rdb_uploads kv d' = (if ok then rdb_uploads kv d @ [(p, src)] else rdb_uploads kv d) \<and>
      rdb_active kv d' = rdb_active kv d \<and> rdb_resume kv cd d' = rdb_resume kv cd d"
    by (intro add_upload_ok) (simp_all add: rdb_ops_def)
next
  fix d :: "'c rdb" and p ok d'
  assume "rdb_good kv cd d" "remove_upload (rdb_ops kv cd) p d = (ok, d')"
  then show "rdb_good kv cd d' \<and> rdb_uploads kv d' = (if ok then filter (\<lambda>e. fst e \<noteq> p) (rdb_uploads kv d) else rdb_uploads kv d) \<and>
      rdb_active kv d' = rdb_active kv d \<and> rdb_resume kv cd d' = rdb_resume kv cd d \<and> (rdb_full d' \<longrightarrow> rdb_full d)"
    by (intro remove_upload_ok) (simp_all add: rdb_ops_def)
next
  fix d :: "'c rdb" and p src ok d'
  assume a: "rdb_good kv cd d" "add_upload_active (rdb_ops kv cd) (p, src) d = (ok, d')"
  then show "rdb_good kv cd d' \<and> rdb_active kv d' = (if ok then (rdb_active kv d)(p \<mapsto> src) else rdb_active kv d) \<and>
      rdb_uploads kv d' = rdb_uploads kv d \<and> rdb_resume kv cd d' = rdb_resume kv cd d \<and> (rdb_full d' \<longrightarrow> rdb_full d)"
    by (intro put_active[where f = "kv_put kv p src"]) (simp_all add: rdb_ops_def rdb_add_upload_active_def list_put)
next
  fix d :: "'c rdb" and p ok d'
  assume a: "rdb_good kv cd d" "remove_upload_active (rdb_ops kv cd) p d = (ok, d')"
  then show "rdb_good kv cd d' \<and> rdb_active kv d' = (if ok then (rdb_active kv d)(p := None) else rdb_active kv d) \<and>
      rdb_uploads kv d' = rdb_uploads kv d \<and> rdb_resume kv cd d' = rdb_resume kv cd d \<and> (rdb_full d' \<longrightarrow> rdb_full d)"
    by (intro put_active[where f = "kv_delete kv p"]) (simp_all add: rdb_ops_def rdb_remove_upload_active_def list_delete)
next
  fix d :: "'c rdb" and e ok d'
  assume a: "rdb_good kv cd d" "add_resume (rdb_ops kv cd) e d = (ok, d')"
  then show "rdb_good kv cd d' \<and> rdb_resume kv cd d' = (if ok then (rdb_resume kv cd d)(resume_path e \<mapsto>
        (resume_chunk_size e, resume_read_state e, resume_source e)) else rdb_resume kv cd d) \<and>
      rdb_uploads kv d' = rdb_uploads kv d \<and> rdb_active kv d' = rdb_active kv d \<and> (rdb_full d' \<longrightarrow> rdb_full d)"
    by (intro resume_action[where f = "kv_put kv (resume_path e)
          (dump_resume cd (resume_chunk_size e, resume_read_state e, resume_source e))"] put_resume)
      (simp_all add: rdb_ops_def rdb_add_resume_def)
next
  fix d :: "'c rdb" and p ok d'
  assume a: "rdb_good kv cd d" "remove_resume (rdb_ops kv cd) p d = (ok, d')"
  then show "rdb_good kv cd d' \<and> rdb_resume kv cd d' = (if ok then (rdb_resume kv cd d)(p := None) else rdb_resume kv cd d) \<and>
      rdb_uploads kv d' = rdb_uploads kv d \<and> rdb_active kv d' = rdb_active kv d \<and> (rdb_full d' \<longrightarrow> rdb_full d)"
    by (intro resume_action[where f = "kv_delete kv p"] delete_resume)
      (simp_all add: rdb_ops_def rdb_remove_resume_def)
next
  fix d :: "'c rdb" and "from" to res d'
  assume "rdb_good kv cd d" "rename_resume (rdb_ops kv cd) from to d = (res, d')"
  then show "rdb_good kv cd d' \<and> rdb_resume kv cd d' = (if res = Inr True then moved (rdb_resume kv cd d) from to else rdb_resume kv cd d) \<and>
      rdb_uploads kv d' = rdb_uploads kv d \<and> rdb_active kv d' = rdb_active kv d \<and> (rdb_full d' \<longrightarrow> rdb_full d)"
    by (intro rename_resume_ok) (simp_all add: rdb_ops_def)
next
  fix d :: "'c rdb"
  assume "rdb_good kv cd d"
  then show "rdb_good kv cd (clear_db (rdb_ops kv cd) d) \<and>
      (rdb_uploads kv (clear_db (rdb_ops kv cd) d) = [] \<or> rdb_uploads kv (clear_db (rdb_ops kv cd) d) = rdb_uploads kv d)"
    by (simp add: rdb_ops_def rdb_open_def rdb_good_def resume_ok_def rdb_uploads_def rdb_active_def
        rdb_resume_def list_empty fun_eq_iff)
qed
section \<open>An instance\<close>

definition text_codec :: codec where
  "text_codec = \<lparr>dump_resume = (\<lambda>(n, bits, src).
      replicate n (CHR ''1'') @ bar # map (\<lambda>b. if b then CHR ''1'' else CHR ''0'') bits @ bar # src),
    parse_resume = (\<lambda>s.
      let n = length (takeWhile (\<lambda>c. c \<noteq> bar) s);
          s = tl (dropWhile (\<lambda>c. c \<noteq> bar) s)
      in Some (n, map (\<lambda>c. c = CHR ''1'') (takeWhile (\<lambda>c. c \<noteq> bar) s), tl (dropWhile (\<lambda>c. c \<noteq> bar) s)))\<rparr>"

lemma text_codec_ok: "codec_ok text_codec"
proof -
  have n: "takeWhile (\<lambda>c. c \<noteq> bar) (replicate n (CHR ''1'') @ bar # s) = replicate n (CHR ''1'')"
    "dropWhile (\<lambda>c. c \<noteq> bar) (replicate n (CHR ''1'') @ bar # s) = bar # s" for n s
    by (induction n) (simp_all add: bar_def)
  have b: "takeWhile (\<lambda>c. c \<noteq> bar) (map (\<lambda>b. if b then CHR ''1'' else CHR ''0'') bits @ bar # s)
      = map (\<lambda>b. if b then CHR ''1'' else CHR ''0'') bits"
    "dropWhile (\<lambda>c. c \<noteq> bar) (map (\<lambda>b. if b then CHR ''1'' else CHR ''0'') bits @ bar # s) = bar # s" for bits s
    by (induction bits) (simp_all add: bar_def)
  have "map (\<lambda>c. c = CHR ''1'') (map (\<lambda>b. if b then CHR ''1'' else CHR ''0'') bits) = bits" for bits
    by (induction bits) simp_all
  then show ?thesis by (auto simp: codec_ok_def text_codec_def n b Let_def o_def)
qed

interpretation rbt_db: rdb_store rbt_kv text_codec
  by unfold_locales (rule text_codec_ok)

definition rdb_new :: "('c, string) kv_ops \<Rightarrow> 'c rdb" where
  "rdb_new kv = \<lparr>resume_family = kv_empty kv, upload_active_family = kv_empty kv, upload_family = kv_empty kv,
    upload_id = 0, outcomes = []\<rparr>"
lemma rdb_new_good: "column_family kv \<Longrightarrow> rdb_good kv cd (rdb_new kv) \<and> rdb_uploads kv (rdb_new kv) = []"
  by (simp add: column_family.list_empty rdb_good_def rdb_new_def rdb_uploads_def resume_ok_def)

text \<open>
  \<open>id_\<close> starts at 0 again when the database is opened again, so the queue is not kept in
  order across a restart: if two files were queued, the first was uploaded, and the program was
  started anew, a third file is queued in front of the second.
\<close>

theorem rdb_restart_overtakes:
  assumes kv: "column_family kv" and p: "rdb_path_ok p" "rdb_path_ok q" "rdb_path_ok r" "p \<noteq> q"
    and d1: "d1 = snd (rdb_add_upload kv (q, s2) (snd (rdb_add_upload kv (p, s1) (rdb_new kv))))"
    and d2: "d2 = rdb_reopen (snd (rdb_remove_upload kv p d1))"
  shows "rdb_get_next_upload kv d2 = Some (q, s2) \<and>
    rdb_get_next_upload kv (snd (rdb_add_upload kv (r, s3) d2)) = Some (r, s3)"
proof -
  note put_last = column_family.list_put_last[OF kv] and put_first = column_family.list_put_first[OF kv]
  have k: "upload_key 1 x < upload_key 2 y" for x y using upload_key_less[of 1 2] by simp
  have kp: "key_path (upload_key 1 p) = p" "key_path (upload_key 2 q) = q" "key_path (upload_key 1 r) = r"
    using p by (simp_all add: key_path_upload_key rdb_path_ok_def)
  have add1: "add64 0 1 = 1" "add64 1 1 = 2" by (simp_all add: add64_def)
  let ?c1 = "kv_put kv (upload_key 1 p) s1 (kv_empty kv)"
  have l1: "kv_list kv ?c1 = [(upload_key 1 p, s1)]"
    using put_last[of "kv_empty kv" "upload_key 1 p" s1] by (simp add: column_family.list_empty[OF kv])
  let ?c2 = "kv_put kv (upload_key 2 q) s2 ?c1"
  have l2: "kv_list kv ?c2 = [(upload_key 1 p, s1), (upload_key 2 q, s2)]"
    using put_last[of ?c1 "upload_key 2 q" s2] k[of p q] by (simp add: l1 del: One_nat_def)
  have e1: "d1 = (rdb_new kv)\<lparr>upload_id := 2, upload_family := ?c2\<rparr>"
    by (simp add: d1 rdb_add_upload_def perform_action_def rdb_new_def Let_def add1 del: One_nat_def)
  have "rdb_find_upload kv p d1 = Some (upload_key 1 p, s1)"
    by (simp add: rdb_find_upload_def e1 l2 kp del: One_nat_def)
  then have e2: "d2 = (rdb_new kv)\<lparr>upload_family := kv_delete kv (upload_key 1 p) ?c2\<rparr>"
    by (simp add: d2 rdb_remove_upload_def rdb_reopen_def perform_action_def e1 rdb_new_def del: One_nat_def)
  have l3: "kv_list kv (kv_delete kv (upload_key 1 p) ?c2) = [(upload_key 2 q, s2)]"
    using k[of p q] by (simp add: column_family.list_delete_eq[OF kv] l2 del: One_nat_def)
  have "kv_list kv (kv_put kv (upload_key 1 r) s3 (kv_delete kv (upload_key 1 p) ?c2))
      = [(upload_key 1 r, s3), (upload_key 2 q, s2)]"
    using put_first[of "kv_delete kv (upload_key 1 p) ?c2" "upload_key 1 r" s3] k[of r q] by (simp add: l3 del: One_nat_def)
  then show ?thesis
    by (simp add: rdb_get_next_upload_def rdb_add_upload_def perform_action_def e2 rdb_new_def Let_def
        add1 l3 kp del: One_nat_def)
qed

theorem rdb_restart_overtakes_witness:
  "\<exists>d. rdb_get_next_upload rbt_kv d = Some (''/b'', ''s2'') \<and>
     rdb_get_next_upload rbt_kv (snd (rdb_add_upload rbt_kv (''/c'', ''s3'') d)) = Some (''/c'', ''s3'')"
  using rdb_restart_overtakes[OF rbt.column_family_axioms _ _ _ _ refl refl,
      of "''/a''" "''/b''" "''/c''" "''s2''" "''s1''" "''s3''"]
  by (intro exI) (simp add: rdb_path_ok_def bar_def)

end
