(* ===== verification/Sqlite_Upload_Db.thy ===== *)
theory Sqlite_Upload_Db imports Upload_Db begin

text \<open>
  The SQLite implementation of the file manager's database
  (db/impl/sqlite_file_mgr_db.cpp).  SQLite is not part of the repository: a table whose key
  column is unique is an abstract type with the statements the code runs on it, and
  \<open>sql_table\<close> and \<open>sql_queue_table\<close> state what they are documented to do.  Every statement is
  one entry of the outcome script.
\<close>

section \<open>Tables\<close>

record ('t, 'v) sql_ops =
  insert_or_replace :: "string \<Rightarrow> 'v \<Rightarrow> 't \<Rightarrow> 't"
  delete_where :: "string \<Rightarrow> 't \<Rightarrow> 't"
  delete_rows :: "'t \<Rightarrow> 't"
  select_where :: "string \<Rightarrow> 't \<Rightarrow> 'v option"
  select_rows :: "'t \<Rightarrow> (string \<times> 'v) list"      \<comment> \<open>for the upload table: \<open>order_by("id", true)\<close>\<close>
  update_key :: "string \<Rightarrow> string \<Rightarrow> 't \<Rightarrow> 't option"   \<comment> \<open>None: the unique constraint fails\<close>

locale sql_table =
  fixes T :: "('t, 'v) sql_ops"
  assumes rows_distinct: "distinct (map fst (select_rows T t))"
    and select_rows_of: "select_where T k t = map_of (select_rows T t) k"
    and insert_map: "map_of (select_rows T (insert_or_replace T k v t)) = (map_of (select_rows T t))(k \<mapsto> v)"
    and delete_map: "map_of (select_rows T (delete_where T k t)) = (map_of (select_rows T t))(k := None)"
    and delete_rows_all: "select_rows T (delete_rows T t) = []"
    and update_some: "update_key T k k' t = Some t' \<Longrightarrow>
      map_of (select_rows T t') = moved (map_of (select_rows T t)) k k'"

text \<open>\<open>AUTOINCREMENT\<close>: a new row, a replacing one as well, is the last one.\<close>

locale sql_queue_table = sql_table +
  assumes insert_last: "select_rows T (insert_or_replace T k v t) = filter (\<lambda>e. fst e \<noteq> k) (select_rows T t) @ [(k, v)]"
    and delete_keeps: "select_rows T (delete_where T k t) = filter (\<lambda>e. fst e \<noteq> k) (select_rows T t)"

section \<open>The database\<close>

text \<open>Rows of the resume table: chunk size as a signed number, read state as text, source path.\<close>

type_synonym resume_row = "int \<times> string \<times> string"

definition to_int64 :: "nat \<Rightarrow> int" where
  "to_int64 n = (if n mod 2 ^ 64 < 2 ^ 63 then int (n mod 2 ^ 64) else int (n mod 2 ^ 64) - 2 ^ 64)"

definition from_int64 :: "int \<Rightarrow> nat" where
  "from_int64 i = nat (i mod 2 ^ 64)"

record bits_codec =
  dump_bits :: "bool list \<Rightarrow> string"
  parse_bits :: "string \<Rightarrow> bool list option"     \<comment> \<open>None: the archive throws\<close>

record ('u, 'r) sqlite =
  upload_table :: 'u
  upload_active_table :: 'u
  resume_table :: 'r
  results :: "bool list"

definition go :: "(('u, 'r) sqlite \<Rightarrow> ('u, 'r) sqlite option) \<Rightarrow> ('u, 'r) sqlite \<Rightarrow> bool \<times> ('u, 'r) sqlite" where
  "go statement q =
    (let (ok, q) = (case results q of [] \<Rightarrow> (True, q) | ok # rest \<Rightarrow> (ok, q\<lparr>results := rest\<rparr>))
     in if \<not> ok then (False, q)
        else case statement q of None \<Rightarrow> (False, q) | Some q' \<Rightarrow> (True, q'))"

definition sqlite_add_resume ::
  "('r, resume_row) sql_ops \<Rightarrow> bits_codec \<Rightarrow> resume_entry \<Rightarrow> ('u, 'r) sqlite \<Rightarrow> bool \<times> ('u, 'r) sqlite" where
  "sqlite_add_resume R cd e =
    go (\<lambda>q. Some (q\<lparr>resume_table := insert_or_replace R (resume_path e)
      (to_int64 (resume_chunk_size e), dump_bits cd (resume_read_state e), resume_source e) (resume_table q)\<rparr>))"

definition sqlite_add_upload ::
  "('u, string) sql_ops \<Rightarrow> upload_entry \<Rightarrow> ('u, 'r) sqlite \<Rightarrow> bool \<times> ('u, 'r) sqlite" where
  "sqlite_add_upload U e =
    go (\<lambda>q. Some (q\<lparr>upload_table := insert_or_replace U (fst e) (snd e) (upload_table q)\<rparr>))"

definition sqlite_add_upload_active ::
  "('u, string) sql_ops \<Rightarrow> upload_entry \<Rightarrow> ('u, 'r) sqlite \<Rightarrow> bool \<times> ('u, 'r) sqlite" where
  "sqlite_add_upload_active U e =
    go (\<lambda>q. Some (q\<lparr>upload_active_table := insert_or_replace U (fst e) (snd e) (upload_active_table q)\<rparr>))"

text \<open>\<open>clear\<close>: three statements, a failure of one is only reported.\<close>

definition sqlite_clear ::
  "('u, string) sql_ops \<Rightarrow> ('r, resume_row) sql_ops \<Rightarrow> ('u, 'r) sqlite \<Rightarrow> ('u, 'r) sqlite" where
  "sqlite_clear U R q =
    (let q = snd (go (\<lambda>q. Some (q\<lparr>resume_table := delete_rows R (resume_table q)\<rparr>)) q);
         q = snd (go (\<lambda>q. Some (q\<lparr>upload_active_table := delete_rows U (upload_active_table q)\<rparr>)) q)
     in snd (go (\<lambda>q. Some (q\<lparr>upload_table := delete_rows U (upload_table q)\<rparr>)) q))"

definition sqlite_get_next_upload :: "('u, string) sql_ops \<Rightarrow> ('u, 'r) sqlite \<Rightarrow> upload_entry option" where
  "sqlite_get_next_upload U q = (case select_rows U (upload_table q) of [] \<Rightarrow> None | e # _ \<Rightarrow> Some e)"

text \<open>A row that cannot be read is reported and left out.\<close>

fun sqlite_resume_entries :: "bits_codec \<Rightarrow> (string \<times> resume_row) list \<Rightarrow> resume_entry list" where
  "sqlite_resume_entries cd [] = []"
| "sqlite_resume_entries cd ((p, n, bits, src) # rows) =
    (case parse_bits cd bits of
       None \<Rightarrow> sqlite_resume_entries cd rows
     | Some b \<Rightarrow> \<lparr>resume_path = p, resume_chunk_size = from_int64 n, resume_read_state = b, resume_source = src\<rparr>
         # sqlite_resume_entries cd rows)"

definition sqlite_get_resume_list ::
  "('r, resume_row) sql_ops \<Rightarrow> bits_codec \<Rightarrow> ('u, 'r) sqlite \<Rightarrow> exn + resume_entry list" where
  "sqlite_get_resume_list R cd q = Inr (sqlite_resume_entries cd (select_rows R (resume_table q)))"

definition sqlite_get_upload :: "('u, string) sql_ops \<Rightarrow> string \<Rightarrow> ('u, 'r) sqlite \<Rightarrow> upload_entry option" where
  "sqlite_get_upload U p q = map_option (Pair p) (select_where U p (upload_table q))"

definition sqlite_get_upload_active_list :: "('u, string) sql_ops \<Rightarrow> ('u, 'r) sqlite \<Rightarrow> upload_entry list" where
  "sqlite_get_upload_active_list U q = select_rows U (upload_active_table q)"

definition sqlite_remove_resume :: "('r, resume_row) sql_ops \<Rightarrow> string \<Rightarrow> ('u, 'r) sqlite \<Rightarrow> bool \<times> ('u, 'r) sqlite" where
  "sqlite_remove_resume R p = go (\<lambda>q. Some (q\<lparr>resume_table := delete_where R p (resume_table q)\<rparr>))"

definition sqlite_remove_upload :: "('u, string) sql_ops \<Rightarrow> string \<Rightarrow> ('u, 'r) sqlite \<Rightarrow> bool \<times> ('u, 'r) sqlite" where
  "sqlite_remove_upload U p = go (\<lambda>q. Some (q\<lparr>upload_table := delete_where U p (upload_table q)\<rparr>))"

definition sqlite_remove_upload_active ::
  "('u, string) sql_ops \<Rightarrow> string \<Rightarrow> ('u, 'r) sqlite \<Rightarrow> bool \<times> ('u, 'r) sqlite" where
  "sqlite_remove_upload_active U p =
    go (\<lambda>q. Some (q\<lparr>upload_active_table := delete_where U p (upload_active_table q)\<rparr>))"

definition sqlite_rename_resume ::
  "('r, resume_row) sql_ops \<Rightarrow> string \<Rightarrow> string \<Rightarrow> ('u, 'r) sqlite \<Rightarrow> (exn + bool) \<times> ('u, 'r) sqlite" where
  "sqlite_rename_resume R from to q =
    (case go (\<lambda>q. map_option (\<lambda>t. q\<lparr>resume_table := t\<rparr>) (update_key R from to (resume_table q))) q of
       (ok, q) \<Rightarrow> (Inr ok, q))"

definition sqlite_ops ::
  "('u, string) sql_ops \<Rightarrow> ('r, resume_row) sql_ops \<Rightarrow> bits_codec \<Rightarrow> ('u, 'r) sqlite mgr_db" where
  "sqlite_ops U R cd = \<lparr>add_resume = sqlite_add_resume R cd, add_upload = sqlite_add_upload U,
    add_upload_active = sqlite_add_upload_active U, clear_db = sqlite_clear U R,
    get_next_upload = sqlite_get_next_upload U, get_resume_list = sqlite_get_resume_list R cd,
    get_upload = sqlite_get_upload U, get_upload_active_list = sqlite_get_upload_active_list U,
    remove_resume = sqlite_remove_resume R, remove_upload = sqlite_remove_upload U,
    remove_upload_active = sqlite_remove_upload_active U, rename_resume = sqlite_rename_resume R\<rparr>"

section \<open>SQLite keeps the contract\<close>

definition bits_codec_ok :: "bits_codec \<Rightarrow> bool" where
  "bits_codec_ok cd \<longleftrightarrow> (\<forall>b. parse_bits cd (dump_bits cd b) = Some b)"

lemma from_to_int64 [simp]: "n < 2 ^ 64 \<Longrightarrow> from_int64 (to_int64 n) = n"
  by (auto simp: from_int64_def to_int64_def nat_mod_distrib)

definition row_data :: "bits_codec \<Rightarrow> resume_row \<Rightarrow> resume_data option" where
  "row_data cd r = (case r of (n, bits, src) \<Rightarrow> map_option (\<lambda>b. (from_int64 n, b, src)) (parse_bits cd bits))"

definition sqlite_resume ::
  "('r, resume_row) sql_ops \<Rightarrow> bits_codec \<Rightarrow> ('u, 'r) sqlite \<Rightarrow> string \<Rightarrow> resume_data option" where
  "sqlite_resume R cd q p =
    (case map_of (select_rows R (resume_table q)) p of None \<Rightarrow> None | Some row \<Rightarrow> row_data cd row)"

definition sqlite_good :: "('r, resume_row) sql_ops \<Rightarrow> bits_codec \<Rightarrow> ('u, 'r) sqlite \<Rightarrow> bool" where
  "sqlite_good R cd q \<longleftrightarrow>
    (\<forall>k row. map_of (select_rows R (resume_table q)) k = Some row \<longrightarrow> row_data cd row \<noteq> None)"

definition sqlite_uploads :: "('u, string) sql_ops \<Rightarrow> ('u, 'r) sqlite \<Rightarrow> upload_entry list" where
  "sqlite_uploads U q = select_rows U (upload_table q)"

definition sqlite_active :: "('u, string) sql_ops \<Rightarrow> ('u, 'r) sqlite \<Rightarrow> string \<Rightarrow> string option" where
  "sqlite_active U q = map_of (select_rows U (upload_active_table q))"

lemma go_cases:
  assumes "go st q = (ok, q')"
  obtains (succeeded) os where "ok" "st (q\<lparr>results := os\<rparr>) = Some q'"
  | (failed) os where "\<not> ok" "q' = q\<lparr>results := os\<rparr>"
proof (cases "results q")
  case Nil
  have e: "q\<lparr>results := []\<rparr> = q" using Nil by (cases q) simp
  show ?thesis
    using Nil assms succeeded[of "[]"] failed[of "[]"] e by (auto simp: go_def split: option.splits)
next
  case (Cons b os)
  then show ?thesis
    using assms succeeded[of os] failed[of os] by (cases b) (auto simp: go_def split: option.splits)
qed

locale sqlite_store = U: sql_queue_table U + R: sql_table R
  for U :: "('u, string) sql_ops" and R :: "('r, resume_row) sql_ops" +
  fixes cd :: bits_codec
  assumes bits: "bits_codec_ok cd"
begin

lemma resume_entries:
  "distinct (map fst rows) \<Longrightarrow>
   map_of (map (\<lambda>e. (resume_path e, resume_chunk_size e, resume_read_state e, resume_source e)) (sqlite_resume_entries cd rows)) p
    = (case map_of rows p of None \<Rightarrow> None | Some row \<Rightarrow> row_data cd row)"
proof (induction rows)
  case (Cons row rows)
  obtain k n b src where row: "row = (k, n, b, src)" by (metis surj_pair)
  have "p = k \<Longrightarrow> map_of rows p = None"
    using Cons.prems by (auto simp: row map_of_eq_None_iff)
  then show ?case using Cons by (auto simp: row row_data_def split: option.split)
qed simp

lemma good_results [simp]:
  "sqlite_good R cd (q\<lparr>results := os\<rparr>) = sqlite_good R cd q"
  "sqlite_uploads U (q\<lparr>results := os\<rparr>) = sqlite_uploads U q"
  "sqlite_active U (q\<lparr>results := os\<rparr>) = sqlite_active U q"
  "sqlite_resume R cd (q\<lparr>results := os\<rparr>) = sqlite_resume R cd q"
  by (simp_all add: sqlite_good_def sqlite_uploads_def sqlite_active_def sqlite_resume_def fun_eq_iff)

lemma upload_statement:
  assumes "go (\<lambda>q. Some (q\<lparr>upload_table := f (upload_table q)\<rparr>)) q = (ok, q')" "sqlite_good R cd q"
    and "\<And>t. select_rows U (f t) = g (select_rows U t)"
  shows "sqlite_good R cd q' \<and> sqlite_uploads U q' = (if ok then g (sqlite_uploads U q) else sqlite_uploads U q) \<and>
    sqlite_active U q' = sqlite_active U q \<and> sqlite_resume R cd q' = sqlite_resume R cd q"
  using assms
  by (elim go_cases) (auto simp: sqlite_good_def sqlite_uploads_def sqlite_active_def sqlite_resume_def fun_eq_iff)

lemma active_statement:
  assumes "go (\<lambda>q. Some (q\<lparr>upload_active_table := f (upload_active_table q)\<rparr>)) q = (ok, q')" "sqlite_good R cd q"
    and "\<And>t. map_of (select_rows U (f t)) = (map_of (select_rows U t))(p := x)"
  shows "sqlite_good R cd q' \<and> sqlite_active U q' = (if ok then (sqlite_active U q)(p := x) else sqlite_active U q) \<and>
    sqlite_uploads U q' = sqlite_uploads U q \<and> sqlite_resume R cd q' = sqlite_resume R cd q"
  using assms
  by (elim go_cases) (auto simp: sqlite_good_def sqlite_uploads_def sqlite_active_def sqlite_resume_def fun_eq_iff)

lemma resume_statement:
  assumes st: "go (\<lambda>q. map_option (\<lambda>t. q\<lparr>resume_table := t\<rparr>) (f (resume_table q))) q = (ok, q')"
    and g: "sqlite_good R cd q"
    and f: "\<And>t t'. f t = Some t' \<Longrightarrow> map_of (select_rows R t') = F (map_of (select_rows R t))"
    and F: "\<And>m. (\<And>k row. m k = Some row \<Longrightarrow> row_data cd row \<noteq> None) \<Longrightarrow>
        (\<forall>k row. F m k = Some row \<longrightarrow> row_data cd row \<noteq> None) \<and>
        (\<lambda>p. case F m p of None \<Rightarrow> None | Some row \<Rightarrow> row_data cd row)
          = G (\<lambda>p. case m p of None \<Rightarrow> None | Some row \<Rightarrow> row_data cd row)"
  shows "sqlite_good R cd q' \<and> sqlite_resume R cd q' = (if ok then G (sqlite_resume R cd q) else sqlite_resume R cd q) \<and>
    sqlite_uploads U q' = sqlite_uploads U q \<and> sqlite_active U q' = sqlite_active U q"
  using st
proof (cases rule: go_cases)
  case (succeeded os)
  then obtain t' where t': "f (resume_table q) = Some t'" "q' = q\<lparr>results := os, resume_table := t'\<rparr>"
    by auto
  let ?m = "map_of (select_rows R (resume_table q))"
  have "\<And>k row. ?m k = Some row \<Longrightarrow> row_data cd row \<noteq> None" using g unfolding sqlite_good_def by blast
  note F' = F[OF this]
  have r: "map_of (select_rows R t') = F ?m" using f[OF t'(1)] .
  have "sqlite_good R cd q'" using F' unfolding sqlite_good_def by (simp add: t'(2) r)
  moreover have "sqlite_resume R cd q' = G (sqlite_resume R cd q)"
    using F' unfolding sqlite_resume_def by (simp add: t'(2) r)
  ultimately show ?thesis
    using succeeded(1) t'(2) by (simp add: sqlite_uploads_def sqlite_active_def)
next
  case (failed os)
  then show ?thesis using g by simp
qed

lemma moved_rows:
  assumes m: "\<And>k row. m k = Some row \<Longrightarrow> row_data cd row \<noteq> None"
  shows "(\<forall>k row. moved m from to k = Some row \<longrightarrow> row_data cd row \<noteq> None) \<and>
    (\<lambda>p. case moved m from to p of None \<Rightarrow> None | Some row \<Rightarrow> row_data cd row)
      = moved (\<lambda>p. case m p of None \<Rightarrow> None | Some row \<Rightarrow> row_data cd row) from to"
proof (cases "m from")
  case None
  then show ?thesis using m by (simp add: moved_def)
next
  case (Some row)
  then obtain d where d: "row_data cd row = Some d" using m by blast
  show ?thesis
    using m Some d by (cases d) (auto simp: moved_def fun_eq_iff split: if_splits)
qed

lemma update_rows:
  assumes m: "\<And>k row. m k = Some row \<Longrightarrow> row_data cd row \<noteq> None" and x: "x = None \<or> (\<exists>row. x = Some row \<and> row_data cd row \<noteq> None)"
  shows "(\<forall>k row. (m(p := x)) k = Some row \<longrightarrow> row_data cd row \<noteq> None) \<and>
    (\<lambda>q. case (m(p := x)) q of None \<Rightarrow> None | Some row \<Rightarrow> row_data cd row)
      = (\<lambda>q. case m q of None \<Rightarrow> None | Some row \<Rightarrow> row_data cd row)(p := (case x of None \<Rightarrow> None | Some row \<Rightarrow> row_data cd row))"
proof (intro conjI allI impI)
  fix k row assume "(m(p := x)) k = Some row"
  then show "row_data cd row \<noteq> None" using m[of k row] x by (cases "k = p") auto
qed (auto simp: fun_eq_iff)

end

sublocale sqlite_store \<subseteq> sqlite: file_mgr_db "sqlite_ops U R cd" "sqlite_good R cd" "\<lambda>q. False" "\<lambda>p. True"
  "sqlite_uploads U" "sqlite_active U" "sqlite_resume R cd"
proof unfold_locales
  fix q :: "('u, 'r) sqlite" and p
  assume g: "sqlite_good R cd q"
  show "distinct (map fst (sqlite_uploads U q))" by (simp add: sqlite_uploads_def U.rows_distinct)
  show "get_next_upload (sqlite_ops U R cd) q = (case sqlite_uploads U q of [] \<Rightarrow> None | e # _ \<Rightarrow> Some e)"
    by (simp add: sqlite_ops_def sqlite_get_next_upload_def sqlite_uploads_def)
  show "get_upload (sqlite_ops U R cd) p q = map_option (Pair p) (map_of (sqlite_uploads U q) p)"
    by (simp add: sqlite_ops_def sqlite_get_upload_def sqlite_uploads_def U.select_rows_of)
  show "map_of (get_upload_active_list (sqlite_ops U R cd) q) = sqlite_active U q"
    by (simp add: sqlite_ops_def sqlite_get_upload_active_list_def sqlite_active_def)
  show "\<exists>l. get_resume_list (sqlite_ops U R cd) q = Inr l \<and> sqlite_resume R cd q =
      map_of (map (\<lambda>e. (resume_path e, resume_chunk_size e, resume_read_state e, resume_source e)) l)"
    using resume_entries[OF R.rows_distinct, of "resume_table q"]
    by (intro exI[of _ "sqlite_resume_entries cd (select_rows R (resume_table q))"])
      (simp add: sqlite_ops_def sqlite_get_resume_list_def sqlite_resume_def fun_eq_iff)
next
  fix q :: "('u, 'r) sqlite" and p src ok q'
  assume g: "sqlite_good R cd q" "p \<notin> fst ` set (sqlite_uploads U q)"
    and a: "add_upload (sqlite_ops U R cd) (p, src) q = (ok, q')"
  have "filter (\<lambda>e. fst e \<noteq> p) (sqlite_uploads U q) = sqlite_uploads U q"
    using g(2) by (auto simp: filter_id_conv)
  then show "sqlite_good R cd q' \<and> sqlite_uploads U q' = (if ok then sqlite_uploads U q @ [(p, src)] else sqlite_uploads U q) \<and>
      sqlite_active U q' = sqlite_active U q \<and> sqlite_resume R cd q' = sqlite_resume R cd q"
    using upload_statement[where f = "insert_or_replace U p src" and g = "\<lambda>l. filter (\<lambda>e. fst e \<noteq> p) l @ [(p, src)]"] a g(1)
    by (simp add: sqlite_ops_def sqlite_add_upload_def U.insert_last)
next
  fix q :: "('u, 'r) sqlite" and p ok q'
  assume "sqlite_good R cd q" "remove_upload (sqlite_ops U R cd) p q = (ok, q')"
  then show "sqlite_good R cd q' \<and> sqlite_uploads U q' = (if ok then filter (\<lambda>e. fst e \<noteq> p) (sqlite_uploads U q) else sqlite_uploads U q) \<and>
      sqlite_active U q' = sqlite_active U q \<and> sqlite_resume R cd q' = sqlite_resume R cd q \<and> (False \<longrightarrow> False)"
    using upload_statement[where f = "delete_where U p" and g = "filter (\<lambda>e. fst e \<noteq> p)"]
    by (simp add: sqlite_ops_def sqlite_remove_upload_def U.delete_keeps)
next
  fix q :: "('u, 'r) sqlite" and p src ok q'
  assume "sqlite_good R cd q" "add_upload_active (sqlite_ops U R cd) (p, src) q = (ok, q')"
  then show "sqlite_good R cd q' \<and> sqlite_active U q' = (if ok then (sqlite_active U q)(p \<mapsto> src) else sqlite_active U q) \<and>
      sqlite_uploads U q' = sqlite_uploads U q \<and> sqlite_resume R cd q' = sqlite_resume R cd q \<and> (False \<longrightarrow> False)"
    using active_statement[where f = "insert_or_replace U p src" and p = p and x = "Some src"]
    by (simp add: sqlite_ops_def sqlite_add_upload_active_def U.insert_map)
next
  fix q :: "('u, 'r) sqlite" and p ok q'
  assume "sqlite_good R cd q" "remove_upload_active (sqlite_ops U R cd) p q = (ok, q')"
  then show "sqlite_good R cd q' \<and> sqlite_active U q' = (if ok then (sqlite_active U q)(p := None) else sqlite_active U q) \<and>
      sqlite_uploads U q' = sqlite_uploads U q \<and> sqlite_resume R cd q' = sqlite_resume R cd q \<and> (False \<longrightarrow> False)"
    using active_statement[where f = "delete_where U p" and p = p and x = None]
    by (simp add: sqlite_ops_def sqlite_remove_upload_active_def U.delete_map)
next
  fix q :: "('u, 'r) sqlite" and e ok q'
  assume g: "sqlite_good R cd q" and n: "resume_chunk_size e < 2 ^ 64"
    and a: "add_resume (sqlite_ops U R cd) e q = (ok, q')"
  let ?row = "(to_int64 (resume_chunk_size e), dump_bits cd (resume_read_state e), resume_source e)"
  have row: "row_data cd ?row = Some (resume_chunk_size e, resume_read_state e, resume_source e)"
    using bits n by (simp add: row_data_def bits_codec_ok_def)
  have st: "go (\<lambda>q. map_option (\<lambda>t. q\<lparr>resume_table := t\<rparr>)
      (Some (insert_or_replace R (resume_path e) ?row (resume_table q)))) q = (ok, q')"
    using a by (simp add: sqlite_ops_def sqlite_add_resume_def)
  show "sqlite_good R cd q' \<and> sqlite_resume R cd q' = (if ok then (sqlite_resume R cd q)(resume_path e \<mapsto>
        (resume_chunk_size e, resume_read_state e, resume_source e)) else sqlite_resume R cd q) \<and>
      sqlite_uploads U q' = sqlite_uploads U q \<and> sqlite_active U q' = sqlite_active U q \<and> (False \<longrightarrow> False)"
    using resume_statement[OF st g, where F = "\<lambda>m. m(resume_path e \<mapsto> ?row)"
        and G = "\<lambda>m. m(resume_path e \<mapsto> (resume_chunk_size e, resume_read_state e, resume_source e))"]
      update_rows[where p = "resume_path e" and x = "Some ?row"] row
    by (simp add: R.insert_map)
next
  fix q :: "('u, 'r) sqlite" and p ok q'
  assume g: "sqlite_good R cd q" and a: "remove_resume (sqlite_ops U R cd) p q = (ok, q')"
  have st: "go (\<lambda>q. map_option (\<lambda>t. q\<lparr>resume_table := t\<rparr>) (Some (delete_where R p (resume_table q)))) q = (ok, q')"
    using a by (simp add: sqlite_ops_def sqlite_remove_resume_def)
  show "sqlite_good R cd q' \<and> sqlite_resume R cd q' = (if ok then (sqlite_resume R cd q)(p := None) else sqlite_resume R cd q) \<and>
      sqlite_uploads U q' = sqlite_uploads U q \<and> sqlite_active U q' = sqlite_active U q \<and> (False \<longrightarrow> False)"
    using resume_statement[OF st g, where F = "\<lambda>m. m(p := None)" and G = "\<lambda>m. m(p := None)"]
      update_rows[where p = p and x = None]
    by (simp add: R.delete_map)
next
  fix q :: "('u, 'r) sqlite" and "from" to res q'
  assume g: "sqlite_good R cd q" and a: "rename_resume (sqlite_ops U R cd) from to q = (res, q')"
  obtain ok where st: "go (\<lambda>q. map_option (\<lambda>t. q\<lparr>resume_table := t\<rparr>) (update_key R from to (resume_table q))) q = (ok, q')"
    "res = Inr ok"
    using a by (auto simp: sqlite_ops_def sqlite_rename_resume_def split: prod.splits)
  have "sqlite_good R cd q' \<and> sqlite_resume R cd q' = (if ok then moved (sqlite_resume R cd q) from to else sqlite_resume R cd q) \<and>
      sqlite_uploads U q' = sqlite_uploads U q \<and> sqlite_active U q' = sqlite_active U q"
    by (rule resume_statement[OF st(1) g, where F = "\<lambda>m. moved m from to" and G = "\<lambda>m. moved m from to"])
      (erule R.update_some, rule moved_rows, blast)
  then show "sqlite_good R cd q' \<and> sqlite_resume R cd q' = (if res = Inr True then moved (sqlite_resume R cd q) from to else sqlite_resume R cd q) \<and>
      sqlite_uploads U q' = sqlite_uploads U q \<and> sqlite_active U q' = sqlite_active U q \<and> (False \<longrightarrow> False)"
    using st(2) by simp
next
  fix q :: "('u, 'r) sqlite"
  assume g: "sqlite_good R cd q"
  show "sqlite_good R cd (clear_db (sqlite_ops U R cd) q) \<and>
      (sqlite_uploads U (clear_db (sqlite_ops U R cd) q) = [] \<or> sqlite_uploads U (clear_db (sqlite_ops U R cd) q) = sqlite_uploads U q)"
    using g by (auto simp: sqlite_ops_def sqlite_clear_def go_def Let_def sqlite_good_def sqlite_uploads_def
        R.delete_rows_all U.delete_rows_all split: list.split)
qed

section \<open>An instance\<close>

text \<open>A log of rows in the order of insertion, in which the last row of a key counts.\<close>

fun log_rows :: "(string \<times> 'v) list \<Rightarrow> (string \<times> 'v) list" where
  "log_rows [] = []"
| "log_rows (e # t) = (if fst e \<in> fst ` set t then log_rows t else e # log_rows t)"

definition log_sql :: "((string \<times> 'v) list, 'v) sql_ops" where
  "log_sql = \<lparr>insert_or_replace = (\<lambda>k v t. t @ [(k, v)]),
    delete_where = (\<lambda>k. filter (\<lambda>e. fst e \<noteq> k)), delete_rows = (\<lambda>t. []),
    select_where = (\<lambda>k t. map_of (log_rows t) k), select_rows = log_rows,
    update_key = (\<lambda>k k' t. if k \<noteq> k' \<and> k \<in> fst ` set t \<and> k' \<in> fst ` set t then None
      else Some (map (\<lambda>(x, v). (if x = k then k' else x, v)) t))\<rparr>"

lemma log_rows_keys [simp]: "fst ` set (log_rows t) = fst ` set t"
  by (induction t) auto

lemma log_rows_distinct: "distinct (map fst (log_rows t))"
  by (induction t) auto

lemma log_rows_snoc: "log_rows (t @ [(k, v)]) = filter (\<lambda>e. fst e \<noteq> k) (log_rows t) @ [(k, v)]"
  by (induction t) (auto simp: image_Un)

lemma log_rows_filter: "log_rows (filter (\<lambda>e. fst e \<noteq> k) t) = filter (\<lambda>e. fst e \<noteq> k) (log_rows t)"
proof (induction t)
  case (Cons e t)
  have "fst e \<noteq> k \<Longrightarrow> fst e \<in> fst ` set (filter (\<lambda>e. fst e \<noteq> k) t) \<longleftrightarrow> fst e \<in> fst ` set t" by force
  then show ?case using Cons by simp
qed simp

lemma log_rows_absent: "k \<notin> fst ` set t \<Longrightarrow> map_of (log_rows t) k = None"
  by (simp add: map_of_eq_None_iff)

lemma moved_same [simp]: "moved m k k = m"
  by (auto simp: moved_def fun_eq_iff split: option.split)

abbreviation rekey :: "string \<Rightarrow> string \<Rightarrow> (string \<times> 'v) list \<Rightarrow> (string \<times> 'v) list" where
  "rekey k k' \<equiv> map (\<lambda>(x, v). (if x = k then k' else x, v))"

lemma rekey_absent: "k \<notin> fst ` set t \<or> k = k' \<Longrightarrow> rekey k k' t = t"
  by (intro map_idI) force

lemma rekey_member: "x \<noteq> k \<Longrightarrow> x \<noteq> k' \<Longrightarrow> x \<in> fst ` set (rekey k k' t) \<longleftrightarrow> x \<in> fst ` set t"
  by (induction t) auto

lemma rekey_target: "k' \<in> fst ` set (rekey k k' t) \<longleftrightarrow> k \<in> fst ` set t \<or> k' \<in> fst ` set t"
proof (induction t)
  case (Cons e t)
  then show ?case by (cases e) auto
qed simp

lemma log_rows_rename_fresh:
  "k' \<notin> fst ` set t \<Longrightarrow> map_of (log_rows (rekey k k' t)) = moved (map_of (log_rows t)) k k'"
proof (induction t)
  case (Cons e t)
  obtain x v where e: "e = (x, v)" by (cases e)
  have IH: "map_of (log_rows (rekey k k' t)) = moved (map_of (log_rows t)) k k'" using Cons by simp
  consider "x = k" "k \<in> fst ` set t" | "x = k" "k \<notin> fst ` set t" | "x \<noteq> k" by blast
  then show ?case
  proof cases
    case 1
    then show ?thesis using IH e rekey_target[of k' k t] by simp
  next
    case 2
    then show ?thesis
      using e Cons.prems log_rows_absent[of k t] rekey_absent[of k t k'] by (auto simp: moved_def fun_eq_iff)
  next
    case 3
    then have "x \<noteq> k'" using Cons.prems e by auto
    then show ?thesis
      using 3 e IH rekey_member[of x k k' t] by (auto simp: moved_def fun_eq_iff split: option.splits)
  qed
qed (simp add: moved_def)

lemma log_rows_rename:
  assumes "\<not> (k \<noteq> k' \<and> k \<in> fst ` set t \<and> k' \<in> fst ` set t)"
  shows "map_of (log_rows (rekey k k' t)) = moved (map_of (log_rows t)) k k'"
proof (cases "k' \<in> fst ` set t \<and> k \<noteq> k'")
  case True
  then show ?thesis using assms log_rows_absent[of k t] by (simp add: rekey_absent moved_def)
next
  case False
  then show ?thesis using log_rows_rename_fresh by (cases "k = k'") (auto simp: rekey_absent)
qed

lemma map_of_filter_key: "map_of (filter (\<lambda>e. fst e \<noteq> k) l) = (map_of l)(k := None)"
  by (induction l) (auto simp: fun_eq_iff)

interpretation log_sql: sql_queue_table log_sql
  by unfold_locales
    (auto simp: log_sql_def log_rows_distinct log_rows_snoc log_rows_filter map_of_filter_key map_add_def fun_eq_iff
      log_rows_rename map_of_append split: if_splits option.splits)

definition plain_bits :: bits_codec where
  "plain_bits = \<lparr>dump_bits = map (\<lambda>b. if b then CHR ''1'' else CHR ''0''),
    parse_bits = (\<lambda>s. Some (map (\<lambda>c. c = CHR ''1'') s))\<rparr>"

interpretation log_db: sqlite_store log_sql log_sql plain_bits
  by unfold_locales (simp add: bits_codec_ok_def plain_bits_def comp_def)

end
