(* ===== verification/Upload_Db_Agree.thy ===== *)
theory Upload_Db_Agree imports Sqlite_Upload_Db begin

text \<open>
  The two implementations of the file manager's database answer alike: while the storage does not
  fail, every sequence of calls that moves no saved state onto another one succeeds in both, and
  everything that can be read is the same.  The proof is done once, inside the contract
  \<open>file_mgr_db\<close>, against the abstract state a database stands for.  The one call on which they
  differ, a move onto a path that has a saved state, is \<open>move_onto_saved\<close>; when the storage of one
  fails, \<open>same_outcomes_same_readings\<close> says what is left of the agreement.
\<close>

section \<open>Runs\<close>

datatype db_call =
    Queue string string
  | Unqueue string
  | Activate string string
  | Deactivate string
  | Save_resume resume_entry
  | Drop_resume string
  | Move_resume string string

fun db_step :: "'d mgr_db \<Rightarrow> db_call \<Rightarrow> 'd \<Rightarrow> bool \<times> 'd" where
  "db_step db (Queue p src) d = add_upload db (p, src) d"
| "db_step db (Unqueue p) d = remove_upload db p d"
| "db_step db (Activate p src) d = add_upload_active db (p, src) d"
| "db_step db (Deactivate p) d = remove_upload_active db p d"
| "db_step db (Save_resume e) d = add_resume db e d"
| "db_step db (Drop_resume p) d = remove_resume db p d"
| "db_step db (Move_resume p q) d = (case rename_resume db p q d of (res, d) \<Rightarrow> (res = Inr True, d))"

fun db_run :: "'d mgr_db \<Rightarrow> db_call list \<Rightarrow> 'd \<Rightarrow> bool list \<times> 'd" where
  "db_run db [] d = ([], d)"
| "db_run db (c # cs) d =
    (case db_step db c d of (ok, d) \<Rightarrow> case db_run db cs d of (oks, d) \<Rightarrow> (ok # oks, d))"

text \<open>What a database stands for.\<close>

record db_view =
  queued :: "upload_entry list"
  running :: "string \<Rightarrow> string option"
  saved :: "string \<Rightarrow> resume_data option"

fun view_step :: "db_call \<Rightarrow> db_view \<Rightarrow> db_view" where
  "view_step (Queue p src) v = v\<lparr>queued := queued v @ [(p, src)]\<rparr>"
| "view_step (Unqueue p) v = v\<lparr>queued := filter (\<lambda>e. fst e \<noteq> p) (queued v)\<rparr>"
| "view_step (Activate p src) v = v\<lparr>running := (running v)(p \<mapsto> src)\<rparr>"
| "view_step (Deactivate p) v = v\<lparr>running := (running v)(p := None)\<rparr>"
| "view_step (Save_resume e) v = v\<lparr>saved := (saved v)(resume_path e \<mapsto>
     (resume_chunk_size e, resume_read_state e, resume_source e))\<rparr>"
| "view_step (Drop_resume p) v = v\<lparr>saved := (saved v)(p := None)\<rparr>"
| "view_step (Move_resume p q) v = v\<lparr>saved := moved (saved v) p q\<rparr>"

text \<open>
  The file manager removes a queued upload before it queues another of the same path; chunk sizes
  are 64-bit numbers; the paths are among those the database stores faithfully.
\<close>

fun call_ok :: "(string \<Rightarrow> bool) \<Rightarrow> db_call \<Rightarrow> db_view \<Rightarrow> bool" where
  "call_ok ok_path (Queue p src) v \<longleftrightarrow> ok_path p \<and> p \<notin> fst ` set (queued v)"
| "call_ok ok_path (Unqueue p) v \<longleftrightarrow> ok_path p"
| "call_ok ok_path (Save_resume e) v \<longleftrightarrow> resume_chunk_size e < 2 ^ 64"
| "call_ok ok_path _ v \<longleftrightarrow> True"

fun view_run :: "db_call list \<Rightarrow> bool list \<Rightarrow> db_view \<Rightarrow> db_view" where
  "view_run (c # cs) (ok # oks) v = view_run cs oks (if ok then view_step c v else v)"
| "view_run _ _ v = v"

fun calls_ok :: "(string \<Rightarrow> bool) \<Rightarrow> db_call list \<Rightarrow> bool list \<Rightarrow> db_view \<Rightarrow> bool" where
  "calls_ok ok_path (c # cs) (ok # oks) v \<longleftrightarrow>
    call_ok ok_path c v \<and> calls_ok ok_path cs oks (if ok then view_step c v else v)"
| "calls_ok ok_path _ _ v \<longleftrightarrow> True"

text \<open>
  The calls that neither database has a reason to refuse: a saved state is moved to a path that has
  none.  They all happen.
\<close>

fun move_free :: "db_call \<Rightarrow> db_view \<Rightarrow> bool" where
  "move_free (Move_resume p q) v \<longleftrightarrow> p = q \<or> saved v p = None \<or> saved v q = None"
| "move_free _ v \<longleftrightarrow> True"

fun steady :: "(string \<Rightarrow> bool) \<Rightarrow> db_call list \<Rightarrow> db_view \<Rightarrow> bool" where
  "steady ok_path [] v \<longleftrightarrow> True"
| "steady ok_path (c # cs) v \<longleftrightarrow> call_ok ok_path c v \<and> move_free c v \<and> steady ok_path cs (view_step c v)"

text \<open>\<open>room d n\<close>: the database can number \<open>n\<close> more uploads.\<close>

fun db_room :: "'d mgr_db \<Rightarrow> ('d \<Rightarrow> bool) \<Rightarrow> db_call list \<Rightarrow> 'd \<Rightarrow> bool" where
  "db_room db full [] d \<longleftrightarrow> True"
| "db_room db full (c # cs) d \<longleftrightarrow> \<not> full d \<and> db_room db full cs (snd (db_step db c d))"

section \<open>The abstract state of a run\<close>

context file_mgr_db begin

definition view :: "'d \<Rightarrow> db_view" where
  "view d = \<lparr>queued = uploads d, running = active d, saved = resume d\<rparr>"

lemma step_view:
  assumes g: "good d" and c: "call_ok path_ok c (view d)" and f: "\<not> full d" and s: "db_step db c d = (ok, d')"
  shows "good d' \<and> view d' = (if ok then view_step c (view d) else view d)"
proof (cases c)
  case (Queue p src)
  then show ?thesis using add_upload_law[OF g f, of p src ok d'] c s by (simp add: view_def)
next
  case (Unqueue p)
  then show ?thesis using remove_upload_law[OF g, of p ok d'] c s by (simp add: view_def)
next
  case (Activate p src)
  then show ?thesis using add_active_law[OF g, of p src ok d'] s by (simp add: view_def)
next
  case (Deactivate p)
  then show ?thesis using remove_active_law[OF g, of p ok d'] s by (simp add: view_def)
next
  case (Save_resume e)
  then show ?thesis using add_resume_law[OF g, of e ok d'] c s by (simp add: view_def)
next
  case (Drop_resume p)
  then show ?thesis using remove_resume_law[OF g, of p ok d'] s by (simp add: view_def)
next
  case (Move_resume p q)
  then obtain res where "rename_resume db p q d = (res, d')" "ok = (res = Inr True)"
    using s by (auto split: prod.splits)
  then show ?thesis using rename_resume_law[OF g, of p q res d'] Move_resume by (simp add: view_def)
qed

lemma run_view:
  "good d \<Longrightarrow> db_run db cs d = (oks, d') \<Longrightarrow> calls_ok path_ok cs oks (view d) \<Longrightarrow> db_room db full cs d \<Longrightarrow>
   good d' \<and> view d' = view_run cs oks (view d)"
proof (induction cs arbitrary: d oks)
  case (Cons c cs)
  obtain ok d1 where s: "db_step db c d = (ok, d1)" by (cases "db_step db c d")
  obtain oks1 d2 where r: "db_run db cs d1 = (oks1, d2)" by (cases "db_run db cs d1")
  have e: "oks = ok # oks1" "d' = d2" using Cons.prems(2) s r by simp_all
  then have "good d1 \<and> view d1 = (if ok then view_step c (view d) else view d)"
    using step_view[OF Cons.prems(1) _ _ s] Cons.prems(3,4) by simp
  then show ?case using Cons.IH[of d1 oks1] Cons.prems(3,4) r s e by simp
qed auto

lemma steady_run:
  assumes step: "\<And>c d. good d \<Longrightarrow> calm d \<Longrightarrow> move_free c (view d) \<Longrightarrow>
      fst (db_step db c d) \<and> calm (snd (db_step db c d))"
  shows "good d \<Longrightarrow> calm d \<Longrightarrow> steady path_ok cs (view d) \<Longrightarrow> db_room db full cs d \<Longrightarrow>
    db_run db cs d = (oks, d') \<Longrightarrow>
    oks = replicate (length cs) True \<and> good d' \<and> view d' = foldl (\<lambda>v c. view_step c v) (view d) cs"
proof (induction cs arbitrary: d oks)
  case (Cons c cs)
  obtain ok d1 where s: "db_step db c d = (ok, d1)" by (cases "db_step db c d")
  obtain oks1 d2 where r: "db_run db cs d1 = (oks1, d2)" by (cases "db_run db cs d1")
  have ok: "ok" "calm d1" using step[of d c] Cons.prems(1-3) s by simp_all
  then have "good d1 \<and> view d1 = view_step c (view d)"
    using step_view[OF Cons.prems(1) _ _ s] Cons.prems(3,4) by simp
  then show ?case using Cons.IH[of d1 oks1] Cons.prems(3-5) r s ok by simp
qed auto

text \<open>What the view says of the readers.\<close>

lemma readers:
  assumes "good d" "view d = v"
  shows "get_next_upload db d = (case queued v of [] \<Rightarrow> None | e # _ \<Rightarrow> Some e)"
    and "path_ok p \<Longrightarrow> get_upload db p d = map_option (Pair p) (map_of (queued v) p)"
    and "map_of (get_upload_active_list db d) = running v"
    and "\<exists>l. get_resume_list db d = Inr l \<and> saved v =
      map_of (map (\<lambda>e. (resume_path e, resume_chunk_size e, resume_read_state e, resume_source e)) l)"
  using next_law[OF assms(1)] get_law[OF assms(1)] active_law[OF assms(1)] resume_law[OF assms(1)] assms(2)
  by (auto simp: view_def)

end

section \<open>RocksDB and SQLite\<close>

context rdb_store begin

lemma keeps_contract:
  "file_mgr_db (rdb_ops kv cd) (rdb_good kv cd) rdb_full rdb_path_ok (rdb_uploads kv) (rdb_active kv) (rdb_resume kv cd)"
  by (rule rdb.file_mgr_db_axioms)

end

context sqlite_store begin

lemma keeps_contract:
  "file_mgr_db (sqlite_ops U R cd) (sqlite_good R cd) (\<lambda>q. False) (\<lambda>p. True)
    (sqlite_uploads U) (sqlite_active U) (sqlite_resume R cd)"
  by (rule sqlite.file_mgr_db_axioms)

end

definition sqlite_new :: "'u \<Rightarrow> 'r \<Rightarrow> bool list \<Rightarrow> ('u, 'r) sqlite" where
  "sqlite_new u r os = \<lparr>upload_table = u, upload_active_table = u, resume_table = r, results = os\<rparr>"

definition resume_map :: "resume_entry list \<Rightarrow> string \<Rightarrow> resume_data option" where
  "resume_map l = map_of (map (\<lambda>e. (resume_path e, resume_chunk_size e, resume_read_state e, resume_source e)) l)"

abbreviation empty_view :: db_view where
  "empty_view \<equiv> \<lparr>queued = [], running = Map.empty, saved = Map.empty\<rparr>"

definition same_readings :: "'d mgr_db \<Rightarrow> 'e mgr_db \<Rightarrow> (string \<Rightarrow> bool) \<Rightarrow> 'd \<Rightarrow> 'e \<Rightarrow> bool" where
  "same_readings A B ok_path d e \<longleftrightarrow>
    get_next_upload A d = get_next_upload B e \<and>
    (\<forall>p. ok_path p \<longrightarrow> get_upload A p d = get_upload B p e) \<and>
    map_of (get_upload_active_list A d) = map_of (get_upload_active_list B e) \<and>
    (\<exists>l k. get_resume_list A d = Inr l \<and> get_resume_list B e = Inr k \<and> resume_map l = resume_map k)"

lemma same_view_same_readings:
  assumes A: "file_mgr_db A good_a full_a ok_path up_a ac_a re_a" "good_a d"
    and B: "file_mgr_db B good_b full_b (\<lambda>p. True) up_b ac_b re_b" "good_b e"
    and v: "file_mgr_db.view up_a ac_a re_a d = file_mgr_db.view up_b ac_b re_b e"
  shows "same_readings A B ok_path d e"
  using file_mgr_db.readers[OF A v] file_mgr_db.readers[OF B refl]
  by (auto simp: same_readings_def resume_map_def)

lemma calls_ok_weaken: "calls_ok ok_path cs oks v \<Longrightarrow> calls_ok (\<lambda>p. True) cs oks v"
proof (induction ok_path cs oks v rule: calls_ok.induct)
  case (1 ok_path c cs ok oks v)
  then show ?case by (cases c) (auto split: if_splits)
qed auto

lemma db_room_False: "db_room db (\<lambda>d. False) cs d"
  by (induction cs arbitrary: d) auto

text \<open>Each call takes at most one number.\<close>

lemma rdb_step_id:
  "upload_id r + 1 < 2 ^ 64 \<Longrightarrow> upload_id (snd (db_step (rdb_ops kv cd) c r)) \<le> upload_id r + 1"
  by (cases c) (auto simp: rdb_ops_def rdb_add_resume_def rdb_add_upload_def rdb_add_upload_active_def
      rdb_remove_resume_def rdb_remove_upload_def rdb_remove_upload_active_def rdb_rename_resume_def
      perform_action_def add64_def Let_def split: list.splits option.splits prod.splits)

lemma rdb_room: "upload_id r + length cs < 2 ^ 64 \<Longrightarrow> db_room (rdb_ops kv cd) rdb_full cs r"
proof (induction cs arbitrary: r)
  case (Cons c cs)
  then show ?case using rdb_step_id[of r kv cd c] by (simp add: rdb_full_def)
qed simp

text \<open>
  A table whose key is unique refuses to give a row the key of another one, and only that; it is
  what SQLite documents of an \<open>UPDATE\<close>.
\<close>

locale sql_unique_table = sql_table T for T :: "('t, 'v) sql_ops" +
  assumes update_refused: "update_key T k k' t = None \<longleftrightarrow>
    k \<noteq> k' \<and> map_of (select_rows T t) k \<noteq> None \<and> map_of (select_rows T t) k' \<noteq> None"

lemma log_update_refused:
  "update_key log_sql k k' t = None \<longleftrightarrow>
    k \<noteq> k' \<and> map_of (select_rows log_sql t) k \<noteq> None \<and> map_of (select_rows log_sql t) k' \<noteq> None"
  by (simp add: log_sql_def map_of_eq_None_iff)

interpretation log_unique: sql_unique_table log_sql
  by unfold_locales (rule log_update_refused)

text \<open>While the storage does not fail, every such call succeeds.\<close>

context rdb_store begin

lemma calm_move:
  assumes g: "rdb_good kv cd r" and o: "outcomes r = []"
  shows "\<exists>r'. rename_resume (rdb_ops kv cd) from to r = (Inr True, r') \<and> outcomes r' = []"
proof (cases "kv_get kv from (resume_family r)")
  case None
  then show ?thesis using o by (simp add: rdb_ops_def rdb_rename_resume_def perform_action_def)
next
  case (Some v)
  then have v: "v \<noteq> []" "parse_resume cd v \<noteq> None"
    using g unfolding rdb_good_def resume_ok_def get_list by blast+
  then show ?thesis using o Some by (auto simp: rdb_ops_def rdb_rename_resume_def perform_action_def)
qed

lemma calm_step:
  "rdb_good kv cd r \<Longrightarrow> outcomes r = [] \<Longrightarrow>
   fst (db_step (rdb_ops kv cd) c r) \<and> outcomes (snd (db_step (rdb_ops kv cd) c r)) = []"
proof (cases c)
  case (Move_resume p q)
  assume "rdb_good kv cd r" "outcomes r = []"
  then obtain r' where "rename_resume (rdb_ops kv cd) p q r = (Inr True, r')" "outcomes r' = []"
    using calm_move by blast
  then show ?thesis by (simp add: Move_resume)
qed (auto simp: rdb_ops_def rdb_add_resume_def rdb_add_upload_def rdb_add_upload_active_def
      rdb_remove_resume_def rdb_remove_upload_def rdb_remove_upload_active_def
      perform_action_def Let_def split: option.splits)

end

context sqlite_store begin

lemma resume_None: "sqlite_good R cd q \<Longrightarrow> sqlite_resume R cd q p = None \<longleftrightarrow> map_of (select_rows R (resume_table q)) p = None"
  unfolding sqlite_good_def sqlite_resume_def by (auto split: option.split)

lemma calm_step:
  assumes u: "sql_unique_table R" and g: "sqlite_good R cd q" and o: "results q = []"
    and m: "move_free c (sqlite.view q)"
  shows "fst (db_step (sqlite_ops U R cd) c q) \<and> results (snd (db_step (sqlite_ops U R cd) c q)) = []"
proof (cases c)
  case (Move_resume a b)
  then have "update_key R a b (resume_table q) \<noteq> None"
    using m unfolding sql_unique_table.update_refused[OF u] by (auto simp: sqlite.view_def resume_None[OF g])
  then obtain t where "update_key R a b (resume_table q) = Some t" by blast
  then show ?thesis using o by (simp add: Move_resume sqlite_ops_def sqlite_rename_resume_def go_def)
qed (use o in \<open>simp_all add: sqlite_ops_def sqlite_add_resume_def sqlite_add_upload_def sqlite_add_upload_active_def
      sqlite_remove_resume_def sqlite_remove_upload_def sqlite_remove_upload_active_def go_def\<close>)

end

text \<open>New databases.\<close>

lemma rdb_new_view:
  assumes kv: "column_family kv" "codec_ok cd"
  shows "rdb_good kv cd ((rdb_new kv)\<lparr>outcomes := os\<rparr>) \<and>
    file_mgr_db.view (rdb_uploads kv) (rdb_active kv) (rdb_resume kv cd) ((rdb_new kv)\<lparr>outcomes := os\<rparr>) = empty_view"
proof -
  have A: "rdb_store kv cd" using kv by (simp add: rdb_store_def rdb_store_axioms_def)
  have empty: "kv_list kv (kv_empty kv) = []" using column_family.list_empty[OF kv(1)] .
  show ?thesis
    by (simp add: rdb_good_def rdb_new_def rdb_uploads_def resume_ok_def empty rdb_active_def rdb_resume_def fun_eq_iff
        file_mgr_db.view_def[OF rdb_store.keeps_contract[OF A]])
qed

lemma sqlite_new_view:
  assumes sql: "sql_queue_table U" "sql_table R" "bits_codec_ok bc" and new: "select_rows U u = []" "select_rows R t = []"
  shows "sqlite_good R bc (sqlite_new u t os) \<and>
    file_mgr_db.view (sqlite_uploads U) (sqlite_active U) (sqlite_resume R bc) (sqlite_new u t os) = empty_view"
proof -
  have B: "sqlite_store U R bc" using sql by (simp add: sqlite_store_def sqlite_store_axioms_def)
  show ?thesis
    by (simp add: sqlite_good_def sqlite_new_def new sqlite_uploads_def sqlite_active_def sqlite_resume_def fun_eq_iff
        file_mgr_db.view_def[OF sqlite_store.keeps_contract[OF B]])
qed

text \<open>
  When the storage may fail: if the calls have the same outcomes in both, so have the readers.
\<close>

theorem same_outcomes_same_readings:
  assumes kv: "column_family kv" "codec_ok cd" and sql: "sql_queue_table U" "sql_table R" "bits_codec_ok bc"
    and new: "select_rows U u = []" "select_rows R t = []"
    and runs: "db_run (rdb_ops kv cd) cs ((rdb_new kv)\<lparr>outcomes := os1\<rparr>) = (oks, d)"
      "db_run (sqlite_ops U R bc) cs (sqlite_new u t os2) = (oks, q)"
    and ok: "calls_ok rdb_path_ok cs oks empty_view" "length cs < 2 ^ 64"
  shows "same_readings (rdb_ops kv cd) (sqlite_ops U R bc) rdb_path_ok d q"
proof -
  have A: "rdb_store kv cd" using kv by (simp add: rdb_store_def rdb_store_axioms_def)
  have B: "sqlite_store U R bc" using sql by (simp add: sqlite_store_def sqlite_store_axioms_def)
  note a = rdb_store.keeps_contract[OF A] and b = sqlite_store.keeps_contract[OF B]
  note na = rdb_new_view[OF kv, of os1] and nb = sqlite_new_view[OF sql new, of os2]
  have "upload_id ((rdb_new kv)\<lparr>outcomes := os1\<rparr>) + length cs < 2 ^ 64" using ok(2) by (simp add: rdb_new_def)
  note ra = file_mgr_db.run_view[OF a conjunct1[OF na] runs(1) _ rdb_room[OF this], unfolded conjunct2[OF na], OF ok(1)]
  note rb = file_mgr_db.run_view[OF b conjunct1[OF nb] runs(2) _ db_room_False, unfolded conjunct2[OF nb],
      OF calls_ok_weaken[OF ok(1)]]
  show ?thesis using same_view_same_readings[OF a _ b] ra rb by simp
qed

text \<open>The call on which they differ: RocksDB replaces the state of the target, SQLite refuses.\<close>

theorem move_onto_saved:
  assumes kv: "column_family kv" "codec_ok cd" and sql: "sql_queue_table U" "sql_unique_table R" "bits_codec_ok bc"
    and r: "rdb_good kv cd r" "outcomes r = []" and q: "sqlite_good R bc q" "results q = []"
    and saved: "a \<noteq> b" "sqlite_resume R bc q a \<noteq> None" "sqlite_resume R bc q b \<noteq> None"
  shows "fst (rename_resume (rdb_ops kv cd) a b r) = Inr True \<and>
    rename_resume (sqlite_ops U R bc) a b q = (Inr False, q)"
proof -
  have A: "rdb_store kv cd" using kv by (simp add: rdb_store_def rdb_store_axioms_def)
  have t: "sql_table R" using sql(2) by (simp add: sql_unique_table_def)
  have B: "sqlite_store U R bc" using sql t by (simp add: sqlite_store_def sqlite_store_axioms_def)
  have "update_key R a b (resume_table q) = None"
    using saved unfolding sql_unique_table.update_refused[OF sql(2)] by (simp add: sqlite_store.resume_None[OF B q(1)])
  then have "rename_resume (sqlite_ops U R bc) a b q = (Inr False, q)"
    using q(2) by (simp add: sqlite_ops_def sqlite_rename_resume_def go_def)
  then show ?thesis using rdb_store.calm_move[OF A r, of a b] by auto
qed

lemma steady_weaken: "steady ok_path cs v \<Longrightarrow> steady (\<lambda>p. True) cs v"
proof (induction cs arbitrary: v)
  case (Cons c cs)
  then show ?case by (cases c) auto
qed simp

text \<open>
  C18. The RocksDB and the SQLite implementation of the file manager's database are interchangeable
  while the storage does not fail.  From empty databases, in any sequence of calls that queues no
  path twice, uses no path that ends in a bar, and moves no saved resume state onto a path that has
  one (there they differ, \<open>move_onto_saved\<close>: RocksDB replaces the target, SQLite refuses), every
  call succeeds in both, and every reader gives the same answer: the next upload, each queued
  upload, the active uploads and the saved resume states.
\<close>

theorem rdb_sqlite_agree:
  assumes kv: "column_family kv" "codec_ok cd" and sql: "sql_queue_table U" "sql_unique_table R" "bits_codec_ok bc"
    and new: "select_rows U u = []" "select_rows R t = []"
    and calls: "steady rdb_path_ok cs empty_view" "length cs < 2 ^ 64"
    and runs: "db_run (rdb_ops kv cd) cs ((rdb_new kv)\<lparr>outcomes := []\<rparr>) = (oks, d)"
      "db_run (sqlite_ops U R bc) cs (sqlite_new u t []) = (oks', q)"
  shows "oks = replicate (length cs) True \<and> oks' = oks \<and>
    same_readings (rdb_ops kv cd) (sqlite_ops U R bc) rdb_path_ok d q"
proof -
  have A: "rdb_store kv cd" using kv by (simp add: rdb_store_def rdb_store_axioms_def)
  have t: "sql_table R" using sql(2) by (simp add: sql_unique_table_def)
  have B: "sqlite_store U R bc" using sql t by (simp add: sqlite_store_def sqlite_store_axioms_def)
  note a = rdb_store.keeps_contract[OF A] and b = sqlite_store.keeps_contract[OF B]
  note na = rdb_new_view[OF kv, of "[]"] and nb = sqlite_new_view[OF sql(1) t sql(3) new, of "[]"]
  have room: "upload_id ((rdb_new kv)\<lparr>outcomes := []\<rparr>) + length cs < 2 ^ 64" using calls(2) by (simp add: rdb_new_def)
  have "oks = replicate (length cs) True \<and> rdb_good kv cd d \<and>
      file_mgr_db.view (rdb_uploads kv) (rdb_active kv) (rdb_resume kv cd) d = foldl (\<lambda>v c. view_step c v) empty_view cs"
    by (rule file_mgr_db.steady_run[OF a, where calm = "\<lambda>r. outcomes r = []", OF rdb_store.calm_step[OF A]
          conjunct1[OF na] _ _ rdb_room[OF room] runs(1), unfolded conjunct2[OF na]]) (use calls in \<open>simp_all\<close>)
  moreover have "oks' = replicate (length cs) True \<and> sqlite_good R bc q \<and>
      file_mgr_db.view (sqlite_uploads U) (sqlite_active U) (sqlite_resume R bc) q = foldl (\<lambda>v c. view_step c v) empty_view cs"
    by (rule file_mgr_db.steady_run[OF b, where calm = "\<lambda>q. results q = []", OF sqlite_store.calm_step[OF B sql(2)]
          conjunct1[OF nb] _ _ db_room_False runs(2), unfolded conjunct2[OF nb]])
      (use steady_weaken[OF calls(1)] in \<open>simp_all add: sqlite_new_def\<close>)
  ultimately show ?thesis using same_view_same_readings[OF a _ b] by simp
qed

definition sample_calls :: "db_call list" where
  "sample_calls = [Queue ''/a'' ''s1'', Queue ''/b'' ''s2'', Unqueue ''/a'', Activate ''/a'' ''s1'',
    Save_resume \<lparr>resume_path = ''/b'', resume_chunk_size = 2, resume_read_state = [True, False], resume_source = ''s2''\<rparr>,
    Queue ''/a'' ''s3'', Move_resume ''/b'' ''/d'', Deactivate ''/a'', Drop_resume ''/c'']"

theorem rdb_sqlite_agree_witness:
  "fst (db_run (sqlite_ops log_sql log_sql plain_bits) sample_calls (sqlite_new [] [] [])) = replicate (length sample_calls) True \<and>
   same_readings (rdb_ops rbt_kv text_codec) (sqlite_ops log_sql log_sql plain_bits) rdb_path_ok
    (snd (db_run (rdb_ops rbt_kv text_codec) sample_calls ((rdb_new rbt_kv)\<lparr>outcomes := []\<rparr>)))
    (snd (db_run (sqlite_ops log_sql log_sql plain_bits) sample_calls (sqlite_new [] [] [])))"
proof -
  have c: "steady rdb_path_ok sample_calls empty_view" by (simp add: sample_calls_def rdb_path_ok_def bar_def)
  have n: "length sample_calls < 2 ^ 64" by (simp add: sample_calls_def)
  have e: "select_rows log_sql [] = ([] :: (string \<times> 'v) list)" by (simp add: log_sql_def)
  show ?thesis
    using rdb_sqlite_agree[OF rbt.column_family_axioms text_codec_ok log_sql.sql_queue_table_axioms
      log_unique.sql_unique_table_axioms log_db.bits e e c n surjective_pairing surjective_pairing] by simp
qed

end
