(* ===== verification/File_Objects.thy ===== *)
theory File_Objects imports Open_File Ring_Buffer_Open_File Direct_Open_File begin

text \<open>
  The open files as the file manager sees them (file_manager/i_open_file.hpp,
  \<open>i_closeable_open_file\<close>): one of the three classes behind one interface.  The interface is the
  record \<open>file_ops\<close> and its contract the locale \<open>closeable_files\<close>, which the three classes of the
  model keep.

  A cached file calls its manager while it works (\<open>i_upload_manager\<close>), stores meta data, and may
  remove its source file; an operation returns those requests as its \<open>effects\<close>, in order, and
  the manager carries them out.
\<close>

section \<open>The interface\<close>

record effects =
  to_manager :: "upload_call list"
  to_provider :: "(string \<times> (string \<times> string) list) list"
  removed_source :: "string option"     \<comment> \<open>the source path whose removal was tried\<close>

definition no_effects :: effects where
  "no_effects = \<lparr>to_manager = [], to_provider = [], removed_source = None\<rparr>"

type_synonym meta_map = "(string \<times> string) list"

record 'f file_ops =
  cf_add :: "nat \<Rightarrow> int \<Rightarrow> 'f \<Rightarrow> 'f"                       \<comment> \<open>\<open>add(handle, ofd, true)\<close>\<close>
  cf_remove :: "nat \<Rightarrow> 'f \<Rightarrow> effects \<times> 'f"
  cf_close :: "bool \<Rightarrow> cache_mgr \<Rightarrow> 'f \<Rightarrow> effects \<times> cache_mgr \<times> 'f"
                                                       \<comment> \<open>can the source file be removed?\<close>
  cf_data :: "'f \<Rightarrow> (nat \<times> int) list"                    \<comment> \<open>\<open>get_open_data\<close>\<close>
  cf_item :: "'f \<Rightarrow> filesystem_item"
  cf_can_close :: "'f \<Rightarrow> bool"
  cf_writable :: "'f \<Rightarrow> bool"
  cf_modified :: "'f \<Rightarrow> bool"
  cf_complete :: "'f \<Rightarrow> bool"
  cf_allocated :: "'f \<Rightarrow> bool"
  cf_unlinked :: "'f \<Rightarrow> bool"
  cf_meta :: "'f \<Rightarrow> meta_map"
  cf_chunk_size :: "'f \<Rightarrow> nat"
  cf_read_state :: "'f \<Rightarrow> bool list"
  cf_set_unlinked :: "bool \<Rightarrow> 'f \<Rightarrow> 'f"
  cf_set_meta :: "meta_map \<Rightarrow> 'f \<Rightarrow> 'f"
  cf_set_path :: "string \<Rightarrow> 'f \<Rightarrow> (exn + 'f) option"
  cf_force :: "'f \<Rightarrow> 'f"                               \<comment> \<open>\<open>force_download\<close>\<close>
  new_cached :: "filesystem_item \<Rightarrow> (nat \<times> int) list \<Rightarrow> (nat \<times> bool list) option \<Rightarrow> effects \<times> 'f"
  new_direct :: "filesystem_item \<Rightarrow> exn + 'f"
  new_buffered :: "nat \<Rightarrow> filesystem_item \<Rightarrow> exn + 'f"

definition handles_of :: "'f file_ops \<Rightarrow> 'f \<Rightarrow> nat set" where
  "handles_of F f = fst ` set (cf_data F f)"

text \<open>
  What the manager relies on: handles are added and removed one at a time and by nothing else, no
  operation but a rename changes the path of a file, and only \<open>set_unlinked\<close> unlinks one.
\<close>

locale closeable_files =
  fixes F :: "'f file_ops"
  assumes add_handles: "handles_of F (cf_add F h d f) = insert h (handles_of F f)"
    and remove_handles: "handles_of F (snd (cf_remove F h f)) = handles_of F f - {h}"
    and close_handles: "handles_of F (snd (snd (cf_close F b c f))) = handles_of F f"
    and set_path_handles: "cf_set_path F p f = Some (Inr f') \<Longrightarrow> handles_of F f' = handles_of F f"
    and set_unlinked_handles: "handles_of F (cf_set_unlinked F u f) = handles_of F f"
    and set_meta_handles: "handles_of F (cf_set_meta F m f) = handles_of F f"
    and force_handles: "handles_of F (cf_force F f) = handles_of F f"
    and new_cached_handles: "handles_of F (snd (new_cached F i data r)) = fst ` set data"
    and new_direct_handles: "new_direct F i = Inr f' \<Longrightarrow> handles_of F f' = {}"
    and new_buffered_handles: "new_buffered F n i = Inr f' \<Longrightarrow> handles_of F f' = {}"
    and add_path: "api_path (cf_item F (cf_add F h d f)) = api_path (cf_item F f)"
    and remove_path: "api_path (cf_item F (snd (cf_remove F h f))) = api_path (cf_item F f)"
    and close_path: "api_path (cf_item F (snd (snd (cf_close F b c f)))) = api_path (cf_item F f)"
    and set_path_path: "cf_set_path F p f = Some (Inr f') \<Longrightarrow> api_path (cf_item F f') = p"
    and set_unlinked_path: "api_path (cf_item F (cf_set_unlinked F u f)) = api_path (cf_item F f)"
    and set_meta_path: "api_path (cf_item F (cf_set_meta F m f)) = api_path (cf_item F f)"
    and force_path: "api_path (cf_item F (cf_force F f)) = api_path (cf_item F f)"
    and new_cached_path: "api_path (cf_item F (snd (new_cached F i data r))) = api_path i"
    and new_direct_path: "new_direct F i = Inr f' \<Longrightarrow> api_path (cf_item F f') = api_path i"
    and new_buffered_path: "new_buffered F n i = Inr f' \<Longrightarrow> api_path (cf_item F f') = api_path i"
    and add_unlinked: "cf_unlinked F (cf_add F h d f) = cf_unlinked F f"
    and remove_unlinked: "cf_unlinked F (snd (cf_remove F h f)) = cf_unlinked F f"
    and close_unlinked: "cf_unlinked F (snd (snd (cf_close F b c f))) = cf_unlinked F f"
    and set_path_unlinked: "cf_set_path F p f = Some (Inr f') \<Longrightarrow> cf_unlinked F f' = cf_unlinked F f"
    and set_unlinked_unlinked: "cf_unlinked F (cf_set_unlinked F u f) = u"
    and set_meta_unlinked: "cf_unlinked F (cf_set_meta F m f) = cf_unlinked F f"
    and force_unlinked: "cf_unlinked F (cf_force F f) = cf_unlinked F f"
    and new_cached_unlinked: "\<not> cf_unlinked F (snd (new_cached F i data r))"
    and new_direct_unlinked: "new_direct F i = Inr f' \<Longrightarrow> \<not> cf_unlinked F f'"
    and new_buffered_unlinked: "new_buffered F n i = Inr f' \<Longrightarrow> \<not> cf_unlinked F f'"
    and new_cached_writable: "cf_writable F (snd (new_cached F i data r))"
    and set_unlinked_writable: "cf_writable F (cf_set_unlinked F u f) = cf_writable F f"
    and set_meta_writable: "cf_writable F (cf_set_meta F m f) = cf_writable F f"
    and close_writable: "cf_writable F (snd (snd (cf_close F b c f))) = cf_writable F f"
    and close_unlinked_nothing: "cf_unlinked F f \<Longrightarrow> fst (cf_close F b c f) = no_effects \<and> fst (snd (cf_close F b c f)) = c"
begin

lemmas handles_laws [simp] = add_handles remove_handles close_handles set_unlinked_handles set_meta_handles
  force_handles new_cached_handles

lemmas path_laws [simp] = add_path remove_path close_path set_unlinked_path set_meta_path force_path new_cached_path

lemmas unlinked_laws [simp] = add_unlinked remove_unlinked close_unlinked set_unlinked_unlinked set_meta_unlinked
  force_unlinked new_cached_unlinked

lemmas set_path_laws = set_path_handles set_path_path set_path_unlinked

lemmas new_laws = new_direct_handles new_direct_path new_direct_unlinked
  new_buffered_handles new_buffered_path new_buffered_unlinked

end

section \<open>The three classes\<close>

text \<open>A streamed file is its \<open>open_file_base\<close> part together with its ring.\<close>

datatype file_object =
    Cached open_file
  | Direct open_base "direct_store ring"
  | Buffered open_base "ring_file ring"

record object_env =
  fenv :: file_env
  data_chunk_size :: nat
  chunk_timeout :: nat
  local_of :: "string \<Rightarrow> local_file"        \<comment> \<open>\<open>open_or_create_file\<close>\<close>
  spare_ring_file :: ring_file

fun object_base :: "file_object \<Rightarrow> open_base" where
  "object_base (Cached s) = open_base.truncate s"
| "object_base (Direct b r) = b"
| "object_base (Buffered b r) = b"

fun object_add :: "nat \<Rightarrow> int \<Rightarrow> file_object \<Rightarrow> file_object" where
  "object_add h d (Cached s) = Cached (base_add h d True s)"
| "object_add h d (Direct b r) = Direct (base_add h d True b) r"
| "object_add h d (Buffered b r) = Buffered (base_add h d True b) r"

fun object_remove :: "nat \<Rightarrow> file_object \<Rightarrow> effects \<times> file_object" where
  "object_remove h (Cached s) =
    (let s = f_remove h (s\<lparr>upload_calls := []\<rparr>)
     in (no_effects\<lparr>to_manager := upload_calls s\<rparr>, Cached s))"
| "object_remove h (Direct b r) = (no_effects, Direct (base_remove h b) r)"
| "object_remove h (Buffered b r) = (no_effects, Buffered (base_remove h b) r)"

fun object_close :: "object_env \<Rightarrow> bool \<Rightarrow> cache_mgr \<Rightarrow> file_object \<Rightarrow> effects \<times> cache_mgr \<times> file_object" where
  "object_close env removable c (Cached s) =
    (case f_close ((fenv env)\<lparr>remove_works := removable\<rparr>) (s\<lparr>upload_calls := [], meta_calls := [], cache := c\<rparr>) of
       (ok, s') \<Rightarrow>
         (\<lparr>to_manager = upload_calls s', to_provider = meta_calls s',
           removed_source = (if meta_calls s' = [] then None else Some (source_path (fsi s)))\<rparr>,
          cache s', Cached s'))"
| "object_close env removable c (Direct b r) =
    (no_effects, c, Direct (snd (base_close b)) (r\<lparr>ring_stop := True\<rparr>))"
| "object_close env removable c (Buffered b r) =
    (no_effects, c, Buffered (snd (base_close b)) (r\<lparr>ring_stop := True\<rparr>))"

fun object_complete :: "file_object \<Rightarrow> bool" where
  "object_complete (Cached s) = all_read s"
| "object_complete _ = False"

fun object_allocated :: "file_object \<Rightarrow> bool" where
  "object_allocated (Cached s) = allocated s"
| "object_allocated _ = False"

fun object_writable :: "file_object \<Rightarrow> bool" where
  "object_writable (Cached s) = True"
| "object_writable _ = False"

fun object_read_state :: "file_object \<Rightarrow> bool list" where
  "object_read_state (Cached s) = chunks_read s"
| "object_read_state (Direct b r) = read_state r"
| "object_read_state (Buffered b r) = read_state r"

fun object_set_unlinked :: "bool \<Rightarrow> file_object \<Rightarrow> file_object" where
  "object_set_unlinked u (Cached s) = Cached (s\<lparr>unlinked := u\<rparr>)"
| "object_set_unlinked u (Direct b r) = Direct (b\<lparr>unlinked := u\<rparr>) r"
| "object_set_unlinked u (Buffered b r) = Buffered (b\<lparr>unlinked := u\<rparr>) r"

fun object_set_meta :: "meta_map \<Rightarrow> file_object \<Rightarrow> file_object" where
  "object_set_meta m (Cached s) = Cached (s\<lparr>unlinked_meta := m\<rparr>)"
| "object_set_meta m (Direct b r) = Direct (b\<lparr>unlinked_meta := m\<rparr>) r"
| "object_set_meta m (Buffered b r) = Buffered (b\<lparr>unlinked_meta := m\<rparr>) r"

definition on_result :: "('a \<Rightarrow> 'b) \<Rightarrow> (exn + 'a) option \<Rightarrow> (exn + 'b) option" where
  "on_result g = map_option (map_sum (\<lambda>e. e) g)"

fun object_set_path :: "string \<Rightarrow> file_object \<Rightarrow> (exn + file_object) option" where
  "object_set_path p (Cached s) = on_result Cached (set_api_path p s)"
| "object_set_path p (Direct b r) = on_result (\<lambda>b. Direct b r) (set_api_path p b)"
| "object_set_path p (Buffered b r) = on_result (\<lambda>b. Buffered b r) (set_api_path p b)"

fun object_force :: "file_object \<Rightarrow> file_object" where
  "object_force (Cached s) = Cached (force_download s)"
| "object_force f = f"

definition object_can_close :: "object_env \<Rightarrow> file_object \<Rightarrow> bool" where
  "object_can_close env f =
    can_close (object_complete f) (read_only (fenv env)) (clock (fenv env)) (object_base f)"

definition object_new_cached ::
  "object_env \<Rightarrow> filesystem_item \<Rightarrow> (nat \<times> int) list \<Rightarrow> (nat \<times> bool list) option \<Rightarrow> effects \<times> file_object" where
  "object_new_cached env item data resume_state =
    (let s = new_open_file (fenv env)
               (case resume_state of None \<Rightarrow> data_chunk_size env | Some (n, rs) \<Rightarrow> n)
               (chunk_timeout env) item data (map_option snd resume_state) (local_of env (source_path item)) cache_init
     in (no_effects\<lparr>to_manager := upload_calls s\<rparr>, Cached s))"

definition object_new_direct :: "object_env \<Rightarrow> filesystem_item \<Rightarrow> exn + file_object" where
  "object_new_direct env item =
    (case direct_open_file (data_chunk_size env) (item_size item) (directory item) of
       Inl e \<Rightarrow> Inl e
     | Inr r \<Rightarrow> Inr (Direct (open_file_base (data_chunk_size env) (chunk_timeout env) item [] True
                                (clock (fenv env))) r))"

definition object_new_buffered :: "object_env \<Rightarrow> nat \<Rightarrow> filesystem_item \<Rightarrow> exn + file_object" where
  "object_new_buffered env rsize item =
    (case ring_buffer_open_file (data_chunk_size env) (item_size item) (directory item) rsize (spare_ring_file env) of
       Inl e \<Rightarrow> Inl e
     | Inr r \<Rightarrow> Inr (Buffered (open_file_base (data_chunk_size env) (chunk_timeout env) item [] False
                                  (clock (fenv env))) r))"

definition object_ops :: "object_env \<Rightarrow> file_object file_ops" where
  "object_ops env =
    \<lparr>cf_add = object_add, cf_remove = object_remove, cf_close = object_close env,
     cf_data = (\<lambda>f. open_data (object_base f)), cf_item = (\<lambda>f. fsi (object_base f)),
     cf_can_close = object_can_close env, cf_writable = object_writable,
     cf_modified = (\<lambda>f. modified (object_base f)), cf_complete = object_complete,
     cf_allocated = object_allocated, cf_unlinked = (\<lambda>f. unlinked (object_base f)),
     cf_meta = (\<lambda>f. unlinked_meta (object_base f)), cf_chunk_size = (\<lambda>f. f_chunk_size (object_base f)),
     cf_read_state = object_read_state, cf_set_unlinked = object_set_unlinked, cf_set_meta = object_set_meta,
     cf_set_path = object_set_path, cf_force = object_force, new_cached = object_new_cached env,
     new_direct = object_new_direct env, new_buffered = object_new_buffered env\<rparr>"

section \<open>The classes keep the contract\<close>

text \<open>What the operations of a cached file leave alone.\<close>

definition same_item :: "'a open_base_scheme \<Rightarrow> 'b open_base_scheme \<Rightarrow> bool" where
  "same_item s t \<longleftrightarrow> open_data t = open_data s \<and> api_path (fsi t) = api_path (fsi s) \<and> unlinked t = unlinked s"

lemma same_item_simps [simp]:
  "same_item s s"
  "same_item s (snd (set_api_error e t)) = same_item s t"
  "same_item s (call_mgr k u) = same_item s u"
  "same_item s (set_source_path p t) = same_item s t"
  "same_item s (u\<lparr>cache := c\<rparr>) = same_item s u"
  "same_item s (u\<lparr>nf_file := f\<rparr>) = same_item s u"
  "same_item s (snd (update_meta env m u)) = same_item s u"
  "same_item s (snd (base_close t)) = same_item s t"
  by (simp_all add: same_item_def set_api_error_def call_mgr_def set_source_path_def update_meta_def base_close_def Let_def)

lemma item_let: "same_item s t \<Longrightarrow> (\<And>t. same_item s t \<Longrightarrow> same_item s (snd (g t))) \<Longrightarrow> same_item s (snd (let t = t in g t))"
  by simp

lemma item_let_error: "(\<And>e. same_item s (snd (g e))) \<Longrightarrow> same_item s (snd (let e = (e :: api_error) in g e))"
  by simp

lemma item_if: "(b \<Longrightarrow> same_item s (snd t)) \<Longrightarrow> (\<not> b \<Longrightarrow> same_item s (snd u)) \<Longrightarrow> same_item s (snd (if b then t else u))"
  by simp

lemma f_close_item: "same_item s (snd (f_close env s))"
proof -
  let ?s = "s\<lparr>stopped := True, reader_thread := False\<rparr>"
  obtain ok s1 where b: "base_close ?s = (ok, s1)" by (cases "base_close ?s")
  have "same_item s (snd (base_close ?s))" by (simp add: same_item_def base_close_def)
  then have s1: "same_item s s1" by (simp add: b)
  show ?thesis
    unfolding f_close_def Let_def[of ?s] b prod.case
    by (cases ok; simp only: bool.case prod.case; intro item_if item_let item_let_error) (simp_all add: s1)
qed

lemma base_remove_item:
  "open_data (base_remove h s) = AList.delete h (open_data s)"
  "api_path (fsi (base_remove h s)) = api_path (fsi s)"
  "unlinked (base_remove h s) = unlinked s"
proof -
  have "\<not> has_handle h s \<Longrightarrow> AList.delete h (open_data s) = open_data s"
    by (force simp: has_handle_def AList.delete_eq filter_id_conv)
  then show "open_data (base_remove h s) = AList.delete h (open_data s)"
    by (auto simp: base_remove_def raise_item_event_def Let_def)
qed (simp_all add: base_remove_def raise_item_event_def Let_def)

lemma base_add_item:
  "open_data (base_add h d n s) = AList.update h d (open_data s)"
  "api_path (fsi (base_add h d n s)) = api_path (fsi s)"
  "unlinked (base_add h d n s) = unlinked s"
  by (simp_all add: base_add_def raise_item_event_def Let_def)

lemma f_remove_item:
  "open_data (f_remove h s) = AList.delete h (open_data s)"
  "api_path (fsi (f_remove h s)) = api_path (fsi s)"
  "unlinked (f_remove h s) = unlinked s"
  by (simp_all add: f_remove_def Let_def call_mgr_def base_remove_item)

lemma set_api_path_item:
  "set_api_path p s = Some (Inr t) \<Longrightarrow> open_data t = open_data s \<and> api_path (fsi t) = p \<and> unlinked t = unlinked s"
  by (auto simp: set_api_path_def split: option.splits sum.splits)

lemma on_result_Some: "on_result g r = Some (Inr y) \<longleftrightarrow> (\<exists>x. r = Some (Inr x) \<and> y = g x)"
  by (cases r) (auto simp: on_result_def map_sum_def split: sum.splits)

lemma same_item_start:
  "same_item t (snd (set_api_error e u)) = same_item t u"
  "same_item t (u'\<lparr>chunks_read := rs\<rparr>) = same_item t u'"
  "same_item t (u'\<lparr>allocated := b\<rparr>) = same_item t u'"
  "same_item t (update_reader n u') = same_item t u'"
  "same_item t (set_modified u') = same_item t u'"
  by (simp_all add: same_item_def update_reader_def set_modified_def call_mgr_def set_api_error_def Let_def)

lemma item_plain_let: "same_item s t \<Longrightarrow> (\<And>t. same_item s t \<Longrightarrow> same_item s (g t)) \<Longrightarrow> same_item s (let t = t in g t)"
  by simp

lemma item_plain_if: "(b \<Longrightarrow> same_item s t) \<Longrightarrow> (\<not> b \<Longrightarrow> same_item s u) \<Longrightarrow> same_item s (if b then t else u)"
  by simp

lemma new_open_file_same_item:
  "same_item (open_file_base n t item data False (clock env)) (new_open_file env n t item data rs f c)"
  unfolding new_open_file_def
  by (cases rs; cases "file_size_of f"; simp only: option.case; intro item_plain_let item_plain_if)
    (simp_all add: same_item_start, simp_all add: same_item_def open_base.extend_def open_file_base_def)

lemma new_open_file_item:
  "open_data (new_open_file env n t item data rs f c) = data"
  "api_path (fsi (new_open_file env n t item data rs f c)) = api_path item"
  "unlinked (new_open_file env n t item data rs f c) = False"
  using new_open_file_same_item[of n t item data env rs f c] by (simp_all add: same_item_def open_file_base_def)

lemma open_data_truncate [simp]:
  "open_data (open_base.truncate s) = open_data s" "fsi (open_base.truncate s) = fsi s"
  "unlinked (open_base.truncate s) = unlinked s" "modified (open_base.truncate s) = modified s"
  by (simp_all add: open_base.truncate_def)

lemma object_set_path_base:
  "object_set_path p f = Some (Inr f') \<Longrightarrow>
   open_data (object_base f') = open_data (object_base f) \<and> api_path (fsi (object_base f')) = p \<and>
   unlinked (object_base f') = unlinked (object_base f)"
  by (cases f) (auto simp: on_result_Some dest!: set_api_path_item)

lemma object_close_base: "same_item (object_base f) (object_base (snd (snd (object_close env b c f))))"
proof (cases f)
  case (Cached s)
  let ?s = "s\<lparr>upload_calls := [], meta_calls := [], cache := c\<rparr>"
  have "same_item ?s (snd (f_close ((fenv env)\<lparr>remove_works := b\<rparr>) ?s))" by (rule f_close_item)
  then show ?thesis
    using Cached by (cases "f_close ((fenv env)\<lparr>remove_works := b\<rparr>) ?s") (simp add: same_item_def)
qed simp_all

lemma object_remove_base:
  "open_data (object_base (snd (object_remove h f))) = AList.delete h (open_data (object_base f))"
  "api_path (fsi (object_base (snd (object_remove h f)))) = api_path (fsi (object_base f))"
  "unlinked (object_base (snd (object_remove h f))) = unlinked (object_base f)"
  by (cases f; simp add: Let_def f_remove_item base_remove_item)+

lemma object_add_base:
  "open_data (object_base (object_add h d f)) = AList.update h d (open_data (object_base f))"
  "api_path (fsi (object_base (object_add h d f))) = api_path (fsi (object_base f))"
  "unlinked (object_base (object_add h d f)) = unlinked (object_base f)"
  by (cases f; simp add: base_add_item)+

lemma object_new_base:
  "open_data (object_base (snd (object_new_cached env i data r))) = data"
  "api_path (fsi (object_base (snd (object_new_cached env i data r)))) = api_path i"
  "\<not> unlinked (object_base (snd (object_new_cached env i data r)))"
  "object_new_direct env i = Inr f \<Longrightarrow> open_data (object_base f) = [] \<and> api_path (fsi (object_base f)) = api_path i \<and>
    \<not> unlinked (object_base f)"
  "object_new_buffered env n i = Inr f \<Longrightarrow> open_data (object_base f) = [] \<and> api_path (fsi (object_base f)) = api_path i \<and>
    \<not> unlinked (object_base f)"
  by (auto simp: object_new_cached_def object_new_direct_def object_new_buffered_def Let_def new_open_file_item
      open_file_base_def split: sum.splits)

lemma object_set_base [simp]:
  "open_data (object_base (object_set_unlinked u f)) = open_data (object_base f)"
  "fsi (object_base (object_set_unlinked u f)) = fsi (object_base f)"
  "unlinked (object_base (object_set_unlinked u f)) = u"
  "open_data (object_base (object_set_meta m f)) = open_data (object_base f)"
  "fsi (object_base (object_set_meta m f)) = fsi (object_base f)"
  "unlinked (object_base (object_set_meta m f)) = unlinked (object_base f)"
  "open_data (object_base (object_force f)) = open_data (object_base f)"
  "fsi (object_base (object_force f)) = fsi (object_base f)"
  "unlinked (object_base (object_force f)) = unlinked (object_base f)"
  by (cases f; simp add: force_download_def update_reader_def Let_def)+

lemma keys_update: "fst ` set (AList.update k v xs) = insert k (fst ` set xs)"
  by (simp add: AList.dom_update)

lemma keys_delete: "fst ` set (AList.delete k xs) = fst ` set xs - {k}"
  by (auto simp: AList.delete_eq)

lemma f_close_unlinked:
  assumes "unlinked s"
  shows "upload_calls (snd (f_close env s)) = upload_calls s \<and> meta_calls (snd (f_close env s)) = meta_calls s \<and>
    cache (snd (f_close env s)) = cache s"
proof -
  let ?s = "s\<lparr>stopped := True, reader_thread := False\<rparr>"
  obtain ok s1 where b: "base_close ?s = (ok, s1)" by (cases "base_close ?s")
  then have s1: "unlinked s1" "upload_calls s1 = upload_calls s" "meta_calls s1 = meta_calls s" "cache s1 = cache s"
    using assms by (auto simp: base_close_def split: if_splits)
  then show ?thesis
    by (cases ok) (simp_all add: f_close_def b Let_def set_api_error_def)
qed

lemma object_close_unlinked:
  "unlinked (object_base f) \<Longrightarrow> fst (object_close env b c f) = no_effects \<and> fst (snd (object_close env b c f)) = c"
proof (cases f)
  case (Cached s)
  let ?s = "s\<lparr>upload_calls := [], meta_calls := [], cache := c\<rparr>" and ?env = "(fenv env)\<lparr>remove_works := b\<rparr>"
  assume "unlinked (object_base f)"
  then have "unlinked ?s" using Cached by simp
  from f_close_unlinked[OF this, of ?env] show ?thesis
    using Cached by (cases "f_close ?env ?s") (simp add: no_effects_def)
qed simp_all

lemma object_writable_set [simp]:
  "object_writable (object_set_unlinked u f) = object_writable f"
  "object_writable (object_set_meta m f) = object_writable f"
  by (cases f; simp)+

lemma object_writable_close [simp]: "object_writable (snd (snd (object_close env b c f))) = object_writable f"
  by (cases f) (auto split: prod.split)

lemma object_set_path_handles:
  "object_set_path p f = Some (Inr f') \<Longrightarrow> fst ` set (open_data (object_base f')) = fst ` set (open_data (object_base f))"
  using object_set_path_base[of p f f'] by simp

interpretation objects: closeable_files "object_ops env"
  by unfold_locales
    (simp_all add: object_ops_def handles_of_def object_add_base object_remove_base keys_update keys_delete
      object_new_base object_set_path_handles object_set_path_base object_close_base[unfolded same_item_def]
      object_close_unlinked,
     simp add: object_new_cached_def Let_def)

end
