(* ===== verification/File_Manager_Base.thy ===== *)
theory File_Manager_Base imports File_Objects Upload_Db begin

text \<open>
  The state of the file manager (file_manager/file_manager.cpp) and the helpers its operations
  share: the queue of uploads, the resume states, and what an open file asks its manager to do.

  The manager works on five parts: the open files, its database, the provider, the local file
  system and its configuration.  Each is a record of operations (\<open>parts\<close>), the state each of them
  keeps is a field of the manager's state.  \<open>std::shared_ptr\<close> is an index into \<open>objects\<close>; an object
  that neither lookup refers to any more is destroyed, which closes it (\<open>release\<close>).  The locks
  order the operations, so every operation is one step.
\<close>

section \<open>The parts\<close>

record dir_entry =
  entry_path :: string
  entry_directory :: bool

record 'p provider_ops =
  p_read_only :: bool
  p_rename_supported :: bool
  p_create_file :: "string \<Rightarrow> meta_map \<Rightarrow> 'p \<Rightarrow> api_error \<times> 'p"
  p_get_item :: "string \<Rightarrow> bool \<Rightarrow> 'p \<Rightarrow> api_error \<times> filesystem_item"
  p_get_meta :: "string \<Rightarrow> 'p \<Rightarrow> api_error \<times> meta_map"
  p_get_meta_key :: "string \<Rightarrow> string \<Rightarrow> 'p \<Rightarrow> api_error \<times> string"
  p_set_meta :: "string \<Rightarrow> meta_map \<Rightarrow> 'p \<Rightarrow> api_error \<times> 'p"
  p_remove_file :: "string \<Rightarrow> 'p \<Rightarrow> api_error \<times> 'p"
  p_remove_directory :: "string \<Rightarrow> 'p \<Rightarrow> api_error \<times> 'p"
  p_rename_file :: "string \<Rightarrow> string \<Rightarrow> 'p \<Rightarrow> api_error \<times> 'p"
  p_is_file :: "string \<Rightarrow> 'p \<Rightarrow> api_error \<times> bool"
  p_is_directory :: "string \<Rightarrow> 'p \<Rightarrow> api_error \<times> bool"
  p_item_count :: "string \<Rightarrow> 'p \<Rightarrow> nat"
  p_items :: "string \<Rightarrow> 'p \<Rightarrow> api_error \<times> dir_entry list"
  p_clone_directory :: "string \<Rightarrow> string \<Rightarrow> 'p \<Rightarrow> api_error \<times> 'p"
  p_pinned :: "'p \<Rightarrow> string list"

record 's local_ops =
  l_exists :: "string \<Rightarrow> 's \<Rightarrow> bool"
  l_size :: "string \<Rightarrow> 's \<Rightarrow> nat option"
  l_remove :: "string \<Rightarrow> 's \<Rightarrow> bool \<times> 's"
  l_fresh :: "'s \<Rightarrow> string \<times> 's"                 \<comment> \<open>a new name in the cache directory\<close>
  l_cache_space :: "'s \<Rightarrow> nat"
  l_buffer_space :: "'s \<Rightarrow> nat"
  l_make_buffer :: "'s \<Rightarrow> bool \<times> 's"             \<comment> \<open>creates the buffer directory\<close>

datatype download_type = default_download | direct_download | ring_buffer_download

record mgr_config =
  preferred_type :: download_type
  ring_file_size :: nat                         \<comment> \<open>\<open>get_ring_buffer_file_size()\<close>, in MiB\<close>
  chunk_bytes :: nat                            \<comment> \<open>\<open>get_data_chunk_size()\<close>\<close>
  max_upload_count :: nat
  path_combine :: "string \<Rightarrow> string \<Rightarrow> string"
  flag_of :: "string \<Rightarrow> bool"                   \<comment> \<open>\<open>utils::string::to_bool\<close>\<close>

record ('f, 'd, 'p, 's) parts =
  fileops :: "'f file_ops"
  dbops :: "'d mgr_db"
  provops :: "'p provider_ops"
  localops :: "'s local_ops"
  conf :: mgr_config

section \<open>The state\<close>

datatype mgr_event =
    upload_queued string string
  | upload_failed string string
  | upload_removed string
  | upload_retry string api_error
  | upload_not_found string string
  | resume_added string
  | resume_add_failed string
  | resume_removed string string
  | item_evicted string string
  | item_timeout string
  | type_selected string download_type
  | restore_failed string
  | item_restored string
  | error_raised string api_error
  | service_started
  | service_stopping

record upload_object =
  up_item :: filesystem_item
  up_cancelled :: bool
  up_stopped :: bool

record ('f, 'd, 'p, 's) fmgr =
  objects :: "'f list"
  open_lookup :: "(string \<times> nat) list"
  unlinked_lookup :: "(nat \<times> nat) list"
  next_handle :: nat
  made_uploads :: "upload_object list"
  upload_lookup :: "(string \<times> nat) list"
  mdb :: 'd
  mprov :: 'p
  mlocal :: 's
  mcache :: cache_mgr
  mlog :: "mgr_event list"
  mgr_stop :: bool
  handler_running :: bool

definition say :: "mgr_event \<Rightarrow> ('f, 'd, 'p, 's) fmgr \<Rightarrow> ('f, 'd, 'p, 's) fmgr" where
  "say e st = st\<lparr>mlog := mlog st @ [e]\<rparr>"

definition is_read_only :: "('f, 'd, 'p, 's) parts \<Rightarrow> bool" where
  "is_read_only S = p_read_only (provops S)"

text \<open>\<open>cancel\<close> and \<open>stop\<close> of an upload; the destructor stops it as well.\<close>

definition cancel_upload :: "nat \<Rightarrow> ('f, 'd, 'p, 's) fmgr \<Rightarrow> ('f, 'd, 'p, 's) fmgr" where
  "cancel_upload i st =
    st\<lparr>made_uploads := (made_uploads st)[i := (made_uploads st ! i)\<lparr>up_cancelled := True, up_stopped := True\<rparr>]\<rparr>"

definition stop_upload :: "nat \<Rightarrow> ('f, 'd, 'p, 's) fmgr \<Rightarrow> ('f, 'd, 'p, 's) fmgr" where
  "stop_upload i st = st\<lparr>made_uploads := (made_uploads st)[i := (made_uploads st ! i)\<lparr>up_stopped := True\<rparr>]\<rparr>"

section \<open>Uploads and resume states\<close>

definition fm_remove_upload :: "('f, 'd, 'p, 's) parts \<Rightarrow> string \<Rightarrow> ('f, 'd, 'p, 's) fmgr \<Rightarrow> ('f, 'd, 'p, 's) fmgr" where
  "fm_remove_upload S p st =
    (if is_read_only S then st
     else
       case remove_upload (dbops S) p (mdb st) of (ok, d) \<Rightarrow>
         let st = st\<lparr>mdb := d\<rparr>;
             st = (if ok then st else say (error_raised p error) st)
         in case remove_upload_active (dbops S) p (mdb st) of (gone, d) \<Rightarrow>
           let st = st\<lparr>mdb := d\<rparr>;
               st = (if gone then st else say (error_raised p error) st);
               st = (case map_of (upload_lookup st) p of
                       None \<Rightarrow> st
                     | Some i \<Rightarrow> (cancel_upload i st)\<lparr>upload_lookup := AList.delete p (upload_lookup st)\<rparr>)
           in if gone then say (upload_removed p) st else st)"

definition fm_remove_resume ::
  "('f, 'd, 'p, 's) parts \<Rightarrow> string \<Rightarrow> string \<Rightarrow> ('f, 'd, 'p, 's) fmgr \<Rightarrow> ('f, 'd, 'p, 's) fmgr" where
  "fm_remove_resume S p src st =
    (if is_read_only S then st
     else case remove_resume (dbops S) p (mdb st) of (ok, d) \<Rightarrow>
       if ok then say (resume_removed p src) (st\<lparr>mdb := d\<rparr>) else st\<lparr>mdb := d\<rparr>)"

definition fm_queue_upload ::
  "('f, 'd, 'p, 's) parts \<Rightarrow> string \<Rightarrow> string \<Rightarrow> bool \<Rightarrow> ('f, 'd, 'p, 's) fmgr \<Rightarrow> ('f, 'd, 'p, 's) fmgr" where
  "fm_queue_upload S p src is_unlinked st =
    (if is_read_only S \<or> is_unlinked then st
     else
       let st = fm_remove_upload S p st
       in case add_upload (dbops S) (p, src) (mdb st) of (ok, d) \<Rightarrow>
         if ok then say (upload_queued p src) (fm_remove_resume S p src (st\<lparr>mdb := d\<rparr>))
         else say (upload_failed p src) (st\<lparr>mdb := d\<rparr>))"

definition fm_store_resume ::
  "('f, 'd, 'p, 's) parts \<Rightarrow> resume_entry \<Rightarrow> bool \<Rightarrow> ('f, 'd, 'p, 's) fmgr \<Rightarrow> ('f, 'd, 'p, 's) fmgr" where
  "fm_store_resume S e is_unlinked st =
    (if is_read_only S \<or> is_unlinked then st
     else case add_resume (dbops S) e (mdb st) of (ok, d) \<Rightarrow>
       say (if ok then resume_added (resume_path e) else resume_add_failed (resume_path e)) (st\<lparr>mdb := d\<rparr>))"

section \<open>The requests of an open file\<close>

fun fm_call :: "('f, 'd, 'p, 's) parts \<Rightarrow> 'f \<Rightarrow> upload_call \<Rightarrow> ('f, 'd, 'p, 's) fmgr \<Rightarrow> ('f, 'd, 'p, 's) fmgr" where
  "fm_call S f (Queue_upload p n) st =
    fm_queue_upload S p (source_path (cf_item (fileops S) f)) (cf_unlinked (fileops S) f) st"
| "fm_call S f (Store_resume p bits) st =
    fm_store_resume S \<lparr>resume_path = p, resume_chunk_size = cf_chunk_size (fileops S) f, resume_read_state = bits,
      resume_source = source_path (cf_item (fileops S) f)\<rparr> (cf_unlinked (fileops S) f) st"
| "fm_call S f (Remove_upload p) st = fm_remove_upload S p st"
| "fm_call S f (Remove_resume p src) st = fm_remove_resume S p src st"

definition fm_calls :: "('f, 'd, 'p, 's) parts \<Rightarrow> 'f \<Rightarrow> upload_call list \<Rightarrow> ('f, 'd, 'p, 's) fmgr \<Rightarrow> ('f, 'd, 'p, 's) fmgr" where
  "fm_calls S f cs st = foldl (\<lambda>st c. fm_call S f c st) st cs"

definition fm_effects :: "('f, 'd, 'p, 's) parts \<Rightarrow> 'f \<Rightarrow> effects \<Rightarrow> ('f, 'd, 'p, 's) fmgr \<Rightarrow> ('f, 'd, 'p, 's) fmgr" where
  "fm_effects S f e st =
    (let st = fm_calls S f (to_manager e) st;
         st = (case removed_source e of
                 None \<Rightarrow> st
               | Some src \<Rightarrow> st\<lparr>mlocal := snd (l_remove (localops S) src (mlocal st))\<rparr>)
     in st\<lparr>mprov := foldl (\<lambda>pr (p, m). snd (p_set_meta (provops S) p m pr)) (mprov st) (to_provider e)\<rparr>)"

section \<open>Objects\<close>

abbreviation object_at :: "nat \<Rightarrow> ('f, 'd, 'p, 's) fmgr \<Rightarrow> 'f" where
  "object_at i st \<equiv> objects st ! i"

definition put_object :: "nat \<Rightarrow> 'f \<Rightarrow> ('f, 'd, 'p, 's) fmgr \<Rightarrow> ('f, 'd, 'p, 's) fmgr" where
  "put_object i f st = st\<lparr>objects := (objects st)[i := f]\<rparr>"

definition new_object :: "'f \<Rightarrow> ('f, 'd, 'p, 's) fmgr \<Rightarrow> nat \<times> ('f, 'd, 'p, 's) fmgr" where
  "new_object f st = (length (objects st), st\<lparr>objects := objects st @ [f]\<rparr>)"

definition close_object :: "('f, 'd, 'p, 's) parts \<Rightarrow> nat \<Rightarrow> ('f, 'd, 'p, 's) fmgr \<Rightarrow> ('f, 'd, 'p, 's) fmgr" where
  "close_object S i st =
    (let f = object_at i st;
         removable = fst (l_remove (localops S) (source_path (cf_item (fileops S) f)) (mlocal st))
     in case cf_close (fileops S) removable (mcache st) f of (e, c, f) \<Rightarrow>
          fm_effects S f e ((put_object i f st)\<lparr>mcache := c\<rparr>))"

definition referenced :: "nat \<Rightarrow> ('f, 'd, 'p, 's) fmgr \<Rightarrow> bool" where
  "referenced i st \<longleftrightarrow> i \<in> snd ` set (open_lookup st) \<or> i \<in> snd ` set (unlinked_lookup st)"

definition release :: "('f, 'd, 'p, 's) parts \<Rightarrow> nat \<Rightarrow> ('f, 'd, 'p, 's) fmgr \<Rightarrow> ('f, 'd, 'p, 's) fmgr" where
  "release S i st = (if referenced i st then st else close_object S i st)"

text \<open>\<open>open_file_lookup_[api_path] = file\<close>: the file that was there loses a reference.\<close>

definition set_open :: "('f, 'd, 'p, 's) parts \<Rightarrow> string \<Rightarrow> nat \<Rightarrow> ('f, 'd, 'p, 's) fmgr \<Rightarrow> ('f, 'd, 'p, 's) fmgr" where
  "set_open S p i st =
    (let old = map_of (open_lookup st) p;
         st = st\<lparr>open_lookup := AList.update p i (open_lookup st)\<rparr>
     in case old of None \<Rightarrow> st | Some j \<Rightarrow> release S j st)"

text \<open>Every handle of the object is looked up among the unlinked files from now on.\<close>

definition add_unlinked :: "('f, 'd, 'p, 's) parts \<Rightarrow> nat \<Rightarrow> ('f, 'd, 'p, 's) fmgr \<Rightarrow> ('f, 'd, 'p, 's) fmgr" where
  "add_unlinked S i st =
    st\<lparr>unlinked_lookup := foldl (\<lambda>m (h, d). AList.update h i m) (unlinked_lookup st)
         (cf_data (fileops S) (object_at i st))\<rparr>"

section \<open>Handles\<close>

definition get_next_handle :: "('f, 'd, 'p, 's) fmgr \<Rightarrow> nat \<times> ('f, 'd, 'p, 's) fmgr" where
  "get_next_handle st =
    (let n = add64 (next_handle st) 1;
         n = (if n = 0 then add64 n 1 else n)
     in (n, st\<lparr>next_handle := n\<rparr>))"

definition get_open_file_by_handle :: "('f, 'd, 'p, 's) parts \<Rightarrow> nat \<Rightarrow> ('f, 'd, 'p, 's) fmgr \<Rightarrow> (nat \<times> bool) option" where
  "get_open_file_by_handle S h st =
    (case map_of (unlinked_lookup st) h of
       Some i \<Rightarrow> Some (i, True)
     | None \<Rightarrow>
         (case List.find (\<lambda>(p, i). h \<in> handles_of (fileops S) (object_at i st)) (open_lookup st) of
            None \<Rightarrow> None
          | Some (p, i) \<Rightarrow> Some (i, False)))"

definition handle_total :: "('f, 'd, 'p, 's) parts \<Rightarrow> nat \<Rightarrow> ('f, 'd, 'p, 's) fmgr \<Rightarrow> nat" where
  "handle_total S i st = length (cf_data (fileops S) (object_at i st))"

definition fm_open_count :: "('f, 'd, 'p, 's) parts \<Rightarrow> string \<Rightarrow> ('f, 'd, 'p, 's) fmgr \<Rightarrow> nat" where
  "fm_open_count S p st =
    (case map_of (open_lookup st) p of None \<Rightarrow> 0 | Some i \<Rightarrow> handle_total S i st)"

definition get_open_files :: "('f, 'd, 'p, 's) parts \<Rightarrow> ('f, 'd, 'p, 's) fmgr \<Rightarrow> (string \<times> nat) list" where
  "get_open_files S st = map (\<lambda>(p, i). (p, handle_total S i st)) (open_lookup st)"

definition get_open_handle_count :: "('f, 'd, 'p, 's) parts \<Rightarrow> ('f, 'd, 'p, 's) fmgr \<Rightarrow> nat" where
  "get_open_handle_count S st = foldl (\<lambda>count (p, i). count + handle_total S i st) 0 (open_lookup st)"

definition has_no_open_file_handles :: "('f, 'd, 'p, 's) parts \<Rightarrow> ('f, 'd, 'p, 's) fmgr \<Rightarrow> bool" where
  "has_no_open_file_handles S st \<longleftrightarrow> get_open_handle_count S st = 0"

definition get_open_file_at :: "string \<Rightarrow> ('f, 'd, 'p, 's) fmgr \<Rightarrow> nat option" where
  "get_open_file_at p st = map_of (open_lookup st) p"

definition is_processing :: "('f, 'd, 'p, 's) parts \<Rightarrow> string \<Rightarrow> ('f, 'd, 'p, 's) fmgr \<Rightarrow> bool" where
  "is_processing S p st \<longleftrightarrow>
    (if is_read_only S then False
     else if map_of (upload_lookup st) p \<noteq> None then True
     else if get_upload (dbops S) p (mdb st) \<noteq> None then True
     else case map_of (open_lookup st) p of
       None \<Rightarrow> False
     | Some i \<Rightarrow>
         let f = object_at i st in
         if cf_writable (fileops S) f then cf_modified (fileops S) f \<or> \<not> cf_complete (fileops S) f else False)"

end
