(* ===== verification/File_Manager.thy ===== *)
theory File_Manager imports File_Manager_Base begin

text \<open>
  The operations of the file manager: opening and closing, removing, renaming, eviction, pinned
  files, start and stop, and the thread that feeds the uploads.
\<close>

section \<open>Opening\<close>

text \<open>\<open>get_download_type\<close> of \<open>open\<close>.\<close>

definition get_download_type ::
  "('f, 'd, 'p, 's) parts \<Rightarrow> filesystem_item \<Rightarrow> bool \<Rightarrow> string \<Rightarrow> download_type \<Rightarrow> ('f, 'd, 'p, 's) fmgr \<Rightarrow>
   download_type \<times> ('f, 'd, 'p, 's) fmgr" where
  "get_download_type S item as_dir p ty st =
    (let L = localops S;
         ring_bytes = mul64 (mul64 (ring_file_size (conf S)) 1024) 1024
     in if \<not> as_dir \<and> is_read_only S then (direct_download, st)
        else if as_dir \<or> item_size item = 0 \<or> is_processing S p st then (default_download, st)
        else if l_exists L (source_path item) (mlocal st) \<and> l_size L (source_path item) (mlocal st) = Some (item_size item)
        then (default_download, st)
        else if ty = direct_download then (ty, st)
        else if ty = default_download \<and> item_size item < l_cache_space L (mlocal st) then (default_download, st)
        else if \<not> can_handle_file (item_size item) (chunk_bytes (conf S)) (ring_bytes div chunk_bytes (conf S))
        then (direct_download, st)
        else case l_make_buffer L (mlocal st) of (ok, l) \<Rightarrow>
          let st = st\<lparr>mlocal := l\<rparr> in
          if \<not> ok then (direct_download, say (error_raised [] os_error) st)
          else if ring_bytes < l_buffer_space L (mlocal st) then (ring_buffer_download, st)
          else (direct_download, st))"

datatype open_result = Opened nat nat | Not_opened api_error | Open_throws exn     \<comment> \<open>handle, object\<close>

definition create_and_add_handle ::
  "('f, 'd, 'p, 's) parts \<Rightarrow> nat \<Rightarrow> int \<Rightarrow> ('f, 'd, 'p, 's) fmgr \<Rightarrow> open_result \<times> ('f, 'd, 'p, 's) fmgr" where
  "create_and_add_handle S i ofd st =
    (case get_next_handle st of (h, st) \<Rightarrow>
       (Opened h i, put_object i (cf_add (fileops S) h ofd (object_at i st)) st))"

definition make_file ::
  "('f, 'd, 'p, 's) parts \<Rightarrow> download_type \<Rightarrow> filesystem_item \<Rightarrow> exn + (effects \<times> 'f)" where
  "make_file S ty item =
    (case ty of
       direct_download \<Rightarrow> map_sum (\<lambda>e. e) (Pair no_effects) (new_direct (fileops S) item)
     | ring_buffer_download \<Rightarrow>
         map_sum (\<lambda>e. e) (Pair no_effects)
           (new_buffered (fileops S)
             (mul64 (mul64 (ring_file_size (conf S)) 1024) 1024 div chunk_bytes (conf S)) item)
     | default_download \<Rightarrow> Inr (new_cached (fileops S) item [] None))"

text \<open>\<open>META_SOURCE\<close>, set if the provider knows no source path.\<close>

definition ensure_source ::
  "('f, 'd, 'p, 's) parts \<Rightarrow> filesystem_item \<Rightarrow> ('f, 'd, 'p, 's) fmgr \<Rightarrow>
   api_error \<times> filesystem_item \<times> ('f, 'd, 'p, 's) fmgr" where
  "ensure_source S item st =
    (if source_path item \<noteq> [] then (success, item, st)
     else
       case l_fresh (localops S) (mlocal st) of (src, l) \<Rightarrow>
         case p_set_meta (provops S) (api_path item) [(''source'', src)] (mprov st) of (res, pr) \<Rightarrow>
           (res, item\<lparr>source_path := src\<rparr>, st\<lparr>mlocal := l, mprov := pr\<rparr>))"

definition fm_open ::
  "('f, 'd, 'p, 's) parts \<Rightarrow> string \<Rightarrow> bool \<Rightarrow> int \<Rightarrow> ('f, 'd, 'p, 's) fmgr \<Rightarrow> open_result \<times> ('f, 'd, 'p, 's) fmgr" where
  "fm_open S p as_dir ofd st =
    (case map_of (open_lookup st) p of
       Some i \<Rightarrow> create_and_add_handle S i ofd st
     | None \<Rightarrow>
         (case p_get_item (provops S) p as_dir (mprov st) of (res, item) \<Rightarrow>
           if res \<noteq> success then (Not_opened res, st)
           else case ensure_source S item st of (res, item, st) \<Rightarrow>
             if res \<noteq> success then (Not_opened res, st)
             else
               case get_download_type S item as_dir p
                      (if as_dir then default_download
                       else if preferred_type (conf S) = default_download then ring_buffer_download
                       else preferred_type (conf S)) st of (ty, st) \<Rightarrow>
                 let st = (if as_dir then st else say (type_selected (api_path item) ty) st)
                 in case make_file S ty item of
                      Inl e \<Rightarrow> (Open_throws e, st)
                    | Inr (e, f) \<Rightarrow>
                        (case new_object f (fm_effects S f e st) of (i, st) \<Rightarrow>
                           create_and_add_handle S i ofd (set_open S p i st))))"

definition fm_create ::
  "('f, 'd, 'p, 's) parts \<Rightarrow> string \<Rightarrow> meta_map \<Rightarrow> int \<Rightarrow> ('f, 'd, 'p, 's) fmgr \<Rightarrow>
   open_result \<times> ('f, 'd, 'p, 's) fmgr" where
  "fm_create S p meta ofd st =
    (case p_create_file (provops S) p meta (mprov st) of (res, pr) \<Rightarrow>
       if res \<noteq> success \<and> res \<noteq> item_exists then (Not_opened res, st\<lparr>mprov := pr\<rparr>)
       else fm_open S p False ofd (st\<lparr>mprov := pr\<rparr>))"

text \<open>
  \<open>get_open_file(handle, write_supported, file)\<close>: a streamed file that is to be written to is
  replaced by a cached one, which takes its handles over.
\<close>

definition get_open_file ::
  "('f, 'd, 'p, 's) parts \<Rightarrow> nat \<Rightarrow> bool \<Rightarrow> ('f, 'd, 'p, 's) fmgr \<Rightarrow> nat option \<times> ('f, 'd, 'p, 's) fmgr" where
  "get_open_file S h write_supported st =
    (if write_supported \<and> is_read_only S then (None, st)
     else case get_open_file_by_handle S h st of
       None \<Rightarrow> (None, st)
     | Some (i, is_unlinked) \<Rightarrow>
         let F = fileops S; f = object_at i st in
         if write_supported \<and> \<not> cf_writable F f then
           (case new_cached F (cf_item F f) (cf_data F f) None of (e, g) \<Rightarrow>
              let st = fm_effects S g e st;
                  g = cf_set_unlinked F is_unlinked g
              in if is_unlinked then
                   (case new_object (cf_set_meta F (cf_meta F f) g) st of (j, st) \<Rightarrow>
                      (Some j, release S i (add_unlinked S j st)))
                 else
                   (case new_object g st of (j, st) \<Rightarrow>
                      (Some j, set_open S (api_path (cf_item F f)) j st)))
         else (Some i, st))"

section \<open>Closing\<close>

definition fm_close :: "('f, 'd, 'p, 's) parts \<Rightarrow> nat \<Rightarrow> ('f, 'd, 'p, 's) fmgr \<Rightarrow> ('f, 'd, 'p, 's) fmgr" where
  "fm_close S h st =
    (case get_open_file_by_handle S h st of
       None \<Rightarrow> st
     | Some (i, is_unlinked) \<Rightarrow>
         (case cf_remove (fileops S) h (object_at i st) of (e, f) \<Rightarrow>
            let st = fm_effects S f e (put_object i f st);
                st = (if is_unlinked then st\<lparr>unlinked_lookup := AList.delete h (unlinked_lookup st)\<rparr> else st)
            in if \<not> is_unlinked \<or> handle_total S i st \<noteq> 0 then st
               else
                 let st = close_object S i st;
                     item = cf_item (fileops S) (object_at i st)
                 in if directory item then st
                    else case l_remove (localops S) (source_path item) (mlocal st) of (ok, l) \<Rightarrow>
                      let st = st\<lparr>mlocal := l\<rparr> in if ok then st else say (error_raised (api_path item) os_error) st))"

definition timed_out :: "('f, 'd, 'p, 's) parts \<Rightarrow> ('f, 'd, 'p, 's) fmgr \<Rightarrow> nat list" where
  "timed_out S st =
    map snd (filter (\<lambda>(p, i). handle_total S i st = 0 \<and> cf_can_close (fileops S) (object_at i st)) (open_lookup st))"

definition close_timed_out_files :: "('f, 'd, 'p, 's) parts \<Rightarrow> ('f, 'd, 'p, 's) fmgr \<Rightarrow> ('f, 'd, 'p, 's) fmgr" where
  "close_timed_out_files S st =
    (let l = timed_out S st;
         st = foldl (\<lambda>st i. st\<lparr>open_lookup := AList.delete (api_path (cf_item (fileops S) (object_at i st)))
                                  (open_lookup st)\<rparr>) st l
     in foldl (\<lambda>st i. let st = close_object S i st
                      in say (item_timeout (api_path (cf_item (fileops S) (object_at i st)))) st) st l)"

definition fm_remove_source ::
  "('f, 'd, 'p, 's) parts \<Rightarrow> string \<Rightarrow> string \<Rightarrow> nat \<Rightarrow> bool \<Rightarrow> ('f, 'd, 'p, 's) fmgr \<Rightarrow> bool \<times> ('f, 'd, 'p, 's) fmgr" where
  "fm_remove_source S p src len was_allocated st =
    (let on_disk = (if l_exists (localops S) src (mlocal st) then l_size (localops S) src (mlocal st) else None)
     in case l_remove (localops S) src (mlocal st) of (ok, l) \<Rightarrow>
          case remove_source_and_shrink_cache ok on_disk len was_allocated (mcache st) of (done, c) \<Rightarrow>
            let st = st\<lparr>mlocal := l, mcache := c\<rparr> in
            (done, if ok then st else say (error_raised p os_error) st))"

definition evict_file :: "('f, 'd, 'p, 's) parts \<Rightarrow> string \<Rightarrow> ('f, 'd, 'p, 's) fmgr \<Rightarrow> bool \<times> ('f, 'd, 'p, 's) fmgr" where
  "evict_file S p st =
    (if is_read_only S \<or> is_processing S p st \<or> fm_open_count S p st \<noteq> 0 then (False, st)
     else case p_get_item (provops S) p False (mprov st) of (res, item) \<Rightarrow>
       if res \<noteq> success \<or> source_path item = [] then (False, st)
       else case p_get_meta_key (provops S) p ''pinned'' (mprov st) of (res, pinned) \<Rightarrow>
         if res \<noteq> success \<and> res \<noteq> item_not_found then (False, say (error_raised p res) st)
         else if pinned \<noteq> [] \<and> flag_of (conf S) pinned then (False, st)
         else
           let old = map_of (open_lookup st) p;
               st = st\<lparr>open_lookup := AList.delete p (open_lookup st)\<rparr>;
               was_allocated = (case old of None \<Rightarrow> True | Some i \<Rightarrow> cf_allocated (fileops S) (object_at i st));
               st = (case old of None \<Rightarrow> st | Some i \<Rightarrow> release S i st)
           in case fm_remove_source S p (source_path item) (item_size item) was_allocated st of (gone, st) \<Rightarrow>
                (gone, if gone then say (item_evicted p (source_path item)) st else st))"

section \<open>Removing\<close>

definition unlink_object :: "('f, 'd, 'p, 's) parts \<Rightarrow> string \<Rightarrow> nat \<Rightarrow> ('f \<Rightarrow> 'f) \<Rightarrow> ('f, 'd, 'p, 's) fmgr \<Rightarrow> ('f, 'd, 'p, 's) fmgr" where
  "unlink_object S p i extra st =
    (let st = st\<lparr>open_lookup := AList.delete p (open_lookup st)\<rparr>;
         st = put_object i (extra (cf_set_unlinked (fileops S) True (object_at i st))) st
     in add_unlinked S i st)"

definition fm_remove_directory ::
  "('f, 'd, 'p, 's) parts \<Rightarrow> string \<Rightarrow> ('f, 'd, 'p, 's) fmgr \<Rightarrow> api_error \<times> ('f, 'd, 'p, 's) fmgr" where
  "fm_remove_directory S p st =
    (if p = ''/'' then (permission_denied, st)
     else if p_item_count (provops S) p (mprov st) \<noteq> 0 then (directory_not_empty, st)
     else case p_remove_directory (provops S) p (mprov st) of (res, pr) \<Rightarrow>
       let st = st\<lparr>mprov := pr\<rparr> in
       if res \<noteq> success then (res, st)
       else case map_of (open_lookup st) p of
         None \<Rightarrow> (success, st)
       | Some i \<Rightarrow> (success, release S i (unlink_object S p i (\<lambda>f. f) st)))"

definition remove_file ::
  "('f, 'd, 'p, 's) parts \<Rightarrow> string \<Rightarrow> ('f, 'd, 'p, 's) fmgr \<Rightarrow> api_error \<times> ('f, 'd, 'p, 's) fmgr" where
  "remove_file S p st =
    (case p_get_item (provops S) p False (mprov st) of (res, item) \<Rightarrow>
       if res \<noteq> success then (res, st)
       else case p_get_meta (provops S) p (mprov st) of (res, meta) \<Rightarrow>
         if res \<noteq> success then (res, st)
         else
           let st = fm_remove_upload S p st;
               st = fm_remove_resume S p (source_path item) st
           in case p_remove_file (provops S) p (mprov st) of (res, pr) \<Rightarrow>
             let st = st\<lparr>mprov := pr\<rparr> in
             if res \<noteq> success then (res, st)
             else case map_of (open_lookup st) p of
               None \<Rightarrow> (success, snd (fm_remove_source S p (source_path item) (item_size item) True st))
             | Some i \<Rightarrow>
                 let F = fileops S;
                     was_allocated = cf_allocated F (object_at i st);
                     st = unlink_object S p i (cf_set_meta F meta) st
                 in if \<not> was_allocated then (success, release S i st)
                    else
                      let c = snd (shrink (item_size (cf_item F (object_at i st))) (mcache st))
                      in (success, release S i (st\<lparr>mcache := c\<rparr>)))"

section \<open>Renaming\<close>

datatype 'a result = Returns 'a | Throws exn | Diverges

definition swap_renamed_items ::
  "('f, 'd, 'p, 's) parts \<Rightarrow> string \<Rightarrow> string \<Rightarrow> bool \<Rightarrow> ('f, 'd, 'p, 's) fmgr \<Rightarrow> unit result \<times> ('f, 'd, 'p, 's) fmgr" where
  "swap_renamed_items S from_path to_path as_dir st =
    (case (case map_of (open_lookup st) from_path of
             None \<Rightarrow> (Returns (), st)
           | Some i \<Rightarrow>
               let st = st\<lparr>open_lookup := AList.delete from_path (open_lookup st)\<rparr>
               in case cf_set_path (fileops S) to_path (object_at i st) of
                    None \<Rightarrow> (Diverges, st)
                  | Some (Inl e) \<Rightarrow> (Throws e, release S i st)
                  | Some (Inr f) \<Rightarrow> (Returns (), set_open S to_path i (put_object i f st))) of
       (Returns _, st) \<Rightarrow>
         if as_dir then (Returns (), st)
         else (case rename_resume (dbops S) from_path to_path (mdb st) of
                 (Inl e, d) \<Rightarrow> (Throws e, st\<lparr>mdb := d\<rparr>)
               | (Inr ok, d) \<Rightarrow>
                   let st = st\<lparr>mdb := d\<rparr> in
                   (Returns (), if ok then st else say (error_raised to_path error) st))
     | r \<Rightarrow> r)"

definition pending_source ::
  "('f, 'd, 'p, 's) parts \<Rightarrow> string \<Rightarrow> ('f, 'd, 'p, 's) fmgr \<Rightarrow> bool \<times> string" where
  "pending_source S p st =
    (let src = (case map_of (open_lookup st) p of
                  None \<Rightarrow> [] | Some i \<Rightarrow> source_path (cf_item (fileops S) (object_at i st)))
     in case map_of (upload_lookup st) p of
          Some u \<Rightarrow> (True, if src = [] then source_path (up_item (made_uploads st ! u)) else src)
        | None \<Rightarrow>
            (case get_upload (dbops S) p (mdb st) of
               None \<Rightarrow> (False, src)
             | Some e \<Rightarrow> (True, if src = [] then snd e else src)))"

definition handle_file_rename ::
  "('f, 'd, 'p, 's) parts \<Rightarrow> string \<Rightarrow> string \<Rightarrow> ('f, 'd, 'p, 's) fmgr \<Rightarrow> api_error result \<times> ('f, 'd, 'p, 's) fmgr" where
  "handle_file_rename S from_path to_path st =
    (case pending_source S from_path st of (should_upload, src) \<Rightarrow>
       let st = fm_remove_upload S from_path st
       in case p_rename_file (provops S) from_path to_path (mprov st) of (ret, pr) \<Rightarrow>
         let st = st\<lparr>mprov := pr\<rparr> in
         if ret \<noteq> success then (Returns ret, fm_queue_upload S from_path src False st)
         else case swap_renamed_items S from_path to_path False st of
           (Throws e, st) \<Rightarrow> (Throws e, st)
         | (Diverges, st) \<Rightarrow> (Diverges, st)
         | (Returns _, st) \<Rightarrow>
             (case (if src = [] then (success, mprov st)
                    else p_set_meta (provops S) to_path [(''source'', src)] (mprov st)) of (ret, pr) \<Rightarrow>
                let st = st\<lparr>mprov := pr\<rparr> in
                (Returns ret, if should_upload then fm_queue_upload S to_path src False st else st)))"

text \<open>The steps of \<open>rename_file\<close> from the removal of the target on.\<close>

definition rename_over ::
  "('f, 'd, 'p, 's) parts \<Rightarrow> string \<Rightarrow> string \<Rightarrow> bool \<Rightarrow> ('f, 'd, 'p, 's) fmgr \<Rightarrow> api_error result \<times> ('f, 'd, 'p, 's) fmgr" where
  "rename_over S from_path to_path dest_exists st =
    (if dest_exists then
       (case remove_file S to_path st of (res, st) \<Rightarrow>
          if res \<noteq> success \<and> res \<noteq> item_not_found then (Returns res, st)
          else handle_file_rename S from_path to_path st)
     else handle_file_rename S from_path to_path st)"

text \<open>The check of the target directory assigns \<open>res\<close> and goes on, as the code does.\<close>

definition rename_file ::
  "('f, 'd, 'p, 's) parts \<Rightarrow> string \<Rightarrow> string \<Rightarrow> bool \<Rightarrow> ('f, 'd, 'p, 's) fmgr \<Rightarrow> api_error result \<times> ('f, 'd, 'p, 's) fmgr" where
  "rename_file S from_path to_path overwrite st =
    (let P = provops S; pr = mprov st in
     if \<not> p_rename_supported P then (Returns not_implemented, st)
     else if from_path = to_path then (Returns item_exists, st)
     else case p_is_directory P from_path pr of (res, exists) \<Rightarrow>
       if res \<noteq> success then (Returns res, st)
       else if exists then (Returns directory_exists, st)
     else case p_is_file P from_path pr of (res, exists) \<Rightarrow>
       if res \<noteq> success then (Returns res, st)
       else if \<not> exists then (Returns item_not_found, st)
     else case p_is_directory P to_path pr of (res, exists) \<Rightarrow>
       if res \<noteq> success then (Returns res, st)
     else
       let res = (if exists then directory_exists else res)
     in case p_is_file P to_path pr of (res, dest_exists) \<Rightarrow>
       if res \<noteq> success then (Returns res, st)
       else if \<not> overwrite \<and> dest_exists then (Returns item_exists, st)
     else case get_parent_api_path to_path of
       None \<Rightarrow> (Diverges, st)
     | Some (Inl e) \<Rightarrow> (Throws e, st)
     | Some (Inr parent) \<Rightarrow>
         (case p_is_directory P parent pr of (res, exists) \<Rightarrow>
            if res \<noteq> success then (Returns res, st)
            else if \<not> exists then (Returns directory_not_found, st)
            else rename_over S from_path to_path dest_exists st))"

text \<open>
  \<open>rename_directory\<close> recurses into the directories the provider lists.  The number is the depth
  that is left; a tree that is deeper, or that the provider keeps growing, is Diverges.  The check
  that the target is no file asks for the source, as the code does.
\<close>

definition item_target :: "('f, 'd, 'p, 's) parts \<Rightarrow> string \<Rightarrow> string \<Rightarrow> string \<Rightarrow> (exn + string) option" where
  "item_target S from_path to_path p =
    create_api_path (path_combine (conf S) to_path (drop (length from_path) p))"

function (sequential) rename_directory ::
    "('f, 'd, 'p, 's) parts \<Rightarrow> nat \<Rightarrow> string \<Rightarrow> string \<Rightarrow> ('f, 'd, 'p, 's) fmgr \<Rightarrow> api_error result \<times> ('f, 'd, 'p, 's) fmgr"
  and rename_items ::
    "('f, 'd, 'p, 's) parts \<Rightarrow> nat \<Rightarrow> string \<Rightarrow> string \<Rightarrow> dir_entry list \<Rightarrow> ('f, 'd, 'p, 's) fmgr \<Rightarrow>
     api_error result \<times> ('f, 'd, 'p, 's) fmgr" where
  "rename_directory S 0 from_path to_path st = (Diverges, st)"
| "rename_directory S (Suc depth) from_path to_path st =
    (let P = provops S in
     if \<not> p_rename_supported P then (Returns not_implemented, st)
     else case p_is_directory P from_path (mprov st) of (res, exists) \<Rightarrow>
       if res \<noteq> success then (Returns res, st)
       else if \<not> exists then (Returns directory_not_found, st)
     else case p_is_directory P to_path (mprov st) of (res, exists) \<Rightarrow>
       if res \<noteq> success then (Returns res, st)
       else if exists then (Returns directory_exists, st)
     else case p_is_file P from_path (mprov st) of (res, exists) \<Rightarrow>
       if res \<noteq> success then (Returns res, st)
       else if exists then (Returns item_exists, st)
     else case p_clone_directory P from_path to_path (mprov st) of (res, pr) \<Rightarrow>
       let st = st\<lparr>mprov := pr\<rparr> in
       if res \<noteq> success then (Returns res, st)
     else case p_items P from_path (mprov st) of (res, items) \<Rightarrow>
       if res \<noteq> success then (Returns res, st)
     else case rename_items S depth from_path to_path items st of
       (Returns res, st) \<Rightarrow>
         if res \<noteq> success then (Returns res, st)
         else case p_remove_directory P from_path (mprov st) of (res, pr) \<Rightarrow>
           let st = st\<lparr>mprov := pr\<rparr> in
           if res \<noteq> success then (Returns res, st)
           else (case swap_renamed_items S from_path to_path True st of
                   (Returns _, st) \<Rightarrow> (Returns success, st)
                 | (Throws e, st) \<Rightarrow> (Throws e, st)
                 | (Diverges, st) \<Rightarrow> (Diverges, st))
     | r \<Rightarrow> r)"
| "rename_items S depth from_path to_path [] st = (Returns success, st)"
| "rename_items S depth from_path to_path (x # xs) st =
    (let p = entry_path x in
     if p = ''.'' \<or> p = ''..'' then rename_items S depth from_path to_path xs st
     else case item_target S from_path to_path p of
       None \<Rightarrow> (Diverges, st)
     | Some (Inl e) \<Rightarrow> (Throws e, st)
     | Some (Inr q) \<Rightarrow>
         (case (if entry_directory x then rename_directory S depth p q st else rename_file S p q False st) of
            (Returns res, st) \<Rightarrow>
              if res = success then rename_items S depth from_path to_path xs st else (Returns res, st)
          | r \<Rightarrow> r))"
  by pat_completeness auto

termination
  by (relation "measures [\<lambda>x. case x of Inl (S, n, p, q, st) \<Rightarrow> n | Inr (S, n, p, q, xs, st) \<Rightarrow> n,
      \<lambda>x. case x of Inl _ \<Rightarrow> 0 | Inr (S, n, p, q, xs, st) \<Rightarrow> Suc (length xs)]") auto

section \<open>Pinned files\<close>

definition download_pinned_file ::
  "('f, 'd, 'p, 's) parts \<Rightarrow> string \<Rightarrow> ('f, 'd, 'p, 's) fmgr \<Rightarrow> bool \<times> ('f, 'd, 'p, 's) fmgr" where
  "download_pinned_file S p st =
    (if is_read_only S then (False, say (error_raised p error) st)
     else case p_get_meta_key (provops S) p ''pinned'' (mprov st) of (res, pinned) \<Rightarrow>
       if res \<noteq> success then (False, say (error_raised p res) st)
       else if \<not> flag_of (conf S) pinned then (False, say (error_raised p error) st)
       else case fm_open S p False 0 st of
         (Open_throws e, st) \<Rightarrow> (False, say (error_raised p error) st)
       | (Not_opened res, st) \<Rightarrow> (False, say (error_raised p res) st)
       | (Opened h i, st) \<Rightarrow>
           (case get_open_file S h True st of
              (Some j, st) \<Rightarrow> (True, fm_close S h (put_object j (cf_force (fileops S) (object_at j st)) st))
            | (None, st) \<Rightarrow> (False, fm_close S h (say (error_raised p error) st))))"

section \<open>Start and stop\<close>

definition restore_download ::
  "('f, 'd, 'p, 's) parts \<Rightarrow> resume_entry \<Rightarrow> ('f, 'd, 'p, 's) fmgr \<Rightarrow> ('f, 'd, 'p, 's) fmgr" where
  "restore_download S e st =
    (case p_get_item (provops S) (resume_path e) False (mprov st) of (res, item) \<Rightarrow>
       if res \<noteq> success \<or> resume_source e \<noteq> source_path item \<or>
          l_size (localops S) (source_path item) (mlocal st) \<noteq> Some (item_size item)
       then say (restore_failed (resume_path e)) st
       else case new_cached (fileops S) item [] (Some (resume_chunk_size e, resume_read_state e)) of (eff, f) \<Rightarrow>
         case new_object f (fm_effects S f eff st) of (i, st) \<Rightarrow>
           let st = set_open S (resume_path e) i st
           in say (item_restored (api_path item)) (put_object i (cf_force (fileops S) (object_at i st)) st))"

text \<open>An exception of \<open>get_stored_downloads\<close> ends \<open>start\<close>; the thread is not started then.\<close>

definition fm_start :: "('f, 'd, 'p, 's) parts \<Rightarrow> ('f, 'd, 'p, 's) fmgr \<Rightarrow> exn option \<times> ('f, 'd, 'p, 's) fmgr" where
  "fm_start S st =
    (if handler_running st then (None, st)
     else
       let st = st\<lparr>mgr_stop := False\<rparr> in
       if is_read_only S then (None, say service_started st)
       else
         let st = foldl (\<lambda>st (p, src). fm_queue_upload S p src False st) st
                    (get_upload_active_list (dbops S) (mdb st))
         in case get_resume_list (dbops S) (mdb st) of
              Inl e \<Rightarrow> (Some e, st)
            | Inr l \<Rightarrow>
                let st = foldl (\<lambda>st e. restore_download S e st) st l;
                    st = foldl (\<lambda>st p. snd (download_pinned_file S p st)) st (p_pinned (provops S) (mprov st))
                in (None, say service_started (st\<lparr>handler_running := True\<rparr>)))"

text \<open>
  \<open>stop\<close> up to the loop that waits until the uploads have reported; \<open>stop_returns\<close> says when the
  loop is over.
\<close>

definition stop_begin :: "('f, 'd, 'p, 's) parts \<Rightarrow> ('f, 'd, 'p, 's) fmgr \<Rightarrow> ('f, 'd, 'p, 's) fmgr" where
  "stop_begin S st =
    (if mgr_stop st then st
     else
       let st = say service_stopping (st\<lparr>mgr_stop := True, handler_running := False\<rparr>);
           held = map snd (open_lookup st);
           st = foldl (\<lambda>st i. release S i st) (st\<lparr>open_lookup := []\<rparr>) held
       in foldl (\<lambda>st (p, u). stop_upload u st) st (upload_lookup st))"

definition stop_returns :: "('f, 'd, 'p, 's) fmgr \<Rightarrow> bool" where
  "stop_returns st \<longleftrightarrow> upload_lookup st = []"

section \<open>The upload thread\<close>

text \<open>
  One round of \<open>upload_handler\<close>; the flag is \<open>should_wait\<close>.  An upload is made for the item the
  provider returns, under its path.
\<close>

definition upload_round :: "('f, 'd, 'p, 's) parts \<Rightarrow> ('f, 'd, 'p, 's) fmgr \<Rightarrow> bool \<times> ('f, 'd, 'p, 's) fmgr" where
  "upload_round S st =
    (if \<not> length (upload_lookup st) < max_upload_count (conf S) then (True, st)
     else case get_next_upload (dbops S) (mdb st) of
       None \<Rightarrow> (True, st)
     | Some (p, src) \<Rightarrow>
         (case p_get_item (provops S) p False (mprov st) of (res, item) \<Rightarrow>
            if res = item_not_found then (False, fm_remove_upload S p (say (upload_not_found p src) st))
            else if res = success then
              let u = length (made_uploads st);
                  st = (case map_of (upload_lookup st) (api_path item) of
                          None \<Rightarrow> st | Some old \<Rightarrow> stop_upload old st);
                  st = st\<lparr>made_uploads := made_uploads st @ [\<lparr>up_item = item, up_cancelled = False, up_stopped = False\<rparr>],
                          upload_lookup := AList.update (api_path item) u (upload_lookup st)\<rparr>
              in case remove_upload (dbops S) p (mdb st) of (ok, d) \<Rightarrow>
                   let st = st\<lparr>mdb := d\<rparr> in
                   if \<not> ok then (False, st)
                   else case add_upload_active (dbops S) (p, src) (mdb st) of (ok, d) \<Rightarrow>
                     let st = st\<lparr>mdb := d\<rparr> in
                     (False, if ok then st else say (error_raised p error) st)
            else (True, fm_queue_upload S p src False (say (upload_retry p res) st))))"

text \<open>The event \<open>file_upload_completed\<close> of an upload.\<close>

record upload_event =
  ev_path :: string
  ev_source :: string
  ev_cancelled :: bool
  ev_error :: api_error

definition upload_completed ::
  "('f, 'd, 'p, 's) parts \<Rightarrow> upload_event \<Rightarrow> ('f, 'd, 'p, 's) fmgr \<Rightarrow> ('f, 'd, 'p, 's) fmgr" where
  "upload_completed S ev st =
    (if ev_cancelled ev then st
     else if ev_error ev = success then
       (case remove_upload_active (dbops S) (ev_path ev) (mdb st) of (ok, d) \<Rightarrow>
          let st = st\<lparr>mdb := d\<rparr>;
              st = (if ok then st else say (error_raised (ev_path ev) (ev_error ev)) st)
          in case map_of (upload_lookup st) (ev_path ev) of
               None \<Rightarrow> st
             | Some u \<Rightarrow> (stop_upload u st)\<lparr>upload_lookup := AList.delete (ev_path ev) (upload_lookup st)\<rparr>)
     else
       case p_is_file (provops S) (ev_path ev) (mprov st) of (res, exists) \<Rightarrow>
         if res = success \<and> \<not> exists \<or> \<not> l_exists (localops S) (ev_source ev) (mlocal st)
         then fm_remove_upload S (ev_path ev) (say (upload_not_found (ev_path ev) (ev_source ev)) st)
         else fm_queue_upload S (ev_path ev) (ev_source ev) False
                (say (upload_retry (ev_path ev) (ev_error ev)) st))"

end
