(* ===== verification/File_Manager_Handles.thy ===== *)
theory File_Manager_Handles imports File_Manager begin

text \<open>
  The handle tables of the file manager.  Every operation keeps the invariant \<open>tables_ok\<close>: the
  files under their paths, the unlinked files under their handles, every handle with one file only.
  \<open>same_handles\<close> relates two states that differ in nothing a handle is looked up by; everything the
  manager does for uploads, and the closing of an object, is such a step.
\<close>

section \<open>What uploads and effects leave alone\<close>

definition tables :: "('f, 'd, 'p, 's) fmgr \<Rightarrow> 'f list \<times> (string \<times> nat) list \<times> (nat \<times> nat) list \<times> nat" where
  "tables st = (objects st, open_lookup st, unlinked_lookup st, next_handle st)"

lemma tables_eq: "tables st = tables st' \<longleftrightarrow> objects st = objects st' \<and> open_lookup st = open_lookup st' \<and>
  unlinked_lookup st = unlinked_lookup st' \<and> next_handle st = next_handle st'"
  by (simp add: tables_def)

lemma tables_update [simp]:
  "tables (say e st) = tables st" "tables (st\<lparr>mdb := d\<rparr>) = tables st" "tables (st\<lparr>mprov := pr\<rparr>) = tables st"
  "tables (st\<lparr>mlocal := l\<rparr>) = tables st" "tables (st\<lparr>mcache := c\<rparr>) = tables st"
  "tables (st\<lparr>upload_lookup := u\<rparr>) = tables st" "tables (st\<lparr>made_uploads := us\<rparr>) = tables st"
  "tables (st\<lparr>mgr_stop := b\<rparr>) = tables st" "tables (st\<lparr>handler_running := b\<rparr>) = tables st"
  "tables (cancel_upload i st) = tables st" "tables (stop_upload i st) = tables st"
  by (simp_all add: tables_def say_def cancel_upload_def stop_upload_def)

lemma tables_uploads [simp]:
  "tables (fm_remove_upload S p st) = tables st"
  "tables (fm_remove_resume S p src st) = tables st"
  "tables (fm_store_resume S r u st) = tables st"
  by (simp_all add: fm_remove_upload_def fm_remove_resume_def fm_store_resume_def Let_def
      split: prod.split option.split)

lemma tables_queue [simp]: "tables (fm_queue_upload S p src u st) = tables st"
  by (simp add: fm_queue_upload_def Let_def split: prod.split)

lemma tables_call [simp]: "tables (fm_call S f c st) = tables st"
  by (cases c) simp_all

lemma tables_calls [simp]: "tables (fm_calls S f cs st) = tables st"
  unfolding fm_calls_def by (induction cs arbitrary: st) simp_all

lemma tables_effects [simp]: "tables (fm_effects S f e st) = tables st"
  by (simp add: fm_effects_def Let_def split: option.split)

lemmas fields_effects [simp] = tables_effects[unfolded tables_eq] tables_uploads[unfolded tables_eq]
  tables_queue[unfolded tables_eq] tables_calls[unfolded tables_eq]

lemma uploads_local [simp]:
  "mlocal (fm_remove_upload S p st) = mlocal st" "mprov (fm_remove_upload S p st) = mprov st"
  "mlocal (fm_remove_resume S p src st) = mlocal st" "mprov (fm_remove_resume S p src st) = mprov st"
  by (simp_all add: fm_remove_upload_def fm_remove_resume_def Let_def say_def cancel_upload_def
      split: prod.split option.split)

lemma local_uploads [simp]:
  "mlocal (fm_queue_upload S p src u st) = mlocal st" "mlocal (fm_store_resume S e u st) = mlocal st"
  by (simp_all add: fm_queue_upload_def fm_store_resume_def say_def Let_def split: prod.split)

lemma local_call [simp]: "mlocal (fm_call S f c st) = mlocal st"
  by (cases c) simp_all

lemma local_calls [simp]: "mlocal (fm_calls S f cs st) = mlocal st"
  unfolding fm_calls_def by (induction cs arbitrary: st) simp_all

section \<open>The invariant\<close>

definition handles_at :: "('f, 'd, 'p, 's) parts \<Rightarrow> nat \<Rightarrow> ('f, 'd, 'p, 's) fmgr \<Rightarrow> nat set" where
  "handles_at S i st = handles_of (fileops S) (object_at i st)"

definition path_at :: "('f, 'd, 'p, 's) parts \<Rightarrow> nat \<Rightarrow> ('f, 'd, 'p, 's) fmgr \<Rightarrow> string" where
  "path_at S i st = api_path (cf_item (fileops S) (object_at i st))"

definition unlinked_at :: "('f, 'd, 'p, 's) parts \<Rightarrow> nat \<Rightarrow> ('f, 'd, 'p, 's) fmgr \<Rightarrow> bool" where
  "unlinked_at S i st = cf_unlinked (fileops S) (object_at i st)"

text \<open>The handle belongs to the object.\<close>

definition live :: "('f, 'd, 'p, 's) parts \<Rightarrow> ('f, 'd, 'p, 's) fmgr \<Rightarrow> nat \<Rightarrow> nat \<Rightarrow> bool" where
  "live S st h i \<longleftrightarrow>
    (\<exists>p. map_of (open_lookup st) p = Some i \<and> h \<in> handles_at S i st) \<or> map_of (unlinked_lookup st) h = Some i"

definition tables_ok :: "('f, 'd, 'p, 's) parts \<Rightarrow> ('f, 'd, 'p, 's) fmgr \<Rightarrow> bool" where
  "tables_ok S st \<longleftrightarrow>
    distinct (map fst (open_lookup st)) \<and> distinct (map fst (unlinked_lookup st)) \<and>
    (\<forall>p i. map_of (open_lookup st) p = Some i \<longrightarrow>
       i < length (objects st) \<and> path_at S i st = p \<and> \<not> unlinked_at S i st) \<and>
    (\<forall>h i. map_of (unlinked_lookup st) h = Some i \<longrightarrow>
       i < length (objects st) \<and> unlinked_at S i st \<and>
       handles_at S i st = {h. map_of (unlinked_lookup st) h = Some i}) \<and>
    (\<forall>h i. live S st h i \<longrightarrow> 0 < h \<and> h \<le> next_handle st) \<and>
    (\<forall>h i j. live S st h i \<longrightarrow> live S st h j \<longrightarrow> i = j)"

lemma tables_okD:
  assumes "tables_ok S st"
  shows "distinct (map fst (open_lookup st))" "distinct (map fst (unlinked_lookup st))"
    and "map_of (open_lookup st) p = Some i \<Longrightarrow> i < length (objects st) \<and> path_at S i st = p \<and> \<not> unlinked_at S i st"
    and "map_of (unlinked_lookup st) h = Some i \<Longrightarrow> i < length (objects st) \<and> unlinked_at S i st \<and>
      handles_at S i st = {h. map_of (unlinked_lookup st) h = Some i}"
    and "live S st h i \<Longrightarrow> 0 < h \<and> h \<le> next_handle st"
    and "live S st h i \<Longrightarrow> live S st h j \<Longrightarrow> i = j"
  using assms unfolding tables_ok_def by blast+

lemma lookup_live:
  assumes ok: "tables_ok S st"
  shows "get_open_file_by_handle S h st = Some (i, u) \<longleftrightarrow> live S st h i \<and> u = unlinked_at S i st"
proof (cases "map_of (unlinked_lookup st) h")
  case (Some j)
  then have j: "live S st h j" "unlinked_at S j st" using tables_okD(4)[OF ok] by (auto simp: live_def)
  then show ?thesis
    using Some tables_okD(6)[OF ok j(1), of i] by (auto simp: get_open_file_by_handle_def)
next
  case None
  let ?P = "\<lambda>(p, i). h \<in> handles_of (fileops S) (object_at i st)"
  have l: "live S st h k \<longleftrightarrow> (\<exists>p. map_of (open_lookup st) p = Some k \<and> h \<in> handles_at S k st)" for k
    using None by (simp add: live_def)
  show ?thesis
  proof (cases "List.find ?P (open_lookup st)")
    case None': None
    then have "\<not> live S st h k" for k
      by (auto simp: l find_None_iff handles_at_def dest!: map_of_SomeD)
    then show ?thesis using None None' by (simp add: get_open_file_by_handle_def)
  next
    case (Some e)
    obtain p k where e: "e = (p, k)" by (cases e)
    have m: "(p, k) \<in> set (open_lookup st)" "h \<in> handles_at S k st"
      using Some by (auto simp: e find_Some_iff handles_at_def) (metis nth_mem)
    then have o: "map_of (open_lookup st) p = Some k" using tables_okD(1)[OF ok] by simp
    then have k: "live S st h k" "\<not> unlinked_at S k st" using m tables_okD(3)[OF ok] by (auto simp: l)
    show ?thesis
      using None Some e k tables_okD(6)[OF ok k(1), of i] by (auto simp: get_open_file_by_handle_def)
  qed
qed

lemma lookup_none:
  "tables_ok S st \<Longrightarrow> get_open_file_by_handle S h st = None \<longleftrightarrow> (\<forall>i. \<not> live S st h i)"
  using lookup_live[of S st h] by (metis not_None_eq surj_pair)

section \<open>Steps that change no handle\<close>

definition same_handles :: "('f, 'd, 'p, 's) parts \<Rightarrow> ('f, 'd, 'p, 's) fmgr \<Rightarrow> ('f, 'd, 'p, 's) fmgr \<Rightarrow> bool" where
  "same_handles S st st' \<longleftrightarrow>
    open_lookup st' = open_lookup st \<and> unlinked_lookup st' = unlinked_lookup st \<and> next_handle st' = next_handle st \<and>
    length (objects st) \<le> length (objects st') \<and>
    (\<forall>i < length (objects st). handles_at S i st' = handles_at S i st \<and> path_at S i st' = path_at S i st \<and>
       unlinked_at S i st' = unlinked_at S i st)"

lemma same_handlesD:
  assumes "same_handles S st st'"
  shows "open_lookup st' = open_lookup st" "unlinked_lookup st' = unlinked_lookup st" "next_handle st' = next_handle st"
    "length (objects st) \<le> length (objects st')"
    "i < length (objects st) \<Longrightarrow> handles_at S i st' = handles_at S i st"
    "i < length (objects st) \<Longrightarrow> path_at S i st' = path_at S i st"
    "i < length (objects st) \<Longrightarrow> unlinked_at S i st' = unlinked_at S i st"
  using assms by (simp_all add: same_handles_def)

lemma same_handles_trans:
  "same_handles S st st' \<Longrightarrow> same_handles S st' st'' \<Longrightarrow> same_handles S st st''"
  by (simp add: same_handles_def)

lemma same_handles_tables: "tables st' = tables st \<Longrightarrow> same_handles S st st'"
  by (simp add: same_handles_def tables_eq handles_at_def path_at_def unlinked_at_def)

lemma same_handles_refl [simp]: "same_handles S st st"
  by (simp add: same_handles_tables)

lemma same_handles_live:
  assumes ok: "tables_ok S st" and s: "same_handles S st st'"
  shows "live S st' h i \<longleftrightarrow> live S st h i"
proof -
  have "map_of (open_lookup st) p = Some i \<Longrightarrow> handles_at S i st' = handles_at S i st" for p
    using tables_okD(3)[OF ok] same_handlesD(5)[OF s] by blast
  then show ?thesis unfolding live_def same_handlesD(1,2)[OF s] by blast
qed

lemma same_handles_ok:
  assumes ok: "tables_ok S st" and s: "same_handles S st st'"
  shows "tables_ok S st'"
  unfolding tables_ok_def same_handles_live[OF ok s] same_handlesD(1,2,3)[OF s]
proof (intro conjI allI impI)
  fix p i assume "map_of (open_lookup st) p = Some i"
  note i = tables_okD(3)[OF ok this]
  then show "i < length (objects st')" "path_at S i st' = p" "\<not> unlinked_at S i st'"
    using same_handlesD(4)[OF s] same_handlesD(6,7)[OF s, of i] by auto
next
  fix h i assume "map_of (unlinked_lookup st) h = Some i"
  note i = tables_okD(4)[OF ok this]
  then show "i < length (objects st')" "unlinked_at S i st'"
      "handles_at S i st' = {h. map_of (unlinked_lookup st) h = Some i}"
    using same_handlesD(4)[OF s] same_handlesD(5,7)[OF s, of i] by auto
qed (use tables_okD[OF ok] in blast)+


lemma keeps_handles:
  assumes "tables_ok S st" "same_handles S st st'"
  shows "tables_ok S st' \<and> (\<forall>h i. live S st' h i \<longleftrightarrow> live S st h i)"
  using same_handles_ok[OF assms] same_handles_live[OF assms] by blast

section \<open>Objects\<close>

lemma put_object_fields [simp]:
  "open_lookup (put_object i f st) = open_lookup st" "unlinked_lookup (put_object i f st) = unlinked_lookup st"
  "next_handle (put_object i f st) = next_handle st" "length (objects (put_object i f st)) = length (objects st)"
  by (simp_all add: put_object_def)

lemma put_object_at:
  "j < length (objects st) \<Longrightarrow> object_at j (put_object i f st) = (if j = i then f else object_at j st)"
  by (simp add: put_object_def nth_list_update)

lemma put_object_same:
  assumes "i < length (objects st) \<Longrightarrow> handles_of (fileops S) f = handles_at S i st \<and>
    api_path (cf_item (fileops S) f) = path_at S i st \<and> cf_unlinked (fileops S) f = unlinked_at S i st"
  shows "same_handles S st (put_object i f st)"
  using assms by (simp add: same_handles_def handles_at_def path_at_def unlinked_at_def put_object_at)

lemma new_object_same: "new_object f st = (i, st') \<Longrightarrow> same_handles S st st'"
  by (auto simp: new_object_def same_handles_def handles_at_def path_at_def unlinked_at_def nth_append)

lemma new_object_at:
  "new_object f st = (i, st') \<Longrightarrow> object_at i st' = f \<and> i = length (objects st) \<and> i < length (objects st')"
  by (auto simp: new_object_def)

lemma delete_open_ok:
  fixes st :: "('f, 'd, 'p, 's) fmgr" and p :: string
  assumes ok: "tables_ok S st"
  defines "st' \<equiv> st\<lparr>open_lookup := AList.delete p (open_lookup st)\<rparr>"
  shows "tables_ok S st' \<and> (\<forall>h k. live S st' h k \<longleftrightarrow> live S st h k \<and> map_of (open_lookup st) p \<noteq> Some k)"
proof -
  have at: "handles_at S k st' = handles_at S k st" "path_at S k st' = path_at S k st" "unlinked_at S k st' = unlinked_at S k st" for k
    by (simp_all add: st'_def handles_at_def path_at_def unlinked_at_def)
  have m: "map_of (open_lookup st') = (map_of (open_lookup st))(p := None)" by (simp add: st'_def AList.delete_conv')
  have u: "unlinked_lookup st' = unlinked_lookup st" "next_handle st' = next_handle st" "objects st' = objects st"
    by (simp_all add: st'_def)
  have l: "live S st' h k \<longleftrightarrow> live S st h k \<and> map_of (open_lookup st) p \<noteq> Some k" for h k
  proof -
    have "map_of (open_lookup st) q = Some k \<Longrightarrow> map_of (open_lookup st) p = Some k \<Longrightarrow> q = p" for q
      using tables_okD(3)[OF ok] by metis
    moreover have "map_of (unlinked_lookup st) h = Some k \<Longrightarrow> map_of (open_lookup st) p \<noteq> Some k"
      using tables_okD(3,4)[OF ok] by blast
    ultimately show ?thesis by (auto simp: live_def m u at)
  qed
  have "tables_ok S st'"
    unfolding tables_ok_def l at m u
  proof (intro conjI allI impI)
    show "distinct (map fst (open_lookup st'))"
      using tables_okD(1)[OF ok] by (simp add: st'_def AList.distinct_delete)
  qed (use tables_okD[OF ok] in \<open>auto split: if_splits\<close>)
  then show ?thesis using l by blast
qed

text \<open>A file that takes the place of another under its path.\<close>

lemma update_open_ok:
  fixes st :: "('f, 'd, 'p, 's) fmgr"
  assumes ok: "tables_ok S st" and i: "i < length (objects st)" "path_at S i st = p" "\<not> unlinked_at S i st"
    and n: "\<And>q. map_of (open_lookup st) q \<noteq> Some i"
    and h: "\<And>h j. h \<in> handles_at S i st \<Longrightarrow> live S st h j \<Longrightarrow> map_of (open_lookup st) p = Some j"
      "\<And>h. h \<in> handles_at S i st \<Longrightarrow> 0 < h \<and> h \<le> next_handle st"
  defines "st' \<equiv> st\<lparr>open_lookup := AList.update p i (open_lookup st)\<rparr>"
  shows "tables_ok S st' \<and> (\<forall>h k. live S st' h k \<longleftrightarrow>
    live S st h k \<and> map_of (open_lookup st) p \<noteq> Some k \<or> k = i \<and> h \<in> handles_at S i st)"
proof -
  have at: "handles_at S k st' = handles_at S k st" "path_at S k st' = path_at S k st" "unlinked_at S k st' = unlinked_at S k st" for k
    by (simp_all add: st'_def handles_at_def path_at_def unlinked_at_def)
  have m: "map_of (open_lookup st') = (map_of (open_lookup st))(p \<mapsto> i)" by (simp add: st'_def AList.update_conv')
  have u: "unlinked_lookup st' = unlinked_lookup st" "next_handle st' = next_handle st" "objects st' = objects st"
    by (simp_all add: st'_def)
  have l: "live S st' h k \<longleftrightarrow> live S st h k \<and> map_of (open_lookup st) p \<noteq> Some k \<or> k = i \<and> h \<in> handles_at S i st" for h k
  proof -
    have "map_of (open_lookup st) q = Some k \<Longrightarrow> map_of (open_lookup st) p = Some k \<Longrightarrow> q = p" for q
      using tables_okD(3)[OF ok] by metis
    moreover have "map_of (unlinked_lookup st) h = Some k \<Longrightarrow> map_of (open_lookup st) p \<noteq> Some k"
      using tables_okD(3,4)[OF ok] by blast
    ultimately show ?thesis by (auto simp: live_def m u at)
  qed
  have "tables_ok S st'"
    unfolding tables_ok_def l at m u
  proof (intro conjI allI impI)
    show "distinct (map fst (open_lookup st'))"
      using tables_okD(1)[OF ok] by (simp add: st'_def AList.distinct_update)
  qed (use tables_okD[OF ok] i h in \<open>auto split: if_splits\<close>)
  then show ?thesis using l by blast
qed

lemma map_of_add_all:
  "map_of (foldl (\<lambda>m (h, d). AList.update h i m) m data) h = (if h \<in> fst ` set data then Some i else map_of m h)"
  by (induction data arbitrary: m) (auto simp: AList.update_conv')

lemma distinct_add_all:
  "distinct (map fst m) \<Longrightarrow> distinct (map fst (foldl (\<lambda>m (h, d). AList.update h i m) m data))"
  by (induction data arbitrary: m) (auto simp: AList.distinct_update)

text \<open>The handles of an object that is not open any more, or takes over those of another.\<close>

lemma add_unlinked_ok:
  fixes st :: "('f, 'd, 'p, 's) fmgr"
  assumes ok: "tables_ok S st" and i: "i < length (objects st)" "unlinked_at S i st"
    and h: "\<And>h j. h \<in> handles_at S i st \<Longrightarrow> live S st h j \<Longrightarrow> handles_at S j st \<subseteq> handles_at S i st \<and> unlinked_at S j st"
      "\<And>h. h \<in> handles_at S i st \<Longrightarrow> 0 < h \<and> h \<le> next_handle st"
      "\<And>h. map_of (unlinked_lookup st) h = Some i \<Longrightarrow> h \<in> handles_at S i st"
  defines "st' \<equiv> add_unlinked S i st"
  shows "tables_ok S st' \<and> (\<forall>h k. live S st' h k \<longleftrightarrow>
    live S st h k \<and> h \<notin> handles_at S i st \<or> k = i \<and> h \<in> handles_at S i st)"
proof -
  have at: "handles_at S k st' = handles_at S k st" "path_at S k st' = path_at S k st" "unlinked_at S k st' = unlinked_at S k st" for k
    by (simp_all add: st'_def add_unlinked_def handles_at_def path_at_def unlinked_at_def)
  have m: "map_of (unlinked_lookup st') k = (if k \<in> handles_at S i st then Some i else map_of (unlinked_lookup st) k)" for k
    by (simp add: st'_def add_unlinked_def map_of_add_all handles_at_def handles_of_def)
  have u: "open_lookup st' = open_lookup st" "next_handle st' = next_handle st" "objects st' = objects st"
    by (simp_all add: st'_def add_unlinked_def)
  have o: "map_of (open_lookup st) p = Some j \<Longrightarrow> k \<in> handles_at S i st \<Longrightarrow> k \<notin> handles_at S j st" for p j k
    using h(1)[of k j] tables_okD(3)[OF ok, of p j] by (auto simp: live_def)
  have l: "live S st' k j \<longleftrightarrow> live S st k j \<and> k \<notin> handles_at S i st \<or> j = i \<and> k \<in> handles_at S i st" for k j
    using o by (auto simp: live_def m u at)
  have "tables_ok S st'"
    unfolding tables_ok_def l at m u
  proof (intro conjI allI impI)
    show "distinct (map fst (unlinked_lookup st'))"
      using tables_okD(2)[OF ok] by (simp add: st'_def add_unlinked_def distinct_add_all)
  next
    fix k j assume "(if k \<in> handles_at S i st then Some i else map_of (unlinked_lookup st) k) = Some j"
    then consider "k \<in> handles_at S i st" "j = i" | "k \<notin> handles_at S i st" "map_of (unlinked_lookup st) k = Some j"
      by (auto split: if_splits)
    then show "j < length (objects st)" "unlinked_at S j st"
        "handles_at S j st = {h. (if h \<in> handles_at S i st then Some i else map_of (unlinked_lookup st) h) = Some j}"
    proof (atomize(full), cases)
      case 1
      then show "j < length (objects st) \<and> unlinked_at S j st \<and>
        handles_at S j st = {h. (if h \<in> handles_at S i st then Some i else map_of (unlinked_lookup st) h) = Some j}"
        using i h(3) by auto
    next
      case 2
      note j = tables_okD(4)[OF ok 2(2)]
      have "j \<noteq> i" using 2 h(3) by auto
      moreover have "x \<notin> handles_at S i st" if "x \<in> handles_at S j st" for x
      proof
        assume "x \<in> handles_at S i st"
        moreover have "live S st x j" using that j by (auto simp: live_def)
        ultimately have "handles_at S j st \<subseteq> handles_at S i st" using h(1) by blast
        then show False using 2 j by auto
      qed
      ultimately show "j < length (objects st) \<and> unlinked_at S j st \<and>
        handles_at S j st = {h. (if h \<in> handles_at S i st then Some i else map_of (unlinked_lookup st) h) = Some j}"
        using j by auto
    qed
  qed (use tables_okD[OF ok] i h in auto)
  then show ?thesis using l by blast
qed

section \<open>The operations\<close>

text \<open>
  The handle \<open>g\<close> resolves before and after, to a file with the same path, and stays unlinked once
  it is.
\<close>

definition handle_kept :: "('f, 'd, 'p, 's) parts \<Rightarrow> nat \<Rightarrow> ('f, 'd, 'p, 's) fmgr \<Rightarrow> ('f, 'd, 'p, 's) fmgr \<Rightarrow> bool" where
  "handle_kept S g st st' \<longleftrightarrow>
    (\<forall>k. live S st g k \<longrightarrow>
      (\<exists>k'. live S st' g k' \<and> path_at S k' st' = path_at S k st \<and> (unlinked_at S k st \<longrightarrow> unlinked_at S k' st')))"

lemma handle_kept_same:
  assumes ok: "tables_ok S st" and s: "same_handles S st st'"
  shows "handle_kept S g st st'"
  unfolding handle_kept_def
proof (intro allI impI)
  fix k assume k: "live S st g k"
  then have "k < length (objects st)" using tables_okD(3,4)[OF ok] by (auto simp: live_def)
  then show "\<exists>k'. live S st' g k' \<and> path_at S k' st' = path_at S k st \<and> (unlinked_at S k st \<longrightarrow> unlinked_at S k' st')"
    using k same_handles_live[OF ok s] same_handlesD(6,7)[OF s] by blast
qed

lemma handle_kept_trans:
  "handle_kept S g st st' \<Longrightarrow> handle_kept S g st' st'' \<Longrightarrow> handle_kept S g st st''"
  unfolding handle_kept_def by metis

lemma live_index: "tables_ok S st \<Longrightarrow> live S st g k \<Longrightarrow> k < length (objects st)"
  using tables_okD(3,4) by (metis live_def)

lemma live_handle: "tables_ok S st \<Longrightarrow> live S st g k \<Longrightarrow> g \<in> handles_at S k st"
  using tables_okD(4) unfolding live_def by blast

locale manager = closeable_files "fileops S" for S :: "('f, 'd, 'p, 's) parts" +
  assumes item_law: "p_get_item (provops S) p d pr = (success, item) \<Longrightarrow> api_path item = p"
begin

lemma close_object_same: "same_handles S st (close_object S i st)"
proof -
  obtain e c f where r: "cf_close (fileops S) (fst (l_remove (localops S) (source_path (cf_item (fileops S) (object_at i st))) (mlocal st)))
      (mcache st) (object_at i st) = (e, c, f)"
    by (cases "cf_close (fileops S) (fst (l_remove (localops S) (source_path (cf_item (fileops S) (object_at i st))) (mlocal st)))
      (mcache st) (object_at i st)")
  then have "f = snd (snd (cf_close (fileops S) (fst (l_remove (localops S) (source_path (cf_item (fileops S) (object_at i st))) (mlocal st)))
      (mcache st) (object_at i st)))" by simp
  then have "same_handles S st (put_object i f st)"
    by (intro put_object_same) (simp add: handles_at_def path_at_def unlinked_at_def)
  moreover have "close_object S i st = fm_effects S f e ((put_object i f st)\<lparr>mcache := c\<rparr>)"
    using r by (simp add: close_object_def)
  ultimately show ?thesis
    using same_handles_trans[OF _ same_handles_tables] by (metis tables_effects tables_update(5))
qed

lemma release_same: "same_handles S st (release S i st)"
  using close_object_same by (simp add: release_def)

lemma set_open_same:
  "same_handles S (st\<lparr>open_lookup := AList.update p i (open_lookup st)\<rparr>) (set_open S p i st)"
  using release_same by (simp add: set_open_def Let_def split: option.split)

lemma set_open_ok:
  assumes "tables_ok S st" "i < length (objects st)" "path_at S i st = p" "\<not> unlinked_at S i st"
    "\<And>q. map_of (open_lookup st) q \<noteq> Some i"
    "\<And>h j. h \<in> handles_at S i st \<Longrightarrow> live S st h j \<Longrightarrow> map_of (open_lookup st) p = Some j"
    "\<And>h. h \<in> handles_at S i st \<Longrightarrow> 0 < h \<and> h \<le> next_handle st"
  shows "tables_ok S (set_open S p i st) \<and> (\<forall>h k. live S (set_open S p i st) h k \<longleftrightarrow>
    live S st h k \<and> map_of (open_lookup st) p \<noteq> Some k \<or> k = i \<and> h \<in> handles_at S i st)"
proof -
  have "tables_ok S (st\<lparr>open_lookup := AList.update p i (open_lookup st)\<rparr>) \<and>
    (\<forall>h k. live S (st\<lparr>open_lookup := AList.update p i (open_lookup st)\<rparr>) h k \<longleftrightarrow>
      live S st h k \<and> map_of (open_lookup st) p \<noteq> Some k \<or> k = i \<and> h \<in> handles_at S i st)"
    by (rule update_open_ok[OF assms(1-5)]) (use assms(6,7) in auto)
  then show ?thesis using keeps_handles[OF _ set_open_same[of p i st]] by blast
qed

lemma set_open_lookup [simp]: "map_of (open_lookup (set_open S p i st)) = (map_of (open_lookup st))(p \<mapsto> i)"
  using same_handlesD(1)[OF set_open_same[of p i st]] by (simp add: AList.update_conv')

lemma set_open_at:
  assumes "k < length (objects st)"
  shows "handles_at S k (set_open S p i st) = handles_at S k st" "path_at S k (set_open S p i st) = path_at S k st"
    "unlinked_at S k (set_open S p i st) = unlinked_at S k st" "k < length (objects (set_open S p i st))"
    "next_handle (set_open S p i st) = next_handle st"
proof -
  have "k < length (objects (st\<lparr>open_lookup := AList.update p i (open_lookup st)\<rparr>))" using assms by simp
  note s = same_handlesD(3,4)[OF set_open_same[of p i st]] same_handlesD(5-7)[OF set_open_same[of p i st] this]
  show "handles_at S k (set_open S p i st) = handles_at S k st" "path_at S k (set_open S p i st) = path_at S k st"
    "unlinked_at S k (set_open S p i st) = unlinked_at S k st" "k < length (objects (set_open S p i st))"
    "next_handle (set_open S p i st) = next_handle st"
    using s assms by (simp_all add: handles_at_def path_at_def unlinked_at_def)
qed

lemma add_handle_ok:
  assumes ok: "tables_ok S st" and p: "map_of (open_lookup st) p = Some i" and n: "next_handle st + 1 < 2 ^ 64"
    and r: "create_and_add_handle S i ofd st = (r, st')"
  shows "r = Opened (next_handle st + 1) i \<and> tables_ok S st' \<and> next_handle st' = next_handle st + 1 \<and>
    (\<forall>h k. live S st' h k \<longleftrightarrow> live S st h k \<or> h = next_handle st + 1 \<and> k = i) \<and>
    (\<forall>k. path_at S k st' = path_at S k st \<and> unlinked_at S k st' = unlinked_at S k st)"
proof -
  let ?h = "next_handle st + 1" and ?f = "cf_add (fileops S) (next_handle st + 1) ofd (object_at i st)"
  have i: "i < length (objects st)" "path_at S i st = p" "\<not> unlinked_at S i st" using tables_okD(3)[OF ok p] by auto
  have st': "r = Opened ?h i" "st' = (put_object i ?f st)\<lparr>next_handle := ?h\<rparr>"
    using r n by (auto simp: create_and_add_handle_def get_next_handle_def add64_def Let_def put_object_def)
  have o: "object_at k st' = (if k = i then ?f else object_at k st)" for k
    using i by (cases "k < length (objects st)") (auto simp: st' put_object_def nth_list_update)
  have at: "handles_at S k st' = (if k = i then insert ?h (handles_at S k st) else handles_at S k st)"
    "path_at S k st' = path_at S k st" "unlinked_at S k st' = unlinked_at S k st" for k
    by (simp_all add: handles_at_def path_at_def unlinked_at_def o)
  have u: "open_lookup st' = open_lookup st" "unlinked_lookup st' = unlinked_lookup st"
    "length (objects st') = length (objects st)" "next_handle st' = ?h"
    by (simp_all add: st')
  have fresh: "\<not> live S st ?h k" for k using tables_okD(5)[OF ok] by fastforce
  have l: "live S st' h k \<longleftrightarrow> live S st h k \<or> h = ?h \<and> k = i" for h k
    using p by (auto simp: live_def u at)
  have "tables_ok S st'"
    unfolding tables_ok_def l u at
  proof (intro conjI allI impI)
    fix h k assume h: "map_of (unlinked_lookup st) h = Some k"
    then have "k \<noteq> i" using tables_okD(4)[OF ok h] i(3) by auto
    then show "(if k = i then insert ?h (handles_at S k st) else handles_at S k st) = {h. map_of (unlinked_lookup st) h = Some k}"
      using tables_okD(4)[OF ok h] by simp
  next
    fix h j k assume "live S st h j \<or> h = ?h \<and> j = i" "live S st h k \<or> h = ?h \<and> k = i"
    then show "j = k" using fresh tables_okD(6)[OF ok] by blast
  next
    fix h k assume "live S st h k \<or> h = ?h \<and> k = i"
    then show "0 < h" "h \<le> ?h" using tables_okD(5)[OF ok, of h k] by auto
  qed (use tables_okD[OF ok] in auto)
  then show ?thesis using st' l at u by blast
qed

lemma ensure_source_tables:
  "ensure_source S item st = (res, item', st') \<Longrightarrow> tables st' = tables st \<and> api_path item' = api_path item"
  by (auto simp: ensure_source_def tables_def split: if_splits prod.splits)

lemma get_download_type_tables: "get_download_type S item d p ty st = (ty', st') \<Longrightarrow> tables st' = tables st"
  by (auto simp: get_download_type_def Let_def tables_def say_def split: if_splits prod.splits)

lemma make_file_new:
  "make_file S ty item = Inr (e, f) \<Longrightarrow> handles_of (fileops S) f = {} \<and> api_path (cf_item (fileops S) f) = api_path item \<and>
    \<not> cf_unlinked (fileops S) f"
proof (cases ty)
  case default_download
  assume "make_file S ty item = Inr (e, f)"
  then have "f = snd (new_cached (fileops S) item [] None)" using default_download by (simp add: make_file_def)
  then show ?thesis by simp
next
  case direct_download
  assume "make_file S ty item = Inr (e, f)"
  then have "new_direct (fileops S) item = Inr f" using direct_download
    by (auto simp: make_file_def map_sum_def split: sum.splits)
  then show ?thesis using new_laws by blast
next
  case ring_buffer_download
  assume "make_file S ty item = Inr (e, f)"
  then have "\<exists>n. new_buffered (fileops S) n item = Inr f" using ring_buffer_download
    by (auto simp: make_file_def map_sum_def split: sum.splits)
  then show ?thesis using new_laws by blast
qed

text \<open>What \<open>open\<close> does to the tables: nothing if it fails, one new handle if it succeeds.\<close>

definition opened_as :: "string \<Rightarrow> open_result \<Rightarrow> ('f, 'd, 'p, 's) fmgr \<Rightarrow> ('f, 'd, 'p, 's) fmgr \<Rightarrow> bool" where
  "opened_as p r st st' \<longleftrightarrow> tables_ok S st' \<and>
    (case r of
       Opened h i \<Rightarrow> h = next_handle st + 1 \<and> next_handle st' = h \<and> path_at S i st' = p \<and> \<not> unlinked_at S i st' \<and>
         (\<forall>g k. live S st' g k \<longleftrightarrow> live S st g k \<or> g = h \<and> k = i)
     | _ \<Rightarrow> next_handle st' = next_handle st \<and> (\<forall>g k. live S st' g k \<longleftrightarrow> live S st g k)) \<and>
    (\<forall>g k. live S st g k \<longrightarrow> path_at S k st' = path_at S k st \<and> unlinked_at S k st' = unlinked_at S k st)"

lemma opened_as_same:
  assumes ok: "tables_ok S st" and s: "same_handles S st st1" and o: "opened_as p r st1 st'"
  shows "opened_as p r st st'"
proof -
  have "live S st g k \<Longrightarrow> path_at S k st1 = path_at S k st \<and> unlinked_at S k st1 = unlinked_at S k st" for g k
    using live_index[OF ok] same_handlesD(6,7)[OF s] by blast
  then show ?thesis
    using o same_handles_live[OF ok s] same_handlesD(3)[OF s] unfolding opened_as_def by (cases r) simp_all
qed

lemma opened_as_fail:
  assumes "tables_ok S st" "same_handles S st st'" "\<And>h i. r \<noteq> Opened h i"
  shows "opened_as p r st st'"
proof (cases r)
  case (Opened h i)
  then show ?thesis using assms(3) by blast
qed (use keeps_handles[OF assms(1,2)] same_handlesD[OF assms(2)] live_index[OF assms(1)] in
    \<open>auto simp: opened_as_def\<close>)

lemma open_existing:
  assumes ok: "tables_ok S st" and p: "map_of (open_lookup st) p = Some i" and n: "next_handle st + 1 < 2 ^ 64"
    and r: "create_and_add_handle S i ofd st = (r, st')"
  shows "opened_as p r st st'"
  using add_handle_ok[OF ok p n r] tables_okD(3)[OF ok p] unfolding opened_as_def by auto

lemma fm_open_ok:
  assumes ok: "tables_ok S st" and n: "next_handle st + 1 < 2 ^ 64" and r: "fm_open S p d ofd st = (r, st')"
  shows "opened_as p r st st'"
proof (cases "map_of (open_lookup st) p")
  case (Some i)
  then show ?thesis using open_existing[OF ok Some n] r by (simp add: fm_open_def)
next
  case None
  obtain res item where g: "p_get_item (provops S) p d (mprov st) = (res, item)" by force
  obtain res2 item2 st1 where e: "ensure_source S item st = (res2, item2, st1)" by (metis surj_pair)
  define pref where "pref = (if d then default_download
    else if preferred_type (conf S) = default_download then ring_buffer_download else preferred_type (conf S))"
  obtain ty st2 where t: "get_download_type S item2 d p pref st1 = (ty, st2)" by force
  define st3 where "st3 = (if d then st2 else say (type_selected (api_path item2) ty) st2)"
  have t1: "tables st1 = tables st" "api_path item2 = api_path item" using ensure_source_tables[OF e] by auto
  have t3: "tables st3 = tables st" using get_download_type_tables[OF t] t1 by (simp add: st3_def)
  show ?thesis
  proof (cases "res = success \<and> res2 = success")
    case False
    then have "(r = Not_opened res \<and> st' = st) \<or> (r = Not_opened res2 \<and> st' = st1)"
      using r None by (auto simp: fm_open_def g e split: if_splits)
    then show ?thesis using opened_as_fail[OF ok] same_handles_tables[OF t1(1)] same_handles_refl by blast
  next
    case True
    have item: "api_path item2 = p" using t1 item_law g True by simp
    show ?thesis
    proof (cases "make_file S ty item2")
      case (Inl x)
      then have "r = Open_throws x" "st' = st3"
        using r None True by (simp_all add: fm_open_def g e pref_def[symmetric] t st3_def Let_def)
      then show ?thesis using opened_as_fail[OF ok same_handles_tables[OF t3]] by simp
    next
      case (Inr ef)
      obtain eff f where ef: "ef = (eff, f)" by (cases ef)
      obtain i st4 where new: "new_object f (fm_effects S f eff st3) = (i, st4)" by force
      have r': "create_and_add_handle S i ofd (set_open S p i st4) = (r, st')"
        using r None True Inr by (simp add: fm_open_def g e pref_def[symmetric] t st3_def[symmetric] ef new Let_def)
      have s4: "same_handles S st st4"
        by (rule same_handles_trans[OF same_handles_tables new_object_same[OF new]]) (simp add: t3)
      note ok4 = same_handles_ok[OF ok s4]
      note f = make_file_new[OF Inr[unfolded ef]]
      have i: "i < length (objects st4)" "handles_at S i st4 = {}" "path_at S i st4 = p" "\<not> unlinked_at S i st4"
        using f item new_object_at[OF new] by (auto simp: handles_at_def path_at_def unlinked_at_def)
      have p4: "map_of (open_lookup st4) p = None" using None same_handlesD(1)[OF s4] by simp
      have "map_of (open_lookup st4) q \<noteq> Some i" for q
        using tables_okD(3)[OF ok4, of q i] i p4 by auto
      then have so: "tables_ok S (set_open S p i st4)" "live S (set_open S p i st4) h k \<longleftrightarrow> live S st4 h k" for h k
        using set_open_ok[OF ok4 i(1,3,4)] i(2) p4 by auto
      have lk: "map_of (open_lookup (set_open S p i st4)) p = Some i" by simp
      have nh: "next_handle (set_open S p i st4) = next_handle st"
        using set_open_at(5)[OF i(1)] same_handlesD(3)[OF s4] by simp
      have "opened_as p r (set_open S p i st4) st'"
        using open_existing[OF so(1) lk _ r'] n nh by simp
      then have "opened_as p r st4 st'"
        using so(2) set_open_at[of _ st4 p i] live_index[OF ok4] nh same_handlesD(3)[OF s4]
        unfolding opened_as_def by (cases r) simp_all
      then show ?thesis by (rule opened_as_same[OF ok s4])
    qed
  qed
qed

lemma opened_as_kept: "tables_ok S st \<Longrightarrow> opened_as p r st st' \<Longrightarrow> handle_kept S g st st'"
  unfolding opened_as_def handle_kept_def by (cases r) force+

end

text \<open>Steps of the tables that open no handle: \<open>shrinks\<close> may drop some, \<open>stays\<close> drops none.\<close>

definition shrinks :: "('f, 'd, 'p, 's) parts \<Rightarrow> ('f, 'd, 'p, 's) fmgr \<Rightarrow> ('f, 'd, 'p, 's) fmgr \<Rightarrow> bool" where
  "shrinks S st st' \<longleftrightarrow> tables_ok S st' \<and> next_handle st' = next_handle st \<and>
    (\<forall>g k. live S st' g k \<longrightarrow> (\<exists>k'. live S st g k'))"

definition stays :: "('f, 'd, 'p, 's) parts \<Rightarrow> ('f, 'd, 'p, 's) fmgr \<Rightarrow> ('f, 'd, 'p, 's) fmgr \<Rightarrow> bool" where
  "stays S st st' \<longleftrightarrow> shrinks S st st' \<and> (\<forall>g. handle_kept S g st st')"

lemma shrinks_ok: "shrinks S st st' \<Longrightarrow> tables_ok S st'"
  by (simp add: shrinks_def)

lemma stays_ok: "stays S st st' \<Longrightarrow> tables_ok S st'"
  by (simp add: stays_def shrinks_def)

lemma stays_shrinks: "stays S st st' \<Longrightarrow> shrinks S st st'"
  by (simp add: stays_def)

lemma shrinks_trans: "shrinks S st st' \<Longrightarrow> shrinks S st' st'' \<Longrightarrow> shrinks S st st''"
  unfolding shrinks_def by metis

lemma stays_trans: "stays S st st' \<Longrightarrow> stays S st' st'' \<Longrightarrow> stays S st st''"
  unfolding stays_def using shrinks_trans handle_kept_trans by metis

lemma stays_same: "tables_ok S st \<Longrightarrow> same_handles S st st' \<Longrightarrow> stays S st st'"
  using keeps_handles handle_kept_same same_handlesD(3) unfolding stays_def shrinks_def by metis

lemma stays_tables: "tables_ok S st \<Longrightarrow> tables st' = tables st \<Longrightarrow> stays S st st'"
  using stays_same same_handles_tables by blast

text \<open>An object no table refers to may be replaced.\<close>

lemma put_unreferenced:
  assumes ok: "tables_ok S st" and n: "\<And>q. map_of (open_lookup st) q \<noteq> Some i" "\<And>h. map_of (unlinked_lookup st) h \<noteq> Some i"
  shows "tables_ok S (put_object i f st) \<and> (\<forall>h k. live S (put_object i f st) h k \<longleftrightarrow> live S st h k)"
proof -
  let ?st = "put_object i f st"
  have at: "k \<noteq> i \<Longrightarrow> handles_at S k ?st = handles_at S k st \<and> path_at S k ?st = path_at S k st \<and>
      unlinked_at S k ?st = unlinked_at S k st" for k
    by (simp add: handles_at_def path_at_def unlinked_at_def put_object_def)
  have l: "live S ?st h k \<longleftrightarrow> live S st h k" for h k
    using at[of k] n by (auto simp: live_def)
  have "tables_ok S ?st"
    unfolding tables_ok_def l put_object_fields
  proof (intro conjI allI impI)
    fix p k assume k: "map_of (open_lookup st) p = Some k"
    then have "k \<noteq> i" using n by auto
    then show "k < length (objects st)" "path_at S k ?st = p" "\<not> unlinked_at S k ?st"
      using at tables_okD(3)[OF ok k] by auto
  next
    fix h k assume k: "map_of (unlinked_lookup st) h = Some k"
    then have "k \<noteq> i" using n by auto
    then show "k < length (objects st)" "unlinked_at S k ?st" "handles_at S k ?st = {h. map_of (unlinked_lookup st) h = Some k}"
      using at tables_okD(4)[OF ok k] by auto
  qed (use tables_okD[OF ok] in blast)+
  then show ?thesis using l by blast
qed

text \<open>A handle leaves its object and, if the object is unlinked, the table.\<close>

lemma drop_handle_ok:
  assumes ok: "tables_ok S st" and h: "live S st h i"
    and o: "objects st' = (objects st)[i := f]" "open_lookup st' = open_lookup st" "next_handle st' = next_handle st"
      "unlinked_lookup st' = (if unlinked_at S i st then AList.delete h (unlinked_lookup st) else unlinked_lookup st)"
    and f: "handles_of (fileops S) f = handles_at S i st - {h}" "api_path (cf_item (fileops S) f) = path_at S i st"
      "cf_unlinked (fileops S) f = unlinked_at S i st"
  shows "tables_ok S st' \<and> (\<forall>g k. live S st' g k \<longleftrightarrow> live S st g k \<and> g \<noteq> h) \<and>
    (\<forall>k < length (objects st). path_at S k st' = path_at S k st \<and> unlinked_at S k st' = unlinked_at S k st)"
proof -
  have i: "i < length (objects st)" using live_index[OF ok h] .
  have ob: "object_at k st' = (if k = i then f else object_at k st)" for k
    unfolding o(1) using i by simp
  have at: "handles_at S k st' = (if k = i then handles_at S i st - {h} else handles_at S k st)"
    "path_at S k st' = path_at S k st" "unlinked_at S k st' = unlinked_at S k st" for k
    using f by (auto simp only: handles_at_def path_at_def unlinked_at_def ob split: if_split)
  have u: "map_of (unlinked_lookup st') = (map_of (unlinked_lookup st))(h := None)"
  proof (cases "unlinked_at S i st")
    case False
    have "map_of (unlinked_lookup st) h = None"
    proof (rule ccontr)
      assume "map_of (unlinked_lookup st) h \<noteq> None"
      then obtain j where j: "map_of (unlinked_lookup st) h = Some j" by blast
      then have "live S st h j" by (simp add: live_def)
      then have "j = i" using tables_okD(6)[OF ok h] by simp
      then show False using tables_okD(4)[OF ok j] False by simp
    qed
    then show ?thesis using False unfolding o(4) by (simp add: fun_upd_idem)
  qed (simp add: o(4) AList.delete_conv')
  have l: "live S st' g k \<longleftrightarrow> live S st g k \<and> g \<noteq> h" for g k
  proof -
    have k: "live S st h k \<Longrightarrow> k = i" using tables_okD(6)[OF ok h] by blast
    have "live S st' g k \<longleftrightarrow> (\<exists>p. map_of (open_lookup st) p = Some k \<and> g \<in> handles_at S k st \<and> (k = i \<longrightarrow> g \<noteq> h)) \<or>
        g \<noteq> h \<and> map_of (unlinked_lookup st) g = Some k"
      unfolding live_def u at(1) o(2) by (cases "k = i"; cases "g = h") simp_all
    moreover have "k \<noteq> i \<Longrightarrow> map_of (open_lookup st) p = Some k \<Longrightarrow> h \<notin> handles_at S k st" for p
      using k by (metis live_def)
    ultimately show ?thesis unfolding live_def[of S st] by blast
  qed
  have "tables_ok S st'"
    unfolding tables_ok_def l at u
  proof (intro conjI allI impI)
    show "distinct (map fst (open_lookup st'))" using tables_okD(1)[OF ok] by (simp add: o)
    show "distinct (map fst (unlinked_lookup st'))" using tables_okD(2)[OF ok] by (simp add: o AList.distinct_delete)
  next
    fix g k assume "((map_of (unlinked_lookup st))(h := None)) g = Some k"
    then have g: "map_of (unlinked_lookup st) g = Some k" "g \<noteq> h" by (auto split: if_splits)
    note a = tables_okD(4)[OF ok g(1)]
    have "map_of (unlinked_lookup st) h = Some k \<Longrightarrow> k = i"
      using tables_okD(6)[OF ok h] unfolding live_def by blast
    then show "(if k = i then handles_at S i st - {h} else handles_at S k st) = {g. ((map_of (unlinked_lookup st))(h := None)) g = Some k}"
      using a by auto
    show "k < length (objects st')" "unlinked_at S k st" using a by (simp_all add: o)
  next
    fix p k assume "map_of (open_lookup st') p = Some k"
    then have "map_of (open_lookup st) p = Some k" by (simp add: o)
    then show "k < length (objects st')" "path_at S k st = p" "\<not> unlinked_at S k st"
      using tables_okD(3)[OF ok] by (simp_all add: o)
  next
    fix g k assume "live S st g k \<and> g \<noteq> h"
    then show "0 < g" "g \<le> next_handle st'" using tables_okD(5)[OF ok] by (auto simp: o)
  next
    fix g k j assume "live S st g k \<and> g \<noteq> h" "live S st g j \<and> g \<noteq> h"
    then show "k = j" using tables_okD(6)[OF ok] by blast
  qed
  then show ?thesis using l at(2,3) by simp
qed

context manager begin

lemma fm_create_ok:
  assumes "tables_ok S st" "next_handle st + 1 < 2 ^ 64" "fm_create S p meta ofd st = (r, st')"
  shows "opened_as p r st st'"
proof -
  obtain res pr where c: "p_create_file (provops S) p meta (mprov st) = (res, pr)" by force
  let ?st = "st\<lparr>mprov := pr\<rparr>"
  have s: "same_handles S st ?st" by (simp add: same_handles_tables)
  show ?thesis
  proof (cases "res \<noteq> success \<and> res \<noteq> item_exists")
    case True
    then have "r = Not_opened res" "st' = ?st" using assms(3) by (auto simp: fm_create_def c)
    then show ?thesis using opened_as_fail[OF assms(1) s] by simp
  next
    case False
    then have "fm_open S p False ofd ?st = (r, st')" using assms(3) by (auto simp: fm_create_def c)
    then show ?thesis
      using fm_open_ok[OF same_handles_ok[OF assms(1) s]] assms(2) opened_as_same[OF assms(1) s] by simp
  qed
qed

lemma fm_close_ok:
  assumes ok: "tables_ok S st"
  shows "tables_ok S (fm_close S h st) \<and> next_handle (fm_close S h st) = next_handle st \<and>
    (\<forall>g k. live S (fm_close S h st) g k \<longleftrightarrow> live S st g k \<and> g \<noteq> h) \<and>
    (\<forall>g. g \<noteq> h \<longrightarrow> handle_kept S g st (fm_close S h st))"
proof (cases "get_open_file_by_handle S h st")
  case None
  then have "fm_close S h st = st" by (simp add: fm_close_def)
  then show ?thesis using None ok lookup_none[OF ok, of h] handle_kept_same[OF ok same_handles_refl] by auto
next
  case (Some iu)
  obtain i u where iu: "iu = (i, u)" by (cases iu)
  have h: "live S st h i" "u = unlinked_at S i st" using Some lookup_live[OF ok] by (auto simp: iu)
  obtain e f where r: "cf_remove (fileops S) h (object_at i st) = (e, f)" by force
  have f: "handles_of (fileops S) f = handles_at S i st - {h}" "api_path (cf_item (fileops S) f) = path_at S i st"
      "cf_unlinked (fileops S) f = unlinked_at S i st"
    using remove_handles[of h "object_at i st"] remove_path[of h "object_at i st"] remove_unlinked[of h "object_at i st"]
    by (simp_all add: r handles_at_def path_at_def unlinked_at_def)
  define st1 where "st1 = fm_effects S f e (put_object i f st)"
  define st2 where "st2 = (if u then st1\<lparr>unlinked_lookup := AList.delete h (unlinked_lookup st1)\<rparr> else st1)"
  have o: "objects st2 = (objects st)[i := f]" "open_lookup st2 = open_lookup st" "next_handle st2 = next_handle st"
      "unlinked_lookup st2 = (if unlinked_at S i st then AList.delete h (unlinked_lookup st) else unlinked_lookup st)"
    by (simp_all add: st2_def st1_def h(2) put_object_def)
  note d = drop_handle_ok[OF ok h(1) o f]
  have c: "fm_close S h st = (if \<not> u \<or> handle_total S i st2 \<noteq> 0 then st2
     else
       let st = close_object S i st2;
           item = cf_item (fileops S) (object_at i st)
       in if directory item then st
          else case l_remove (localops S) (source_path item) (mlocal st) of (ok, l) \<Rightarrow>
            let st = st\<lparr>mlocal := l\<rparr> in if ok then st else say (error_raised (api_path item) os_error) st)"
    by (simp only: fm_close_def Some iu option.case prod.case r Let_def st1_def st2_def)
  have "tables (fm_close S h st) = tables st2 \<or> tables (fm_close S h st) = tables (close_object S i st2)"
    unfolding c by (simp add: Let_def split: prod.split)
  then have s: "same_handles S st2 (fm_close S h st)"
    using same_handles_tables same_handles_trans[OF close_object_same same_handles_tables] by metis
  note k = keeps_handles[OF conjunct1[OF d] s]
  have "handle_kept S g st (fm_close S h st)" if "g \<noteq> h" for g
  proof -
    have "handle_kept S g st st2"
      using d that live_index[OF ok] unfolding handle_kept_def by metis
    then show ?thesis using handle_kept_trans handle_kept_same[OF conjunct1[OF d] s] by blast
  qed
  then show ?thesis using k d o(3) same_handlesD(3)[OF s] by auto
qed

lemma unlink_object_ok:
  assumes ok: "tables_ok S st" and p: "map_of (open_lookup st) p = Some i"
    and x: "\<And>f. handles_of (fileops S) (extra f) = handles_of (fileops S) f"
      "\<And>f. api_path (cf_item (fileops S) (extra f)) = api_path (cf_item (fileops S) f)"
      "\<And>f. cf_unlinked (fileops S) (extra f) = cf_unlinked (fileops S) f"
  defines "st' \<equiv> unlink_object S p i extra st"
  shows "tables_ok S st' \<and> next_handle st' = next_handle st \<and> (\<forall>g k. live S st' g k \<longleftrightarrow> live S st g k) \<and>
    (\<forall>k. path_at S k st' = path_at S k st \<and> unlinked_at S k st' = (k = i \<or> unlinked_at S k st)) \<and>
    map_of (open_lookup st') = (map_of (open_lookup st))(p := None)"
proof -
  define st1 where "st1 = st\<lparr>open_lookup := AList.delete p (open_lookup st)\<rparr>"
  define f where "f = extra (cf_set_unlinked (fileops S) True (object_at i st))"
  define st2 where "st2 = put_object i f st1"
  note i = tables_okD(3)[OF ok p]
  have d: "tables_ok S st1" "live S st1 h k \<longleftrightarrow> live S st h k \<and> k \<noteq> i" for h k
    using delete_open_ok[OF ok, of p] p by (auto simp: st1_def)
  have n: "map_of (open_lookup st1) q \<noteq> Some i" "map_of (unlinked_lookup st1) g \<noteq> Some i" for q g
    using i tables_okD(3)[OF ok, of q i] tables_okD(4)[OF ok, of g i] by (auto simp: st1_def AList.delete_conv' split: if_splits)
  note u = put_unreferenced[OF d(1) n, of f]
  have at: "handles_at S k st2 = handles_at S k st" "path_at S k st2 = path_at S k st"
      "unlinked_at S k st2 = (k = i \<or> unlinked_at S k st)" for k
    using i by (auto simp: handles_at_def path_at_def unlinked_at_def st2_def st1_def put_object_def f_def x nth_list_update)
  have st': "st' = add_unlinked S i st2" by (simp add: st'_def unlink_object_def Let_def st2_def st1_def f_def)
  have lv: "h \<in> handles_at S i st \<Longrightarrow> live S st h i" for h using p by (auto simp: live_def)
  have "tables_ok S st' \<and> (\<forall>h k. live S st' h k \<longleftrightarrow>
      live S st2 h k \<and> h \<notin> handles_at S i st2 \<or> k = i \<and> h \<in> handles_at S i st2)"
    unfolding st'
  proof (rule add_unlinked_ok)
    show "tables_ok S st2" using u by (simp add: st2_def)
    show "i < length (objects st2)" "unlinked_at S i st2" using i at by (simp_all add: st2_def st1_def)
  next
    fix h j assume "h \<in> handles_at S i st2" "live S st2 h j"
    then have "live S st1 h j" "h \<in> handles_at S i st" using u unfolding at st2_def[symmetric] by simp_all
    then have "live S st h i" "live S st h j" "j \<noteq> i" using d(2) lv by simp_all
    then show "handles_at S j st2 \<subseteq> handles_at S i st2 \<and> unlinked_at S j st2" using tables_okD(6)[OF ok] by blast
  next
    fix h assume "h \<in> handles_at S i st2"
    then show "0 < h \<and> h \<le> next_handle st2" using tables_okD(5)[OF ok lv] unfolding at by (simp add: st2_def st1_def)
  next
    fix h assume "map_of (unlinked_lookup st2) h = Some i"
    then show "h \<in> handles_at S i st2" using n by (simp add: st2_def)
  qed
  moreover have "live S st2 h k \<and> h \<notin> handles_at S i st2 \<or> k = i \<and> h \<in> handles_at S i st2 \<longleftrightarrow> live S st h k" for h k
  proof -
    have "live S st2 h k \<longleftrightarrow> live S st h k \<and> k \<noteq> i" using u d(2) unfolding st2_def[symmetric] by simp
    moreover have "live S st h k \<Longrightarrow> h \<in> handles_at S i st \<Longrightarrow> k = i" using tables_okD(6)[OF ok] lv by blast
    moreover have "live S st h i \<Longrightarrow> h \<in> handles_at S i st" using live_handle[OF ok] .
    ultimately show ?thesis unfolding at using lv by blast
  qed
  moreover have "path_at S k st' = path_at S k st2" "unlinked_at S k st' = unlinked_at S k st2" for k
    by (simp_all add: st' add_unlinked_def path_at_def unlinked_at_def)
  moreover have "open_lookup st' = open_lookup st1" "next_handle st' = next_handle st"
    by (simp_all add: st' add_unlinked_def st2_def st1_def)
  ultimately show ?thesis using at by (simp add: st1_def AList.delete_conv')
qed

lemma unlinked_stays:
  assumes ok: "tables_ok S st"
    and "tables_ok S st' \<and> next_handle st' = next_handle st \<and> (\<forall>g k. live S st' g k \<longleftrightarrow> live S st g k) \<and>
    (\<forall>k. path_at S k st' = path_at S k st \<and> unlinked_at S k st' = (k = i \<or> unlinked_at S k st)) \<and> Q"
  shows "stays S st st'"
  using assms unfolding stays_def shrinks_def handle_kept_def by blast

end

context manager begin

lemma close_object_objects: "\<exists>f. objects (close_object S i st) = (objects st)[i := f] \<and>
    cf_writable (fileops S) f = cf_writable (fileops S) (object_at i st)"
proof -
  let ?b = "fst (l_remove (localops S) (source_path (cf_item (fileops S) (object_at i st))) (mlocal st))"
  obtain e c f where r: "cf_close (fileops S) ?b (mcache st) (object_at i st) = (e, c, f)" by (metis surj_pair)
  then have "cf_writable (fileops S) f = cf_writable (fileops S) (object_at i st)"
    using close_writable[of ?b "mcache st" "object_at i st"] by simp
  then show ?thesis using r by (auto simp: close_object_def put_object_def)
qed

lemma close_object_writable [simp]:
  "cf_writable (fileops S) (object_at k (close_object S i st)) = cf_writable (fileops S) (object_at k st)"
  using close_object_objects[of i st]
  by (cases "k = i"; cases "i < length (objects st)") (auto simp: nth_list_update list_update_beyond)

lemma release_writable [simp]:
  "cf_writable (fileops S) (object_at k (release S i st)) = cf_writable (fileops S) (object_at k st)"
  by (simp add: release_def)

lemma set_open_writable [simp]:
  "cf_writable (fileops S) (object_at k (set_open S p i st)) = cf_writable (fileops S) (object_at k st)"
  by (simp add: set_open_def Let_def split: option.split)

text \<open>An object takes the place of another that has the same path and the same handles.\<close>

definition takes_over :: "nat \<Rightarrow> nat \<Rightarrow> ('f, 'd, 'p, 's) fmgr \<Rightarrow> ('f, 'd, 'p, 's) fmgr \<Rightarrow> bool" where
  "takes_over i j st st' \<longleftrightarrow> tables_ok S st' \<and> next_handle st' = next_handle st \<and>
    (\<forall>k < length (objects st). path_at S k st' = path_at S k st \<and> unlinked_at S k st' = unlinked_at S k st) \<and>
    (\<forall>y k. live S st' y k \<longleftrightarrow> live S st y k \<and> k \<noteq> i \<or> k = j \<and> y \<in> handles_at S i st)"

lemma take_over_open:
  assumes ok: "tables_ok S st" and p: "map_of (open_lookup st) p = Some i"
    and j: "j < length (objects st)" "handles_at S j st = handles_at S i st" "path_at S j st = path_at S i st" "\<not> unlinked_at S j st"
    and n: "\<And>q. map_of (open_lookup st) q \<noteq> Some j"
  shows "takes_over i j st (set_open S p j st)"
proof -
  have lv: "y \<in> handles_at S i st \<Longrightarrow> live S st y i" for y using p by (auto simp: live_def)
  have so: "tables_ok S (set_open S p j st) \<and> (\<forall>y k. live S (set_open S p j st) y k \<longleftrightarrow>
      live S st y k \<and> map_of (open_lookup st) p \<noteq> Some k \<or> k = j \<and> y \<in> handles_at S j st)"
  proof (rule set_open_ok[OF ok j(1)])
    show "path_at S j st = p" using j(3) tables_okD(3)[OF ok p] by simp
    show "map_of (open_lookup st) p = Some k" if "y \<in> handles_at S j st" "live S st y k" for y k
      using that lv tables_okD(6)[OF ok, of y i k] p j(2) by simp
    show "0 < y \<and> y \<le> next_handle st" if "y \<in> handles_at S j st" for y
      using that tables_okD(5)[OF ok lv] j(2) by simp
  qed (use j n in blast)+
  then show ?thesis
    using p j(1,2) set_open_at(2,3,5)[of _ st p j] by (simp add: takes_over_def eq_commute[of i])
qed

lemma take_over_unlinked:
  assumes ok: "tables_ok S st" and h: "map_of (unlinked_lookup st) h = Some i"
    and j: "j < length (objects st)" "handles_at S j st = handles_at S i st" "unlinked_at S j st"
    and n: "\<And>q. map_of (unlinked_lookup st) q \<noteq> Some j"
  shows "takes_over i j st (add_unlinked S j st)"
proof -
  note i = tables_okD(4)[OF ok h]
  then have lv: "y \<in> handles_at S i st \<Longrightarrow> live S st y i" for y by (simp add: live_def)
  have un: "y \<in> handles_at S i st \<Longrightarrow> live S st y k \<Longrightarrow> k = i" for y k using lv tables_okD(6)[OF ok] by blast
  have au: "tables_ok S (add_unlinked S j st) \<and> (\<forall>y k. live S (add_unlinked S j st) y k \<longleftrightarrow>
      live S st y k \<and> y \<notin> handles_at S j st \<or> k = j \<and> y \<in> handles_at S j st)"
  proof (rule add_unlinked_ok[OF ok j(1,3)])
    show "handles_at S k st \<subseteq> handles_at S j st \<and> unlinked_at S k st" if "y \<in> handles_at S j st" "live S st y k" for y k
      using that un[of y k] i j(2) by simp
    show "0 < y \<and> y \<le> next_handle st" if "y \<in> handles_at S j st" for y
      using that tables_okD(5)[OF ok lv] j(2) by simp
  qed (use n in blast)
  have "live S st y k \<and> y \<notin> handles_at S i st \<longleftrightarrow> live S st y k \<and> k \<noteq> i" for y k
    using un[of y k] live_handle[OF ok, of y i] by blast
  then show ?thesis
    using au j(2) by (simp add: takes_over_def add_unlinked_def path_at_def unlinked_at_def)
qed

lemma takes_over_stays:
  assumes ok: "tables_ok S st" and h: "live S st h i" and t: "takes_over i j st st'"
    and j: "path_at S j st = path_at S i st" "unlinked_at S j st = unlinked_at S i st" "j < length (objects st)"
  shows "stays S st st' \<and> live S st' h j"
proof -
  have "handle_kept S y st st'" for y
    unfolding handle_kept_def
  proof (intro allI impI)
    fix k assume k: "live S st y k"
    show "\<exists>k'. live S st' y k' \<and> path_at S k' st' = path_at S k st \<and> (unlinked_at S k st \<longrightarrow> unlinked_at S k' st')"
    proof (cases "k = i")
      case True
      then show ?thesis
        using t j live_handle[OF ok k] unfolding takes_over_def by (intro exI[of _ j]) simp
    next
      case False
      then show ?thesis
        using t k live_index[OF ok k] unfolding takes_over_def by (intro exI[of _ k]) simp
    qed
  qed
  moreover have "y \<in> handles_at S i st \<Longrightarrow> live S st y i" for y
    using h tables_okD(4)[OF ok, of h i] unfolding live_def by blast
  then have "shrinks S st st'" using t unfolding shrinks_def takes_over_def by blast
  ultimately show ?thesis using t live_handle[OF ok h] unfolding stays_def takes_over_def by blast
qed

text \<open>A streamed file gives way to a cached one with the same handles.\<close>

lemma get_open_file_ok:
  assumes ok: "tables_ok S st" and r: "get_open_file S h w st = (r, st')"
  shows "stays S st st' \<and> (\<forall>j. r = Some j \<longrightarrow> live S st' h j \<and> (w \<longrightarrow> cf_writable (fileops S) (object_at j st')))"
proof (cases "w \<and> is_read_only S \<or> get_open_file_by_handle S h st = None")
  case True
  then have "r = None" "st' = st" using r by (cases "w \<and> is_read_only S"; auto simp: get_open_file_def)+
  then show ?thesis using stays_same[OF ok same_handles_refl] by simp
next
  case False
  then obtain i u where lk: "get_open_file_by_handle S h st = Some (i, u)" by (metis not_None_eq surj_pair)
  have h: "live S st h i" "u = unlinked_at S i st" using lk lookup_live[OF ok] by auto
  let ?F = "fileops S" and ?f = "object_at i st"
  show ?thesis
  proof (cases "w \<and> \<not> cf_writable ?F ?f")
    case False': False
    then have "r = Some i" "st' = st" using r lk False by (auto simp: get_open_file_def Let_def split: if_splits)
    then show ?thesis using stays_same[OF ok same_handles_refl] h False' by auto
  next
    case True
    obtain e g where g: "new_cached ?F (cf_item ?F ?f) (cf_data ?F ?f) None = (e, g)" by force
    define x where "x = (if u then cf_set_meta ?F (cf_meta ?F ?f) (cf_set_unlinked ?F u g) else cf_set_unlinked ?F u g)"
    have x: "handles_of ?F x = handles_at S i st" "api_path (cf_item ?F x) = path_at S i st" "cf_unlinked ?F x = u" "cf_writable ?F x"
      using new_cached_handles[of "cf_item ?F ?f" "cf_data ?F ?f" None] new_cached_path[of "cf_item ?F ?f" "cf_data ?F ?f" None]
        new_cached_writable[of "cf_item ?F ?f" "cf_data ?F ?f" None]
      by (simp_all add: x_def g handles_at_def handles_of_def[of _ ?f] path_at_def set_unlinked_writable set_meta_writable)
    obtain j st2 where new: "new_object x (fm_effects S g e st) = (j, st2)" by force
    have s2: "same_handles S st st2"
      by (rule same_handles_trans[OF same_handles_tables new_object_same[OF new]]) simp
    note ok2 = same_handles_ok[OF ok s2]
    have o: "object_at j st2 = x" "j < length (objects st2)" "j = length (objects st)" using new by (auto simp: new_object_def)
    have i: "i < length (objects st)" using live_index[OF ok h(1)] .
    note at2 = same_handlesD(5-7)[OF s2 i]
    have h2: "live S st2 h i" using h(1) same_handles_live[OF ok s2] by simp
    have j: "handles_at S j st2 = handles_at S i st2" "path_at S j st2 = path_at S i st2" "unlinked_at S j st2 = unlinked_at S i st2"
      using x(1-3) h(2) unfolding at2 by (simp_all only: handles_at_def path_at_def unlinked_at_def o(1))
    have n: "map_of (open_lookup st2) q \<noteq> Some j" "map_of (unlinked_lookup st2) q' \<noteq> Some j" for q q'
      using tables_okD(3)[OF ok, of q j] tables_okD(4)[OF ok, of q' j] o(3) same_handlesD(1,2)[OF s2] by auto
    define st3 where "st3 = (if u then add_unlinked S j st2 else set_open S (path_at S i st) j st2)"
    have st': "r = Some j" "same_handles S st3 st'" "cf_writable ?F (object_at j st') = cf_writable ?F (object_at j st3)"
      using r lk False True g new release_same
      by (auto simp: get_open_file_def Let_def st3_def x_def path_at_def split: if_splits)
    have "takes_over i j st2 st3"
    proof (cases u)
      case False
      then have "\<not> unlinked_at S i st2" using h(2) at2 by simp
      then obtain p where p: "map_of (open_lookup st2) p = Some i" using h2 tables_okD(4)[OF ok2] unfolding live_def by blast
      then have "p = path_at S i st" using tables_okD(3)[OF ok2 p] at2 by simp
      then show ?thesis
        using take_over_open[OF ok2 p o(2) j(1,2)] n \<open>\<not> unlinked_at S i st2\<close> j(3) False by (simp add: st3_def)
    next
      case True
      then have "unlinked_at S i st2" using h(2) at2 by simp
      then have "map_of (unlinked_lookup st2) h = Some i" using h2 tables_okD(3)[OF ok2] unfolding live_def by blast
      then show ?thesis
        using take_over_unlinked[OF ok2 _ o(2) j(1)] n \<open>unlinked_at S i st2\<close> j(3) True by (simp add: st3_def)
    qed
    note t = takes_over_stays[OF ok2 h2 this j(2,3) o(2)]
    then have "stays S st st'" "live S st' h j"
      using stays_trans[OF stays_same[OF ok s2]] stays_trans stays_same[OF _ st'(2)] same_handles_live[OF _ st'(2)] stays_ok
      by blast+
    moreover have "cf_writable ?F (object_at j st3)"
      using x(4) o(1) by (simp add: st3_def add_unlinked_def)
    ultimately show ?thesis using st' by simp
  qed
qed

end

end
