(* ===== verification/File_Manager_Steps.thy ===== *)
theory File_Manager_Steps imports File_Manager_Handles begin

text \<open>
  Runs of the file manager: its operations in any order, between changes the provider, the local
  file system and the open files make on their own.  The handle tables stay consistent, and a handle
  is valid from the \<open>open\<close> that returned it to its \<open>close\<close>.
\<close>

section \<open>The remaining operations\<close>

context manager begin

lemma erase_idle:
  "tables_ok S st \<Longrightarrow>
   (\<And>i k. i \<in> set l \<Longrightarrow> map_of (open_lookup st) (path_at S i st) = Some k \<Longrightarrow> handles_at S k st = {}) \<Longrightarrow>
   stays S st (foldl (\<lambda>st i. st\<lparr>open_lookup := AList.delete (api_path (cf_item (fileops S) (object_at i st)))
                                  (open_lookup st)\<rparr>) st l)"
proof (induction l arbitrary: st)
  case Nil
  then show ?case using stays_same[OF _ same_handles_refl] by simp
next
  case (Cons i l)
  let ?p = "path_at S i st"
  let ?st = "st\<lparr>open_lookup := AList.delete ?p (open_lookup st)\<rparr>"
  note d = delete_open_ok[OF Cons.prems(1), of ?p]
  have at: "path_at S k ?st = path_at S k st" "unlinked_at S k ?st = unlinked_at S k st" "handles_at S k ?st = handles_at S k st"
      "next_handle ?st = next_handle st" for k
    by (simp_all add: path_at_def unlinked_at_def handles_at_def)
  have l: "live S ?st g k \<longleftrightarrow> live S st g k" for g k
  proof -
    have "map_of (open_lookup st) ?p = Some k \<Longrightarrow> live S st g k \<Longrightarrow> False"
      using Cons.prems(2)[of i k] live_handle[OF Cons.prems(1)] by auto
    then show ?thesis using d by blast
  qed
  have s: "stays S st ?st" using d l at unfolding stays_def shrinks_def handle_kept_def by auto
  have "stays S ?st (foldl (\<lambda>st i. st\<lparr>open_lookup := AList.delete (api_path (cf_item (fileops S) (object_at i st)))
      (open_lookup st)\<rparr>) ?st l)"
  proof (rule Cons.IH)
    show "tables_ok S ?st" using d by blast
    fix j k assume "j \<in> set l" "map_of (open_lookup ?st) (path_at S j ?st) = Some k"
    then have "map_of (open_lookup st) (path_at S j st) = Some k" by (auto simp: at AList.delete_conv' split: if_splits)
    then show "handles_at S k ?st = {}" using Cons.prems(2) \<open>j \<in> set l\<close> at by (metis list.set_intros(2))
  qed
  then show ?case using stays_trans[OF s] by (simp add: path_at_def)
qed

lemma fold_same:
  assumes "\<And>x st. same_handles S st (f st x)"
  shows "same_handles S st (foldl f st l)"
proof (induction l arbitrary: st)
  case (Cons x l)
  then show ?case using same_handles_trans[OF assms Cons.IH] by simp
qed simp

lemma handle_total_0: "handle_total S i st = 0 \<Longrightarrow> handles_at S i st = {}"
  by (simp add: handle_total_def handles_at_def handles_of_def)

lemma close_timed_out_ok:
  assumes ok: "tables_ok S st"
  shows "stays S st (close_timed_out_files S st)"
proof -
  let ?erase = "\<lambda>st i. st\<lparr>open_lookup := AList.delete (api_path (cf_item (fileops S) (object_at i st))) (open_lookup st)\<rparr>"
  have "stays S st (foldl ?erase st (timed_out S st))"
  proof (rule erase_idle[OF ok])
    fix i k assume i: "i \<in> set (timed_out S st)" and k: "map_of (open_lookup st) (path_at S i st) = Some k"
    obtain p where p: "(p, i) \<in> set (open_lookup st)" "handle_total S i st = 0" using i by (auto simp: timed_out_def)
    then have "map_of (open_lookup st) p = Some i" using tables_okD(1)[OF ok] by simp
    then have "k = i" using tables_okD(3)[OF ok] k by (metis option.inject)
    then show "handles_at S k st = {}" using p handle_total_0 by blast
  qed
  moreover have "same_handles S st' (foldl (\<lambda>st i. let st = close_object S i st
      in say (item_timeout (api_path (cf_item (fileops S) (object_at i st)))) st) st' l)" for st' l
    by (rule fold_same) (simp add: Let_def same_handles_trans[OF close_object_same same_handles_tables])
  ultimately show ?thesis
    unfolding close_timed_out_files_def Let_def by (meson stays_ok stays_same stays_trans)
qed

lemma delete_idle:
  assumes ok: "tables_ok S st" and h: "\<And>i. map_of (open_lookup st) p = Some i \<Longrightarrow> handles_at S i st = {}"
  shows "stays S st (st\<lparr>open_lookup := AList.delete p (open_lookup st)\<rparr>)"
proof -
  have "live S st g k \<Longrightarrow> map_of (open_lookup st) p \<noteq> Some k" for g k
    using h live_handle[OF ok] by (metis empty_iff)
  then show ?thesis
    using delete_open_ok[OF ok, of p] unfolding stays_def shrinks_def handle_kept_def
    by (auto simp: path_at_def unlinked_at_def)
qed

lemma remove_source_tables: "tables (snd (fm_remove_source S p src n a st)) = tables st"
  by (simp add: fm_remove_source_def Let_def split: prod.split)

lemma evict_file_ok:
  assumes ok: "tables_ok S st"
  shows "stays S st (snd (evict_file S p st))"
proof (cases "is_read_only S \<or> is_processing S p st \<or> fm_open_count S p st \<noteq> 0")
  case True
  then show ?thesis using stays_same[OF ok same_handles_refl] by (simp add: evict_file_def)
next
  case False
  have h: "map_of (open_lookup st) p = Some i \<Longrightarrow> handles_at S i st = {}" for i
    using False handle_total_0 by (simp add: fm_open_count_def)
  define st1 where "st1 = st\<lparr>open_lookup := AList.delete p (open_lookup st)\<rparr>"
  define was where "was = (case map_of (open_lookup st) p of None \<Rightarrow> True | Some i \<Rightarrow> cf_allocated (fileops S) (object_at i st1))"
  define st2 where "st2 = (case map_of (open_lookup st) p of None \<Rightarrow> st1 | Some i \<Rightarrow> release S i st1)"
  have s1: "stays S st st1" unfolding st1_def by (rule delete_idle[OF ok h])
  have "same_handles S st1 st2" using release_same by (simp add: st2_def split: option.split)
  then have s2: "stays S st st2" using stays_trans[OF s1] stays_same[OF stays_ok[OF s1]] by blast
  obtain res item where g: "p_get_item (provops S) p False (mprov st) = (res, item)" by force
  obtain res2 pinned where k: "p_get_meta_key (provops S) p ''pinned'' (mprov st) = (res2, pinned)" by force
  obtain gone st3 where r: "fm_remove_source S p (source_path item) (item_size item) was st2 = (gone, st3)" by force
  have t3: "tables st3 = tables st2" using remove_source_tables[of p "source_path item" "item_size item" was st2] by (simp add: r)
  have "evict_file S p st =
    (if res \<noteq> success \<or> source_path item = [] then (False, st)
     else if res2 \<noteq> success \<and> res2 \<noteq> item_not_found then (False, say (error_raised p res2) st)
     else if pinned \<noteq> [] \<and> flag_of (conf S) pinned then (False, st)
     else (gone, if gone then say (item_evicted p (source_path item)) st3 else st3))"
    using False by (simp add: evict_file_def g k st1_def[symmetric] was_def[symmetric] st2_def[symmetric] r Let_def)
  then have "tables (snd (evict_file S p st)) = tables st \<or> tables (snd (evict_file S p st)) = tables st2"
    using t3 by simp
  then show ?thesis
    using stays_tables[OF ok] stays_trans[OF s2 stays_tables[OF stays_ok[OF s2]]] by metis
qed

lemma remove_directory_ok:
  assumes ok: "tables_ok S st"
  shows "stays S st (snd (fm_remove_directory S p st))"
proof -
  obtain res pr where r: "p_remove_directory (provops S) p (mprov st) = (res, pr)" by force
  let ?st = "st\<lparr>mprov := pr\<rparr>"
  have s: "stays S st ?st" using stays_tables[OF ok] by simp
  show ?thesis
  proof (cases "p = ''/'' \<or> p_item_count (provops S) p (mprov st) \<noteq> 0 \<or> res \<noteq> success \<or> map_of (open_lookup st) p = None")
    case True
    then have "snd (fm_remove_directory S p st) = st \<or> snd (fm_remove_directory S p st) = ?st"
      by (auto simp: fm_remove_directory_def r Let_def)
    then show ?thesis using s stays_same[OF ok same_handles_refl] by auto
  next
    case False
    then obtain i where i: "map_of (open_lookup ?st) p = Some i" by auto
    have "snd (fm_remove_directory S p st) = release S i (unlink_object S p i (\<lambda>f. f) ?st)"
      using False i by (simp add: fm_remove_directory_def r Let_def)
    moreover have "stays S ?st (unlink_object S p i (\<lambda>f. f) ?st)"
      using unlinked_stays[OF stays_ok[OF s] unlink_object_ok[OF stays_ok[OF s] i]] by simp
    ultimately show ?thesis using s stays_trans stays_same[OF stays_ok release_same] by metis
  qed
qed

text \<open>The states \<open>remove_file\<close> goes through.\<close>

lemma remove_file_cases:
  obtains (failed) "fst (remove_file S p st) \<noteq> success" "tables (snd (remove_file S p st)) = tables st"
  | (closed) "map_of (open_lookup st) p = None" "fst (remove_file S p st) = success"
      "tables (snd (remove_file S p st)) = tables st"
  | (unlinked) i meta st1 c where "map_of (open_lookup st) p = Some i" "fst (remove_file S p st) = success"
      "tables st1 = tables st" "mlocal st1 = mlocal st"
      "snd (remove_file S p st) = release S i ((unlink_object S p i (cf_set_meta (fileops S) meta) st1)\<lparr>mcache := c\<rparr>)"
proof -
  obtain r1 item where g: "p_get_item (provops S) p False (mprov st) = (r1, item)" by force
  obtain r2 meta where m: "p_get_meta (provops S) p (mprov st) = (r2, meta)" by force
  define st1 where "st1 = fm_remove_resume S p (source_path item) (fm_remove_upload S p st)"
  obtain r3 pr where r: "p_remove_file (provops S) p (mprov st1) = (r3, pr)" by force
  define st2 where "st2 = st1\<lparr>mprov := pr\<rparr>"
  have t: "tables st2 = tables st" "mlocal st2 = mlocal st" "map_of (open_lookup st2) p = map_of (open_lookup st) p"
    by (simp_all add: st1_def st2_def)
  define u where "u i = unlink_object S p i (cf_set_meta (fileops S) meta) st2" for i
  define c where "c i = (if cf_allocated (fileops S) (object_at i st2)
      then snd (shrink (item_size (cf_item (fileops S) (object_at i (u i)))) (mcache (u i))) else mcache (u i))" for i
  have e: "remove_file S p st = (if r1 \<noteq> success then (r1, st) else if r2 \<noteq> success then (r2, st)
      else if r3 \<noteq> success then (r3, st2)
      else case map_of (open_lookup st2) p of
        None \<Rightarrow> (success, snd (fm_remove_source S p (source_path item) (item_size item) True st2))
      | Some i \<Rightarrow> (success, release S i ((u i)\<lparr>mcache := c i\<rparr>)))"
    unfolding remove_file_def g m prod.case st1_def[symmetric] Let_def r st2_def[symmetric] u_def[symmetric] c_def
    by (simp only: if_split option.case_eq_if) (cases "r1 = success"; cases "r2 = success"; cases "r3 = success"; simp)
  show thesis
  proof (cases "r1 = success \<and> r2 = success \<and> r3 = success")
    case False
    then show thesis using failed e t(1) by (metis fst_conv snd_conv)
  next
    case True
    show thesis
    proof (cases "map_of (open_lookup st) p")
      case None
      then show thesis using closed[OF None] e True t remove_source_tables by simp
    next
      case (Some i)
      then show thesis using unlinked[OF Some _ t(1,2), of "c i" meta] e True t(3) by (simp add: u_def)
    qed
  qed
qed

lemma remove_file_ok:
  assumes ok: "tables_ok S st"
  shows "stays S st (snd (remove_file S p st))"
proof (cases rule: remove_file_cases[of p st])
  case (unlinked i meta st1 c)
  have s: "stays S st st1" using stays_tables[OF ok unlinked(3)] .
  have i: "map_of (open_lookup st1) p = Some i" using unlinked(1,3) by (simp add: tables_eq)
  let ?st2 = "unlink_object S p i (cf_set_meta (fileops S) meta) st1"
  have "stays S st1 ?st2"
    by (rule unlinked_stays[OF stays_ok[OF s] unlink_object_ok[OF stays_ok[OF s] i]]) simp_all
  then have "stays S st ?st2" by (rule stays_trans[OF s])
  then have "stays S st (?st2\<lparr>mcache := c\<rparr>)" using stays_trans stays_tables stays_ok tables_update(5) by metis
  then show ?thesis unfolding unlinked(5) using stays_trans stays_same[OF stays_ok release_same] by metis
qed (use stays_tables[OF ok] in blast)+

lemma swap_object_ok:
  assumes ok: "tables_ok S st" and i: "map_of (open_lookup st) p = Some i"
    and f: "cf_set_path (fileops S) q (object_at i st) = Some (Inr f)"
  shows "shrinks S st (set_open S q i (put_object i f (st\<lparr>open_lookup := AList.delete p (open_lookup st)\<rparr>)))"
proof -
  define st1 where "st1 = st\<lparr>open_lookup := AList.delete p (open_lookup st)\<rparr>"
  define st2 where "st2 = put_object i f st1"
  note l = tables_okD(3)[OF ok i]
  have d: "tables_ok S st1" "live S st1 h k \<longleftrightarrow> live S st h k \<and> k \<noteq> i" for h k
    using delete_open_ok[OF ok, of p] i by (auto simp: st1_def)
  have n: "map_of (open_lookup st1) q' \<noteq> Some i" "map_of (unlinked_lookup st1) g \<noteq> Some i" for q' g
    using l tables_okD(3)[OF ok, of q' i] tables_okD(4)[OF ok, of g i] by (auto simp: st1_def AList.delete_conv' split: if_splits)
  note u = put_unreferenced[OF d(1) n, of f, folded st2_def]
  have at: "i < length (objects st2)" "handles_at S i st2 = handles_at S i st" "path_at S i st2 = q" "\<not> unlinked_at S i st2"
    using l set_path_laws[OF f] by (simp_all add: st2_def st1_def handles_at_def path_at_def unlinked_at_def put_object_def)
  have lv: "h \<in> handles_at S i st \<Longrightarrow> live S st h i" for h using i by (auto simp: live_def)
  have so: "tables_ok S (set_open S q i st2) \<and> (\<forall>h k. live S (set_open S q i st2) h k \<longleftrightarrow>
    live S st2 h k \<and> map_of (open_lookup st2) q \<noteq> Some k \<or> k = i \<and> h \<in> handles_at S i st2)"
  proof (rule set_open_ok[OF conjunct1[OF u] at(1,3,4)])
    show "map_of (open_lookup st2) q' \<noteq> Some i" for q' using n by (simp add: st2_def)
    show "map_of (open_lookup st2) q = Some j" if "h \<in> handles_at S i st2" "live S st2 h j" for h j
      using that u d(2) at(2) tables_okD(6)[OF ok lv, of h j] by auto
    show "0 < h \<and> h \<le> next_handle st2" if "h \<in> handles_at S i st2" for h
      using that tables_okD(5)[OF ok lv] unfolding at(2) by (simp add: st2_def st1_def)
  qed
  have "next_handle (set_open S q i st2) = next_handle st" using set_open_at(5)[OF at(1)] by (simp add: st2_def st1_def)
  moreover have "\<exists>k'. live S st h k'" if "live S (set_open S q i st2) h k" for h k
    using that so u d(2) at(2) lv by metis
  ultimately show ?thesis using so unfolding shrinks_def st2_def st1_def by blast
qed

lemma shrinks_tables: "tables_ok S st \<Longrightarrow> tables st' = tables st \<Longrightarrow> shrinks S st st'"
  using stays_tables stays_shrinks by blast

lemma shrinks_refl: "tables_ok S st \<Longrightarrow> shrinks S st st"
  by (rule shrinks_tables) simp_all

lemma swap_renamed_items_ok:
  assumes ok: "tables_ok S st"
  shows "shrinks S st (snd (swap_renamed_items S p q d st))"
proof -
  define rst where "rst = (case map_of (open_lookup st) p of
      None \<Rightarrow> (Returns (), st)
    | Some i \<Rightarrow>
        let st = st\<lparr>open_lookup := AList.delete p (open_lookup st)\<rparr>
        in case cf_set_path (fileops S) q (object_at i st) of
             None \<Rightarrow> (Diverges, st)
           | Some (Inl e) \<Rightarrow> (Throws e, release S i st)
           | Some (Inr f) \<Rightarrow> (Returns (), set_open S q i (put_object i f st)))"
  have d: "shrinks S st (st\<lparr>open_lookup := AList.delete p (open_lookup st)\<rparr>)"
    using delete_open_ok[OF ok, of p] unfolding shrinks_def by auto
  have 1: "shrinks S st (snd rst)"
  proof (cases "map_of (open_lookup st) p")
    case None
    then show ?thesis using shrinks_refl[OF ok] by (simp add: rst_def)
  next
    case (Some i)
    show ?thesis
    proof (cases "cf_set_path (fileops S) q (object_at i st)")
      case None
      then show ?thesis using Some d by (simp add: rst_def)
    next
      case (Some r)
      note i = \<open>map_of (open_lookup st) p = Some i\<close>
      show ?thesis
      proof (cases r)
        case (Inl e)
        then show ?thesis
          using Some i d shrinks_trans[OF d stays_shrinks[OF stays_same[OF shrinks_ok[OF d] release_same]]]
          by (simp add: rst_def)
      next
        case (Inr f)
        then show ?thesis using Some i swap_object_ok[OF ok i, of q f] by (simp add: rst_def)
      qed
    qed
  qed
  have "tables (snd (swap_renamed_items S p q d st)) = tables (snd rst)"
    unfolding swap_renamed_items_def rst_def[symmetric]
    by (cases rst; cases "fst rst") (auto simp: Let_def split: prod.split sum.split)
  then show ?thesis using shrinks_trans[OF 1 shrinks_tables[OF shrinks_ok[OF 1]]] by blast
qed

lemma handle_file_rename_ok:
  assumes ok: "tables_ok S st"
  shows "shrinks S st (snd (handle_file_rename S p q st))"
proof -
  obtain up src where ps: "pending_source S p st = (up, src)" by force
  obtain ret pr where r: "p_rename_file (provops S) p q (mprov (fm_remove_upload S p st)) = (ret, pr)" by force
  define st1 where "st1 = (fm_remove_upload S p st)\<lparr>mprov := pr\<rparr>"
  have s1: "shrinks S st st1" using shrinks_tables[OF ok] by (simp add: st1_def)
  obtain res st2 where sw: "swap_renamed_items S p q False st1 = (res, st2)" by force
  have s2: "shrinks S st st2" using shrinks_trans[OF s1 swap_renamed_items_ok[OF shrinks_ok[OF s1]]] sw by (metis snd_conv)
  have "tables (snd (handle_file_rename S p q st)) = tables st1 \<or> tables (snd (handle_file_rename S p q st)) = tables st2"
    unfolding handle_file_rename_def ps prod.case Let_def r st1_def[symmetric] sw
    by (cases res) (auto split: prod.split)
  then show ?thesis
    using s1 s2 shrinks_trans shrinks_tables shrinks_ok by metis
qed

lemma rename_over_ok:
  assumes ok: "tables_ok S st"
  shows "shrinks S st (snd (rename_over S p q d st))"
proof -
  obtain res st1 where r: "remove_file S q st = (res, st1)" by force
  have s: "shrinks S st st1" using stays_shrinks[OF remove_file_ok[OF ok, of q]] by (simp add: r)
  show ?thesis
    using s shrinks_trans[OF s handle_file_rename_ok[OF shrinks_ok[OF s]]] handle_file_rename_ok[OF ok]
    by (simp add: rename_over_def r)
qed

lemma rename_file_ok:
  assumes ok: "tables_ok S st"
  shows "shrinks S st (snd (rename_file S p q ow st))"
proof -
  obtain r1 e1 where 1: "p_is_directory (provops S) p (mprov st) = (r1, e1)" by force
  obtain r2 e2 where 2: "p_is_file (provops S) p (mprov st) = (r2, e2)" by force
  obtain r3 e3 where 3: "p_is_directory (provops S) q (mprov st) = (r3, e3)" by force
  obtain r4 d where 4: "p_is_file (provops S) q (mprov st) = (r4, d)" by force
  define parent where "parent x = p_is_directory (provops S) x (mprov st)" for x
  show ?thesis
    unfolding rename_file_def Let_def 1 2 3 4 prod.case parent_def[symmetric]
    by (simp add: shrinks_refl[OF ok] rename_over_ok[OF ok] split: option.split sum.split prod.split)
qed

lemma rename_items_ok:
  assumes "\<And>p q st. tables_ok S st \<Longrightarrow> shrinks S st (snd (rename_directory S n p q st))"
  shows "tables_ok S st \<Longrightarrow> shrinks S st (snd (rename_items S n p q xs st))"
proof (induction xs arbitrary: st)
  case Nil
  then show ?case using shrinks_refl by simp
next
  case (Cons x xs)
  let ?p = "entry_path x"
  define step where "step q' = (if entry_directory x then rename_directory S n ?p q' st else rename_file S ?p q' False st)" for q'
  have s: "shrinks S st (snd (step q'))" for q'
    using assms[OF Cons.prems] rename_file_ok[OF Cons.prems] by (simp add: step_def)
  have IH: "shrinks S st (snd (rename_items S n p q xs (snd (step q'))))" for q'
    using shrinks_trans[OF s Cons.IH[OF shrinks_ok[OF s]]] .
  show ?case
  proof (cases "?p = ''.'' \<or> ?p = ''..''")
    case True
    then show ?thesis using Cons.IH[OF Cons.prems] by simp
  next
    case dots: False
    show ?thesis
    proof (cases "item_target S p q ?p")
      case None
      then show ?thesis using dots shrinks_refl[OF Cons.prems] by simp
    next
      case (Some t)
      show ?thesis
      proof (cases t)
        case (Inl e)
        then show ?thesis using Some dots shrinks_refl[OF Cons.prems] by simp
      next
        case (Inr q')
        then show ?thesis
          using Some dots s[of q'] IH[of q']
          by (cases "step q'"; cases "fst (step q')") (auto simp: step_def[symmetric] Let_def)
      qed
    qed
  qed
qed

lemma rename_directory_ok: "tables_ok S st \<Longrightarrow> shrinks S st (snd (rename_directory S n p q st))"
proof (induction n arbitrary: p q st)
  case 0
  then show ?case using shrinks_refl by simp
next
  case (Suc n)
  obtain r1 e1 where 1: "p_is_directory (provops S) p (mprov st) = (r1, e1)" by force
  obtain r2 e2 where 2: "p_is_directory (provops S) q (mprov st) = (r2, e2)" by force
  obtain r3 e3 where 3: "p_is_file (provops S) p (mprov st) = (r3, e3)" by force
  obtain r4 pr where 4: "p_clone_directory (provops S) p q (mprov st) = (r4, pr)" by force
  define st1 where "st1 = st\<lparr>mprov := pr\<rparr>"
  obtain r5 items where 5: "p_items (provops S) p (mprov st1) = (r5, items)" by force
  obtain r6 st2 where 6: "rename_items S n p q items st1 = (r6, st2)" by force
  obtain r7 pr' where 7: "p_remove_directory (provops S) p (mprov st2) = (r7, pr')" by force
  define st3 where "st3 = st2\<lparr>mprov := pr'\<rparr>"
  obtain r8 st4 where 8: "swap_renamed_items S p q True st3 = (r8, st4)" by force
  have s1: "shrinks S st st1" using shrinks_tables[OF Suc.prems] by (simp add: st1_def)
  have s2: "shrinks S st st2"
    using shrinks_trans[OF s1 rename_items_ok[OF Suc.IH shrinks_ok[OF s1]]] 6 by (metis snd_conv)
  have s3: "shrinks S st st3" using shrinks_trans[OF s2 shrinks_tables[OF shrinks_ok[OF s2]]] by (simp add: st3_def)
  have s4: "shrinks S st st4" using shrinks_trans[OF s3 swap_renamed_items_ok[OF shrinks_ok[OF s3]]] 8 by (metis snd_conv)
  show ?case
    unfolding rename_directory.simps Let_def 1 2 3 4 prod.case st1_def[symmetric] 5 6
    using shrinks_refl[OF Suc.prems] s1 s2 s3 s4
    by (cases r6; cases r8) (simp_all add: 7 st3_def[symmetric] 8)
qed

text \<open>Start, stop and the thread that feeds the uploads.\<close>

lemma upload_steps [simp]:
  "tables (snd (upload_round S st)) = tables st" "tables (upload_completed S ev st) = tables st"
  by (simp_all add: upload_round_def upload_completed_def Let_def split: option.split prod.split)

lemma restore_download_ok:
  assumes ok: "tables_ok S st"
  shows "shrinks S st (restore_download S e st)"
proof -
  obtain res item where g: "p_get_item (provops S) (resume_path e) False (mprov st) = (res, item)" by force
  obtain eff f where c: "new_cached (fileops S) item [] (Some (resume_chunk_size e, resume_read_state e)) = (eff, f)" by force
  obtain i st1 where n: "new_object f (fm_effects S f eff st) = (i, st1)" by force
  define st2 where "st2 = set_open S (resume_path e) i st1"
  define st3 where "st3 = put_object i (cf_force (fileops S) (object_at i st2)) st2"
  show ?thesis
  proof (cases "res \<noteq> success \<or> resume_source e \<noteq> source_path item \<or>
      l_size (localops S) (source_path item) (mlocal st) \<noteq> Some (item_size item)")
    case True
    then show ?thesis using shrinks_tables[OF ok] by (simp add: restore_download_def g)
  next
    case False
    then have item: "api_path item = resume_path e" using item_law g by simp
    have s1: "same_handles S st st1"
      by (rule same_handles_trans[OF same_handles_tables new_object_same[OF n]]) simp
    note ok1 = same_handles_ok[OF ok s1]
    have f: "handles_of (fileops S) f = {}" "api_path (cf_item (fileops S) f) = resume_path e" "\<not> cf_unlinked (fileops S) f"
      using new_cached_handles[of item "[]" "Some (resume_chunk_size e, resume_read_state e)"]
        new_cached_path[of item "[]" "Some (resume_chunk_size e, resume_read_state e)"]
        new_cached_unlinked[of item "[]" "Some (resume_chunk_size e, resume_read_state e)"] item by (simp_all add: c)
    have i: "i < length (objects st1)" "handles_at S i st1 = {}" "path_at S i st1 = resume_path e" "\<not> unlinked_at S i st1"
      using new_object_at[OF n] f by (auto simp: handles_at_def path_at_def unlinked_at_def)
    have "map_of (open_lookup st1) q \<noteq> Some i" for q
      using n tables_okD(3)[OF ok, of q i] same_handlesD(1)[OF s1] by (auto simp: new_object_def)
    then have so: "tables_ok S st2" "live S st2 h k \<longleftrightarrow> live S st1 h k \<and> map_of (open_lookup st1) (resume_path e) \<noteq> Some k" for h k
      using set_open_ok[OF ok1 i(1,3,4)] i(2) by (auto simp: st2_def)
    have nh: "next_handle st2 = next_handle st1" using set_open_at(5)[OF i(1)] by (simp add: st2_def)
    have s2: "shrinks S st1 st2" using so nh unfolding shrinks_def by blast
    have "same_handles S st2 st3"
      unfolding st3_def by (rule put_object_same) (simp add: handles_at_def path_at_def unlinked_at_def)
    then have s3: "shrinks S st st3"
      using stays_shrinks[OF stays_same[OF ok s1]] s2 stays_shrinks[OF stays_same[OF shrinks_ok[OF s2]]] shrinks_trans by metis
    have "restore_download S e st = say (item_restored (api_path item)) st3"
      using False by (simp add: restore_download_def g c n Let_def st2_def st3_def)
    then show ?thesis using shrinks_trans[OF s3 shrinks_tables[OF shrinks_ok[OF s3]]] by simp
  qed
qed

lemma clear_open_ok:
  assumes ok: "tables_ok S st"
  shows "shrinks S st (st\<lparr>open_lookup := []\<rparr>)"
proof -
  let ?st = "st\<lparr>open_lookup := []\<rparr>"
  have at: "handles_at S k ?st = handles_at S k st" "path_at S k ?st = path_at S k st" "unlinked_at S k ?st = unlinked_at S k st" for k
    by (simp_all add: handles_at_def path_at_def unlinked_at_def)
  have l: "live S ?st h k \<longleftrightarrow> map_of (unlinked_lookup st) h = Some k" for h k by (simp add: live_def)
  then have lv: "live S ?st h k \<Longrightarrow> live S st h k" for h k by (simp add: live_def)
  have "tables_ok S ?st"
    unfolding tables_ok_def l at
  proof (intro conjI allI impI)
    fix h k assume "map_of (unlinked_lookup st) h = Some k"
    then have "live S st h k" by (simp add: live_def)
    then show "0 < h" "h \<le> next_handle ?st" using tables_okD(5)[OF ok] by auto
  qed (use tables_okD[OF ok] in auto)
  then show ?thesis unfolding shrinks_def using lv by auto
qed

lemma tables_fold: "(\<And>x st. tables (f st x) = tables st) \<Longrightarrow> tables (foldl f st l) = tables st"
  by (induction l arbitrary: st) simp_all

lemma stop_begin_ok:
  assumes ok: "tables_ok S st"
  shows "shrinks S st (stop_begin S st)"
proof (cases "mgr_stop st")
  case True
  then show ?thesis using shrinks_refl[OF ok] by (simp add: stop_begin_def)
next
  case False
  define st1 where "st1 = say service_stopping (st\<lparr>mgr_stop := True, handler_running := False\<rparr>)"
  have s1: "shrinks S st st1" using shrinks_tables[OF ok] by (simp add: st1_def)
  have s2: "shrinks S st (st1\<lparr>open_lookup := []\<rparr>)" using shrinks_trans[OF s1 clear_open_ok[OF shrinks_ok[OF s1]]] .
  define st2 where "st2 = foldl (\<lambda>st i. release S i st) (st1\<lparr>open_lookup := []\<rparr>) (map snd (open_lookup st1))"
  have "same_handles S (st1\<lparr>open_lookup := []\<rparr>) st2" unfolding st2_def by (rule fold_same) (rule release_same)
  then have s3: "shrinks S st st2" using shrinks_trans[OF s2 stays_shrinks[OF stays_same[OF shrinks_ok[OF s2]]]] by blast
  have "tables (stop_begin S st) = tables st2"
    using False by (simp add: stop_begin_def Let_def st1_def[symmetric] st2_def[symmetric]) (rule tables_fold, auto)
  then show ?thesis using shrinks_trans[OF s3 shrinks_tables[OF shrinks_ok[OF s3]]] by blast
qed

end

text \<open>A step that may use \<open>n\<close> handles of its own, all of them closed again.\<close>

definition advances :: "('f, 'd, 'p, 's) parts \<Rightarrow> nat \<Rightarrow> ('f, 'd, 'p, 's) fmgr \<Rightarrow> ('f, 'd, 'p, 's) fmgr \<Rightarrow> bool" where
  "advances S n st st' \<longleftrightarrow> tables_ok S st' \<and> next_handle st \<le> next_handle st' \<and> next_handle st' \<le> next_handle st + n \<and>
    (\<forall>g k. live S st' g k \<longrightarrow> (\<exists>k'. live S st g k'))"

lemma shrinks_advances: "shrinks S st st' \<Longrightarrow> advances S n st st'"
  by (simp add: shrinks_def advances_def)

lemma advances_ok: "advances S n st st' \<Longrightarrow> tables_ok S st'"
  by (simp add: advances_def)

lemma advances_trans: "advances S m st st' \<Longrightarrow> advances S n st' st'' \<Longrightarrow> advances S (m + n) st st''"
  unfolding advances_def by (metis add.assoc add_le_mono1 le_trans)

lemma advances_fold:
  assumes step: "\<And>x st. tables_ok S st \<Longrightarrow> next_handle st + c \<le> N \<Longrightarrow> advances S c st (f st x)"
  shows "tables_ok S st \<Longrightarrow> next_handle st + c * length l \<le> N \<Longrightarrow> advances S (c * length l) st (foldl f st l)"
proof (induction l arbitrary: st)
  case Nil
  then show ?case by (auto simp: advances_def)
next
  case (Cons x l)
  have a: "advances S c st (f st x)" using step[OF Cons.prems(1)] Cons.prems(2) by simp
  have "advances S (c * length l) (f st x) (foldl f (f st x) l)"
    using Cons.IH[OF advances_ok[OF a]] Cons.prems(2) a by (simp add: advances_def)
  then show ?case using advances_trans[OF a] by simp
qed

context manager begin

lemma put_force_same: "same_handles S st (put_object j (cf_force (fileops S) (object_at j st)) st)"
  by (rule put_object_same) (simp add: handles_at_def path_at_def unlinked_at_def)

text \<open>The handle of a pinned file is closed before the download goes on by itself.\<close>

lemma download_pinned_ok:
  assumes ok: "tables_ok S st" and n: "next_handle st + 1 < 2 ^ 64"
  shows "advances S 1 st (snd (download_pinned_file S p st)) \<and>
    (\<forall>g k. live S st g k \<longrightarrow> handle_kept S g st (snd (download_pinned_file S p st)))"
proof -
  obtain res pinned where k: "p_get_meta_key (provops S) p ''pinned'' (mprov st) = (res, pinned)" by force
  have same: "advances S 1 st st' \<and> (\<forall>g k. live S st g k \<longrightarrow> handle_kept S g st st')" if "tables st' = tables st" for st'
    using shrinks_advances[OF shrinks_tables[OF ok that]] handle_kept_same[OF ok same_handles_tables[OF that]] by blast
  show ?thesis
  proof (cases "is_read_only S \<or> res \<noteq> success \<or> \<not> flag_of (conf S) pinned")
    case True
    then have "tables (snd (download_pinned_file S p st)) = tables st" by (auto simp: download_pinned_file_def k)
    then show ?thesis by (rule same)
  next
    case False
    obtain r st1 where o: "fm_open S p False 0 st = (r, st1)" by force
    note oa = fm_open_ok[OF ok n o]
    have d: "download_pinned_file S p st = (case r of
         Open_throws e \<Rightarrow> (False, say (error_raised p error) st1)
       | Not_opened res \<Rightarrow> (False, say (error_raised p res) st1)
       | Opened h i \<Rightarrow>
           (case get_open_file S h True st1 of
              (Some j, st) \<Rightarrow> (True, fm_close S h (put_object j (cf_force (fileops S) (object_at j st)) st))
            | (None, st) \<Rightarrow> (False, fm_close S h (say (error_raised p error) st))))"
      using False by (simp add: download_pinned_file_def k o split: open_result.split)
    show ?thesis
    proof (cases "\<exists>h i. r = Opened h i")
      case False
      then have t: "tables (snd (download_pinned_file S p st)) = tables st1"
        unfolding d by (cases r) simp_all
      have a: "tables_ok S st1" "next_handle st1 = next_handle st" "\<And>g k. live S st1 g k \<longleftrightarrow> live S st g k"
        using oa False unfolding opened_as_def by (cases r; simp)+
      let ?st = "snd (download_pinned_file S p st)"
      note s = same_handles_tables[OF t]
      have "advances S 1 st ?st"
        using a same_handles_ok[OF a(1) s] same_handles_live[OF a(1) s] same_handlesD(3)[OF s] unfolding advances_def by auto
      then show ?thesis
        using handle_kept_trans[OF opened_as_kept[OF ok oa] handle_kept_same[OF a(1) s]] by blast
    next
      case True
      then obtain h i where r: "r = Opened h i" by blast
      have a: "tables_ok S st1" "next_handle st1 = next_handle st + 1" "h = next_handle st + 1"
        "\<And>g k. live S st1 g k \<longleftrightarrow> live S st g k \<or> g = h \<and> k = i"
        using oa unfolding opened_as_def r by auto
      obtain j st2 where g: "get_open_file S h True st1 = (j, st2)" by force
      define st3 where "st3 = (case j of Some j \<Rightarrow> put_object j (cf_force (fileops S) (object_at j st2)) st2
        | None \<Rightarrow> say (error_raised p error) st2)"
      have e: "snd (download_pinned_file S p st) = fm_close S h st3"
        unfolding d r by (simp add: g st3_def split: option.split)
      have s2: "stays S st1 st2" using get_open_file_ok[OF a(1) g] by blast
      have "same_handles S st2 st3" by (simp add: st3_def put_force_same same_handles_tables split: option.split)
      then have s3: "stays S st1 st3" using stays_trans[OF s2 stays_same[OF stays_ok[OF s2]]] by blast
      note c = fm_close_ok[OF stays_ok[OF s3], of h]
      have "live S st g k \<Longrightarrow> g \<noteq> h" for g k using tables_okD(5)[OF ok, of g k] a(3) by auto
      then have "live S st g k \<Longrightarrow> handle_kept S g st (fm_close S h st3)" for g k
        using c s3 handle_kept_trans opened_as_kept[OF ok oa] unfolding stays_def by metis
      moreover have "live S (fm_close S h st3) g k \<Longrightarrow> \<exists>k'. live S st g k'" for g k
        using c s3 a(4) unfolding stays_def shrinks_def by metis
      then have "advances S 1 st (fm_close S h st3)"
        using c s3 a(2) unfolding advances_def stays_def shrinks_def by simp blast
      ultimately show ?thesis unfolding e by blast
    qed
  qed
qed

lemma fm_start_ok:
  assumes ok: "tables_ok S st" and n: "next_handle st + b < 2 ^ 64" and b: "\<And>pr. length (p_pinned (provops S) pr) \<le> b"
  shows "advances S b st (snd (fm_start S st))"
proof -
  define st1 where "st1 = st\<lparr>mgr_stop := False\<rparr>"
  define st2 where "st2 = foldl (\<lambda>st (p, src). fm_queue_upload S p src False st) st1 (get_upload_active_list (dbops S) (mdb st1))"
  define rs where "rs l = foldl (\<lambda>st e. restore_download S e st) st2 l" for l
  define pinned where "pinned st = foldl (\<lambda>st p. snd (download_pinned_file S p st)) st (p_pinned (provops S) (mprov st))" for st
  have "tables st2 = tables st" by (simp add: st2_def tables_fold[of "\<lambda>st (p, src). fm_queue_upload S p src False st"] split_beta st1_def)
  then have s2: "shrinks S st st2" by (rule shrinks_tables[OF ok])
  have s3: "shrinks S st (rs l)" for l
  proof -
    have "tables_ok S st' \<Longrightarrow> shrinks S st' (foldl (\<lambda>st e. restore_download S e st) st' l)" for st'
    proof (induction l arbitrary: st')
      case (Cons x l)
      note r = restore_download_ok[OF Cons.prems, of x]
      show ?case using shrinks_trans[OF r Cons.IH[OF shrinks_ok[OF r]]] by simp
    qed (simp add: shrinks_refl)
    then show ?thesis using shrinks_trans[OF s2] shrinks_ok[OF s2] by (simp add: rs_def)
  qed
  have p: "advances S b st (pinned (rs l))" for l
  proof -
    let ?n = "length (p_pinned (provops S) (mprov (rs l)))"
    have nh: "next_handle (rs l) = next_handle st" using s3[of l] by (simp add: shrinks_def)
    have "advances S (1 * ?n) (rs l) (pinned (rs l))"
      unfolding pinned_def
    proof (rule advances_fold[where N = "next_handle st + ?n"])
      show "advances S 1 st' (snd (download_pinned_file S x st'))"
        if "tables_ok S st'" "next_handle st' + 1 \<le> next_handle st + ?n" for x st'
        using download_pinned_ok[OF that(1), of x] that(2) n b[of "mprov (rs l)"] by simp
    qed (use shrinks_ok[OF s3] nh in auto)
    then have "advances S ?n st (pinned (rs l))"
      using advances_trans[OF shrinks_advances[OF s3, of 0]] by fastforce
    then show ?thesis using b[of "mprov (rs l)"] unfolding advances_def by auto
  qed
  have t: "tables st' = tables st'' \<Longrightarrow> advances S b st st'' \<Longrightarrow> advances S b st st'" for st' st''
    using advances_trans[of S b st st'' 0] shrinks_advances[OF shrinks_tables] advances_ok by (metis add_0_right)
  show ?thesis
    unfolding fm_start_def Let_def st1_def[symmetric] st2_def[symmetric]
    using t[OF _ p] t[OF _ shrinks_advances[OF shrinks_refl[OF ok]]] t[OF _ shrinks_advances[OF s2]]
    by (simp add: rs_def pinned_def st1_def split: sum.split)
qed

end

end
