(* ===== verification/Meta_Db.thy ===== *)
theory Meta_Db imports Upload_Db Utils_Common "HOL-Library.AList" begin

text \<open>
  The database of the providers (db/i_meta_db.hpp): one row of strings per api path.  This theory
  has the interface as a record of operations, the names of the keys, and what both
  implementations make of a row before they store it.
\<close>

section \<open>Flags\<close>

definition from_bool :: "bool \<Rightarrow> string" where
  "from_bool b = (if b then ''1'' else ''0'')"

text \<open>
  \<open>std::stod\<close> as far as \<open>to_bool\<close> asks: is the value zero?  Only a text without a digit throws
  here; a text whose value no double can hold throws as well and is not distinguished.
\<close>

definition stod_nonzero :: "string \<Rightarrow> exn + bool" where
  "stod_nonzero s =
    (let s = (if s \<noteq> [] \<and> (hd s = CHR ''+'' \<or> hd s = CHR ''-'') then tl s else s);
         whole = takeWhile isdigit s;
         rest = dropWhile isdigit s;
         fraction = (if rest \<noteq> [] \<and> hd rest = CHR ''.'' then takeWhile isdigit (tl rest) else [])
     in if whole @ fraction = [] then Inl (runtime_error ''invalid_argument'')
        else Inr (\<exists>c \<in> set (whole @ fraction). c \<noteq> CHR ''0''))"

text \<open>A stream into a \<open>bool\<close>: a number other than 0 is true, also where it sets \<open>failbit\<close>.\<close>

definition to_bool :: "string \<Rightarrow> exn + bool" where
  "to_bool val =
    (let s = trim_with (CHR '' '') val in
     if is_numeric s then
       if str_contains s ''.'' then stod_nonzero s
       else Inr (\<exists>c \<in> set s. isdigit c \<and> c \<noteq> CHR ''0'')
     else Inr (begins_with (to_lower s) ''true''))"

section \<open>The interface\<close>

type_synonym api_meta_map = "(string \<times> string) list"

definition meta_at :: "string \<Rightarrow> api_meta_map \<Rightarrow> string" where
  "meta_at k m = (case map_of m k of None \<Rightarrow> [] | Some v \<Rightarrow> v)"

record 'm meta_ops =
  md_clear :: "'m \<Rightarrow> 'm"
  md_get_api_path :: "string \<Rightarrow> 'm \<Rightarrow> api_error \<times> string"
  md_api_paths :: "'m \<Rightarrow> string list"
  md_get :: "string \<Rightarrow> 'm \<Rightarrow> api_error \<times> api_meta_map"
  md_get_key :: "string \<Rightarrow> string \<Rightarrow> 'm \<Rightarrow> api_error \<times> string"
  md_pinned :: "'m \<Rightarrow> exn + string list"
  md_count :: "'m \<Rightarrow> nat"
  md_total_size :: "'m \<Rightarrow> exn + nat"
  md_remove :: "string \<Rightarrow> 'm \<Rightarrow> 'm"
  md_remove_key :: "string \<Rightarrow> string \<Rightarrow> 'm \<Rightarrow> api_error \<times> 'm"
  md_rename :: "string \<Rightarrow> string \<Rightarrow> 'm \<Rightarrow> api_error \<times> 'm"
  md_set_key :: "string \<Rightarrow> string \<Rightarrow> string \<Rightarrow> 'm \<Rightarrow> api_error \<times> 'm"
  md_set :: "string \<Rightarrow> api_meta_map \<Rightarrow> 'm \<Rightarrow> api_error \<times> 'm"

definition META_USED_NAMES :: "string list" where
  "META_USED_NAMES = [''accessed'', ''attributes'', ''backup'', ''changed'', ''creation'', ''directory'', ''gid'',
    ''kdf'', ''key'', ''mode'', ''modified'', ''flags'', ''pinned'', ''size'', ''source'', ''uid'', ''written'']"

text \<open>
  The JSON text of a row; nlohmann's printer and parser are a parameter.  A text that is no object
  of strings makes the parser throw.
\<close>

record meta_codec =
  dump_meta :: "api_meta_map \<Rightarrow> string"
  parse_meta :: "string \<Rightarrow> api_meta_map option"

definition meta_codec_ok :: "meta_codec \<Rightarrow> bool" where
  "meta_codec_ok cd \<longleftrightarrow> (\<forall>m. dump_meta cd m \<noteq> [] \<and>
    (case parse_meta cd (dump_meta cd m) of None \<Rightarrow> False | Some m' \<Rightarrow> map_of m' = map_of m))"

text \<open>
  \<open>update_item_meta\<close>: what a row is stored as.  A directory has no pin, size and source; a row
  without the directory flag, or whose size is no number, is an exception.
\<close>

record meta_item =
  it_directory :: bool
  it_pinned :: bool
  it_size :: nat
  it_source :: string

definition row_of :: "api_meta_map \<Rightarrow> exn + meta_item" where
  "row_of j =
    (case map_of j ''directory'' of
       None \<Rightarrow> Inl out_of_range
     | Some flag \<Rightarrow>
         (case to_bool flag of
            Inl e \<Rightarrow> Inl e
          | Inr True \<Rightarrow> Inr \<lparr>it_directory = True, it_pinned = False, it_size = 0, it_source = []\<rparr>
          | Inr False \<Rightarrow>
              (case to_bool (meta_at ''pinned'' j) of
                 Inl e \<Rightarrow> Inl e
               | Inr pin \<Rightarrow>
                   (case stoul (meta_at ''size'' j) of
                      Inl e \<Rightarrow> Inl e
                    | Inr n \<Rightarrow> Inr \<lparr>it_directory = False, it_pinned = pin, it_size = n,
                                     it_source = meta_at ''source'' j\<rparr>))))"

text \<open>\<open>for (item : meta) existing[item.first] = item.second\<close>\<close>

definition merge_meta :: "api_meta_map \<Rightarrow> api_meta_map \<Rightarrow> api_meta_map" where
  "merge_meta meta existing = foldl (\<lambda>j (k, v). AList.update k v j) existing meta"

text \<open>The paths are handed over a hundred at a time.\<close>

function batches :: "nat \<Rightarrow> 'a list \<Rightarrow> 'a list list" where
  "batches n xs = (if xs = [] then [] else take (Suc n) xs # batches n (drop (Suc n) xs))"
  by pat_completeness auto
termination by (relation "measure (length \<circ> snd)") auto

declare batches.simps [simp del]

definition enumerate_api_path_list :: "'m meta_ops \<Rightarrow> 'm \<Rightarrow> string list list" where
  "enumerate_api_path_list M d = batches 99 (md_api_paths M d)"

section \<open>Numbers and flags that were printed\<close>

declare decimal.simps [simp del]

lemma decimal_step: "\<not> n < 10 \<Longrightarrow> decimal n = decimal (n div 10) @ [char_of (48 + n mod 10)]"
  by (subst decimal.simps) simp

lemma decimal_digit: "n < 10 \<Longrightarrow> decimal n = [char_of (48 + n)]"
  by (subst decimal.simps) simp

lemma digit_char: "k < 10 \<Longrightarrow> of_char (char_of (48 + k :: nat)) = 48 + (k :: nat)"
  by simp

lemma decimal_isdigit: "decimal n \<noteq> [] \<and> (\<forall>c \<in> set (decimal n). isdigit c)"
proof (induction n rule: decimal.induct)
  case (1 n)
  show ?case
  proof (cases "n < 10")
    case True
    then show ?thesis by (simp only: decimal_digit list.set insert_iff empty_iff isdigit_def digit_char) auto
  next
    case False
    have "isdigit (char_of (48 + n mod 10))" by (simp only: isdigit_def digit_char[of "n mod 10"]) simp
    then show ?thesis using 1[OF False] unfolding decimal_step[OF False] by auto
  qed
qed

lemma digits_value_snoc: "digits_value (ds @ [c]) = 10 * digits_value ds + (of_char c - 48)"
  by (simp add: digits_value_def)

lemma digits_value_decimal: "digits_value (decimal n) = n"
proof (induction n rule: decimal.induct)
  case (1 n)
  show ?case
  proof (cases "n < 10")
    case True
    then show ?thesis by (simp only: decimal_digit digits_value_def foldl.simps digit_char)
  next
    case False
    have lt: "n mod 10 < 10" by simp
    have "digits_value (decimal n) = 10 * (n div 10) + (of_char (char_of (48 + n mod 10 :: nat)) - 48)"
      unfolding decimal_step[OF False] digits_value_snoc 1[OF False] ..
    also have "\<dots> = n" unfolding digit_char[OF lt] by simp
    finally show ?thesis .
  qed
qed

lemma digits_span:
  assumes "ds \<noteq> []" and d: "\<forall>c \<in> set ds. isdigit c"
  shows "dropWhile isspace ds = ds" "takeWhile isdigit ds = ds" "hd ds \<noteq> CHR ''+''" "hd ds \<noteq> CHR ''-''"
proof -
  obtain c cs where c: "ds = c # cs" using assms(1) by (cases ds) auto
  then have "isdigit c" using d by simp
  then have n: "\<not> isspace c" "c \<noteq> CHR ''+''" "c \<noteq> CHR ''-''" by (auto simp: isspace_def isdigit_def Let_def)
  show "takeWhile isdigit ds = ds" using d by (simp add: takeWhile_eq_all_conv)
  show "dropWhile isspace ds = ds" "hd ds \<noteq> CHR ''+''" "hd ds \<noteq> CHR ''-''" using n by (simp_all add: c)
qed

lemma stoul_decimal: "n < 2 ^ 64 \<Longrightarrow> stoul (decimal n) = Inr n"
  using digits_span[of "decimal n"] decimal_isdigit[of n] digits_value_decimal[of n]
  by (simp add: stoul_def Let_def del: takeWhile_eq_all_conv)

lemma stoul_bound: "stoul s = Inr n \<Longrightarrow> n < 2 ^ 64"
  by (auto simp: stoul_def Let_def sub64_def split: if_splits)

lemma to_bool_from_bool [simp]: "to_bool (from_bool b) = Inr b" "to_bool [] = Inr False"
  by (auto simp: to_bool_def from_bool_def trim_with_def left_trim_def right_trim_def is_numeric_def isdigit_def
      begins_with_def str_contains_def str_find_def to_lower_def)

lemma from_bool_eq [simp]: "from_bool a = from_bool b \<longleftrightarrow> a = b" "from_bool a \<noteq> []"
  by (auto simp: from_bool_def)

section \<open>The contract\<close>

text \<open>
  A row as the callers see it: its item and the other keys.  \<open>view\<close> is the row as one map.
\<close>

type_synonym meta_row = "meta_item \<times> (string \<rightharpoonup> string)"

definition item_key :: "string \<Rightarrow> bool" where
  "item_key k \<longleftrightarrow> k = ''directory'' \<or> k = ''pinned'' \<or> k = ''size'' \<or> k = ''source''"

definition view :: "meta_row \<Rightarrow> string \<rightharpoonup> string" where
  "view x k =
    (if k = ''directory'' then Some (from_bool (it_directory (fst x)))
     else if k = ''pinned'' then Some (from_bool (it_pinned (fst x)))
     else if k = ''size'' then Some (decimal (it_size (fst x)))
     else if k = ''source'' then Some (it_source (fst x))
     else snd x k)"

definition normal_row :: "meta_row \<Rightarrow> bool" where
  "normal_row x \<longleftrightarrow> it_size (fst x) < 2 ^ 64 \<and> (\<forall>k. item_key k \<longrightarrow> snd x k = None) \<and>
    (it_directory (fst x) \<longrightarrow> \<not> it_pinned (fst x) \<and> it_size (fst x) = 0 \<and> it_source (fst x) = [])"

text \<open>What a row becomes from the map that is written: None if it is refused.\<close>

definition new_row :: "(string \<rightharpoonup> string) \<Rightarrow> meta_row option" where
  "new_row m =
    (let text = (\<lambda>k d. case m k of None \<Rightarrow> d | Some v \<Rightarrow> v);
         others = (\<lambda>k. if item_key k then None else m k)
     in case m ''directory'' of
          None \<Rightarrow> None
        | Some flag \<Rightarrow>
            (case to_bool flag of
               Inl _ \<Rightarrow> None
             | Inr True \<Rightarrow> Some (\<lparr>it_directory = True, it_pinned = False, it_size = 0, it_source = []\<rparr>, others)
             | Inr False \<Rightarrow>
                 (case to_bool (text ''pinned'' (from_bool False)) of
                    Inl _ \<Rightarrow> None
                  | Inr pin \<Rightarrow>
                      (case stoul (text ''size'' ''0'') of
                         Inl _ \<Rightarrow> None
                       | Inr n \<Rightarrow> Some (\<lparr>it_directory = False, it_pinned = pin, it_size = n,
                                        it_source = text ''source'' []\<rparr>, others)))))"

lemma new_row_normal: "new_row m = Some x \<Longrightarrow> normal_row x"
  by (auto simp: new_row_def normal_row_def Let_def dest!: stoul_bound split: option.splits sum.splits bool.splits)

lemma new_row_view:
  assumes "normal_row x"
  shows "new_row (view x) = Some x"
proof -
  obtain i ex where x: "x = (i, ex)" by (cases x)
  have o: "(\<lambda>k. if item_key k then None else view (i, ex) k) = ex"
    using assms by (auto simp: x fun_eq_iff view_def normal_row_def item_key_def)
  have v: "view (i, ex) ''directory'' = Some (from_bool (it_directory i))"
    "view (i, ex) ''pinned'' = Some (from_bool (it_pinned i))"
    "view (i, ex) ''size'' = Some (decimal (it_size i))" "view (i, ex) ''source'' = Some (it_source i)"
    by (simp_all add: view_def)
  have n: "stoul (decimal (it_size i)) = Inr (it_size i)" using assms by (simp add: x normal_row_def stoul_decimal)
  have d: "it_directory i \<Longrightarrow> i = \<lparr>it_directory = True, it_pinned = False, it_size = 0, it_source = []\<rparr>"
    using assms by (simp add: x normal_row_def)
  show ?thesis
  proof (cases "it_directory i")
    case True
    then show ?thesis unfolding new_row_def Let_def x o v by (simp add: d[symmetric])
  next
    case False
    then show ?thesis unfolding new_row_def Let_def x o v by (simp add: n)
  qed
qed

text \<open>The maps the callers write: flags as \<open>from_bool\<close> prints them, no empty size.\<close>

definition proper_meta :: "api_meta_map \<Rightarrow> bool" where
  "proper_meta m \<longleftrightarrow> map_of m ''size'' \<noteq> Some [] \<and>
    (\<forall>flag. map_of m ''directory'' = Some flag \<longrightarrow> flag = from_bool True \<or> flag = from_bool False)"

lemma map_of_merge: "distinct (map fst m) \<Longrightarrow> map_of (merge_meta m e) = map_of e ++ map_of m"
proof (induction m arbitrary: e)
  case (Cons kv m)
  obtain k v where kv: "kv = (k, v)" by (cases kv)
  have k: "map_of m k = None" using Cons.prems by (simp add: kv map_of_eq_None_iff)
  have "merge_meta (kv # m) e = merge_meta m (AList.update k v e)" by (simp add: kv merge_meta_def)
  then have "map_of (merge_meta (kv # m) e) = (map_of e)(k \<mapsto> v) ++ map_of m"
    using Cons by (simp add: AList.update_conv')
  also have "\<dots> = map_of e ++ map_of (kv # m)"
    using k by (auto simp: kv fun_eq_iff map_add_def split: option.split)
  finally show ?case .
qed (simp add: merge_meta_def)

type_synonym meta_rows = "string \<Rightarrow> meta_row option"

definition row_text :: "meta_rows \<Rightarrow> string \<Rightarrow> string \<rightharpoonup> string" where
  "row_text R p = (case R p of None \<Rightarrow> Map.empty | Some x \<Rightarrow> view x)"

text \<open>
  Where a row may be stored: no other row has its source path, and no file becomes a directory (its
  source path would still be known).
\<close>

definition source_at :: "meta_rows \<Rightarrow> string \<Rightarrow> string" where
  "source_at R p = (case R p of None \<Rightarrow> [] | Some x \<Rightarrow> it_source (fst x))"

definition placeable :: "meta_rows \<Rightarrow> string \<Rightarrow> meta_row \<Rightarrow> bool" where
  "placeable R p x \<longleftrightarrow> (it_directory (fst x) \<longrightarrow> source_at R p = []) \<and>
    (\<forall>q. q \<noteq> p \<and> source_at R q = it_source (fst x) \<longrightarrow> it_source (fst x) = [])"

text \<open>The pin and the size are only set for files, to a flag and a number.\<close>

definition key_settable :: "meta_rows \<Rightarrow> string \<Rightarrow> string \<Rightarrow> string \<Rightarrow> bool" where
  "key_settable R p k v \<longleftrightarrow> proper_meta [(k, v)] \<and>
    (k = ''pinned'' \<or> k = ''size'' \<longrightarrow> (\<exists>x. R p = Some x \<and> \<not> it_directory (fst x))) \<and>
    (k = ''pinned'' \<longrightarrow> (\<exists>b. v = from_bool b)) \<and> (k = ''size'' \<longrightarrow> (\<exists>n < 2 ^ 64. v = decimal n))"

text \<open>A write happens or, if there are failures to come, is refused.\<close>

definition wrote :: "bool \<Rightarrow> api_error \<Rightarrow> meta_rows \<Rightarrow> meta_rows \<Rightarrow> meta_rows \<Rightarrow> bool" where
  "wrote calm e old new R \<longleftrightarrow> e = success \<and> R = new \<or> \<not> calm \<and> e = error \<and> R = old"

definition placed :: "bool \<Rightarrow> api_error \<Rightarrow> meta_rows \<Rightarrow> string \<Rightarrow> meta_row option \<Rightarrow> meta_rows \<Rightarrow> bool" where
  "placed calm e old p x R \<longleftrightarrow>
    (case x of None \<Rightarrow> e = error \<and> R = old | Some y \<Rightarrow> wrote calm e old (old(p \<mapsto> y)) R)"

definition total_size :: "meta_rows \<Rightarrow> nat" where
  "total_size R = (\<Sum>p \<in> dom R. it_size (fst (the (R p))))"

text \<open>
  \<open>rows d\<close> is what a database stands for, \<open>readable d p\<close> says that the entries of \<open>p\<close> can be read,
  \<open>calm d\<close> that no write will fail.  Only a rename needs a calm database: one implementation makes
  two statements of it.
\<close>

locale meta_store =
  fixes M :: "'m meta_ops" and good :: "'m \<Rightarrow> bool" and rows :: "'m \<Rightarrow> meta_rows"
    and readable :: "'m \<Rightarrow> string \<Rightarrow> bool" and calm :: "'m \<Rightarrow> bool"
  assumes rows_normal: "good d \<Longrightarrow> rows d p = Some x \<Longrightarrow> normal_row x"
    and rows_finite: "good d \<Longrightarrow> finite (dom (rows d))"
    and get_law: "good d \<Longrightarrow> readable d p \<Longrightarrow>
      (case rows d p of None \<Rightarrow> md_get M p d = (item_not_found, [])
       | Some x \<Rightarrow> \<exists>m. md_get M p d = (success, m) \<and> map_of m = view x)"
    and get_key_law: "good d \<Longrightarrow> readable d p \<Longrightarrow> rows d p = Some x \<Longrightarrow> view x k = Some v \<Longrightarrow>
      md_get_key M p k d = (success, v)"
    and get_key_absent: "good d \<Longrightarrow> readable d p \<Longrightarrow> rows d p = None \<Longrightarrow> md_get_key M p k d = (item_not_found, [])"
    and source_law: "good d \<Longrightarrow> readable d src \<Longrightarrow> src \<noteq> [] \<Longrightarrow> source_at (rows d) p = src \<Longrightarrow>
      md_get_api_path M src d = (success, p)"
    and source_absent: "good d \<Longrightarrow> readable d src \<Longrightarrow> src \<noteq> [] \<Longrightarrow> (\<And>p. source_at (rows d) p \<noteq> src) \<Longrightarrow>
      md_get_api_path M src d = (item_not_found, [])"
    and paths_law: "good d \<Longrightarrow> distinct (md_api_paths M d) \<and> set (md_api_paths M d) = dom (rows d)"
    and pinned_law: "good d \<Longrightarrow> \<exists>l. md_pinned M d = Inr l \<and> distinct l \<and>
      set l = {p. \<exists>x. rows d p = Some x \<and> it_pinned (fst x)}"
    and count_law: "good d \<Longrightarrow> card (dom (rows d)) < 2 ^ 64 \<Longrightarrow> md_count M d = card (dom (rows d))"
    and total_law: "good d \<Longrightarrow> total_size (rows d) < 2 ^ 63 \<Longrightarrow> md_total_size M d = Inr (total_size (rows d))"
    and remove_law: "good d \<Longrightarrow> readable d p \<Longrightarrow> md_remove M p d = d' \<Longrightarrow>
      good d' \<and> readable d' = readable d \<and> (calm d \<longrightarrow> calm d') \<and>
      (rows d' = (rows d)(p := None) \<or> \<not> calm d \<and> rows d' = rows d)"
    and remove_key_law: "good d \<Longrightarrow> readable d p \<Longrightarrow> md_remove_key M p k d = (e, d') \<Longrightarrow>
      good d' \<and> readable d' = readable d \<and> (calm d \<longrightarrow> calm d') \<and>
      (if k \<in> set META_USED_NAMES then e = permission_denied \<and> rows d' = rows d
       else case rows d p of None \<Rightarrow> e = item_not_found \<and> rows d' = rows d
         | Some x \<Rightarrow> wrote (calm d) e (rows d) ((rows d)(p \<mapsto> (fst x, (snd x)(k := None)))) (rows d'))"
    and rename_law: "good d \<Longrightarrow> calm d \<Longrightarrow> readable d from \<Longrightarrow> readable d to \<Longrightarrow>
      (\<And>x. rows d from = Some x \<Longrightarrow> placeable ((rows d)(from := None)) to x) \<Longrightarrow>
      md_rename M from to d = (e, d') \<Longrightarrow>
      good d' \<and> readable d' = readable d \<and> calm d' \<and>
      (case rows d from of None \<Rightarrow> e = item_not_found \<and> rows d' = rows d
       | Some x \<Rightarrow> e = success \<and> rows d' = (rows d)(from := None, to \<mapsto> x))"
    and set_law: "good d \<Longrightarrow> readable d p \<Longrightarrow> distinct (map fst m) \<Longrightarrow> proper_meta m \<Longrightarrow>
      nr = new_row (row_text (rows d) p ++ map_of m) \<Longrightarrow> (\<And>y. nr = Some y \<Longrightarrow> placeable (rows d) p y) \<Longrightarrow>
      md_set M p m d = (e, d') \<Longrightarrow>
      good d' \<and> readable d' = readable d \<and> (calm d \<longrightarrow> calm d') \<and> placed (calm d) e (rows d) p nr (rows d')"
    and set_key_law: "good d \<Longrightarrow> readable d p \<Longrightarrow> key_settable (rows d) p k v \<Longrightarrow>
      nr = new_row ((row_text (rows d) p)(k \<mapsto> v)) \<Longrightarrow> (\<And>y. nr = Some y \<Longrightarrow> placeable (rows d) p y) \<Longrightarrow>
      md_set_key M p k v d = (e, d') \<Longrightarrow>
      good d' \<and> readable d' = readable d \<and> (calm d \<longrightarrow> calm d') \<and> placed (calm d) e (rows d) p nr (rows d')"
    and clear_law: "good d \<Longrightarrow> good (md_clear M d) \<and> readable (md_clear M d) = readable d \<and> (calm d \<longrightarrow> calm (md_clear M d)) \<and>
      (rows (md_clear M d) = Map.empty \<or> \<not> calm d \<and> rows (md_clear M d) = rows d)"

section \<open>What both implementations make of a row\<close>

lemma row_of_new_row:
  assumes "map_of dj ''directory'' = m ''directory''"
    and "to_bool (meta_at ''pinned'' dj) = to_bool (case m ''pinned'' of None \<Rightarrow> from_bool False | Some v \<Rightarrow> v)"
    and "stoul (meta_at ''size'' dj) = stoul (case m ''size'' of None \<Rightarrow> ''0'' | Some v \<Rightarrow> v)"
    and "meta_at ''source'' dj = (case m ''source'' of None \<Rightarrow> [] | Some v \<Rightarrow> v)"
  shows "new_row m = (case row_of dj of Inl _ \<Rightarrow> None | Inr i \<Rightarrow> Some (i, \<lambda>k. if item_key k then None else m k))"
  unfolding new_row_def row_of_def Let_def assms by (simp split: option.split sum.split bool.split)

lemma row_text_view: "(\<And>x. R p = Some x \<Longrightarrow> normal_row x) \<Longrightarrow> R p \<noteq> None \<Longrightarrow> new_row (row_text R p) = R p"
  by (auto simp: row_text_def new_row_view)

text \<open>Setting the pin or the size of a file, removing a key of its own.\<close>

lemma view_pinned: "\<not> it_directory (fst x) \<Longrightarrow>
    (view x)(''pinned'' \<mapsto> from_bool b) = view (fst x\<lparr>it_pinned := b\<rparr>, snd x)"
  by (auto simp: view_def fun_eq_iff)

lemma view_size: "\<not> it_directory (fst x) \<Longrightarrow>
    (view x)(''size'' \<mapsto> decimal n) = view (fst x\<lparr>it_size := n\<rparr>, snd x)"
  by (auto simp: view_def fun_eq_iff)

lemma view_remove: "k \<notin> set META_USED_NAMES \<Longrightarrow> (view x)(k := None) = view (fst x, (snd x)(k := None))"
  by (auto simp: view_def fun_eq_iff META_USED_NAMES_def)

text \<open>The index from the source paths to the rows.\<close>

definition indexed :: "(string \<Rightarrow> string option) \<Rightarrow> meta_rows \<Rightarrow> bool" where
  "indexed S R \<longleftrightarrow> (\<forall>s p. S s = Some p \<longleftrightarrow> s \<noteq> [] \<and> source_at R p = s)"

definition reindex :: "(string \<Rightarrow> string option) \<Rightarrow> string \<Rightarrow> string \<Rightarrow> string \<Rightarrow> string \<Rightarrow> string option" where
  "reindex S old new p = (let S = S(old := None) in if new = [] then S else S(new \<mapsto> p))"

lemma source_at_upd [simp]:
  "source_at (R(p := r)) q = (if q = p then (case r of None \<Rightarrow> [] | Some x \<Rightarrow> it_source (fst x)) else source_at R q)"
  by (simp add: source_at_def)

lemma indexedD: "indexed S R \<Longrightarrow> source_at R p \<noteq> [] \<Longrightarrow> S (source_at R p) = Some p"
  by (simp add: indexed_def)

lemma indexed_unique: "indexed S R \<Longrightarrow> source_at R q = source_at R p \<Longrightarrow> source_at R p \<noteq> [] \<Longrightarrow> q = p"
  by (metis indexedD option.inject)

lemma indexed_remove:
  assumes "indexed S R"
  shows "indexed (S(source_at R p := None)) (R(p := None))"
  using assms indexed_unique[OF assms, of _ p] unfolding indexed_def by auto

lemma indexed_put:
  assumes "indexed S R" "placeable R p x"
  shows "indexed (reindex S (source_at R p) (it_source (fst x)) p) (R(p \<mapsto> x))"
  using assms indexed_unique[OF assms(1), of _ p] unfolding indexed_def placeable_def reindex_def Let_def
  by (cases "it_source (fst x) = []") auto

section \<open>A sample text of a row\<close>

text \<open>A dot in front of every character, a bar after every text.\<close>

definition quoted :: "string \<Rightarrow> string" where
  "quoted s = concat (map (\<lambda>c. [CHR ''.'', c]) s) @ [bar]"

fun unquoted :: "string \<Rightarrow> (string \<times> string) option" where
  "unquoted [] = None"
| "unquoted [d] = (if d = bar then Some ([], []) else None)"
| "unquoted (d # c # s) =
    (if d = bar then Some ([], c # s) else map_option (\<lambda>(t, rest). (c # t, rest)) (unquoted s))"

fun unquoted_pairs :: "nat \<Rightarrow> string \<Rightarrow> api_meta_map option" where
  "unquoted_pairs n [] = Some []"
| "unquoted_pairs 0 s = None"
| "unquoted_pairs (Suc n) s =
    (case unquoted s of None \<Rightarrow> None
     | Some (k, s) \<Rightarrow> (case unquoted s of None \<Rightarrow> None | Some (v, s) \<Rightarrow> map_option (Cons (k, v)) (unquoted_pairs n s)))"

definition pair_codec :: meta_codec where
  "pair_codec = \<lparr>dump_meta = (\<lambda>m. bar # concat (map (\<lambda>(k, v). quoted k @ quoted v) m)),
    parse_meta = (\<lambda>s. unquoted_pairs (length s) (tl s))\<rparr>"

lemma unquoted_quoted: "unquoted (quoted s @ rest) = Some (s, rest)"
proof (induction s)
  case Nil
  then show ?case by (cases rest) (simp_all add: quoted_def)
next
  case (Cons c s)
  then show ?case by (simp add: quoted_def bar_def)
qed

lemma unquoted_pairs_dump:
  "length m \<le> n \<Longrightarrow> unquoted_pairs n (concat (map (\<lambda>(k, v). quoted k @ quoted v) m)) = Some m"
proof (induction m arbitrary: n)
  case (Cons e m)
  obtain k v where e: "e = (k, v)" by (cases e)
  obtain n' where n: "n = Suc n'" "length m \<le> n'" using Cons.prems by (cases n) auto
  obtain c s where c: "quoted k = c # s" by (cases "quoted k") (auto simp: quoted_def)
  have u: "unquoted (c # s @ r) = Some (k, r)" for r using unquoted_quoted[of k r] by (simp add: c)
  show ?case using Cons.IH[OF n(2)] by (simp add: e n(1) c u unquoted_quoted)
qed simp

lemma pair_codec_ok: "meta_codec_ok pair_codec"
proof -
  have "length (concat (map (\<lambda>(k, v). quoted k @ quoted v) m)) \<ge> length m" for m :: api_meta_map
    by (induction m) (auto simp: quoted_def)
  then have "unquoted_pairs (Suc (length (concat (map (\<lambda>(k, v). quoted k @ quoted v) m))))
      (concat (map (\<lambda>(k, v). quoted k @ quoted v) m)) = Some m" for m
    by (intro unquoted_pairs_dump) (simp add: le_SucI)
  then show ?thesis by (simp add: meta_codec_ok_def pair_codec_def)
qed

end
