(* ===== verification/Rdb_Meta_Db.thy ===== *)
theory Rdb_Meta_Db imports Meta_Db begin

text \<open>
  The RocksDB implementation of the providers' database (db/impl/rdb_meta_db.cpp): a column family
  with the JSON text of every row, and families for pins, sizes and source paths, which point back
  to the api path.  \<open>commits\<close> is the outcome of the coming transactions, \<open>unreadable\<close> the keys
  whose entries the database cannot read.
\<close>

section \<open>The operations\<close>

record 'c meta_rdb =
  meta_family :: 'c
  pinned_family :: 'c
  size_family :: 'c
  source_family :: 'c
  commits :: "bool list"
  unreadable :: "string \<Rightarrow> bool"

definition rdb_commit :: "('c meta_rdb \<Rightarrow> 'c meta_rdb) \<Rightarrow> 'c meta_rdb \<Rightarrow> api_error \<times> 'c meta_rdb" where
  "rdb_commit w r =
    (case commits r of
       [] \<Rightarrow> (success, w r)
     | ok # rest \<Rightarrow> let r = r\<lparr>commits := rest\<rparr> in if ok then (success, w r) else (error, r))"

definition rdb_read :: "('c, string) kv_ops \<Rightarrow> ('c meta_rdb \<Rightarrow> 'c) \<Rightarrow> string \<Rightarrow> 'c meta_rdb \<Rightarrow> api_error \<times> string" where
  "rdb_read kv family k r =
    (if unreadable r k then (error, [])
     else case kv_get kv k (family r) of None \<Rightarrow> (item_not_found, []) | Some v \<Rightarrow> (success, v))"

definition create_or_open :: "('c, string) kv_ops \<Rightarrow> bool \<Rightarrow> 'c meta_rdb \<Rightarrow> 'c meta_rdb" where
  "create_or_open kv clear r =
    (if clear then r\<lparr>meta_family := kv_empty kv, pinned_family := kv_empty kv, size_family := kv_empty kv,
                     source_family := kv_empty kv\<rparr>
     else r)"

text \<open>The second component is what \<open>json_data\<close> holds, also where the result is an error.\<close>

definition get_item_meta_json ::
  "('c, string) kv_ops \<Rightarrow> meta_codec \<Rightarrow> string \<Rightarrow> 'c meta_rdb \<Rightarrow> api_error \<times> api_meta_map" where
  "get_item_meta_json kv cd p r =
    (case rdb_read kv meta_family p r of (res, v) \<Rightarrow>
       if res \<noteq> success then (res, [])
     else case (if v = [] then Some [] else parse_meta cd v) of
       None \<Rightarrow> (error, [])
     | Some j \<Rightarrow>
         (case rdb_read kv pinned_family p r of (res, v) \<Rightarrow>
            if res \<noteq> success then (res, j)
          else let j = (if v = [] then j else AList.update ''pinned'' v j) in
          case rdb_read kv size_family p r of (res, v) \<Rightarrow>
            if res \<noteq> success then (res, j)
          else let j = (if v = [] then j else AList.update ''size'' v j)
          in (if j = [] then item_not_found else success, j)))"

definition rdb_get_meta ::
  "('c, string) kv_ops \<Rightarrow> meta_codec \<Rightarrow> string \<Rightarrow> 'c meta_rdb \<Rightarrow> api_error \<times> api_meta_map" where
  "rdb_get_meta kv cd p r =
    (case get_item_meta_json kv cd p r of (ret, j) \<Rightarrow> if ret \<noteq> success then (ret, []) else (success, j))"

definition rdb_get_meta_key ::
  "('c, string) kv_ops \<Rightarrow> meta_codec \<Rightarrow> string \<Rightarrow> string \<Rightarrow> 'c meta_rdb \<Rightarrow> api_error \<times> string" where
  "rdb_get_meta_key kv cd p k r =
    (if k = ''pinned'' then rdb_read kv pinned_family p r
     else if k = ''size'' then rdb_read kv size_family p r
     else case get_item_meta_json kv cd p r of (ret, j) \<Rightarrow>
       if ret \<noteq> success then (ret, []) else (success, meta_at k j))"

definition rdb_get_api_path :: "('c, string) kv_ops \<Rightarrow> string \<Rightarrow> 'c meta_rdb \<Rightarrow> api_error \<times> string" where
  "rdb_get_api_path kv src r = (if src = [] then (item_not_found, []) else rdb_read kv source_family src r)"

definition rdb_api_paths :: "('c, string) kv_ops \<Rightarrow> 'c meta_rdb \<Rightarrow> string list" where
  "rdb_api_paths kv r = map fst (kv_list kv (meta_family r))"

fun pinned_paths :: "(string \<times> string) list \<Rightarrow> exn + string list" where
  "pinned_paths [] = Inr []"
| "pinned_paths ((p, flag) # rest) =
    (case to_bool flag of
       Inl e \<Rightarrow> Inl e
     | Inr pin \<Rightarrow>
         (case pinned_paths rest of Inl e \<Rightarrow> Inl e | Inr l \<Rightarrow> Inr (if pin then p # l else l)))"

definition rdb_pinned :: "('c, string) kv_ops \<Rightarrow> 'c meta_rdb \<Rightarrow> exn + string list" where
  "rdb_pinned kv r = pinned_paths (kv_list kv (pinned_family r))"

definition rdb_count :: "('c, string) kv_ops \<Rightarrow> 'c meta_rdb \<Rightarrow> nat" where
  "rdb_count kv r = foldl (\<lambda>n _. add64 n 1) 0 (kv_list kv (meta_family r))"

fun add_sizes :: "(string \<times> string) list \<Rightarrow> nat \<Rightarrow> exn + nat" where
  "add_sizes [] n = Inr n"
| "add_sizes ((p, v) # rest) n = (case stoul v of Inl e \<Rightarrow> Inl e | Inr s \<Rightarrow> add_sizes rest (add64 n s))"

definition rdb_total_size :: "('c, string) kv_ops \<Rightarrow> 'c meta_rdb \<Rightarrow> exn + nat" where
  "rdb_total_size kv r = add_sizes (kv_list kv (size_family r)) 0"

definition drop_rows :: "('c, string) kv_ops \<Rightarrow> string \<Rightarrow> string \<Rightarrow> 'c meta_rdb \<Rightarrow> 'c meta_rdb" where
  "drop_rows kv p src r = r\<lparr>
    pinned_family := kv_delete kv p (pinned_family r), size_family := kv_delete kv p (size_family r),
    source_family := (if src = [] then source_family r else kv_delete kv src (source_family r)),
    meta_family := kv_delete kv p (meta_family r)\<rparr>"

text \<open>A source path that cannot be read is reported; its entry stays.\<close>

definition rdb_remove_path :: "('c, string) kv_ops \<Rightarrow> meta_codec \<Rightarrow> string \<Rightarrow> 'c meta_rdb \<Rightarrow> 'c meta_rdb" where
  "rdb_remove_path kv cd p r =
    (case rdb_get_meta_key kv cd p ''source'' r of (_, src) \<Rightarrow> snd (rdb_commit (drop_rows kv p src) r))"

definition put_rows ::
  "('c, string) kv_ops \<Rightarrow> meta_codec \<Rightarrow> string \<Rightarrow> string option \<Rightarrow> meta_item \<Rightarrow> api_meta_map \<Rightarrow> 'c meta_rdb \<Rightarrow> 'c meta_rdb" where
  "put_rows kv cd p old item j r =
    (let sources = (case old of None \<Rightarrow> source_family r | Some s \<Rightarrow> kv_delete kv s (source_family r))
     in r\<lparr>pinned_family := kv_put kv p (from_bool (it_pinned item)) (pinned_family r),
          size_family := kv_put kv p (decimal (it_size item)) (size_family r),
          source_family := (if it_source item = [] then sources else kv_put kv (it_source item) p sources),
          meta_family := kv_put kv p (dump_meta cd j) (meta_family r)\<rparr>)"

definition with_defaults :: "api_meta_map \<Rightarrow> api_meta_map" where
  "with_defaults j =
    (let j = (if map_of j ''pinned'' = None then AList.update ''pinned'' (from_bool False) j else j);
         j = (if map_of j ''size'' = None then AList.update ''size'' ''0'' j else j)
     in if map_of j ''source'' = None then AList.update ''source'' [] j else j)"

definition stored_json :: "meta_item \<Rightarrow> api_meta_map \<Rightarrow> api_meta_map" where
  "stored_json item j = AList.delete ''size'' (AList.delete ''pinned'' (AList.update ''source'' (it_source item) j))"

text \<open>
  \<open>update_item_meta\<close> up to the transaction: the result it returns early with, or the writes.  The
  source path the row had is read outside the transaction.
\<close>

definition plan_update ::
  "('c, string) kv_ops \<Rightarrow> meta_codec \<Rightarrow> string \<Rightarrow> api_meta_map \<Rightarrow> 'c meta_rdb \<Rightarrow> api_error + ('c meta_rdb \<Rightarrow> 'c meta_rdb)" where
  "plan_update kv cd p j r =
    (let j = with_defaults j in
     case row_of j of
       Inl _ \<Rightarrow> Inl error
     | Inr item \<Rightarrow>
         (case (if it_directory item then (success, []) else rdb_get_meta_key kv cd p ''source'' r) of (res, orig) \<Rightarrow>
            if res \<noteq> success \<and> res \<noteq> item_not_found then Inl res
            else Inr (put_rows kv cd p (if orig \<noteq> [] \<and> orig \<noteq> it_source item then Some orig else None) item
                        (stored_json item j))))"

definition rdb_update_meta ::
  "('c, string) kv_ops \<Rightarrow> meta_codec \<Rightarrow> string \<Rightarrow> api_meta_map \<Rightarrow> 'c meta_rdb \<Rightarrow> api_error \<times> 'c meta_rdb" where
  "rdb_update_meta kv cd p j r =
    (case plan_update kv cd p j r of Inl res \<Rightarrow> (res, r) | Inr w \<Rightarrow> rdb_commit w r)"

definition rdb_remove_meta_key ::
  "('c, string) kv_ops \<Rightarrow> meta_codec \<Rightarrow> string \<Rightarrow> string \<Rightarrow> 'c meta_rdb \<Rightarrow> api_error \<times> 'c meta_rdb" where
  "rdb_remove_meta_key kv cd p k r =
    (if k \<in> set META_USED_NAMES then (permission_denied, r)
     else case get_item_meta_json kv cd p r of (res, j) \<Rightarrow>
       if res \<noteq> success then (res, r) else rdb_update_meta kv cd p (AList.delete k j) r)"

text \<open>
  The status of the inner update is only set by its writes: where it returns early, the transaction
  commits the removal alone and the result is success.
\<close>

definition rdb_rename_meta ::
  "('c, string) kv_ops \<Rightarrow> meta_codec \<Rightarrow> string \<Rightarrow> string \<Rightarrow> 'c meta_rdb \<Rightarrow> api_error \<times> 'c meta_rdb" where
  "rdb_rename_meta kv cd from to r =
    (case get_item_meta_json kv cd from r of (res, j) \<Rightarrow>
       if res \<noteq> success then (res, r)
     else case map_of j ''source'' of
       None \<Rightarrow> (error, r)
     | Some src \<Rightarrow>
         rdb_commit (\<lambda>s. case plan_update kv cd to j r of
                           Inl _ \<Rightarrow> drop_rows kv from src s
                         | Inr w \<Rightarrow> w (drop_rows kv from src s)) r)"

definition rdb_set_meta_key ::
  "('c, string) kv_ops \<Rightarrow> meta_codec \<Rightarrow> string \<Rightarrow> string \<Rightarrow> string \<Rightarrow> 'c meta_rdb \<Rightarrow> api_error \<times> 'c meta_rdb" where
  "rdb_set_meta_key kv cd p k v r =
    (if k = ''pinned'' then rdb_commit (\<lambda>r. r\<lparr>pinned_family := kv_put kv p v (pinned_family r)\<rparr>) r
     else if k = ''size'' then rdb_commit (\<lambda>r. r\<lparr>size_family := kv_put kv p v (size_family r)\<rparr>) r
     else case get_item_meta_json kv cd p r of (res, j) \<Rightarrow>
       if res \<noteq> success \<and> res \<noteq> item_not_found then (res, r)
       else rdb_update_meta kv cd p (AList.update k v j) r)"

text \<open>Here an error of the read is only reported.\<close>

definition rdb_set_meta ::
  "('c, string) kv_ops \<Rightarrow> meta_codec \<Rightarrow> string \<Rightarrow> api_meta_map \<Rightarrow> 'c meta_rdb \<Rightarrow> api_error \<times> 'c meta_rdb" where
  "rdb_set_meta kv cd p meta r =
    rdb_update_meta kv cd p (merge_meta meta (snd (get_item_meta_json kv cd p r))) r"

definition rdb_meta_ops :: "('c, string) kv_ops \<Rightarrow> meta_codec \<Rightarrow> 'c meta_rdb meta_ops" where
  "rdb_meta_ops kv cd = \<lparr>md_clear = create_or_open kv True, md_get_api_path = rdb_get_api_path kv,
    md_api_paths = rdb_api_paths kv, md_get = rdb_get_meta kv cd, md_get_key = rdb_get_meta_key kv cd,
    md_pinned = rdb_pinned kv, md_count = rdb_count kv, md_total_size = rdb_total_size kv,
    md_remove = rdb_remove_path kv cd, md_remove_key = rdb_remove_meta_key kv cd, md_rename = rdb_rename_meta kv cd,
    md_set_key = rdb_set_meta_key kv cd, md_set = rdb_set_meta kv cd\<rparr>"

section \<open>What the families stand for\<close>

definition rdb_rows :: "('c, string) kv_ops \<Rightarrow> meta_codec \<Rightarrow> 'c meta_rdb \<Rightarrow> meta_rows" where
  "rdb_rows kv cd r p =
    (case kv_get kv p (meta_family r) of
       None \<Rightarrow> None
     | Some t \<Rightarrow>
         (case parse_meta cd t of
            None \<Rightarrow> None
          | Some j \<Rightarrow> new_row ((map_of j)(''pinned'' := kv_get kv p (pinned_family r),
                                         ''size'' := kv_get kv p (size_family r)))))"

text \<open>The entries of a path are those of the row \<open>x\<close>.\<close>

definition rdb_holds :: "('c, string) kv_ops \<Rightarrow> meta_codec \<Rightarrow> 'c meta_rdb \<Rightarrow> string \<Rightarrow> meta_row \<Rightarrow> bool" where
  "rdb_holds kv cd r p x \<longleftrightarrow>
    (\<exists>t j. kv_get kv p (meta_family r) = Some t \<and> t \<noteq> [] \<and> parse_meta cd t = Some j \<and>
       (map_of j)(''pinned'' := kv_get kv p (pinned_family r), ''size'' := kv_get kv p (size_family r)) = view x \<and>
       normal_row x)"

definition rdb_void :: "('c, string) kv_ops \<Rightarrow> 'c meta_rdb \<Rightarrow> string \<Rightarrow> bool" where
  "rdb_void kv r p \<longleftrightarrow> kv_get kv p (meta_family r) = None \<and> kv_get kv p (pinned_family r) = None \<and>
    kv_get kv p (size_family r) = None"

definition rdb_sources :: "('c, string) kv_ops \<Rightarrow> 'c meta_rdb \<Rightarrow> string \<Rightarrow> string option" where
  "rdb_sources kv r s = kv_get kv s (source_family r)"

definition rdb_meta_good :: "('c, string) kv_ops \<Rightarrow> meta_codec \<Rightarrow> 'c meta_rdb \<Rightarrow> bool" where
  "rdb_meta_good kv cd r \<longleftrightarrow> (\<forall>p. rdb_void kv r p \<or> (\<exists>x. rdb_holds kv cd r p x)) \<and>
    indexed (rdb_sources kv r) (rdb_rows kv cd r)"

definition rdb_readable :: "'c meta_rdb \<Rightarrow> string \<Rightarrow> bool" where
  "rdb_readable r p \<longleftrightarrow> \<not> unreadable r p"

definition rdb_calm :: "'c meta_rdb \<Rightarrow> bool" where
  "rdb_calm r \<longleftrightarrow> (\<forall>ok \<in> set (commits r). ok)"

locale rdb_meta = column_family kv for kv :: "('c, string) kv_ops" +
  fixes cd :: meta_codec
  assumes meta_codec: "meta_codec_ok cd"
begin

lemma get_put [simp]: "kv_get kv k (kv_put kv k' v c) = (if k = k' then Some v else kv_get kv k c)"
  by (simp add: get_list list_put)

lemma get_delete [simp]: "kv_get kv k (kv_delete kv k' c) = (if k = k' then None else kv_get kv k c)"
  by (simp add: get_list list_delete)

lemma get_empty [simp]: "kv_get kv k (kv_empty kv) = None"
  by (simp add: get_list list_empty)

lemma parse_dump: "\<exists>j'. dump_meta cd j \<noteq> [] \<and> parse_meta cd (dump_meta cd j) = Some j' \<and> map_of j' = map_of j"
  using meta_codec unfolding meta_codec_ok_def by (metis (mono_tags, lifting) option.case_eq_if option.collapse)

lemma holds_rows: "rdb_holds kv cd r p x \<Longrightarrow> rdb_rows kv cd r p = Some x"
  by (auto simp: rdb_holds_def rdb_rows_def new_row_view)

lemma void_rows: "rdb_void kv r p \<Longrightarrow> rdb_rows kv cd r p = None"
  by (simp add: rdb_void_def rdb_rows_def)

lemma rows_None: "rdb_meta_good kv cd r \<Longrightarrow> rdb_rows kv cd r p = None \<longleftrightarrow> rdb_void kv r p"
  unfolding rdb_meta_good_def using holds_rows void_rows option.distinct(1) by metis

lemma rows_Some: "rdb_meta_good kv cd r \<Longrightarrow> rdb_rows kv cd r p = Some x \<longleftrightarrow> rdb_holds kv cd r p x"
  unfolding rdb_meta_good_def using holds_rows void_rows option.distinct(1) option.inject by metis

lemma rows_normal: "rdb_meta_good kv cd r \<Longrightarrow> rdb_rows kv cd r p = Some x \<Longrightarrow> normal_row x"
  by (auto simp: rows_Some rdb_holds_def)

text \<open>Families that agree on a path agree on its row.\<close>

lemma same_entries:
  assumes "kv_get kv p (meta_family r') = kv_get kv p (meta_family r)"
    "kv_get kv p (pinned_family r') = kv_get kv p (pinned_family r)"
    "kv_get kv p (size_family r') = kv_get kv p (size_family r)"
  shows "rdb_rows kv cd r' p = rdb_rows kv cd r p" "rdb_void kv r' p = rdb_void kv r p"
    "rdb_holds kv cd r' p x = rdb_holds kv cd r p x"
  by (simp_all add: rdb_rows_def rdb_void_def rdb_holds_def assms cong: option.case_cong)

lemma json_law:
  assumes g: "rdb_meta_good kv cd r" and u: "rdb_readable r p"
  shows "case rdb_rows kv cd r p of None \<Rightarrow> get_item_meta_json kv cd p r = (item_not_found, [])
    | Some x \<Rightarrow> \<exists>m. get_item_meta_json kv cd p r = (success, m) \<and> m \<noteq> [] \<and> map_of m = view x"
proof (cases "rdb_rows kv cd r p")
  case None
  then have "kv_get kv p (meta_family r) = None" using rows_None[OF g] by (simp add: rdb_void_def)
  then show ?thesis using u
    by (simp add: None get_item_meta_json_def rdb_read_def rdb_readable_def rdb_void_def)
next
  case (Some x)
  then obtain t j where h: "kv_get kv p (meta_family r) = Some t" "t \<noteq> []" "parse_meta cd t = Some j"
      "(map_of j)(''pinned'' := kv_get kv p (pinned_family r), ''size'' := kv_get kv p (size_family r)) = view x"
    using rows_Some[OF g] by (auto simp: rdb_holds_def)
  have v: "kv_get kv p (pinned_family r) = Some (from_bool (it_pinned (fst x)))"
    "kv_get kv p (size_family r) = Some (decimal (it_size (fst x)))"
    using fun_cong[OF h(4), of "''pinned''"] fun_cong[OF h(4), of "''size''"] by (simp_all add: view_def)
  let ?m = "AList.update ''size'' (decimal (it_size (fst x))) (AList.update ''pinned'' (from_bool (it_pinned (fst x))) j)"
  have m: "map_of ?m = view x" using h(4) by (simp add: v AList.update_conv')
  have n: "?m \<noteq> []" using m by (auto simp: view_def fun_eq_iff dest: spec[of _ "''directory''"])
  have "get_item_meta_json kv cd p r = (success, ?m)"
    using h u n decimal_isdigit[of "it_size (fst x)"]
    by (simp add: get_item_meta_json_def rdb_read_def rdb_readable_def v Let_def)
  then show ?thesis using Some m n by auto
qed

text \<open>Reading.\<close>

lemma get_law:
  assumes "rdb_meta_good kv cd r" "rdb_readable r p"
  shows "case rdb_rows kv cd r p of None \<Rightarrow> rdb_get_meta kv cd p r = (item_not_found, [])
    | Some x \<Rightarrow> \<exists>m. rdb_get_meta kv cd p r = (success, m) \<and> map_of m = view x"
  using json_law[OF assms] by (auto simp: rdb_get_meta_def split: option.splits)

lemma holds_texts:
  assumes "rdb_holds kv cd r p x"
  shows "kv_get kv p (pinned_family r) = Some (from_bool (it_pinned (fst x)))"
    "kv_get kv p (size_family r) = Some (decimal (it_size (fst x)))"
proof -
  obtain j where h: "(map_of j)(''pinned'' := kv_get kv p (pinned_family r), ''size'' := kv_get kv p (size_family r)) = view x"
    using assms by (auto simp: rdb_holds_def)
  show "kv_get kv p (pinned_family r) = Some (from_bool (it_pinned (fst x)))"
    "kv_get kv p (size_family r) = Some (decimal (it_size (fst x)))"
    using fun_cong[OF h, of "''pinned''"] fun_cong[OF h, of "''size''"] by (simp_all add: view_def)
qed

lemma get_key_law:
  assumes g: "rdb_meta_good kv cd r" and u: "rdb_readable r p" and x: "rdb_rows kv cd r p = Some x" and k: "view x k = Some v"
  shows "rdb_get_meta_key kv cd p k r = (success, v)"
proof -
  have "rdb_holds kv cd r p x" using rows_Some[OF g] x by simp
  note t = holds_texts[OF this]
  obtain m where m: "get_item_meta_json kv cd p r = (success, m)" "map_of m = view x"
    using json_law[OF g u] x by auto
  have "k = ''pinned'' \<or> k = ''size'' \<or> k \<noteq> ''pinned'' \<and> k \<noteq> ''size''" by blast
  then show ?thesis
    using u k m t by (elim disjE) (simp_all add: rdb_get_meta_key_def rdb_read_def rdb_readable_def view_def meta_at_def)
qed

lemma get_key_absent:
  assumes g: "rdb_meta_good kv cd r" and u: "rdb_readable r p" and n: "rdb_rows kv cd r p = None"
  shows "rdb_get_meta_key kv cd p k r = (item_not_found, [])"
  using json_law[OF g u] rows_None[OF g, of p] u n
  by (simp add: rdb_get_meta_key_def rdb_read_def rdb_readable_def rdb_void_def)

lemma source_text:
  assumes "rdb_meta_good kv cd r" "rdb_readable r p"
  shows "\<exists>res. rdb_get_meta_key kv cd p ''source'' r = (res, source_at (rdb_rows kv cd r) p) \<and>
    (res = success \<or> res = item_not_found)"
proof (cases "rdb_rows kv cd r p")
  case None
  then show ?thesis using get_key_absent[OF assms None] by (simp add: source_at_def)
next
  case (Some x)
  have "view x ''source'' = Some (it_source (fst x))" by (simp add: view_def)
  then show ?thesis using get_key_law[OF assms Some] by (simp add: source_at_def Some)
qed

lemma source_law:
  assumes "rdb_meta_good kv cd r" "rdb_readable r s" "s \<noteq> []"
  shows "source_at (rdb_rows kv cd r) p = s \<Longrightarrow> rdb_get_api_path kv s r = (success, p)"
    "(\<And>p. source_at (rdb_rows kv cd r) p \<noteq> s) \<Longrightarrow> rdb_get_api_path kv s r = (item_not_found, [])"
proof -
  have i: "kv_get kv s (source_family r) = Some p \<longleftrightarrow> source_at (rdb_rows kv cd r) p = s" for p
    using assms(1,3) by (auto simp: rdb_meta_good_def indexed_def rdb_sources_def)
  show "source_at (rdb_rows kv cd r) p = s \<Longrightarrow> rdb_get_api_path kv s r = (success, p)"
    using assms(2,3) i[of p] by (simp add: rdb_get_api_path_def rdb_read_def rdb_readable_def)
  show "(\<And>p. source_at (rdb_rows kv cd r) p \<noteq> s) \<Longrightarrow> rdb_get_api_path kv s r = (item_not_found, [])"
    using assms(2,3) i by (cases "kv_get kv s (source_family r)") (auto simp: rdb_get_api_path_def rdb_read_def rdb_readable_def)
qed

text \<open>The lists.\<close>

lemma keys_of: "set (map fst (kv_list kv c)) = {k. kv_get kv k c \<noteq> None}"
  by (auto simp: get_list map_of_eq_None_iff)

lemma families_domain:
  assumes "rdb_meta_good kv cd r"
  shows "kv_get kv p (meta_family r) \<noteq> None \<longleftrightarrow> rdb_rows kv cd r p \<noteq> None"
    "kv_get kv p (pinned_family r) \<noteq> None \<longleftrightarrow> rdb_rows kv cd r p \<noteq> None"
    "kv_get kv p (size_family r) \<noteq> None \<longleftrightarrow> rdb_rows kv cd r p \<noteq> None"
proof -
  consider "rdb_void kv r p" | x where "rdb_holds kv cd r p x" using assms unfolding rdb_meta_good_def by blast
  then have "(kv_get kv p (meta_family r) \<noteq> None \<longleftrightarrow> rdb_rows kv cd r p \<noteq> None) \<and>
    (kv_get kv p (pinned_family r) \<noteq> None \<longleftrightarrow> rdb_rows kv cd r p \<noteq> None) \<and>
    (kv_get kv p (size_family r) \<noteq> None \<longleftrightarrow> rdb_rows kv cd r p \<noteq> None)"
  proof cases
    case 1
    then show ?thesis using void_rows by (simp add: rdb_void_def)
  next
    case 2
    then show ?thesis using holds_rows[OF 2] holds_texts[OF 2] by (auto simp: rdb_holds_def)
  qed
  then show "kv_get kv p (meta_family r) \<noteq> None \<longleftrightarrow> rdb_rows kv cd r p \<noteq> None"
    "kv_get kv p (pinned_family r) \<noteq> None \<longleftrightarrow> rdb_rows kv cd r p \<noteq> None"
    "kv_get kv p (size_family r) \<noteq> None \<longleftrightarrow> rdb_rows kv cd r p \<noteq> None" by simp_all
qed

lemma list_keys:
  assumes "rdb_meta_good kv cd r"
  shows "set (map fst (kv_list kv (meta_family r))) = dom (rdb_rows kv cd r)"
    "set (map fst (kv_list kv (pinned_family r))) = dom (rdb_rows kv cd r)"
    "set (map fst (kv_list kv (size_family r))) = dom (rdb_rows kv cd r)"
  unfolding keys_of using families_domain[OF assms] by auto

lemma pinned_paths_flags:
  "\<forall>(p, v) \<in> set l. v = from_bool (f p) \<Longrightarrow> pinned_paths l = Inr (filter f (map fst l))"
  by (induction l) auto

lemma pinned_law:
  assumes g: "rdb_meta_good kv cd r"
  shows "\<exists>l. rdb_pinned kv r = Inr l \<and> distinct l \<and> set l = {p. \<exists>x. rdb_rows kv cd r p = Some x \<and> it_pinned (fst x)}"
proof -
  let ?f = "\<lambda>p. it_pinned (fst (the (rdb_rows kv cd r p)))" and ?l = "kv_list kv (pinned_family r)"
  have "\<forall>(p, v) \<in> set ?l. v = from_bool (?f p)"
  proof clarify
    fix p v assume "(p, v) \<in> set ?l"
    then have v: "kv_get kv p (pinned_family r) = Some v" using list_distinct by (simp add: get_list)
    then obtain x where "rdb_rows kv cd r p = Some x" using families_domain(2)[OF g, of p] by auto
    moreover from this have "rdb_holds kv cd r p x" using rows_Some[OF g] by simp
    ultimately show "v = from_bool (?f p)" using holds_texts(1) v by simp
  qed
  then have "rdb_pinned kv r = Inr (filter ?f (map fst ?l))" by (simp add: rdb_pinned_def pinned_paths_flags)
  moreover have "set (filter ?f (map fst ?l)) = {p. \<exists>x. rdb_rows kv cd r p = Some x \<and> it_pinned (fst x)}"
    unfolding set_filter list_keys(2)[OF g] by (auto simp: dom_def)
  ultimately show ?thesis using list_distinct by (auto intro: distinct_filter)
qed

lemma rows_size:
  assumes "rdb_meta_good kv cd r" "(p, v) \<in> set (kv_list kv (size_family r))"
  shows "v = decimal (it_size (fst (the (rdb_rows kv cd r p))))" "it_size (fst (the (rdb_rows kv cd r p))) < 2 ^ 64"
proof -
  have v: "kv_get kv p (size_family r) = Some v" using assms(2) list_distinct by (simp add: get_list)
  then obtain x where x: "rdb_rows kv cd r p = Some x" using families_domain(3)[OF assms(1), of p] by auto
  then have h: "rdb_holds kv cd r p x" using rows_Some[OF assms(1)] by simp
  show "v = decimal (it_size (fst (the (rdb_rows kv cd r p))))" using x holds_texts(2)[OF h] v by simp
  show "it_size (fst (the (rdb_rows kv cd r p))) < 2 ^ 64" using x h by (auto simp: rdb_holds_def normal_row_def)
qed

lemma add_sizes_sum:
  "\<forall>(p, v) \<in> set l. v = decimal (f p) \<and> f p < 2 ^ 64 \<Longrightarrow> n + sum_list (map f (map fst l)) < 2 ^ 64 \<Longrightarrow>
   add_sizes l n = Inr (n + sum_list (map f (map fst l)))"
proof (induction l arbitrary: n)
  case (Cons e l)
  obtain p v where e: "e = (p, v)" by (cases e)
  have "stoul v = Inr (f p)" using Cons.prems(1) stoul_decimal by (simp add: e)
  moreover have "add64 n (f p) = n + f p" using Cons.prems(2) by (simp add: e add64_def)
  ultimately show ?case using Cons.IH[of "n + f p"] Cons.prems by (simp add: e add.assoc)
qed simp

lemma total_law:
  assumes g: "rdb_meta_good kv cd r" and t: "total_size (rdb_rows kv cd r) < 2 ^ 63"
  shows "rdb_total_size kv r = Inr (total_size (rdb_rows kv cd r))"
proof -
  let ?f = "\<lambda>p. it_size (fst (the (rdb_rows kv cd r p)))" and ?l = "kv_list kv (size_family r)"
  have s: "sum_list (map ?f (map fst ?l)) = total_size (rdb_rows kv cd r)"
    unfolding total_size_def list_keys(3)[OF g, symmetric] by (rule sum_list_distinct_conv_sum_set[OF list_distinct])
  have "\<forall>(p, v) \<in> set ?l. v = decimal (?f p) \<and> ?f p < 2 ^ 64" using rows_size[OF g] by blast
  from add_sizes_sum[OF this, of 0] show ?thesis using t unfolding rdb_total_size_def s by simp
qed

lemma count_steps: "n + length l < 2 ^ 64 \<Longrightarrow> foldl (\<lambda>n _. add64 n 1) n l = n + length l"
proof (induction l arbitrary: n)
  case (Cons e l)
  then show ?case using Cons.IH[of "Suc n"] by (simp add: add64_def)
qed simp

lemma count_law:
  assumes g: "rdb_meta_good kv cd r" and c: "card (dom (rdb_rows kv cd r)) < 2 ^ 64"
  shows "rdb_count kv r = card (dom (rdb_rows kv cd r))"
proof -
  have "length (kv_list kv (meta_family r)) = card (dom (rdb_rows kv cd r))"
    using distinct_card[OF list_distinct[of "meta_family r"]] list_keys(1)[OF g] by simp
  then show ?thesis using count_steps[of 0 "kv_list kv (meta_family r)"] c by (simp add: rdb_count_def)
qed

text \<open>Writing.\<close>

lemma drop_law:
  assumes g: "rdb_meta_good kv cd r"
  shows "rdb_meta_good kv cd (drop_rows kv p (source_at (rdb_rows kv cd r) p) r)"
    "rdb_rows kv cd (drop_rows kv p (source_at (rdb_rows kv cd r) p) r) = (rdb_rows kv cd r)(p := None)"
proof -
  let ?s = "source_at (rdb_rows kv cd r) p" let ?r = "drop_rows kv p ?s r"
  have e: "q \<noteq> p \<Longrightarrow> kv_get kv q (meta_family ?r) = kv_get kv q (meta_family r)"
    "q \<noteq> p \<Longrightarrow> kv_get kv q (pinned_family ?r) = kv_get kv q (pinned_family r)"
    "q \<noteq> p \<Longrightarrow> kv_get kv q (size_family ?r) = kv_get kv q (size_family r)" for q
    by (simp_all add: drop_rows_def)
  have v: "rdb_void kv ?r p" by (simp add: rdb_void_def drop_rows_def)
  show rows: "rdb_rows kv cd ?r = (rdb_rows kv cd r)(p := None)"
    using void_rows[OF v] same_entries(1)[OF e] by (auto simp: fun_eq_iff)
  have i: "indexed (rdb_sources kv r) (rdb_rows kv cd r)" using g by (simp add: rdb_meta_good_def)
  have "rdb_sources kv r [] = None" using i by (cases "rdb_sources kv r []") (auto simp: indexed_def)
  then have "rdb_sources kv ?r = (rdb_sources kv r)(?s := None)"
    by (auto simp: fun_eq_iff rdb_sources_def drop_rows_def)
  then have "indexed (rdb_sources kv ?r) (rdb_rows kv cd ?r)" using indexed_remove[OF i, of p] rows by simp
  moreover have "rdb_void kv ?r q \<or> (\<exists>x. rdb_holds kv cd ?r q x)" for q
  proof (cases "q = p")
    case False
    show ?thesis using g unfolding rdb_meta_good_def same_entries(2,3)[OF e[OF False]] by blast
  qed (simp add: v)
  ultimately show "rdb_meta_good kv cd ?r" by (simp add: rdb_meta_good_def)
qed

lemma put_law:
  assumes g: "rdb_meta_good kv cd r" and x: "normal_row x" and pl: "placeable (rdb_rows kv cd r) p x"
    and j: "(map_of j)(''pinned'' \<mapsto> from_bool (it_pinned (fst x)), ''size'' \<mapsto> decimal (it_size (fst x))) = view x"
    and old: "case old of None \<Rightarrow> source_at (rdb_rows kv cd r) p = [] \<or> source_at (rdb_rows kv cd r) p = it_source (fst x)
      | Some s \<Rightarrow> s = source_at (rdb_rows kv cd r) p"
  shows "rdb_meta_good kv cd (put_rows kv cd p old (fst x) j r)"
    "rdb_rows kv cd (put_rows kv cd p old (fst x) j r) = (rdb_rows kv cd r)(p \<mapsto> x)"
proof -
  let ?r = "put_rows kv cd p old (fst x) j r" and ?s = "source_at (rdb_rows kv cd r) p"
  have e: "q \<noteq> p \<Longrightarrow> kv_get kv q (meta_family ?r) = kv_get kv q (meta_family r)"
    "q \<noteq> p \<Longrightarrow> kv_get kv q (pinned_family ?r) = kv_get kv q (pinned_family r)"
    "q \<noteq> p \<Longrightarrow> kv_get kv q (size_family ?r) = kv_get kv q (size_family r)" for q
    by (simp_all add: put_rows_def Let_def)
  obtain j' where d: "dump_meta cd j \<noteq> []" "parse_meta cd (dump_meta cd j) = Some j'" "map_of j' = map_of j"
    using parse_dump by blast
  have h: "rdb_holds kv cd ?r p x"
    unfolding rdb_holds_def using d j x by (simp add: put_rows_def Let_def)
  show rows: "rdb_rows kv cd ?r = (rdb_rows kv cd r)(p \<mapsto> x)"
    using holds_rows[OF h] same_entries(1)[OF e] by (auto simp: fun_eq_iff)
  have i: "indexed (rdb_sources kv r) (rdb_rows kv cd r)" using g by (simp add: rdb_meta_good_def)
  have n: "rdb_sources kv r [] = None" using i by (cases "rdb_sources kv r []") (auto simp: indexed_def)
  have "rdb_sources kv ?r = reindex (rdb_sources kv r) ?s (it_source (fst x)) p"
    using old n by (cases old) (auto simp: fun_eq_iff rdb_sources_def put_rows_def reindex_def Let_def)
  then have "indexed (rdb_sources kv ?r) (rdb_rows kv cd ?r)" using indexed_put[OF i pl] rows by simp
  moreover have "rdb_void kv ?r q \<or> (\<exists>x. rdb_holds kv cd ?r q x)" for q
  proof (cases "q = p")
    case False
    show ?thesis using g unfolding rdb_meta_good_def same_entries(2,3)[OF e[OF False]] by blast
  qed (use h in blast)
  ultimately show "rdb_meta_good kv cd ?r" by (simp add: rdb_meta_good_def)
qed

lemma rows_commits [simp]: "rdb_rows kv cd (r\<lparr>commits := cs\<rparr>) = rdb_rows kv cd r"
  by (intro ext) (simp add: rdb_rows_def cong: option.case_cong)

lemma good_commits [simp]: "rdb_meta_good kv cd (r\<lparr>commits := cs\<rparr>) = rdb_meta_good kv cd r"
proof -
  have "rdb_sources kv (r\<lparr>commits := cs\<rparr>) = rdb_sources kv r" by (intro ext) (simp add: rdb_sources_def)
  moreover have "rdb_void kv (r\<lparr>commits := cs\<rparr>) = rdb_void kv r" by (intro ext) (simp add: rdb_void_def)
  moreover have "rdb_holds kv cd (r\<lparr>commits := cs\<rparr>) = rdb_holds kv cd r" by (intro ext) (simp add: rdb_holds_def)
  ultimately show ?thesis by (simp add: rdb_meta_good_def)
qed

lemma readable_commits [simp]: "rdb_readable (r\<lparr>commits := cs\<rparr>) = rdb_readable r"
  by (intro ext) (simp add: rdb_readable_def)

lemma commit_law:
  assumes c: "rdb_commit w r = (e, r')" and g: "rdb_meta_good kv cd r"
    and w: "\<And>cs. rdb_meta_good kv cd (w (r\<lparr>commits := cs\<rparr>)) \<and> rdb_rows kv cd (w (r\<lparr>commits := cs\<rparr>)) = R \<and>
      rdb_readable (w (r\<lparr>commits := cs\<rparr>)) = rdb_readable r \<and> commits (w (r\<lparr>commits := cs\<rparr>)) = cs"
  shows "rdb_meta_good kv cd r' \<and> rdb_readable r' = rdb_readable r \<and> (rdb_calm r \<longrightarrow> rdb_calm r') \<and>
    wrote (rdb_calm r) e (rdb_rows kv cd r) R (rdb_rows kv cd r')"
proof (cases "commits r")
  case Nil
  then have "r\<lparr>commits := []\<rparr> = r" by (cases r) simp
  from w[of "[]", unfolded this] show ?thesis using c Nil by (auto simp: rdb_commit_def wrote_def rdb_calm_def)
next
  case (Cons ok rest)
  then show ?thesis using c w[of rest] g
    by (cases ok) (auto simp: rdb_commit_def wrote_def rdb_calm_def Let_def)
qed

lemma writes_keep [simp]:
  "rdb_readable (drop_rows kv p s r) = rdb_readable r" "commits (drop_rows kv p s r) = commits r"
  "rdb_readable (put_rows kv cd p old i j r) = rdb_readable r" "commits (put_rows kv cd p old i j r) = commits r"
  by (simp_all add: fun_eq_iff rdb_readable_def drop_rows_def put_rows_def Let_def)

lemma row_with_defaults:
  "new_row (map_of j) = (case row_of (with_defaults j) of Inl _ \<Rightarrow> None
     | Inr i \<Rightarrow> Some (i, \<lambda>k. if item_key k then None else map_of j k))"
  by (rule row_of_new_row)
    (simp_all add: with_defaults_def Let_def meta_at_def AList.update_conv' split: option.split)

lemma row_of_directory: "row_of j = Inr i \<Longrightarrow> \<exists>flag. map_of j ''directory'' = Some flag \<and> to_bool flag = Inr (it_directory i)"
  by (auto simp: row_of_def split: option.splits sum.splits bool.splits)

lemma plan_refused: "new_row (map_of j) = None \<Longrightarrow> plan_update kv cd p j r = Inl error"
  by (simp add: row_with_defaults plan_update_def Let_def split: sum.splits)

lemma plan_law:
  assumes g: "rdb_meta_good kv cd r" and u: "rdb_readable r p" and x: "new_row (map_of j) = Some x"
    and flag: "\<And>t. map_of j ''directory'' = Some t \<Longrightarrow> t = from_bool True \<or> t = from_bool False"
    and dir: "it_directory (fst x) \<Longrightarrow> source_at (rdb_rows kv cd r) p = []"
  obtains j' where "plan_update kv cd p j r = Inr (put_rows kv cd p
      (if source_at (rdb_rows kv cd r) p = [] \<or> source_at (rdb_rows kv cd r) p = it_source (fst x) then None
       else Some (source_at (rdb_rows kv cd r) p)) (fst x) j')"
    and "(map_of j')(''pinned'' \<mapsto> from_bool (it_pinned (fst x)), ''size'' \<mapsto> decimal (it_size (fst x))) = view x"
proof -
  let ?d = "with_defaults j"
  obtain i where i: "row_of ?d = Inr i" "x = (i, \<lambda>k. if item_key k then None else map_of j k)"
    using x unfolding row_with_defaults by (auto split: sum.splits)
  obtain res where res: "rdb_get_meta_key kv cd p ''source'' r = (res, source_at (rdb_rows kv cd r) p)"
      "res = success \<or> res = item_not_found"
    using source_text[OF g u] by blast
  have m: "map_of ?d k = map_of j k" if "k \<noteq> ''pinned''" "k \<noteq> ''size''" "k \<noteq> ''source''" for k
    using that by (simp add: with_defaults_def Let_def AList.update_conv')
  obtain t where t: "map_of j ''directory'' = Some t" "to_bool t = Inr (it_directory i)"
    using row_of_directory[OF i(1)] m[of "''directory''"] by auto
  then have f: "map_of j ''directory'' = Some (from_bool (it_directory i))" using flag[OF t(1)] by auto
  have "(map_of (stored_json i ?d))(''pinned'' \<mapsto> from_bool (it_pinned i), ''size'' \<mapsto> decimal (it_size i)) = view x"
    using f m by (auto simp: stored_json_def AList.update_conv' AList.delete_conv' view_def i(2) item_key_def fun_eq_iff)
  moreover have "plan_update kv cd p j r = Inr (put_rows kv cd p
      (if source_at (rdb_rows kv cd r) p = [] \<or> source_at (rdb_rows kv cd r) p = it_source i then None
       else Some (source_at (rdb_rows kv cd r) p)) i (stored_json i ?d))"
    using res dir by (auto simp: plan_update_def Let_def i)
  ultimately show thesis using that by (simp add: i(2))
qed

lemma update_law:
  assumes g: "rdb_meta_good kv cd r" and u: "rdb_readable r p"
    and flag: "\<And>t. map_of j ''directory'' = Some t \<Longrightarrow> t = from_bool True \<or> t = from_bool False"
    and pl: "\<And>x. new_row (map_of j) = Some x \<Longrightarrow> placeable (rdb_rows kv cd r) p x"
    and w: "rdb_update_meta kv cd p j r = (e, r')"
  shows "rdb_meta_good kv cd r' \<and> rdb_readable r' = rdb_readable r \<and> (rdb_calm r \<longrightarrow> rdb_calm r') \<and>
    placed (rdb_calm r) e (rdb_rows kv cd r) p (new_row (map_of j)) (rdb_rows kv cd r')"
proof (cases "new_row (map_of j)")
  case None
  then show ?thesis using w g plan_refused[OF None] by (auto simp: rdb_update_meta_def placed_def)
next
  case (Some x)
  have "it_directory (fst x) \<Longrightarrow> source_at (rdb_rows kv cd r) p = []" using pl[OF Some] by (simp add: placeable_def)
  then obtain j' where j': "plan_update kv cd p j r = Inr (put_rows kv cd p
      (if source_at (rdb_rows kv cd r) p = [] \<or> source_at (rdb_rows kv cd r) p = it_source (fst x) then None
       else Some (source_at (rdb_rows kv cd r) p)) (fst x) j')" (is "_ = Inr (put_rows kv cd p ?old _ _)")
    and v: "(map_of j')(''pinned'' \<mapsto> from_bool (it_pinned (fst x)), ''size'' \<mapsto> decimal (it_size (fst x))) = view x"
    using plan_law[OF g u Some flag] by metis
  have "rdb_commit (put_rows kv cd p ?old (fst x) j') r = (e, r')" using w j' by (simp add: rdb_update_meta_def)
  moreover have "rdb_meta_good kv cd (put_rows kv cd p ?old (fst x) j' (r\<lparr>commits := cs\<rparr>)) \<and>
      rdb_rows kv cd (put_rows kv cd p ?old (fst x) j' (r\<lparr>commits := cs\<rparr>)) = (rdb_rows kv cd r)(p \<mapsto> x)" for cs
    using put_law[of "r\<lparr>commits := cs\<rparr>" x p j' ?old] g new_row_normal[OF Some] pl[OF Some] v by auto
  ultimately show ?thesis using commit_law[OF _ g] by (simp add: Some placed_def)
qed

lemma json_text:
  assumes "rdb_meta_good kv cd r" "rdb_readable r p"
  shows "map_of (snd (get_item_meta_json kv cd p r)) = row_text (rdb_rows kv cd r) p"
  using json_law[OF assms] by (auto simp: row_text_def split: option.splits)

lemma row_directory:
  "row_text R p ''directory'' = Some t \<Longrightarrow> t = from_bool True \<or> t = from_bool False"
  by (auto simp: row_text_def view_def from_bool_def split: option.splits if_splits)

lemma remove_law:
  assumes g: "rdb_meta_good kv cd r" and u: "rdb_readable r p" and w: "rdb_remove_path kv cd p r = r'"
  shows "rdb_meta_good kv cd r' \<and> rdb_readable r' = rdb_readable r \<and> (rdb_calm r \<longrightarrow> rdb_calm r') \<and>
    (rdb_rows kv cd r' = (rdb_rows kv cd r)(p := None) \<or> \<not> rdb_calm r \<and> rdb_rows kv cd r' = rdb_rows kv cd r)"
proof -
  let ?s = "source_at (rdb_rows kv cd r) p"
  obtain e where c: "rdb_commit (drop_rows kv p ?s) r = (e, r')"
    using w source_text[OF g u] by (cases "rdb_commit (drop_rows kv p ?s) r") (auto simp: rdb_remove_path_def)
  have "rdb_meta_good kv cd (drop_rows kv p ?s (r\<lparr>commits := cs\<rparr>)) \<and>
      rdb_rows kv cd (drop_rows kv p ?s (r\<lparr>commits := cs\<rparr>)) = (rdb_rows kv cd r)(p := None)" for cs
    using drop_law[of "r\<lparr>commits := cs\<rparr>" p] g by simp
  then show ?thesis using commit_law[OF c g] by (auto simp: wrote_def)
qed

lemma set_law:
  assumes g: "rdb_meta_good kv cd r" and u: "rdb_readable r p" and m: "distinct (map fst m)" "proper_meta m"
    and nr: "nr = new_row (row_text (rdb_rows kv cd r) p ++ map_of m)" and pl: "\<And>y. nr = Some y \<Longrightarrow> placeable (rdb_rows kv cd r) p y"
    and w: "rdb_set_meta kv cd p m r = (e, r')"
  shows "rdb_meta_good kv cd r' \<and> rdb_readable r' = rdb_readable r \<and> (rdb_calm r \<longrightarrow> rdb_calm r') \<and>
    placed (rdb_calm r) e (rdb_rows kv cd r) p nr (rdb_rows kv cd r')"
proof -
  let ?j = "merge_meta m (snd (get_item_meta_json kv cd p r))"
  have j: "map_of ?j = row_text (rdb_rows kv cd r) p ++ map_of m" by (simp add: map_of_merge m json_text[OF g u])
  have "t = from_bool True \<or> t = from_bool False" if "map_of ?j ''directory'' = Some t" for t
    using that m(2) row_directory unfolding j by (auto simp: proper_meta_def map_add_def split: option.splits)
  then show ?thesis using update_law[OF g u _ _ w[unfolded rdb_set_meta_def]] pl unfolding j nr by blast
qed

lemma set_text_law:
  assumes g: "rdb_meta_good kv cd r" and x: "rdb_rows kv cd r p = Some x" "normal_row y" "it_source (fst y) = it_source (fst x)"
    and p: "\<And>q. q \<noteq> p \<Longrightarrow> kv_get kv q (pinned_family r') = kv_get kv q (pinned_family r) \<and>
      kv_get kv q (size_family r') = kv_get kv q (size_family r)"
    and f: "meta_family r' = meta_family r" "source_family r' = source_family r"
    and v: "(view x)(''pinned'' := kv_get kv p (pinned_family r'), ''size'' := kv_get kv p (size_family r')) = view y"
  shows "rdb_meta_good kv cd r' \<and> rdb_rows kv cd r' = (rdb_rows kv cd r)(p \<mapsto> y)"
proof -
  obtain t j where h: "kv_get kv p (meta_family r) = Some t" "t \<noteq> []" "parse_meta cd t = Some j"
      "(map_of j)(''pinned'' := kv_get kv p (pinned_family r), ''size'' := kv_get kv p (size_family r)) = view x"
    using rows_Some[OF g] x(1) by (auto simp: rdb_holds_def)
  have "(map_of j)(''pinned'' := kv_get kv p (pinned_family r'), ''size'' := kv_get kv p (size_family r')) = view y"
    using v unfolding h(4)[symmetric] by (simp add: fun_upd_twist)
  then have hp: "rdb_holds kv cd r' p y" unfolding rdb_holds_def using h x(2) by (simp add: f)
  have e: "q \<noteq> p \<Longrightarrow> rdb_rows kv cd r' q = rdb_rows kv cd r q \<and> rdb_void kv r' q = rdb_void kv r q \<and>
      (\<forall>x. rdb_holds kv cd r' q x = rdb_holds kv cd r q x)" for q
    using same_entries[of q r' r] p f by simp
  then have rows: "rdb_rows kv cd r' = (rdb_rows kv cd r)(p \<mapsto> y)" using holds_rows[OF hp] by (auto simp: fun_eq_iff)
  have "source_at (rdb_rows kv cd r') = source_at (rdb_rows kv cd r)"
    using rows x by (auto simp: fun_eq_iff source_at_def)
  moreover have "rdb_sources kv r' = rdb_sources kv r" by (simp add: fun_eq_iff rdb_sources_def f)
  ultimately have "indexed (rdb_sources kv r') (rdb_rows kv cd r')" using g by (simp add: rdb_meta_good_def indexed_def)
  moreover have "rdb_void kv r' q \<or> (\<exists>x. rdb_holds kv cd r' q x)" for q
  proof (cases "q = p")
    case False
    then show ?thesis using g e unfolding rdb_meta_good_def by simp
  qed (use hp in blast)
  ultimately show ?thesis using rows by (simp add: rdb_meta_good_def)
qed

lemma set_key_law:
  assumes g: "rdb_meta_good kv cd r" and u: "rdb_readable r p" and k: "key_settable (rdb_rows kv cd r) p k v"
    and nr: "nr = new_row ((row_text (rdb_rows kv cd r) p)(k \<mapsto> v))" and pl: "\<And>y. nr = Some y \<Longrightarrow> placeable (rdb_rows kv cd r) p y"
    and w: "rdb_set_meta_key kv cd p k v r = (e, r')"
  shows "rdb_meta_good kv cd r' \<and> rdb_readable r' = rdb_readable r \<and> (rdb_calm r \<longrightarrow> rdb_calm r') \<and>
    placed (rdb_calm r) e (rdb_rows kv cd r) p nr (rdb_rows kv cd r')"
proof -
  consider "k = ''pinned''" | "k = ''size''" | "k \<noteq> ''pinned'' \<and> k \<noteq> ''size''" by blast
  then show ?thesis
  proof cases
    case 1
    obtain x b where x: "rdb_rows kv cd r p = Some x" "\<not> it_directory (fst x)" "v = from_bool b"
      using k 1 by (auto simp: key_settable_def)
    let ?y = "(fst x\<lparr>it_pinned := b\<rparr>, snd x)" and ?w = "\<lambda>r. r\<lparr>pinned_family := kv_put kv p v (pinned_family r)\<rparr>"
    have h: "rdb_holds kv cd r p x" using rows_Some[OF g] x(1) by simp
    have n: "normal_row ?y" using h x(2) by (auto simp: rdb_holds_def normal_row_def)
    have e: "nr = Some ?y" using nr x 1 new_row_view[OF n] view_pinned[OF x(2), of b] by (simp add: row_text_def)
    have "rdb_meta_good kv cd (?w (r\<lparr>commits := cs\<rparr>)) \<and> rdb_rows kv cd (?w (r\<lparr>commits := cs\<rparr>)) = (rdb_rows kv cd r)(p \<mapsto> ?y)" for cs
      using set_text_law[of "r\<lparr>commits := cs\<rparr>" p x ?y "?w (r\<lparr>commits := cs\<rparr>)"] g n x holds_texts[OF h] view_pinned[OF x(2), of b]
      by (auto simp: view_def fun_eq_iff)
    moreover have "rdb_readable (?w (r\<lparr>commits := cs\<rparr>)) = rdb_readable r" for cs by (simp add: fun_eq_iff rdb_readable_def)
    ultimately show ?thesis using commit_law[of ?w r e r', OF _ g] w e by (simp add: rdb_set_meta_key_def 1 placed_def)
  next
    case 2
    obtain x n where x: "rdb_rows kv cd r p = Some x" "\<not> it_directory (fst x)" "v = decimal n" "n < 2 ^ 64"
      using k 2 by (auto simp: key_settable_def)
    let ?y = "(fst x\<lparr>it_size := n\<rparr>, snd x)" and ?w = "\<lambda>r. r\<lparr>size_family := kv_put kv p v (size_family r)\<rparr>"
    have h: "rdb_holds kv cd r p x" using rows_Some[OF g] x(1) by simp
    have n: "normal_row ?y" using h x(2,4) by (auto simp: rdb_holds_def normal_row_def)
    have e: "nr = Some ?y" using nr x 2 new_row_view[OF n] view_size[OF x(2), of n] by (simp add: row_text_def)
    have "rdb_meta_good kv cd (?w (r\<lparr>commits := cs\<rparr>)) \<and> rdb_rows kv cd (?w (r\<lparr>commits := cs\<rparr>)) = (rdb_rows kv cd r)(p \<mapsto> ?y)" for cs
      using set_text_law[of "r\<lparr>commits := cs\<rparr>" p x ?y "?w (r\<lparr>commits := cs\<rparr>)"] g n x holds_texts[OF h] view_size[OF x(2), of n]
      by (auto simp: view_def fun_eq_iff)
    moreover have "rdb_readable (?w (r\<lparr>commits := cs\<rparr>)) = rdb_readable r" for cs by (simp add: fun_eq_iff rdb_readable_def)
    ultimately show ?thesis using commit_law[of ?w r e r', OF _ g] w e by (simp add: rdb_set_meta_key_def 2 placed_def)
  next
    case 3
    let ?j = "AList.update k v (snd (get_item_meta_json kv cd p r))"
    have j: "map_of ?j = (row_text (rdb_rows kv cd r) p)(k \<mapsto> v)" by (simp add: AList.update_conv' json_text[OF g u])
    have "rdb_update_meta kv cd p ?j r = (e, r')"
      using w 3 json_law[OF g u] by (auto simp: rdb_set_meta_key_def split: option.splits)
    moreover have "t = from_bool True \<or> t = from_bool False" if "map_of ?j ''directory'' = Some t" for t
      using that k row_directory unfolding j by (auto simp: key_settable_def proper_meta_def split: if_splits)
    ultimately show ?thesis using update_law[OF g u, of ?j e r'] pl unfolding j nr by blast
  qed
qed

lemma remove_key_law:
  assumes g: "rdb_meta_good kv cd r" and u: "rdb_readable r p" and w: "rdb_remove_meta_key kv cd p k r = (e, r')"
  shows "rdb_meta_good kv cd r' \<and> rdb_readable r' = rdb_readable r \<and> (rdb_calm r \<longrightarrow> rdb_calm r') \<and>
    (if k \<in> set META_USED_NAMES then e = permission_denied \<and> rdb_rows kv cd r' = rdb_rows kv cd r
     else case rdb_rows kv cd r p of None \<Rightarrow> e = item_not_found \<and> rdb_rows kv cd r' = rdb_rows kv cd r
       | Some x \<Rightarrow> wrote (rdb_calm r) e (rdb_rows kv cd r) ((rdb_rows kv cd r)(p \<mapsto> (fst x, (snd x)(k := None)))) (rdb_rows kv cd r'))"
proof (cases "k \<in> set META_USED_NAMES")
  case False
  show ?thesis
  proof (cases "rdb_rows kv cd r p")
    case None
    then show ?thesis using w g False json_law[OF g u] by (auto simp: rdb_remove_meta_key_def)
  next
    case (Some x)
    obtain m where m: "get_item_meta_json kv cd p r = (success, m)" "map_of m = view x"
      using json_law[OF g u] Some by auto
    let ?y = "(fst x, (snd x)(k := None))"
    have j: "map_of (AList.delete k m) = view ?y" using view_remove[OF False, of x] by (simp add: AList.delete_conv' m(2))
    have "normal_row x" using rows_normal[OF g Some] .
    then have nr: "new_row (map_of (AList.delete k m)) = Some ?y"
      unfolding j by (intro new_row_view) (auto simp: normal_row_def)
    have "rdb_update_meta kv cd p (AList.delete k m) r = (e, r')" using w m False by (simp add: rdb_remove_meta_key_def)
    moreover have "t = from_bool True \<or> t = from_bool False" if "map_of (AList.delete k m) ''directory'' = Some t" for t
      using that unfolding j by (auto simp: view_def from_bool_def split: if_splits)
    moreover have "placeable (rdb_rows kv cd r) p ?y"
      using \<open>normal_row x\<close> Some g indexed_unique[of "rdb_sources kv r" "rdb_rows kv cd r" _ p]
      by (auto simp: placeable_def source_at_def[of _ p] normal_row_def rdb_meta_good_def)
    ultimately show ?thesis using update_law[OF g u, of "AList.delete k m" e r'] False Some unfolding nr
      by (simp add: placed_def)
  qed
qed (use w g in \<open>simp add: rdb_remove_meta_key_def\<close>)

lemma rename_law:
  assumes g: "rdb_meta_good kv cd r" and u: "rdb_readable r from" "rdb_readable r to"
    and pl: "\<And>x. rdb_rows kv cd r from = Some x \<Longrightarrow> placeable ((rdb_rows kv cd r)(from := None)) to x"
    and w: "rdb_rename_meta kv cd from to r = (e, r')"
  shows "rdb_meta_good kv cd r' \<and> rdb_readable r' = rdb_readable r \<and> (rdb_calm r \<longrightarrow> rdb_calm r') \<and>
    (case rdb_rows kv cd r from of None \<Rightarrow> e = item_not_found \<and> rdb_rows kv cd r' = rdb_rows kv cd r
     | Some x \<Rightarrow> wrote (rdb_calm r) e (rdb_rows kv cd r) ((rdb_rows kv cd r)(from := None, to \<mapsto> x)) (rdb_rows kv cd r'))"
proof (cases "rdb_rows kv cd r from")
  case None
  then show ?thesis using w g json_law[OF g u(1)] by (auto simp: rdb_rename_meta_def)
next
  case (Some x)
  let ?s = "source_at (rdb_rows kv cd r) from"
  obtain m where m: "get_item_meta_json kv cd from r = (success, m)" "map_of m = view x"
    using json_law[OF g u(1)] Some by auto
  have n: "normal_row x" using rows_normal[OF g Some] .
  have nr: "new_row (map_of m) = Some x" by (simp add: m(2) new_row_view[OF n])
  have fl: "t = from_bool True \<or> t = from_bool False" if "map_of m ''directory'' = Some t" for t
    using that by (auto simp: m(2) view_def from_bool_def split: if_splits)
  have s: "map_of m ''source'' = Some ?s" by (simp add: m(2) view_def source_at_def Some)
  have dir: "it_directory (fst x) \<Longrightarrow> source_at (rdb_rows kv cd r) to = []"
    using pl[OF Some] n Some by (cases "to = from") (auto simp: placeable_def source_at_def[of _ "from"] normal_row_def)
  obtain j' where p: "plan_update kv cd to m r = Inr (put_rows kv cd to
      (if source_at (rdb_rows kv cd r) to = [] \<or> source_at (rdb_rows kv cd r) to = it_source (fst x) then None
       else Some (source_at (rdb_rows kv cd r) to)) (fst x) j')" (is "_ = Inr (put_rows kv cd to ?old _ _)")
    and v: "(map_of j')(''pinned'' \<mapsto> from_bool (it_pinned (fst x)), ''size'' \<mapsto> decimal (it_size (fst x))) = view x"
    using plan_law[OF g u(2) nr fl dir] by metis
  let ?w = "\<lambda>r. put_rows kv cd to ?old (fst x) j' (drop_rows kv from ?s r)"
  have c: "rdb_commit ?w r = (e, r')" using w m s p by (simp add: rdb_rename_meta_def)
  have "rdb_meta_good kv cd (?w (r\<lparr>commits := cs\<rparr>)) \<and>
      rdb_rows kv cd (?w (r\<lparr>commits := cs\<rparr>)) = (rdb_rows kv cd r)(from := None, to \<mapsto> x)" for cs
  proof -
    let ?d = "drop_rows kv from ?s (r\<lparr>commits := cs\<rparr>)"
    have d: "rdb_meta_good kv cd ?d" "rdb_rows kv cd ?d = (rdb_rows kv cd r)(from := None)"
      using drop_law[of "r\<lparr>commits := cs\<rparr>" "from"] g by simp_all
    have "to = from \<Longrightarrow> source_at (rdb_rows kv cd r) to = it_source (fst x)" by (simp add: source_at_def Some)
    then have "case ?old of None \<Rightarrow> source_at (rdb_rows kv cd ?d) to = [] \<or> source_at (rdb_rows kv cd ?d) to = it_source (fst x)
      | Some s \<Rightarrow> s = source_at (rdb_rows kv cd ?d) to"
      unfolding d(2) by auto
    from put_law[OF d(1) n _ v this] show ?thesis using pl[OF Some] unfolding d(2) by simp
  qed
  then show ?thesis using commit_law[OF c g] by (simp add: Some)
qed

lemma clear_law:
  "rdb_meta_good kv cd (create_or_open kv True r) \<and> rdb_rows kv cd (create_or_open kv True r) = Map.empty"
proof -
  have v: "rdb_void kv (create_or_open kv True r) p" for p by (simp add: rdb_void_def create_or_open_def)
  then have rows: "rdb_rows kv cd (create_or_open kv True r) = Map.empty" using void_rows by (auto simp: fun_eq_iff)
  have "indexed (rdb_sources kv (create_or_open kv True r)) Map.empty"
    by (auto simp: indexed_def rdb_sources_def create_or_open_def source_at_def)
  then show ?thesis using v rows by (simp add: rdb_meta_good_def)
qed

sublocale rdb: meta_store "rdb_meta_ops kv cd" "rdb_meta_good kv cd" "rdb_rows kv cd" rdb_readable rdb_calm
proof (unfold_locales, unfold rdb_meta_ops_def meta_ops.simps)
  fix d assume g: "rdb_meta_good kv cd d"
  show "finite (dom (rdb_rows kv cd d))" unfolding list_keys(1)[OF g, symmetric] by simp
  show "distinct (rdb_api_paths kv d) \<and> set (rdb_api_paths kv d) = dom (rdb_rows kv cd d)"
    using list_distinct list_keys(1)[OF g] by (simp add: rdb_api_paths_def)
next
  fix d "from" to e d'
  assume c: "rdb_calm d" and a: "rdb_meta_good kv cd d" "rdb_readable d from" "rdb_readable d to"
    "\<And>x. rdb_rows kv cd d from = Some x \<Longrightarrow> placeable ((rdb_rows kv cd d)(from := None)) to x"
    "rdb_rename_meta kv cd from to d = (e, d')"
  show "rdb_meta_good kv cd d' \<and> rdb_readable d' = rdb_readable d \<and> rdb_calm d' \<and>
      (case rdb_rows kv cd d from of None \<Rightarrow> e = item_not_found \<and> rdb_rows kv cd d' = rdb_rows kv cd d
       | Some x \<Rightarrow> e = success \<and> rdb_rows kv cd d' = (rdb_rows kv cd d)(from := None, to \<mapsto> x))"
    using rename_law[OF a] c by (auto simp: wrote_def split: option.splits)
next
  fix d assume "rdb_meta_good kv cd d"
  have "rdb_readable (create_or_open kv True d) = rdb_readable d" "rdb_calm (create_or_open kv True d) = rdb_calm d"
    by (simp_all add: fun_eq_iff rdb_readable_def rdb_calm_def create_or_open_def)
  then show "rdb_meta_good kv cd (create_or_open kv True d) \<and> rdb_readable (create_or_open kv True d) = rdb_readable d \<and>
      (rdb_calm d \<longrightarrow> rdb_calm (create_or_open kv True d)) \<and> (rdb_rows kv cd (create_or_open kv True d) = Map.empty \<or>
      \<not> rdb_calm d \<and> rdb_rows kv cd (create_or_open kv True d) = rdb_rows kv cd d)"
    using clear_law by simp
qed (rule rows_normal get_law get_key_law get_key_absent source_law pinned_law count_law total_law remove_law remove_key_law set_law set_key_law;
     assumption)+

end

interpretation rbt_meta: rdb_meta rbt_kv pair_codec
  by unfold_locales (rule pair_codec_ok)

end
