(* ===== verification/Sqlite_Meta_Db.thy ===== *)
theory Sqlite_Meta_Db imports Meta_Db Sqlite_Upload_Db begin

text \<open>
  The SQLite implementation of the providers' database (db/impl/sqlite_meta_db.cpp): one table with
  the api path as its key.  The directory flag, the pin, the size and the source path are columns,
  the other keys are the JSON text of the column \<open>data\<close>.  A statement that fails selects nothing.
\<close>

section \<open>The operations\<close>

record sql_meta_row =
  col_data :: string
  col_directory :: int
  col_pinned :: int
  col_size :: int
  col_source_path :: string

record 't meta_sql =
  meta_table :: 't
  statements :: "bool list"                  \<comment> \<open>the outcome of the coming statements that write\<close>
  unselectable :: "string \<Rightarrow> bool"           \<comment> \<open>the keys whose rows cannot be selected\<close>

definition sql_write :: "('t \<Rightarrow> 't) \<Rightarrow> 't meta_sql \<Rightarrow> bool \<times> 't meta_sql" where
  "sql_write w q =
    (case statements q of
       [] \<Rightarrow> (True, q\<lparr>meta_table := w (meta_table q)\<rparr>)
     | ok # rest \<Rightarrow>
         let q = q\<lparr>statements := rest\<rparr> in (ok, if ok then q\<lparr>meta_table := w (meta_table q)\<rparr> else q))"

definition sql_row :: "('t, sql_meta_row) sql_ops \<Rightarrow> string \<Rightarrow> 't meta_sql \<Rightarrow> sql_meta_row option" where
  "sql_row T p q = (if unselectable q p then None else select_where T p (meta_table q))"

definition sql_clear_meta :: "('t, sql_meta_row) sql_ops \<Rightarrow> 't meta_sql \<Rightarrow> 't meta_sql" where
  "sql_clear_meta T q = snd (sql_write (delete_rows T) q)"

definition sql_get_api_path :: "('t, sql_meta_row) sql_ops \<Rightarrow> string \<Rightarrow> 't meta_sql \<Rightarrow> api_error \<times> string" where
  "sql_get_api_path T src q =
    (case List.find (\<lambda>(p, row). col_source_path row = src) (select_rows T (meta_table q)) of
       None \<Rightarrow> (item_not_found, [])
     | Some (p, row) \<Rightarrow> (success, p))"

definition sql_api_paths :: "('t, sql_meta_row) sql_ops \<Rightarrow> 't meta_sql \<Rightarrow> string list" where
  "sql_api_paths T q = map fst (select_rows T (meta_table q))"

definition sql_get_meta ::
  "('t, sql_meta_row) sql_ops \<Rightarrow> meta_codec \<Rightarrow> string \<Rightarrow> 't meta_sql \<Rightarrow> api_error \<times> api_meta_map" where
  "sql_get_meta T cd p q =
    (case sql_row T p q of
       None \<Rightarrow> (item_not_found, [])
     | Some row \<Rightarrow>
         (case parse_meta cd (col_data row) of
            None \<Rightarrow> (error, [])
          | Some j \<Rightarrow>
              (success,
               AList.update ''source'' (col_source_path row)
                (AList.update ''size'' (decimal (from_int64 (col_size row)))
                  (AList.update ''pinned'' (from_bool (col_pinned row = 1))
                    (AList.update ''directory'' (from_bool (col_directory row = 1)) j))))))"

text \<open>A key that is not in the row is a JSON null, whose conversion throws.\<close>

definition sql_get_meta_key ::
  "('t, sql_meta_row) sql_ops \<Rightarrow> meta_codec \<Rightarrow> string \<Rightarrow> string \<Rightarrow> 't meta_sql \<Rightarrow> api_error \<times> string" where
  "sql_get_meta_key T cd p k q =
    (case sql_row T p q of
       None \<Rightarrow> (item_not_found, [])
     | Some row \<Rightarrow>
         if k = ''source'' then (success, col_source_path row)
         else if k = ''pinned'' then (success, from_bool (col_pinned row = 1))
         else if k = ''directory'' then (success, from_bool (col_directory row = 1))
         else if k = ''size'' then (success, decimal (from_int64 (col_size row)))
         else case parse_meta cd (col_data row) of
           None \<Rightarrow> (error, [])
         | Some j \<Rightarrow> (case map_of j k of None \<Rightarrow> (error, []) | Some v \<Rightarrow> (success, v)))"

definition sql_pinned :: "('t, sql_meta_row) sql_ops \<Rightarrow> 't meta_sql \<Rightarrow> exn + string list" where
  "sql_pinned T q = Inr (map fst (filter (\<lambda>(p, row). col_pinned row = 1) (select_rows T (meta_table q))))"

definition sql_count :: "('t, sql_meta_row) sql_ops \<Rightarrow> 't meta_sql \<Rightarrow> nat" where
  "sql_count T q = length (select_rows T (meta_table q))"

text \<open>\<open>SUM\<close> of signed numbers; a sum that does not fit is an error of the statement.\<close>

definition sql_total_size :: "('t, sql_meta_row) sql_ops \<Rightarrow> 't meta_sql \<Rightarrow> exn + nat" where
  "sql_total_size T q =
    (let total = sum_list (map (\<lambda>(p, row). if col_directory row = 0 then col_size row else 0) (select_rows T (meta_table q)))
     in Inr (if - (2 ^ 63) \<le> total \<and> total < 2 ^ 63 then from_int64 total else 0))"

definition sql_remove_path :: "('t, sql_meta_row) sql_ops \<Rightarrow> string \<Rightarrow> 't meta_sql \<Rightarrow> 't meta_sql" where
  "sql_remove_path T p q = snd (sql_write (delete_where T p) q)"

definition fill_defaults :: "api_meta_map \<Rightarrow> api_meta_map" where
  "fill_defaults j =
    (let j = (if meta_at ''pinned'' j = [] then AList.update ''pinned'' (from_bool False) j else j);
         j = (if meta_at ''size'' j = [] then AList.update ''size'' ''0'' j else j)
     in if meta_at ''source'' j = [] then AList.update ''source'' [] j else j)"

definition sql_update_meta ::
  "('t, sql_meta_row) sql_ops \<Rightarrow> meta_codec \<Rightarrow> string \<Rightarrow> api_meta_map \<Rightarrow> 't meta_sql \<Rightarrow> api_error \<times> 't meta_sql" where
  "sql_update_meta T cd p j q =
    (let j = fill_defaults j in
     case row_of j of
       Inl _ \<Rightarrow> (error, q)
     | Inr item \<Rightarrow>
         let j = AList.delete ''source'' (AList.delete ''size'' (AList.delete ''pinned'' (AList.delete ''directory'' j)))
         in case sql_write (insert_or_replace T p
                \<lparr>col_data = dump_meta cd j, col_directory = (if it_directory item then 1 else 0),
                 col_pinned = (if it_pinned item then 1 else 0), col_size = to_int64 (it_size item),
                 col_source_path = it_source item\<rparr>) q of
              (ok, q) \<Rightarrow> (if ok then success else error, q))"

definition sql_remove_meta_key ::
  "('t, sql_meta_row) sql_ops \<Rightarrow> meta_codec \<Rightarrow> string \<Rightarrow> string \<Rightarrow> 't meta_sql \<Rightarrow> api_error \<times> 't meta_sql" where
  "sql_remove_meta_key T cd p k q =
    (if k \<in> set META_USED_NAMES then (permission_denied, q)
     else case sql_get_meta T cd p q of (res, m) \<Rightarrow>
       if res \<noteq> success then (res, q) else sql_update_meta T cd p (AList.delete k m) q)"

text \<open>Two statements: the row is gone if the second one fails.\<close>

definition sql_rename_meta ::
  "('t, sql_meta_row) sql_ops \<Rightarrow> meta_codec \<Rightarrow> string \<Rightarrow> string \<Rightarrow> 't meta_sql \<Rightarrow> api_error \<times> 't meta_sql" where
  "sql_rename_meta T cd from to q =
    (case sql_get_meta T cd from q of (res, m) \<Rightarrow>
       if res \<noteq> success then (res, q) else sql_update_meta T cd to m (sql_remove_path T from q))"

definition sql_set_meta ::
  "('t, sql_meta_row) sql_ops \<Rightarrow> meta_codec \<Rightarrow> string \<Rightarrow> api_meta_map \<Rightarrow> 't meta_sql \<Rightarrow> api_error \<times> 't meta_sql" where
  "sql_set_meta T cd p meta q = sql_update_meta T cd p (merge_meta meta (snd (sql_get_meta T cd p q))) q"

definition sql_set_meta_key ::
  "('t, sql_meta_row) sql_ops \<Rightarrow> meta_codec \<Rightarrow> string \<Rightarrow> string \<Rightarrow> string \<Rightarrow> 't meta_sql \<Rightarrow> api_error \<times> 't meta_sql" where
  "sql_set_meta_key T cd p k v q = sql_set_meta T cd p [(k, v)] q"

definition sqlite_meta_ops :: "('t, sql_meta_row) sql_ops \<Rightarrow> meta_codec \<Rightarrow> 't meta_sql meta_ops" where
  "sqlite_meta_ops T cd = \<lparr>md_clear = sql_clear_meta T, md_get_api_path = sql_get_api_path T,
    md_api_paths = sql_api_paths T, md_get = sql_get_meta T cd, md_get_key = sql_get_meta_key T cd,
    md_pinned = sql_pinned T, md_count = sql_count T, md_total_size = sql_total_size T,
    md_remove = sql_remove_path T, md_remove_key = sql_remove_meta_key T cd, md_rename = sql_rename_meta T cd,
    md_set_key = sql_set_meta_key T cd, md_set = sql_set_meta T cd\<rparr>"

section \<open>What the table stands for\<close>

definition sql_rows :: "('t, sql_meta_row) sql_ops \<Rightarrow> meta_codec \<Rightarrow> 't meta_sql \<Rightarrow> meta_rows" where
  "sql_rows T cd q p =
    (case select_where T p (meta_table q) of
       None \<Rightarrow> None
     | Some row \<Rightarrow>
         (case parse_meta cd (col_data row) of
            None \<Rightarrow> None
          | Some j \<Rightarrow> Some (\<lparr>it_directory = (col_directory row = 1), it_pinned = (col_pinned row = 1),
              it_size = from_int64 (col_size row), it_source = col_source_path row\<rparr>, map_of j)))"

definition row_holds :: "meta_codec \<Rightarrow> sql_meta_row \<Rightarrow> meta_row \<Rightarrow> bool" where
  "row_holds cd row x \<longleftrightarrow> normal_row x \<and> (\<exists>j. parse_meta cd (col_data row) = Some j \<and> map_of j = snd x) \<and>
    col_directory row = (if it_directory (fst x) then 1 else 0) \<and> col_pinned row = (if it_pinned (fst x) then 1 else 0) \<and>
    col_size row = to_int64 (it_size (fst x)) \<and> col_source_path row = it_source (fst x)"

definition distinct_sources :: "meta_rows \<Rightarrow> bool" where
  "distinct_sources R \<longleftrightarrow> (\<forall>p q. source_at R p \<noteq> [] \<and> source_at R q = source_at R p \<longrightarrow> q = p)"

definition sql_meta_good :: "('t, sql_meta_row) sql_ops \<Rightarrow> meta_codec \<Rightarrow> 't meta_sql \<Rightarrow> bool" where
  "sql_meta_good T cd q \<longleftrightarrow>
    (\<forall>p row. select_where T p (meta_table q) = Some row \<longrightarrow> (\<exists>x. row_holds cd row x)) \<and>
    distinct_sources (sql_rows T cd q)"

definition sql_readable :: "'t meta_sql \<Rightarrow> string \<Rightarrow> bool" where
  "sql_readable q p \<longleftrightarrow> \<not> unselectable q p"

definition sql_calm :: "'t meta_sql \<Rightarrow> bool" where
  "sql_calm q \<longleftrightarrow> (\<forall>ok \<in> set (statements q). ok)"

lemma find_member: "List.find P l = Some e \<Longrightarrow> e \<in> set l \<and> P e"
  by (auto simp: find_Some_iff in_set_conv_nth)

locale sqlite_meta = sql_table T for T :: "('t, sql_meta_row) sql_ops" +
  fixes cd :: meta_codec
  assumes meta_codec: "meta_codec_ok cd"
begin

lemma select_insert [simp]: "select_where T k (insert_or_replace T k' v t) = (if k = k' then Some v else select_where T k t)"
  by (simp add: select_rows_of insert_map)

lemma select_delete [simp]: "select_where T k (delete_where T k' t) = (if k = k' then None else select_where T k t)"
  by (simp add: select_rows_of delete_map)

lemma select_none [simp]: "select_where T k (delete_rows T t) = None"
  by (simp add: select_rows_of delete_rows_all)

lemma parse_dump: "\<exists>j'. parse_meta cd (dump_meta cd j) = Some j' \<and> map_of j' = map_of j"
  using meta_codec unfolding meta_codec_ok_def by (metis (mono_tags, lifting) option.case_eq_if option.collapse)

lemma holds_row:
  assumes "row_holds cd row x"
  shows "\<exists>j. parse_meta cd (col_data row) = Some j \<and> map_of j = snd x \<and>
    x = (\<lparr>it_directory = (col_directory row = 1), it_pinned = (col_pinned row = 1),
          it_size = from_int64 (col_size row), it_source = col_source_path row\<rparr>, map_of j)"
proof -
  obtain i ex where x: "x = (i, ex)" by (cases x)
  have "it_size i < 2 ^ 64" using assms by (simp add: row_holds_def normal_row_def x)
  then show ?thesis using assms by (cases i) (auto simp: row_holds_def x)
qed

lemma rows_Some:
  assumes g: "sql_meta_good T cd q"
  shows "sql_rows T cd q p = Some x \<longleftrightarrow> (\<exists>row. select_where T p (meta_table q) = Some row \<and> row_holds cd row x)"
proof
  assume "sql_rows T cd q p = Some x"
  then obtain row where r: "select_where T p (meta_table q) = Some row" by (auto simp: sql_rows_def split: option.splits)
  then obtain y where y: "row_holds cd row y" using g unfolding sql_meta_good_def by blast
  moreover have "x = y" using \<open>sql_rows T cd q p = Some x\<close> r holds_row[OF y] by (auto simp: sql_rows_def)
  ultimately show "\<exists>row. select_where T p (meta_table q) = Some row \<and> row_holds cd row x" using r by blast
next
  assume "\<exists>row. select_where T p (meta_table q) = Some row \<and> row_holds cd row x"
  then obtain row where "select_where T p (meta_table q) = Some row" "row_holds cd row x" by blast
  then show "sql_rows T cd q p = Some x" using holds_row[of row x] by (auto simp: sql_rows_def)
qed

lemma rows_None: "sql_meta_good T cd q \<Longrightarrow> sql_rows T cd q p = None \<longleftrightarrow> select_where T p (meta_table q) = None"
  using rows_Some by (metis not_Some_eq sql_meta_good_def)

lemma rows_normal: "sql_meta_good T cd q \<Longrightarrow> sql_rows T cd q p = Some x \<Longrightarrow> normal_row x"
  by (auto simp: rows_Some row_holds_def)

lemma get_law:
  assumes g: "sql_meta_good T cd q" and u: "sql_readable q p"
  shows "case sql_rows T cd q p of None \<Rightarrow> sql_get_meta T cd p q = (item_not_found, [])
    | Some x \<Rightarrow> \<exists>m. sql_get_meta T cd p q = (success, m) \<and> map_of m = view x"
proof (cases "sql_rows T cd q p")
  case None
  then show ?thesis using rows_None[OF g, of p] u by (simp add: sql_get_meta_def sql_row_def sql_readable_def)
next
  case (Some x)
  then obtain row where r: "select_where T p (meta_table q) = Some row" "row_holds cd row x" using rows_Some[OF g] by blast
  then obtain j where j: "parse_meta cd (col_data row) = Some j" "map_of j = snd x" using holds_row by blast
  have n: "normal_row x" using r(2) by (simp add: row_holds_def)
  then have "it_size (fst x) < 2 ^ 64" by (simp add: normal_row_def)
  then show ?thesis
    using r j u by (auto simp: Some sql_get_meta_def sql_row_def sql_readable_def row_holds_def view_def fun_eq_iff AList.update_conv')
qed

lemma get_key_law:
  assumes g: "sql_meta_good T cd q" and u: "sql_readable q p" and x: "sql_rows T cd q p = Some x" and k: "view x k = Some v"
  shows "sql_get_meta_key T cd p k q = (success, v)"
proof -
  obtain row where r: "select_where T p (meta_table q) = Some row" "row_holds cd row x" using rows_Some[OF g] x by blast
  then obtain j where j: "parse_meta cd (col_data row) = Some j" "map_of j = snd x" using holds_row by blast
  have "it_size (fst x) < 2 ^ 64" using r(2) by (simp add: row_holds_def normal_row_def)
  then show ?thesis
    using r j u k by (auto simp: sql_get_meta_key_def sql_row_def sql_readable_def row_holds_def view_def split: if_splits)
qed

lemma get_key_absent:
  assumes "sql_meta_good T cd q" "sql_readable q p" "sql_rows T cd q p = None"
  shows "sql_get_meta_key T cd p k q = (item_not_found, [])"
  using assms rows_None[OF assms(1), of p] by (simp add: sql_get_meta_key_def sql_row_def sql_readable_def)

lemma rows_in:
  assumes "sql_meta_good T cd q" "(p, row) \<in> set (select_rows T (meta_table q))"
  obtains x where "sql_rows T cd q p = Some x" "row_holds cd row x"
proof -
  have "select_where T p (meta_table q) = Some row" using assms(2) rows_distinct by (simp add: select_rows_of)
  then show thesis using assms(1) rows_Some[OF assms(1)] that unfolding sql_meta_good_def by blast
qed

lemma in_rows:
  assumes "sql_meta_good T cd q" "sql_rows T cd q p = Some x"
  obtains row where "(p, row) \<in> set (select_rows T (meta_table q))" "row_holds cd row x"
proof -
  obtain row where "select_where T p (meta_table q) = Some row" "row_holds cd row x"
    using assms rows_Some[OF assms(1)] by blast
  then show thesis using that map_of_SomeD by (simp add: select_rows_of) fast
qed

lemma list_keys: "sql_meta_good T cd q \<Longrightarrow> set (map fst (select_rows T (meta_table q))) = dom (sql_rows T cd q)"
proof -
  assume g: "sql_meta_good T cd q"
  have "p \<in> set (map fst (select_rows T (meta_table q))) \<longleftrightarrow> sql_rows T cd q p \<noteq> None" for p
    by (simp add: rows_None[OF g] select_rows_of map_of_eq_None_iff)
  then show ?thesis by auto
qed

lemma source_law:
  assumes g: "sql_meta_good T cd q" and s: "s \<noteq> []"
  shows "source_at (sql_rows T cd q) p = s \<Longrightarrow> sql_get_api_path T s q = (success, p)"
    "(\<And>p. source_at (sql_rows T cd q) p \<noteq> s) \<Longrightarrow> sql_get_api_path T s q = (item_not_found, [])"
proof -
  let ?find = "List.find (\<lambda>(p, row). col_source_path row = s) (select_rows T (meta_table q))"
  have src: "source_at (sql_rows T cd q) p' = col_source_path row" if r: "(p', row) \<in> set (select_rows T (meta_table q))" for p' row
  proof -
    obtain x where "sql_rows T cd q p' = Some x" "row_holds cd row x" by (rule rows_in[OF g r])
    then show ?thesis by (simp add: source_at_def row_holds_def)
  qed
  have found: "source_at (sql_rows T cd q) (fst e) = s" if "?find = Some e" for e
    using find_member[OF that] src[of "fst e" "snd e"] by (auto simp: case_prod_beta)
  show "(\<And>p. source_at (sql_rows T cd q) p \<noteq> s) \<Longrightarrow> sql_get_api_path T s q = (item_not_found, [])"
    using found by (cases ?find) (auto simp: sql_get_api_path_def)
  assume p: "source_at (sql_rows T cd q) p = s"
  then obtain x where x: "sql_rows T cd q p = Some x" using s by (auto simp: source_at_def split: option.splits)
  obtain row where r: "(p, row) \<in> set (select_rows T (meta_table q))" "row_holds cd row x" by (rule in_rows[OF g x])
  then have "?find \<noteq> None" using src[OF r(1)] p unfolding find_None_iff by fastforce
  then obtain e where e: "?find = Some e" by blast
  have "fst e = p" using found[OF e] p s g unfolding sql_meta_good_def distinct_sources_def by metis
  then show "sql_get_api_path T s q = (success, p)" using e by (cases e) (simp add: sql_get_api_path_def)
qed

lemma pinned_law:
  assumes g: "sql_meta_good T cd q"
  shows "\<exists>l. sql_pinned T q = Inr l \<and> distinct l \<and> set l = {p. \<exists>x. sql_rows T cd q p = Some x \<and> it_pinned (fst x)}"
proof -
  let ?l = "filter (\<lambda>(p, row). col_pinned row = 1) (select_rows T (meta_table q))"
  have "set (map fst ?l) = {p. \<exists>x. sql_rows T cd q p = Some x \<and> it_pinned (fst x)}"
  proof (intro subset_antisym subsetI)
    fix p assume "p \<in> set (map fst ?l)"
    then obtain row where r: "(p, row) \<in> set (select_rows T (meta_table q))" "col_pinned row = 1" by auto
    obtain x where "sql_rows T cd q p = Some x" "row_holds cd row x" by (rule rows_in[OF g r(1)])
    then show "p \<in> {p. \<exists>x. sql_rows T cd q p = Some x \<and> it_pinned (fst x)}"
      using r(2) by (intro CollectI exI[of _ x]) (simp add: row_holds_def split: if_splits)
  next
    fix p assume "p \<in> {p. \<exists>x. sql_rows T cd q p = Some x \<and> it_pinned (fst x)}"
    then obtain x where x: "sql_rows T cd q p = Some x" "it_pinned (fst x)" by auto
    obtain row where r: "(p, row) \<in> set (select_rows T (meta_table q))" "row_holds cd row x" by (rule in_rows[OF g x(1)])
    then have "(p, row) \<in> set ?l" using x(2) by (simp add: row_holds_def)
    then show "p \<in> set (map fst ?l)" by force
  qed
  moreover have "distinct (map fst ?l)" using rows_distinct by (simp add: distinct_map_filter)
  ultimately show ?thesis by (simp add: sql_pinned_def)
qed

lemma count_law: "sql_meta_good T cd q \<Longrightarrow> sql_count T q = card (dom (sql_rows T cd q))"
  using distinct_card[OF rows_distinct[of "meta_table q"]] by (simp add: sql_count_def list_keys[symmetric])

lemma total_law:
  assumes g: "sql_meta_good T cd q" and t: "total_size (sql_rows T cd q) < 2 ^ 63"
  shows "sql_total_size T q = Inr (total_size (sql_rows T cd q))"
proof -
  let ?f = "\<lambda>p. it_size (fst (the (sql_rows T cd q p)))" and ?l = "select_rows T (meta_table q)"
  have fin: "finite (dom (sql_rows T cd q))" unfolding list_keys[OF g, symmetric] by simp
  have e: "(if col_directory row = 0 then col_size row else 0) = int (?f p)" if r: "(p, row) \<in> set ?l" for p row
  proof -
    obtain x where x: "sql_rows T cd q p = Some x" "row_holds cd row x" by (rule rows_in[OF g r])
    have "?f p \<le> total_size (sql_rows T cd q)"
      unfolding total_size_def using x(1) fin by (intro member_le_sum) auto
    then have "it_size (fst x) < 2 ^ 63" using t x(1) by simp
    then have "to_int64 (it_size (fst x)) = int (it_size (fst x))" by (simp add: to_int64_def)
    then show ?thesis using x by (auto simp: row_holds_def normal_row_def)
  qed
  have "sum_list (map (\<lambda>(p, row). if col_directory row = 0 then col_size row else 0) ?l) = sum_list (map (\<lambda>p. int (?f p)) (map fst ?l))"
    unfolding map_map by (rule arg_cong[where f = sum_list], rule map_cong) (auto simp: e)
  also have "\<dots> = (\<Sum>p \<in> dom (sql_rows T cd q). int (?f p))"
    unfolding list_keys[OF g, symmetric] by (rule sum_list_distinct_conv_sum_set[OF rows_distinct])
  also have "\<dots> = int (total_size (sql_rows T cd q))" by (simp add: total_size_def)
  finally show ?thesis using t by (simp add: sql_total_size_def from_int64_def)
qed

text \<open>Writing.\<close>

lemma same_table [simp]:
  "sql_rows T cd (q\<lparr>statements := os\<rparr>) = sql_rows T cd q" "sql_meta_good T cd (q\<lparr>statements := os\<rparr>) = sql_meta_good T cd q"
  "sql_readable (q\<lparr>statements := os\<rparr>) = sql_readable q" "sql_readable (q\<lparr>meta_table := t\<rparr>) = sql_readable q"
  "statements (q\<lparr>meta_table := t\<rparr>) = statements q"
proof -
  show "sql_rows T cd (q\<lparr>statements := os\<rparr>) = sql_rows T cd q"
    by (intro ext) (simp add: sql_rows_def cong: option.case_cong)
  then show "sql_meta_good T cd (q\<lparr>statements := os\<rparr>) = sql_meta_good T cd q" by (simp add: sql_meta_good_def)
qed (simp_all add: fun_eq_iff sql_readable_def)

lemma write_law:
  assumes w: "sql_write f q = (ok, q')" and g: "sql_meta_good T cd q"
    and f: "sql_meta_good T cd (q\<lparr>meta_table := f (meta_table q)\<rparr>)" "sql_rows T cd (q\<lparr>meta_table := f (meta_table q)\<rparr>) = R"
  shows "sql_meta_good T cd q' \<and> sql_readable q' = sql_readable q \<and> (sql_calm q \<longrightarrow> sql_calm q') \<and>
    wrote (sql_calm q) (if ok then success else error) (sql_rows T cd q) R (sql_rows T cd q')"
proof (cases "statements q")
  case Nil
  then show ?thesis using w f by (auto simp: sql_write_def wrote_def sql_calm_def)
next
  case (Cons b rest)
  have t: "q\<lparr>statements := rest, meta_table := t\<rparr> = q\<lparr>meta_table := t\<rparr>\<lparr>statements := rest\<rparr>" for t by simp
  show ?thesis
  proof (cases b)
    case True
    then have "q' = q\<lparr>meta_table := f (meta_table q)\<rparr>\<lparr>statements := rest\<rparr>" "ok"
      using w Cons by (cases q, simp add: sql_write_def Let_def)+
    then show ?thesis using f by (simp only: same_table wrote_def sql_calm_def) (auto simp: Cons)
  next
    case False
    then have "q' = q\<lparr>statements := rest\<rparr>" "\<not> ok" using w by (simp_all add: sql_write_def Cons Let_def)
    then show ?thesis using g by (simp only: same_table wrote_def sql_calm_def) (simp add: Cons False)
  qed
qed

lemma distinct_sourcesD: "distinct_sources R \<Longrightarrow> source_at R q = source_at R p \<Longrightarrow> source_at R p \<noteq> [] \<Longrightarrow> q = p"
  unfolding distinct_sources_def by blast

lemma distinct_place:
  assumes d: "distinct_sources R" and pl: "placeable R p x"
  shows "distinct_sources (R(p \<mapsto> x))"
  unfolding distinct_sources_def
proof (intro allI impI)
  fix a b assume ab: "source_at (R(p \<mapsto> x)) a \<noteq> [] \<and> source_at (R(p \<mapsto> x)) b = source_at (R(p \<mapsto> x)) a"
  have "c = p" if "source_at R c = it_source (fst x)" "it_source (fst x) \<noteq> []" for c
    using pl that by (auto simp: placeable_def)
  moreover have "source_at (R(p \<mapsto> x)) c = (if c = p then it_source (fst x) else source_at R c)" for c by simp
  ultimately show "b = a" using ab distinct_sourcesD[OF d, of b a] by metis
qed

lemma distinct_drop:
  assumes d: "distinct_sources R"
  shows "distinct_sources (R(p := None))"
  unfolding distinct_sources_def
proof (intro allI impI)
  fix a b assume ab: "source_at (R(p := None)) a \<noteq> [] \<and> source_at (R(p := None)) b = source_at (R(p := None)) a"
  moreover have "source_at (R(p := None)) c = (if c = p then [] else source_at R c)" for c by simp
  ultimately show "b = a" using distinct_sourcesD[OF d, of b a] by metis
qed

lemma delete_law:
  assumes g: "sql_meta_good T cd q"
  shows "sql_meta_good T cd (q\<lparr>meta_table := delete_where T p (meta_table q)\<rparr>)"
    "sql_rows T cd (q\<lparr>meta_table := delete_where T p (meta_table q)\<rparr>) = (sql_rows T cd q)(p := None)"
proof -
  show r: "sql_rows T cd (q\<lparr>meta_table := delete_where T p (meta_table q)\<rparr>) = (sql_rows T cd q)(p := None)"
    by (intro ext) (simp add: sql_rows_def cong: option.case_cong)
  show "sql_meta_good T cd (q\<lparr>meta_table := delete_where T p (meta_table q)\<rparr>)"
    using g distinct_drop unfolding sql_meta_good_def r by simp
qed

lemma insert_law:
  assumes g: "sql_meta_good T cd q" and h: "row_holds cd row x" and pl: "placeable (sql_rows T cd q) p x"
  shows "sql_meta_good T cd (q\<lparr>meta_table := insert_or_replace T p row (meta_table q)\<rparr>)"
    "sql_rows T cd (q\<lparr>meta_table := insert_or_replace T p row (meta_table q)\<rparr>) = (sql_rows T cd q)(p \<mapsto> x)"
proof -
  show r: "sql_rows T cd (q\<lparr>meta_table := insert_or_replace T p row (meta_table q)\<rparr>) = (sql_rows T cd q)(p \<mapsto> x)"
    using holds_row[OF h] by (intro ext) (auto simp: sql_rows_def cong: option.case_cong)
  show "sql_meta_good T cd (q\<lparr>meta_table := insert_or_replace T p row (meta_table q)\<rparr>)"
    unfolding sql_meta_good_def r
  proof (intro conjI allI impI)
    fix k rw assume "select_where T k (meta_table (q\<lparr>meta_table := insert_or_replace T p row (meta_table q)\<rparr>)) = Some rw"
    then have "rw = row \<or> select_where T k (meta_table q) = Some rw" by (simp split: if_splits)
    then show "\<exists>x. row_holds cd rw x" using g h unfolding sql_meta_good_def by blast
  qed (use g distinct_place[OF _ pl] in \<open>simp add: sql_meta_good_def\<close>)
qed

lemma remove_law:
  assumes g: "sql_meta_good T cd q" and w: "sql_remove_path T p q = q'"
  shows "sql_meta_good T cd q' \<and> sql_readable q' = sql_readable q \<and> (sql_calm q \<longrightarrow> sql_calm q') \<and>
    (sql_rows T cd q' = (sql_rows T cd q)(p := None) \<or> \<not> sql_calm q \<and> sql_rows T cd q' = sql_rows T cd q)"
proof -
  obtain ok where "sql_write (delete_where T p) q = (ok, q')"
    using w by (cases "sql_write (delete_where T p) q") (simp add: sql_remove_path_def)
  from write_law[OF this g delete_law[OF g]] show ?thesis by (auto simp: wrote_def)
qed

lemma row_with_defaults:
  assumes "map_of j ''size'' \<noteq> Some []"
  shows "new_row (map_of j) = (case row_of (fill_defaults j) of Inl _ \<Rightarrow> None
     | Inr i \<Rightarrow> Some (i, \<lambda>k. if item_key k then None else map_of j k))"
  by (rule row_of_new_row)
    (use assms in \<open>simp_all add: fill_defaults_def Let_def meta_at_def AList.update_conv' split: option.split\<close>)

lemma update_law:
  assumes g: "sql_meta_good T cd q" and sz: "map_of j ''size'' \<noteq> Some []"
    and pl: "\<And>x. new_row (map_of j) = Some x \<Longrightarrow> placeable (sql_rows T cd q) p x"
    and w: "sql_update_meta T cd p j q = (e, q')"
  shows "sql_meta_good T cd q' \<and> sql_readable q' = sql_readable q \<and> (sql_calm q \<longrightarrow> sql_calm q') \<and>
    placed (sql_calm q) e (sql_rows T cd q) p (new_row (map_of j)) (sql_rows T cd q')"
proof (cases "row_of (fill_defaults j)")
  case (Inl a)
  then show ?thesis using w g row_with_defaults[OF sz] by (auto simp: sql_update_meta_def placed_def Let_def)
next
  case (Inr i)
  let ?x = "(i, \<lambda>k. if item_key k then None else map_of j k)"
  have x: "new_row (map_of j) = Some ?x" using row_with_defaults[OF sz] by (simp add: Inr)
  let ?j = "AList.delete ''source'' (AList.delete ''size'' (AList.delete ''pinned'' (AList.delete ''directory'' (fill_defaults j))))"
  let ?row = "\<lparr>col_data = dump_meta cd ?j, col_directory = (if it_directory i then 1 else 0),
    col_pinned = (if it_pinned i then 1 else 0), col_size = to_int64 (it_size i), col_source_path = it_source i\<rparr>"
  have "map_of ?j = snd ?x"
    by (auto simp: fun_eq_iff AList.delete_conv' item_key_def fill_defaults_def Let_def AList.update_conv')
  then have h: "row_holds cd ?row ?x"
    using new_row_normal[OF x] parse_dump[of ?j] by (auto simp: row_holds_def)
  obtain ok where c: "sql_write (insert_or_replace T p ?row) q = (ok, q')" "e = (if ok then success else error)"
    using w by (auto simp: sql_update_meta_def Inr Let_def split: prod.splits)
  show ?thesis unfolding x placed_def c(2) option.case by (rule write_law[OF c(1) g insert_law[OF g h pl[OF x]]])
qed

lemma view_size_text: "view x ''size'' \<noteq> Some []"
  using decimal_isdigit[of "it_size (fst x)"] by (simp add: view_def)

lemma get_text:
  assumes "sql_meta_good T cd q" "sql_readable q p"
  shows "map_of (snd (sql_get_meta T cd p q)) = row_text (sql_rows T cd q) p"
  using get_law[OF assms] by (auto simp: row_text_def split: option.splits)

lemma set_law:
  assumes g: "sql_meta_good T cd q" and u: "sql_readable q p" and m: "distinct (map fst m)" "proper_meta m"
    and nr: "nr = new_row (row_text (sql_rows T cd q) p ++ map_of m)" and pl: "\<And>y. nr = Some y \<Longrightarrow> placeable (sql_rows T cd q) p y"
    and w: "sql_set_meta T cd p m q = (e, q')"
  shows "sql_meta_good T cd q' \<and> sql_readable q' = sql_readable q \<and> (sql_calm q \<longrightarrow> sql_calm q') \<and>
    placed (sql_calm q) e (sql_rows T cd q) p nr (sql_rows T cd q')"
proof -
  let ?j = "merge_meta m (snd (sql_get_meta T cd p q))"
  have j: "map_of ?j = row_text (sql_rows T cd q) p ++ map_of m" by (simp add: map_of_merge m get_text[OF g u])
  have "map_of ?j ''size'' \<noteq> Some []"
    using m(2) view_size_text unfolding j by (auto simp: proper_meta_def row_text_def map_add_def split: option.splits)
  then show ?thesis using update_law[OF g _ _ w[unfolded sql_set_meta_def]] pl unfolding j nr by blast
qed

lemma set_key_law:
  assumes g: "sql_meta_good T cd q" and u: "sql_readable q p" and k: "key_settable (sql_rows T cd q) p k v"
    and nr: "nr = new_row ((row_text (sql_rows T cd q) p)(k \<mapsto> v))" and pl: "\<And>y. nr = Some y \<Longrightarrow> placeable (sql_rows T cd q) p y"
    and w: "sql_set_meta_key T cd p k v q = (e, q')"
  shows "sql_meta_good T cd q' \<and> sql_readable q' = sql_readable q \<and> (sql_calm q \<longrightarrow> sql_calm q') \<and>
    placed (sql_calm q) e (sql_rows T cd q) p nr (sql_rows T cd q')"
proof -
  have "row_text (sql_rows T cd q) p ++ map_of [(k, v)] = (row_text (sql_rows T cd q) p)(k \<mapsto> v)" by simp
  then show ?thesis
    using set_law[OF g u _ _ _ pl w[unfolded sql_set_meta_key_def]] k nr by (simp add: key_settable_def)
qed

lemma view_update_law:
  assumes g: "sql_meta_good T cd q" and n: "normal_row x" and m: "map_of m = view x" and pl: "placeable (sql_rows T cd q) p x"
    and w: "sql_update_meta T cd p m q = (e, q')"
  shows "sql_meta_good T cd q' \<and> sql_readable q' = sql_readable q \<and> (sql_calm q \<longrightarrow> sql_calm q') \<and>
    wrote (sql_calm q) e (sql_rows T cd q) ((sql_rows T cd q)(p \<mapsto> x)) (sql_rows T cd q')"
proof -
  have nr: "new_row (map_of m) = Some x" by (simp add: m new_row_view[OF n])
  have "map_of m ''size'' \<noteq> Some []" using view_size_text by (simp add: m)
  from update_law[OF g this _ w] show ?thesis using pl unfolding nr placed_def by simp
qed

lemma remove_key_law:
  assumes g: "sql_meta_good T cd q" and u: "sql_readable q p" and w: "sql_remove_meta_key T cd p k q = (e, q')"
  shows "sql_meta_good T cd q' \<and> sql_readable q' = sql_readable q \<and> (sql_calm q \<longrightarrow> sql_calm q') \<and>
    (if k \<in> set META_USED_NAMES then e = permission_denied \<and> sql_rows T cd q' = sql_rows T cd q
     else case sql_rows T cd q p of None \<Rightarrow> e = item_not_found \<and> sql_rows T cd q' = sql_rows T cd q
       | Some x \<Rightarrow> wrote (sql_calm q) e (sql_rows T cd q) ((sql_rows T cd q)(p \<mapsto> (fst x, (snd x)(k := None)))) (sql_rows T cd q'))"
proof (cases "k \<in> set META_USED_NAMES")
  case False
  show ?thesis
  proof (cases "sql_rows T cd q p")
    case None
    then show ?thesis using w g False get_law[OF g u] by (auto simp: sql_remove_meta_key_def)
  next
    case (Some x)
    let ?y = "(fst x, (snd x)(k := None))"
    obtain m where m: "sql_get_meta T cd p q = (success, m)" "map_of m = view x" using get_law[OF g u] Some by auto
    have n: "normal_row x" using rows_normal[OF g Some] .
    then have ny: "normal_row ?y" by (auto simp: normal_row_def)
    have j: "map_of (AList.delete k m) = view ?y" using view_remove[OF False, of x] by (simp add: AList.delete_conv' m(2))
    have s: "source_at (sql_rows T cd q) p = it_source (fst x)" by (simp add: source_at_def Some)
    have d: "distinct_sources (sql_rows T cd q)" using g by (simp add: sql_meta_good_def)
    have pl: "placeable (sql_rows T cd q) p ?y"
      using n distinct_sourcesD[OF d, of _ p] unfolding placeable_def s fst_conv by (auto simp: normal_row_def)
    have "sql_update_meta T cd p (AList.delete k m) q = (e, q')" using w m False by (simp add: sql_remove_meta_key_def)
    from view_update_law[OF g ny j pl this] show ?thesis by (simp add: Some False)
  qed
qed (use w g in \<open>simp add: sql_remove_meta_key_def\<close>)

lemma rename_law:
  assumes g: "sql_meta_good T cd q" and c: "sql_calm q" and u: "sql_readable q from"
    and pl: "\<And>x. sql_rows T cd q from = Some x \<Longrightarrow> placeable ((sql_rows T cd q)(from := None)) to x"
    and w: "sql_rename_meta T cd from to q = (e, q')"
  shows "sql_meta_good T cd q' \<and> sql_readable q' = sql_readable q \<and> sql_calm q' \<and>
    (case sql_rows T cd q from of None \<Rightarrow> e = item_not_found \<and> sql_rows T cd q' = sql_rows T cd q
     | Some x \<Rightarrow> e = success \<and> sql_rows T cd q' = (sql_rows T cd q)(from := None, to \<mapsto> x))"
proof (cases "sql_rows T cd q from")
  case None
  then show ?thesis using w g c get_law[OF g u] by (auto simp: sql_rename_meta_def)
next
  case (Some x)
  obtain m where m: "sql_get_meta T cd from q = (success, m)" "map_of m = view x" using get_law[OF g u] Some by auto
  let ?q = "sql_remove_path T from q"
  have r: "sql_meta_good T cd ?q" "sql_readable ?q = sql_readable q" "sql_calm ?q" "sql_rows T cd ?q = (sql_rows T cd q)(from := None)"
    using remove_law[OF g refl, of "from"] c by auto
  have "sql_update_meta T cd to m ?q = (e, q')" using w m by (simp add: sql_rename_meta_def)
  from view_update_law[OF r(1) rows_normal[OF g Some] m(2) _ this] show ?thesis
    using pl[OF Some] r by (auto simp: Some wrote_def)
qed

lemma clear_law:
  assumes g: "sql_meta_good T cd q"
  shows "sql_meta_good T cd (sql_clear_meta T q) \<and> sql_readable (sql_clear_meta T q) = sql_readable q \<and>
    (sql_calm q \<longrightarrow> sql_calm (sql_clear_meta T q)) \<and>
    (sql_rows T cd (sql_clear_meta T q) = Map.empty \<or> \<not> sql_calm q \<and> sql_rows T cd (sql_clear_meta T q) = sql_rows T cd q)"
proof -
  have r: "sql_rows T cd (q\<lparr>meta_table := delete_rows T (meta_table q)\<rparr>) = Map.empty" by (intro ext) (simp add: sql_rows_def)
  moreover have "sql_meta_good T cd (q\<lparr>meta_table := delete_rows T (meta_table q)\<rparr>)"
    unfolding sql_meta_good_def r by (simp add: distinct_sources_def source_at_def)
  moreover obtain ok where "sql_write (delete_rows T) q = (ok, sql_clear_meta T q)"
    by (cases "sql_write (delete_rows T) q") (simp add: sql_clear_meta_def)
  ultimately show ?thesis using write_law[OF _ g, of "delete_rows T"] by (auto simp: wrote_def)
qed

sublocale sqlite: meta_store "sqlite_meta_ops T cd" "sql_meta_good T cd" "sql_rows T cd" sql_readable sql_calm
proof (unfold_locales, unfold sqlite_meta_ops_def meta_ops.simps)
  fix d assume g: "sql_meta_good T cd d"
  show "finite (dom (sql_rows T cd d))" unfolding list_keys[OF g, symmetric] by simp
  show "distinct (sql_api_paths T d) \<and> set (sql_api_paths T d) = dom (sql_rows T cd d)"
    using rows_distinct list_keys[OF g] by (simp add: sql_api_paths_def)
qed (rule rows_normal get_law get_key_law get_key_absent source_law pinned_law count_law total_law remove_law remove_key_law
      rename_law set_law set_key_law clear_law; assumption)+

end

interpretation log_meta: sqlite_meta log_sql pair_codec
  by unfold_locales (rule pair_codec_ok)

end
