(* ===== verification/Meta_Db_Agree.thy ===== *)
theory Meta_Db_Agree imports Rdb_Meta_Db Sqlite_Meta_Db "HOL-Library.Multiset" begin

text \<open>
  The two implementations of the providers' database keep the same rows and give the same answers.
  Sequences of calls are run against the contract \<open>meta_store\<close> and against its abstract rows; the
  agreement of calls that keep its guards follows from the two instances of the contract, and
  \<open>meta_dbs_differ\<close> shows calls outside of the guards on which the two differ.
\<close>

section \<open>Runs\<close>

datatype meta_call =
    Set_row string api_meta_map
  | Set_value string string string
  | Remove_value string string
  | Move_row string string
  | Remove_row string
  | Clear_rows

fun meta_step :: "'m meta_ops \<Rightarrow> meta_call \<Rightarrow> 'm \<Rightarrow> api_error \<times> 'm" where
  "meta_step M (Set_row p m) d = md_set M p m d"
| "meta_step M (Set_value p k v) d = md_set_key M p k v d"
| "meta_step M (Remove_value p k) d = md_remove_key M p k d"
| "meta_step M (Move_row p q) d = md_rename M p q d"
| "meta_step M (Remove_row p) d = (success, md_remove M p d)"
| "meta_step M Clear_rows d = (success, md_clear M d)"

fun meta_run :: "'m meta_ops \<Rightarrow> meta_call list \<Rightarrow> 'm \<Rightarrow> api_error list \<times> 'm" where
  "meta_run M [] d = ([], d)"
| "meta_run M (c # cs) d =
    (case meta_step M c d of (e, d) \<Rightarrow> case meta_run M cs d of (es, d) \<Rightarrow> (e # es, d))"

text \<open>What the calls do to the rows.\<close>

definition put_row :: "meta_rows \<Rightarrow> string \<Rightarrow> (string \<rightharpoonup> string) \<Rightarrow> api_error \<times> meta_rows" where
  "put_row R p m = (case new_row m of None \<Rightarrow> (error, R) | Some x \<Rightarrow> (success, R(p \<mapsto> x)))"

fun rows_step :: "meta_call \<Rightarrow> meta_rows \<Rightarrow> api_error \<times> meta_rows" where
  "rows_step (Set_row p m) R = put_row R p (row_text R p ++ map_of m)"
| "rows_step (Set_value p k v) R = put_row R p ((row_text R p)(k \<mapsto> v))"
| "rows_step (Remove_value p k) R =
    (if k \<in> set META_USED_NAMES then (permission_denied, R)
     else case R p of None \<Rightarrow> (item_not_found, R) | Some x \<Rightarrow> (success, R(p \<mapsto> (fst x, (snd x)(k := None)))))"
| "rows_step (Move_row p q) R =
    (case R p of None \<Rightarrow> (item_not_found, R) | Some x \<Rightarrow> (success, R(p := None, q \<mapsto> x)))"
| "rows_step (Remove_row p) R = (success, R(p := None))"
| "rows_step Clear_rows R = (success, Map.empty)"

text \<open>
  What the contract asks of a call: a map without duplicates whose flags are printed flags, a source path
  no other row has, no directory in the place of a file.
\<close>

definition put_ok :: "meta_rows \<Rightarrow> string \<Rightarrow> (string \<rightharpoonup> string) \<Rightarrow> bool" where
  "put_ok R p m \<longleftrightarrow> (case new_row m of None \<Rightarrow> True | Some x \<Rightarrow> placeable R p x)"

fun meta_call_ok :: "meta_call \<Rightarrow> meta_rows \<Rightarrow> bool" where
  "meta_call_ok (Set_row p m) R \<longleftrightarrow> distinct (map fst m) \<and> proper_meta m \<and> put_ok R p (row_text R p ++ map_of m)"
| "meta_call_ok (Set_value p k v) R \<longleftrightarrow> key_settable R p k v \<and> put_ok R p ((row_text R p)(k \<mapsto> v))"
| "meta_call_ok (Move_row p q) R \<longleftrightarrow> (case R p of None \<Rightarrow> True | Some x \<Rightarrow> placeable (R(p := None)) q x)"
| "meta_call_ok _ R \<longleftrightarrow> True"

fun meta_calls_ok :: "meta_call list \<Rightarrow> meta_rows \<Rightarrow> bool" where
  "meta_calls_ok [] R \<longleftrightarrow> True"
| "meta_calls_ok (c # cs) R \<longleftrightarrow> meta_call_ok c R \<and> meta_calls_ok cs (snd (rows_step c R))"

text \<open>
  The guards in the terms of a caller.  An attribute (any key but the directory flag, the pin, the size and the
  source path) is set without a condition.  A pin or a size is set for a file that has a row, to a printed flag or
  number, and the source path of such a file to one that no other row has.  A whole row is written either with
  such values or where there is none yet, with a source path of its own.  A row is moved where there is none.
  Removing and clearing have no guard.
\<close>

definition fresh_source :: "meta_rows \<Rightarrow> string \<Rightarrow> string \<Rightarrow> bool" where
  "fresh_source R p src \<longleftrightarrow> src = [] \<or> (\<forall>q. q \<noteq> p \<longrightarrow> source_at R q \<noteq> src)"

definition value_guarded :: "meta_rows \<Rightarrow> string \<Rightarrow> string \<Rightarrow> string \<Rightarrow> bool" where
  "value_guarded R p k v \<longleftrightarrow> \<not> item_key k \<or>
    (\<exists>x. R p = Some x \<and> \<not> it_directory (fst x)) \<and>
    (k = ''pinned'' \<and> (\<exists>b. v = from_bool b) \<or> k = ''size'' \<and> (\<exists>n < 2 ^ 64. v = decimal n) \<or>
     k = ''source'' \<and> fresh_source R p v)"

fun guarded :: "meta_call \<Rightarrow> meta_rows \<Rightarrow> bool" where
  "guarded (Set_row p m) R \<longleftrightarrow> distinct (map fst m) \<and>
    ((\<forall>(k, v) \<in> set m. value_guarded R p k v) \<or>
     R p = None \<and> proper_meta m \<and> fresh_source R p (meta_at ''source'' m))"
| "guarded (Set_value p k v) R \<longleftrightarrow> value_guarded R p k v"
| "guarded (Move_row p q) R \<longleftrightarrow> R p = None \<or> R q = None"
| "guarded _ R \<longleftrightarrow> True"


text \<open>A call that has no guard, whatever the rows are: an attribute is set or removed, a row is removed.\<close>

fun unguarded :: "meta_call \<Rightarrow> bool" where
  "unguarded (Set_row p m) \<longleftrightarrow> distinct (map fst m) \<and> (\<forall>k \<in> fst ` set m. \<not> item_key k)"
| "unguarded (Set_value p k v) \<longleftrightarrow> \<not> item_key k"
| "unguarded (Move_row p q) \<longleftrightarrow> False"
| "unguarded _ \<longleftrightarrow> True"

lemma unguarded_guarded: "unguarded c \<Longrightarrow> guarded c R"
  by (cases c) (auto simp: value_guarded_def)















fun rows_run :: "meta_call list \<Rightarrow> meta_rows \<Rightarrow> api_error list \<times> meta_rows" where
  "rows_run [] R = ([], R)"
| "rows_run (c # cs) R =
    (case rows_step c R of (e, R) \<Rightarrow> case rows_run cs R of (es, R) \<Rightarrow> (e # es, R))"

context meta_store begin

definition sound :: "'m \<Rightarrow> bool" where
  "sound d \<longleftrightarrow> good d \<and> calm d \<and> (\<forall>p. readable d p)"

lemma soundI: "good d' \<and> readable d' = readable d \<and> (calm d \<longrightarrow> calm d') \<Longrightarrow> sound d \<Longrightarrow> sound d'"
  by (simp add: sound_def)

lemma placed_row: "placed True e R p (new_row m) R' \<Longrightarrow> put_row R p m = (e, R')"
  by (auto simp: placed_def put_row_def wrote_def split: option.splits)

lemma step_rows:
  assumes s: "sound d" and c: "meta_call_ok c (rows d)" and w: "meta_step M c d = (e, d')"
  shows "sound d' \<and> rows_step c (rows d) = (e, rows d')"
proof (cases c)
  case (Set_row p m)
  have "good d' \<and> readable d' = readable d \<and> (calm d \<longrightarrow> calm d') \<and>
      placed (calm d) e (rows d) p (new_row (row_text (rows d) p ++ map_of m)) (rows d')"
    by (rule set_law[OF _ _ _ _ refl]) (use s c w Set_row in \<open>auto simp: sound_def put_ok_def\<close>)
  then show ?thesis using s placed_row soundI by (simp add: Set_row sound_def)
next
  case (Set_value p k v)
  have "good d' \<and> readable d' = readable d \<and> (calm d \<longrightarrow> calm d') \<and>
      placed (calm d) e (rows d) p (new_row ((row_text (rows d) p)(k \<mapsto> v))) (rows d')"
    by (rule set_key_law[OF _ _ _ refl]) (use s c w Set_value in \<open>auto simp: sound_def put_ok_def\<close>)
  then show ?thesis using s placed_row soundI by (simp add: Set_value sound_def)
next
  case (Remove_value p k)
  then show ?thesis using remove_key_law[of d p k e d'] s w
    by (auto simp: sound_def wrote_def split: if_splits option.splits)
next
  case (Move_row p q)
  then show ?thesis using rename_law[of d p q e d'] s c w by (auto simp: sound_def split: option.splits)
next
  case (Remove_row p)
  then show ?thesis using remove_law[of d p d'] s w by (auto simp: sound_def)
next
  case Clear_rows
  then show ?thesis using clear_law[of d] s w by (auto simp: sound_def)
qed

lemma run_rows:
  "sound d \<Longrightarrow> meta_calls_ok cs (rows d) \<Longrightarrow> meta_run M cs d = (es, d') \<Longrightarrow>
   sound d' \<and> rows_run cs (rows d) = (es, rows d')"
proof (induction cs arbitrary: d es)
  case (Cons c cs)
  obtain e d1 where c: "meta_step M c d = (e, d1)" by (cases "meta_step M c d")
  obtain es1 d2 where r: "meta_run M cs d1 = (es1, d2)" by (cases "meta_run M cs d1")
  have "sound d1 \<and> rows_step c (rows d) = (e, rows d1)" using step_rows[OF Cons.prems(1) _ c] Cons.prems(2) by simp
  then show ?case using Cons.IH[of d1 es1] Cons.prems(2,3) c r by simp
qed auto

lemma answers:
  assumes s: "sound d" and r: "rows d = R"
  shows "case R p of None \<Rightarrow> md_get M p d = (item_not_found, []) | Some x \<Rightarrow> \<exists>m. md_get M p d = (success, m) \<and> map_of m = view x"
    "R p = None \<Longrightarrow> md_get_key M p k d = (item_not_found, [])"
    "R p = Some x \<Longrightarrow> view x k = Some v \<Longrightarrow> md_get_key M p k d = (success, v)"
    "src \<noteq> [] \<Longrightarrow> source_at R p = src \<Longrightarrow> md_get_api_path M src d = (success, p)"
    "src \<noteq> [] \<Longrightarrow> (\<And>p. source_at R p \<noteq> src) \<Longrightarrow> md_get_api_path M src d = (item_not_found, [])"
    "distinct (md_api_paths M d) \<and> set (md_api_paths M d) = dom R"
    "\<exists>l. md_pinned M d = Inr l \<and> distinct l \<and> set l = {p. \<exists>x. R p = Some x \<and> it_pinned (fst x)}"
    "card (dom R) < 2 ^ 64 \<Longrightarrow> md_count M d = card (dom R)"
    "total_size R < 2 ^ 63 \<Longrightarrow> md_total_size M d = Inr (total_size R)"
  using s r get_law[of d p] get_key_absent[of d p k] get_key_law[of d p x k v] source_law[of d src p]
    source_absent[of d src] paths_law[of d] pinned_law[of d] count_law[of d] total_law[of d]
  by (simp_all add: sound_def)

end

section \<open>RocksDB and SQLite\<close>

definition rdb_meta_new :: "('c, string) kv_ops \<Rightarrow> 'c meta_rdb" where
  "rdb_meta_new kv = \<lparr>meta_family = kv_empty kv, pinned_family = kv_empty kv, size_family = kv_empty kv,
    source_family = kv_empty kv, commits = [], unreadable = (\<lambda>k. False)\<rparr>"

definition sql_meta_new :: "'t \<Rightarrow> 't meta_sql" where
  "sql_meta_new t = \<lparr>meta_table = t, statements = [], unselectable = (\<lambda>k. False)\<rparr>"



context rdb_meta begin

lemma keeps_contract: "meta_store (rdb_meta_ops kv cd) (rdb_meta_good kv cd) (rdb_rows kv cd) rdb_readable rdb_calm"
  by (rule rdb.meta_store_axioms)

lemma new_sound: "rdb.sound (rdb_meta_new kv) \<and> rdb_rows kv cd (rdb_meta_new kv) = Map.empty"
proof -
  have "create_or_open kv True (rdb_meta_new kv) = rdb_meta_new kv" by (simp add: create_or_open_def rdb_meta_new_def)
  then show ?thesis using clear_law[of "rdb_meta_new kv"]
    by (simp add: rdb.sound_def rdb_calm_def rdb_readable_def rdb_meta_new_def)
qed

end

context sqlite_meta begin

lemma keeps_contract: "meta_store (sqlite_meta_ops T cd) (sql_meta_good T cd) (sql_rows T cd) sql_readable sql_calm"
  by (rule sqlite.meta_store_axioms)

lemma new_sound:
  assumes "select_rows T t = []"
  shows "sqlite.sound (sql_meta_new t) \<and> sql_rows T cd (sql_meta_new t) = Map.empty"
proof -
  have r: "sql_rows T cd (sql_meta_new t) = Map.empty"
    by (intro ext) (simp add: sql_rows_def sql_meta_new_def select_rows_of assms)
  then have "sql_meta_good T cd (sql_meta_new t)"
    by (simp add: sql_meta_good_def distinct_sources_def source_at_def sql_meta_new_def select_rows_of assms)
  then show ?thesis using r by (simp add: sqlite.sound_def sql_calm_def sql_readable_def sql_meta_new_def)
qed

end




section \<open>The properties\<close>


text \<open>
  Where the two differ: a key that the row does not have is an empty text in RocksDB and an error in SQLite, and
  a pin of an item that has no row is stored by RocksDB and refused by SQLite.
\<close>

theorem meta_dbs_differ:
  assumes kv: "column_family kv" "meta_codec_ok ca" and sql: "sql_table T" "meta_codec_ok cb"
    and r: "rdb_meta_good kv ca r" "rdb_readable r p" "commits r = []"
    and q: "sql_meta_good T cb q" "sql_readable q p"
  shows "rdb_rows kv ca r p = Some x \<Longrightarrow> view x k = None \<Longrightarrow> rdb_get_meta_key kv ca p k r = (success, [])"
    and "sql_rows T cb q p = Some x \<Longrightarrow> view x k = None \<Longrightarrow> sql_get_meta_key T cb p k q = (error, [])"
    and "fst (rdb_set_meta_key kv ca p ''pinned'' v r) = success"
    and "sql_rows T cb q p = None \<Longrightarrow> sql_set_meta_key T cb p ''pinned'' v q = (error, q)"
proof -
  have A: "rdb_meta kv ca" using kv by (simp add: rdb_meta_def rdb_meta_axioms_def)
  have B: "sqlite_meta T cb" using sql by (simp add: sqlite_meta_def sqlite_meta_axioms_def)
  show "rdb_get_meta_key kv ca p k r = (success, [])" if x: "rdb_rows kv ca r p = Some x" "view x k = None"
  proof -
    obtain m where "get_item_meta_json kv ca p r = (success, m)" "map_of m = view x"
      using rdb_meta.json_law[OF A r(1,2)] x(1) by auto
    moreover have "k \<noteq> ''pinned''" "k \<noteq> ''size''" using x(2) by (auto simp: view_def)
    ultimately show ?thesis using x(2) by (simp add: rdb_get_meta_key_def meta_at_def)
  qed
  show "sql_get_meta_key T cb p k q = (error, [])" if x: "sql_rows T cb q p = Some x" "view x k = None"
  proof -
    obtain row where row: "select_where T p (meta_table q) = Some row" "row_holds cb row x"
      using sqlite_meta.rows_Some[OF B q(1)] x(1) by blast
    then obtain j where "parse_meta cb (col_data row) = Some j" "map_of j = snd x" by (auto simp: row_holds_def)
    moreover have "\<not> item_key k" "snd x k = None" using x(2) by (auto simp: view_def item_key_def split: if_splits)
    ultimately show ?thesis using row(1) q(2)
      by (simp add: sql_get_meta_key_def sql_row_def sql_readable_def item_key_def)
  qed
  show "fst (rdb_set_meta_key kv ca p ''pinned'' v r) = success"
    by (simp add: rdb_set_meta_key_def rdb_commit_def r(3))
  show "sql_set_meta_key T cb p ''pinned'' v q = (error, q)" if n: "sql_rows T cb q p = None"
  proof -
    have "sql_get_meta T cb p q = (item_not_found, [])" using sqlite_meta.get_law[OF B q] n by simp
    moreover have "map_of (fill_defaults [(''pinned'', v)]) ''directory'' = None"
      by (simp add: fill_defaults_def Let_def AList.update_conv')
    ultimately show ?thesis
      by (simp add: sql_set_meta_key_def sql_set_meta_def sql_update_meta_def merge_meta_def row_of_def Let_def)
  qed
qed

text \<open>
  A sample: a file is written, pinned and moved, a directory is made, a label is set and removed, and
  three calls are refused.
\<close>

definition sample_meta_calls :: "meta_call list" where
  "sample_meta_calls = [
    Set_row ''/a'' [(''directory'', ''0''), (''size'', ''5''), (''source'', ''s1''), (''label'', ''x'')],
    Set_value ''/a'' ''pinned'' ''1'', Move_row ''/a'' ''/b'',
    Set_row ''/d'' [(''directory'', ''1'')], Remove_value ''/b'' ''label'', Remove_value ''/b'' ''size'',
    Move_row ''/a'' ''/c'', Set_row ''/e'' [(''size'', ''7'')]]"

definition sample_item :: "bool \<Rightarrow> meta_item" where
  "sample_item pin = \<lparr>it_directory = False, it_pinned = pin, it_size = 5, it_source = ''s1''\<rparr>"

definition sample_folder :: meta_row where
  "sample_folder = (\<lparr>it_directory = True, it_pinned = False, it_size = 0, it_source = []\<rparr>, Map.empty)"

definition sample_rows :: meta_rows where
  "sample_rows = [''/b'' \<mapsto> (sample_item True, Map.empty), ''/d'' \<mapsto> sample_folder]"

lemma sample_flags: "''1'' = from_bool True" "''0'' = from_bool False"
  by (simp_all add: from_bool_def)

lemma sample_numbers: "stoul ''5'' = Inr 5" "stoul ''0'' = Inr 0" "decimal 5 = ''5''"
proof -
  show d: "decimal 5 = ''5''" by code_simp
  have "decimal 0 = ''0''" by code_simp
  then show "stoul ''5'' = Inr 5" "stoul ''0'' = Inr 0" using stoul_decimal[of 5] stoul_decimal[of 0] d by simp_all
qed

lemma sample_new:
  "new_row (Map.empty ++ map_of [(''directory'', ''0''), (''size'', ''5''), (''source'', ''s1''), (''label'', ''x'')])
    = Some (sample_item False, [''label'' \<mapsto> ''x''])"
  "new_row (Map.empty ++ map_of [(''directory'', ''1'')]) = Some sample_folder"
  "new_row (Map.empty ++ map_of [(''size'', ''7'')]) = None"
  by (auto simp: new_row_def Let_def sample_flags sample_numbers sample_item_def sample_folder_def item_key_def fun_eq_iff)

lemma sample_meta_pinned:
  "new_row ((view (sample_item False, [''label'' \<mapsto> ''x'']))(''pinned'' \<mapsto> ''1'')) = Some (sample_item True, [''label'' \<mapsto> ''x''])"
proof -
  have "(view (sample_item False, m))(''pinned'' \<mapsto> ''1'') = view (sample_item True, m)" for m
    using view_pinned[of "(sample_item False, m)" True] by (simp add: sample_flags sample_item_def)
  moreover have "normal_row (sample_item True, [''label'' \<mapsto> ''x''])"
    by (auto simp: normal_row_def sample_item_def item_key_def)
  ultimately show ?thesis by (simp add: new_row_view)
qed

lemma sample_parts [simp]:
  "it_directory (sample_item b) = False" "it_pinned (sample_item b) = b" "it_size (sample_item b) = 5"
  "it_source (sample_item b) = ''s1''" "it_source (fst sample_folder) = []" "it_size (fst sample_folder) = 0"
  by (simp_all add: sample_item_def sample_folder_def)

lemma sample_run:
  "rows_run sample_meta_calls Map.empty =
    ([success, success, success, success, success, permission_denied, item_not_found, error], sample_rows)"
  by (simp add: sample_meta_calls_def put_row_def row_text_def sample_new[simplified] sample_meta_pinned item_key_def
      META_USED_NAMES_def sample_rows_def) (simp add: fun_eq_iff)

lemma sample_calls_ok: "meta_calls_ok sample_meta_calls Map.empty"
proof -
  have k: "key_settable [''/a'' \<mapsto> (sample_item False, m)] ''/a'' ''pinned'' ''1''" for m
    by (auto simp: key_settable_def proper_meta_def from_bool_def)
  show ?thesis
    by (simp add: sample_meta_calls_def put_ok_def put_row_def row_text_def sample_new[simplified] sample_meta_pinned item_key_def
      META_USED_NAMES_def k placeable_def source_at_def proper_meta_def from_bool_def)
qed




text \<open>
  C24. When the storage fails during a rename, RocksDB keeps the row where it was, while SQLite, which
  makes two statements of it, can lose it: if the first one removes the row and the second one
  fails, the row is gone from both paths.  Both report the error.
\<close>

theorem failed_rename_row:
  assumes kv: "column_family kv" "meta_codec_ok ca" and sql: "sql_table T" "meta_codec_ok cb"
    and r: "rdb_meta_good kv ca r" "rdb_readable r from" "rdb_rows kv ca r from = Some x" "commits r = False # os1"
    and q: "sql_meta_good T cb q" "sql_readable q from" "sql_rows T cb q from = Some x" "statements q = True # False # os2"
  shows "fst (rdb_rename_meta kv ca from to r) = error \<and>
      rdb_rows kv ca (snd (rdb_rename_meta kv ca from to r)) = rdb_rows kv ca r \<and>
      fst (sql_rename_meta T cb from to q) = error \<and>
      sql_rows T cb (snd (sql_rename_meta T cb from to q)) = (sql_rows T cb q)(from := None)"
proof -
  have A: "rdb_meta kv ca" using kv by (simp add: rdb_meta_def rdb_meta_axioms_def)
  have B: "sqlite_meta T cb" using sql by (simp add: sqlite_meta_def sqlite_meta_axioms_def)
  obtain m where m: "get_item_meta_json kv ca from r = (success, m)" "map_of m = view x"
    using rdb_meta.json_law[OF A r(1,2)] r(3) by auto
  then have rdb: "fst (rdb_rename_meta kv ca from to r) = error \<and>
      rdb_rows kv ca (snd (rdb_rename_meta kv ca from to r)) = rdb_rows kv ca r"
    by (simp add: rdb_rename_meta_def view_def rdb_commit_def r(4) Let_def rdb_meta.rows_commits[OF A])
  obtain m where m: "sql_get_meta T cb from q = (success, m)" "map_of m = view x"
    using sqlite_meta.get_law[OF B q(1,2)] q(3) by auto
  have d: "sql_remove_path T from q = q\<lparr>statements := False # os2, meta_table := delete_where T from (meta_table q)\<rparr>"
    by (simp add: sql_remove_path_def sql_write_def q(4) Let_def)
  have rows: "sql_rows T cb (sql_remove_path T from q) = (sql_rows T cb q)(from := None)"
    using sqlite_meta.delete_law(2)[OF B q(1), of "from"] unfolding d
    by (simp add: fun_eq_iff sql_rows_def)
  have "map_of m ''size'' \<noteq> Some []" using sqlite_meta.view_size_text[OF B] by (simp add: m(2))
  then have "new_row (map_of m) = Some x"
    using new_row_view[OF sqlite_meta.rows_normal[OF B q(1,3)]] by (simp add: m(2))
  then obtain i where "row_of (fill_defaults m) = Inr i"
    using sqlite_meta.row_with_defaults[OF B \<open>map_of m ''size'' \<noteq> Some []\<close>] by (auto split: sum.splits)
  then have "\<exists>q'. sql_rename_meta T cb from to q = (error, q') \<and> sql_rows T cb q' = sql_rows T cb (sql_remove_path T from q)"
    by (auto simp: sql_rename_meta_def m(1) sql_update_meta_def Let_def sql_write_def d fun_eq_iff sql_rows_def)
  then show ?thesis using rdb rows by auto
qed

lemma sample_rdb:
  "\<exists>r. rdb_meta_good rbt_kv pair_codec r \<and> rdb_readable r p \<and> rdb_rows rbt_kv pair_codec r = sample_rows \<and> commits r = [False]"
proof -
  obtain es d where d: "meta_run (rdb_meta_ops rbt_kv pair_codec) sample_meta_calls (rdb_meta_new rbt_kv) = (es, d)"
    by (cases "meta_run (rdb_meta_ops rbt_kv pair_codec) sample_meta_calls (rdb_meta_new rbt_kv)")
  have "rbt_meta.rdb.sound d \<and> rdb_rows rbt_kv pair_codec d = sample_rows"
    using rbt_meta.rdb.run_rows[OF _ _ d] rbt_meta.new_sound sample_calls_ok sample_run by simp
  then show ?thesis
    by (intro exI[of _ "d\<lparr>commits := [False]\<rparr>"])
      (simp add: rbt_meta.rdb.sound_def rbt_meta.rows_commits rbt_meta.good_commits rbt_meta.readable_commits)
qed

lemma sample_sql:
  "\<exists>q. sql_meta_good log_sql pair_codec q \<and> sql_readable q p \<and> sql_rows log_sql pair_codec q = sample_rows \<and>
    statements q = [True, False]"
proof -
  obtain es d where d: "meta_run (sqlite_meta_ops log_sql pair_codec) sample_meta_calls (sql_meta_new []) = (es, d)"
    by (cases "meta_run (sqlite_meta_ops log_sql pair_codec) sample_meta_calls (sql_meta_new [])")
  have "select_rows log_sql [] = ([] :: (string \<times> sql_meta_row) list)" by (simp add: log_sql_def)
  then have "log_meta.sqlite.sound d \<and> sql_rows log_sql pair_codec d = sample_rows"
    using log_meta.sqlite.run_rows[OF _ _ d] log_meta.new_sound[of "[]"] sample_calls_ok sample_run by simp
  then show ?thesis
    by (intro exI[of _ "d\<lparr>statements := [True, False]\<rparr>"])
      (simp add: log_meta.sqlite.sound_def log_meta.same_table)
qed

theorem failed_rename_row_witness:
  "\<exists>r q. fst (rdb_rename_meta rbt_kv pair_codec ''/b'' ''/c'' r) = error \<and>
     rdb_rows rbt_kv pair_codec (snd (rdb_rename_meta rbt_kv pair_codec ''/b'' ''/c'' r)) = sample_rows \<and>
     fst (sql_rename_meta log_sql pair_codec ''/b'' ''/c'' q) = error \<and>
     sql_rows log_sql pair_codec (snd (sql_rename_meta log_sql pair_codec ''/b'' ''/c'' q)) = sample_rows(''/b'' := None)"
proof -
  obtain r where r: "rdb_meta_good rbt_kv pair_codec r" "rdb_readable r ''/b''"
      "rdb_rows rbt_kv pair_codec r = sample_rows" "commits r = [False]" using sample_rdb by blast
  obtain q where q: "sql_meta_good log_sql pair_codec q" "sql_readable q ''/b''"
      "sql_rows log_sql pair_codec q = sample_rows" "statements q = [True, False]" using sample_sql by blast
  have s: "sample_rows ''/b'' = Some (sample_item True, Map.empty)" by (simp add: sample_rows_def)
  show ?thesis
    using failed_rename_row[OF rbt.column_family_axioms pair_codec_ok log_sql.sql_table_axioms pair_codec_ok
        r(1,2) _ r(4) q(1,2) _ q(4)] s unfolding r(3) q(3) by blast
qed

end
