(* ===== verification/Base_Provider.thy ===== *)
theory Base_Provider imports Meta_Db Paths File_Manager_Base begin

text \<open>
  The part of a provider that S3 and Sia share (providers/base_provider.cpp): the checks around
  every operation of the remote store, and the rows of the meta database they keep in step with
  it.  The remote operations are virtual functions of the class, here the record \<open>hooks\<close>; what
  the class offers the file manager is \<open>provider_of\<close>.

  Not recorded: the error reports (\<open>utils::error::raise_*\<close>), which change no state.
\<close>

section \<open>State and parts\<close>

record directory_item =
  di_path :: string
  di_parent :: string
  di_directory :: bool
  di_size :: nat
  di_meta :: api_meta_map

record 'h hooks =
  h_is_file :: "string \<Rightarrow> 'h \<Rightarrow> api_error \<times> bool"
  h_is_directory :: "string \<Rightarrow> 'h \<Rightarrow> api_error \<times> bool"
  h_create_directory :: "string \<Rightarrow> api_meta_map \<Rightarrow> 'h \<Rightarrow> (exn + api_error) \<times> api_meta_map \<times> 'h"
  h_create_file_extra :: "string \<Rightarrow> api_meta_map \<Rightarrow> 'h \<Rightarrow> (exn + api_error) \<times> api_meta_map \<times> 'h"
  h_directory_items :: "string \<Rightarrow> 'h \<Rightarrow> exn + (api_error \<times> directory_item list)"
  h_item_count :: "string \<Rightarrow> 'h \<Rightarrow> nat"
  h_get_file :: "string \<Rightarrow> 'h \<Rightarrow> api_error \<times> nat"          \<comment> \<open>\<open>file_size\<close> of the \<open>api_file\<close>\<close>
  h_remove_file :: "string \<Rightarrow> 'h \<Rightarrow> api_error \<times> 'h"
  h_remove_directory :: "string \<Rightarrow> 'h \<Rightarrow> api_error \<times> 'h"
  h_upload :: "string \<Rightarrow> string \<Rightarrow> 'h \<Rightarrow> (exn + api_error) \<times> 'h"
  h_rename_supported :: bool
  h_rename :: "string \<Rightarrow> string \<Rightarrow> 'h \<Rightarrow> (exn + api_error) \<times> 'h"   \<comment> \<open>the request and its answer\<close>

datatype provider_event =
    file_removed string
  | file_remove_failed string api_error
  | directory_removed string
  | directory_remove_failed string api_error
  | provider_upload_begin string string
  | provider_upload_end string api_error string
  | pin_requested string                     \<comment> \<open>\<open>fm_->download_pinned_file\<close>\<close>

record ('m, 'h) provider =
  pmeta :: 'm
  premote :: 'h
  plog :: "provider_event list"

record ('m, 'h) provider_parts =
  metaops :: "'m meta_ops"
  hookops :: "'h hooks"
  has_manager :: bool                        \<comment> \<open>\<open>fm_ != nullptr\<close>\<close>

definition raise_event :: "provider_event \<Rightarrow> ('m, 'h) provider \<Rightarrow> ('m, 'h) provider" where
  "raise_event e st = st\<lparr>plog := plog st @ [e]\<rparr>"

definition is_file :: "('m, 'h) provider_parts \<Rightarrow> string \<Rightarrow> ('m, 'h) provider \<Rightarrow> api_error \<times> bool" where
  "is_file P p st = h_is_file (hookops P) p (premote st)"

definition is_directory :: "('m, 'h) provider_parts \<Rightarrow> string \<Rightarrow> ('m, 'h) provider \<Rightarrow> api_error \<times> bool" where
  "is_directory P p st = h_is_directory (hookops P) p (premote st)"

definition get_item_meta :: "('m, 'h) provider_parts \<Rightarrow> string \<Rightarrow> ('m, 'h) provider \<Rightarrow> api_error \<times> api_meta_map" where
  "get_item_meta P p st = md_get (metaops P) p (pmeta st)"

definition get_item_meta_key ::
  "('m, 'h) provider_parts \<Rightarrow> string \<Rightarrow> string \<Rightarrow> ('m, 'h) provider \<Rightarrow> api_error \<times> string" where
  "get_item_meta_key P p k st = md_get_key (metaops P) p k (pmeta st)"

definition get_pinned_files :: "('m, 'h) provider_parts \<Rightarrow> ('m, 'h) provider \<Rightarrow> exn + string list" where
  "get_pinned_files P st = md_pinned (metaops P) (pmeta st)"

definition get_total_item_count :: "('m, 'h) provider_parts \<Rightarrow> ('m, 'h) provider \<Rightarrow> nat" where
  "get_total_item_count P st = md_count (metaops P) (pmeta st)"

definition get_used_drive_space :: "('m, 'h) provider_parts \<Rightarrow> ('m, 'h) provider \<Rightarrow> exn + nat" where
  "get_used_drive_space P st = md_total_size (metaops P) (pmeta st)"

definition remove_item_meta ::
  "('m, 'h) provider_parts \<Rightarrow> string \<Rightarrow> string \<Rightarrow> ('m, 'h) provider \<Rightarrow> api_error \<times> ('m, 'h) provider" where
  "remove_item_meta P p k st = (case md_remove_key (metaops P) p k (pmeta st) of (ret, m) \<Rightarrow> (ret, st\<lparr>pmeta := m\<rparr>))"

section \<open>Meta data\<close>

text \<open>Pinning a file asks the manager for it; an exception of \<open>to_bool\<close> leaves the row stored.\<close>

definition pin_file ::
  "('m, 'h) provider_parts \<Rightarrow> string \<Rightarrow> string \<Rightarrow> ('m, 'h) provider \<Rightarrow> (exn + api_error) \<times> ('m, 'h) provider" where
  "pin_file P p flag st =
    (case to_bool flag of
       Inl e \<Rightarrow> (Inl e, st)
     | Inr pin \<Rightarrow> (Inr success, if pin \<and> has_manager P then raise_event (pin_requested p) st else st))"

definition set_item_meta_key ::
  "('m, 'h) provider_parts \<Rightarrow> string \<Rightarrow> string \<Rightarrow> string \<Rightarrow> ('m, 'h) provider \<Rightarrow> (exn + api_error) \<times> ('m, 'h) provider" where
  "set_item_meta_key P p k v st =
    (case md_set_key (metaops P) p k v (pmeta st) of (ret, m) \<Rightarrow>
       let st = st\<lparr>pmeta := m\<rparr>
       in if ret \<noteq> success then (Inr ret, st)
          else if k = ''pinned'' then pin_file P p v st else (Inr ret, st))"

definition set_item_meta ::
  "('m, 'h) provider_parts \<Rightarrow> string \<Rightarrow> api_meta_map \<Rightarrow> ('m, 'h) provider \<Rightarrow> (exn + api_error) \<times> ('m, 'h) provider" where
  "set_item_meta P p meta st =
    (case md_set (metaops P) p meta (pmeta st) of (ret, m) \<Rightarrow>
       let st = st\<lparr>pmeta := m\<rparr>
       in if ret \<noteq> success then (Inr ret, st)
          else case map_of meta ''pinned'' of Some v \<Rightarrow> pin_file P p v st | None \<Rightarrow> (Inr ret, st))"

section \<open>Creating\<close>

definition upload_file ::
  "('m, 'h) provider_parts \<Rightarrow> string \<Rightarrow> string \<Rightarrow> ('m, 'h) provider \<Rightarrow> api_error \<times> ('m, 'h) provider" where
  "upload_file P p src st =
    (case h_upload (hookops P) p src (premote st) of (r, h) \<Rightarrow>
       let st = (raise_event (provider_upload_begin p src) st)\<lparr>premote := h\<rparr>;
           res = (case r of Inl _ \<Rightarrow> error | Inr e \<Rightarrow> e)
       in (res, raise_event (provider_upload_end p res src) st))"

text \<open>The outer \<open>try\<close> turns an exception into \<open>error\<close>.\<close>

definition caught :: "(exn + api_error) \<times> 's \<Rightarrow> api_error \<times> 's" where
  "caught r = (case r of (Inl _, st) \<Rightarrow> (error, st) | (Inr e, st) \<Rightarrow> (e, st))"

definition create_directory ::
  "('m, 'h) provider_parts \<Rightarrow> string \<Rightarrow> api_meta_map \<Rightarrow> ('m, 'h) provider \<Rightarrow> api_error \<times> ('m, 'h) provider" where
  "create_directory P p meta st =
    (case is_directory P p st of (res, exists) \<Rightarrow>
       if res \<noteq> success then (res, st)
       else if exists then (directory_exists, st)
     else case is_file P p st of (res, exists) \<Rightarrow>
       if res \<noteq> success then (res, st)
       else if exists then (item_exists, st)
     else case h_create_directory (hookops P) p meta (premote st) of (r, meta, h) \<Rightarrow>
       let st = st\<lparr>premote := h\<rparr> in
       (case r of
          Inl _ \<Rightarrow> (error, st)
        | Inr res \<Rightarrow>
            if res \<noteq> success then (res, st)
            else caught (set_item_meta P p (AList.update ''directory'' (from_bool True) meta) st)))"

definition create_directory_clone_source_meta ::
  "('m, 'h) provider_parts \<Rightarrow> string \<Rightarrow> string \<Rightarrow> ('m, 'h) provider \<Rightarrow> api_error \<times> ('m, 'h) provider" where
  "create_directory_clone_source_meta P src p st =
    (case is_file P src st of (res, exists) \<Rightarrow>
       if res \<noteq> success then (res, st)
       else if exists then (item_exists, st)
     else case is_directory P p st of (res, exists) \<Rightarrow>
       if res \<noteq> success then (res, st)
       else if exists then (directory_exists, st)
     else case is_file P p st of (res, exists) \<Rightarrow>
       if res \<noteq> success then (res, st)
       else if exists then (item_exists, st)
     else case get_item_meta P src st of (res, meta) \<Rightarrow>
       if res \<noteq> success then (if res = item_not_found then directory_not_found else res, st)
       else create_directory P p meta st)"

text \<open>A file whose first upload fails loses its row again.\<close>

definition create_file ::
  "('m, 'h) provider_parts \<Rightarrow> string \<Rightarrow> api_meta_map \<Rightarrow> ('m, 'h) provider \<Rightarrow> api_error \<times> ('m, 'h) provider" where
  "create_file P p meta st =
    (case is_directory P p st of (res, exists) \<Rightarrow>
       if res \<noteq> success \<and> res \<noteq> item_not_found then (res, st)
       else if exists then (directory_exists, st)
     else case is_file P p st of (res, exists) \<Rightarrow>
       if res \<noteq> success \<and> res \<noteq> item_not_found then (res, st)
       else if exists then (item_exists, st)
     else case h_create_file_extra (hookops P) p meta (premote st) of (r, meta, h) \<Rightarrow>
       let st = st\<lparr>premote := h\<rparr> in
       (case r of
          Inl _ \<Rightarrow> (error, st)
        | Inr res \<Rightarrow>
            if res \<noteq> success then (res, st)
            else let meta = AList.update ''directory'' (from_bool False) meta in
            case caught (set_item_meta P p meta st) of (res, st) \<Rightarrow>
              if res \<noteq> success then (res, st)
              else case upload_file P p (meta_at ''source'' meta) st of (res, st) \<Rightarrow>
                (res, if res \<noteq> success then st\<lparr>pmeta := md_remove (metaops P) p (pmeta st)\<rparr> else st)))"

section \<open>Looking up\<close>

definition get_api_path_from_source :: "('m, 'h) provider_parts \<Rightarrow> string \<Rightarrow> ('m, 'h) provider \<Rightarrow> api_error \<times> string" where
  "get_api_path_from_source P src st =
    (if src = [] then (item_not_found, []) else md_get_api_path (metaops P) src (pmeta st))"

text \<open>\<open>get_parent_api_path\<close> always returns (\<open>parent_of_total\<close>).\<close>

definition parent_of :: "string \<Rightarrow> string" where
  "parent_of p = (case get_parent_api_path p of Some (Inr q) \<Rightarrow> q | _ \<Rightarrow> [])"

definition no_item :: filesystem_item where
  "no_item = \<lparr>api_path = [], api_parent = [], directory = False, item_size = 0, source_path = []\<rparr>"

text \<open>A size that is no number is an exception.\<close>

definition get_filesystem_item ::
  "('m, 'h) provider_parts \<Rightarrow> string \<Rightarrow> bool \<Rightarrow> ('m, 'h) provider \<Rightarrow> exn + (api_error \<times> filesystem_item)" where
  "get_filesystem_item P p dir st =
    (case is_directory P p st of (res, exists) \<Rightarrow>
       if res \<noteq> success then Inr (res, no_item)
       else if dir \<and> \<not> exists then Inr (directory_not_found, no_item)
     else case is_file P p st of (res, exists) \<Rightarrow>
       if res \<noteq> success then Inr (res, no_item)
       else if \<not> dir \<and> \<not> exists then Inr (item_not_found, no_item)
     else case get_item_meta P p st of (res, meta) \<Rightarrow>
       if res \<noteq> success then Inr (res, no_item)
     else case (if dir then Inr 0 else stoul (meta_at ''size'' meta)) of
       Inl e \<Rightarrow> Inl e
     | Inr n \<Rightarrow> Inr (success, \<lparr>api_path = p, api_parent = parent_of p, directory = dir, item_size = n,
                               source_path = meta_at ''source'' meta\<rparr>))"

definition get_filesystem_item_from_source_path ::
  "('m, 'h) provider_parts \<Rightarrow> string \<Rightarrow> ('m, 'h) provider \<Rightarrow> exn + (api_error \<times> filesystem_item)" where
  "get_filesystem_item_from_source_path P src st =
    (case get_api_path_from_source P src st of (res, p) \<Rightarrow>
       if res \<noteq> success then Inr (res, no_item) else get_filesystem_item P p False st)"

definition get_directory_item :: "('m, 'h) provider_parts \<Rightarrow> string \<Rightarrow> ('m, 'h) provider \<Rightarrow> api_error \<times> directory_item option" where
  "get_directory_item P p st =
    (case is_directory P p st of (ret, dir) \<Rightarrow>
       if ret \<noteq> success then (ret, None)
     else case get_filesystem_item P p dir st of
       Inl _ \<Rightarrow> (error, None)
     | Inr (ret, item) \<Rightarrow>
         if ret \<noteq> success then (ret, None)
         else case get_item_meta P p st of (ret, meta) \<Rightarrow>
           if ret \<noteq> success then (ret, None)
           else (ret, Some \<lparr>di_path = api_path item, di_parent = api_parent item, di_directory = directory item,
                            di_size = item_size item, di_meta = meta\<rparr>))"

definition get_file_size :: "('m, 'h) provider_parts \<Rightarrow> string \<Rightarrow> ('m, 'h) provider \<Rightarrow> api_error \<times> nat" where
  "get_file_size P p st =
    (case is_directory P p st of (res, exists) \<Rightarrow>
       if res \<noteq> success then (res, 0)
       else if exists then (directory_exists, 0)
       else h_get_file (hookops P) p (premote st))"

text \<open>
  Directories come first, then the paths in order.  \<open>std::sort\<close> leaves open how equal items are
  ordered; insertion keeps them in the order they had.
\<close>

definition item_before :: "directory_item \<Rightarrow> directory_item \<Rightarrow> bool" where
  "item_before a b \<longleftrightarrow> (di_directory a \<and> \<not> di_directory b) \<or>
    (\<not> (di_directory b \<and> \<not> di_directory a) \<and> di_path a < di_path b)"

fun insert_item :: "directory_item \<Rightarrow> directory_item list \<Rightarrow> directory_item list" where
  "insert_item x [] = [x]"
| "insert_item x (y # ys) = (if item_before y x then y # insert_item x ys else x # y # ys)"

definition sort_items :: "directory_item list \<Rightarrow> directory_item list" where
  "sort_items l = foldr insert_item l []"

definition dots :: "directory_item list" where
  "dots = map (\<lambda>p. \<lparr>di_path = p, di_parent = [], di_directory = True, di_size = 0,
    di_meta = [(''directory'', from_bool True)]\<rparr>) [''.'', ''..'']"

definition get_directory_items ::
  "('m, 'h) provider_parts \<Rightarrow> string \<Rightarrow> ('m, 'h) provider \<Rightarrow> api_error \<times> directory_item list" where
  "get_directory_items P p st =
    (case is_directory P p st of (res, exists) \<Rightarrow>
       if res \<noteq> success then (res, [])
       else if \<not> exists then (if snd (is_file P p st) then item_exists else directory_not_found, [])
     else case h_directory_items (hookops P) p (premote st) of
       Inl _ \<Rightarrow> (error, [])
     | Inr (res, l) \<Rightarrow> if res \<noteq> success then (res, l) else (success, dots @ sort_items l))"

section \<open>Removing and renaming\<close>

definition remove_file_ended :: "string \<Rightarrow> api_error \<Rightarrow> ('m, 'h) provider \<Rightarrow> api_error \<times> ('m, 'h) provider" where
  "remove_file_ended p e st = (e, raise_event (if e = success then file_removed p else file_remove_failed p e) st)"

definition remove_file_meta :: "('m, 'h) provider_parts \<Rightarrow> string \<Rightarrow> ('m, 'h) provider \<Rightarrow> api_error \<times> ('m, 'h) provider" where
  "remove_file_meta P p st =
    remove_file_ended p (fst (get_item_meta P p st)) (st\<lparr>pmeta := md_remove (metaops P) p (pmeta st)\<rparr>)"

definition provider_remove_file :: "('m, 'h) provider_parts \<Rightarrow> string \<Rightarrow> ('m, 'h) provider \<Rightarrow> api_error \<times> ('m, 'h) provider" where
  "provider_remove_file P p st =
    (case is_directory P p st of (res, exists) \<Rightarrow>
       if res \<noteq> success then remove_file_ended p res st
       else if exists then remove_file_ended p directory_exists st
     else case is_file P p st of (res, exists) \<Rightarrow>
       if res \<noteq> success then remove_file_ended p res st
       else if \<not> exists then remove_file_meta P p (raise_event (file_remove_failed p item_not_found) st)
     else case h_remove_file (hookops P) p (premote st) of (res, h) \<Rightarrow>
       let st = st\<lparr>premote := h\<rparr> in
       if res \<noteq> success then remove_file_ended p res st else remove_file_meta P p st)"

definition remove_directory_ended :: "string \<Rightarrow> api_error \<Rightarrow> ('m, 'h) provider \<Rightarrow> api_error \<times> ('m, 'h) provider" where
  "remove_directory_ended p e st =
    (e, raise_event (if e = success then directory_removed p else directory_remove_failed p e) st)"

definition provider_remove_directory ::
  "('m, 'h) provider_parts \<Rightarrow> string \<Rightarrow> ('m, 'h) provider \<Rightarrow> api_error \<times> ('m, 'h) provider" where
  "provider_remove_directory P p st =
    (case is_directory P p st of (res, exists) \<Rightarrow>
       if res \<noteq> success then remove_directory_ended p res st
       else if \<not> exists then remove_directory_ended p item_not_found st
     else case h_remove_directory (hookops P) p (premote st) of (res, h) \<Rightarrow>
       let st = st\<lparr>premote := h\<rparr> in
       if res \<noteq> success then remove_directory_ended p res st
       else remove_directory_ended p success (st\<lparr>pmeta := md_remove (metaops P) p (pmeta st)\<rparr>))"

text \<open>\<open>rename_file\<close> of Sia (providers/sia/sia_provider.cpp); S3 and the encrypting provider answer \<open>not_implemented\<close>.\<close>

definition provider_rename_file ::
  "('m, 'h) provider_parts \<Rightarrow> string \<Rightarrow> string \<Rightarrow> ('m, 'h) provider \<Rightarrow> api_error \<times> ('m, 'h) provider" where
  "provider_rename_file P from_path to_path st =
    (if \<not> h_rename_supported (hookops P) then (not_implemented, st)
     else case is_file P to_path st of (res, exists) \<Rightarrow>
       if res \<noteq> success then (res, st)
       else if exists then (item_exists, st)
     else case is_directory P to_path st of (res, exists) \<Rightarrow>
       if res \<noteq> success then (res, st)
       else if exists then (directory_exists, st)
     else case h_rename (hookops P) from_path to_path (premote st) of (r, h) \<Rightarrow>
       let st = st\<lparr>premote := h\<rparr> in
       (case r of
          Inl _ \<Rightarrow> (error, st)
        | Inr res \<Rightarrow>
            if res \<noteq> success then (res, st)
            else case md_rename (metaops P) from_path to_path (pmeta st) of (res, m) \<Rightarrow> (res, st\<lparr>pmeta := m\<rparr>)))"

section \<open>The provider of a file manager\<close>

text \<open>
  The file manager calls \<open>get_filesystem_item\<close> and \<open>get_pinned_files\<close> outside any \<open>try\<close>.  They throw
  only if a stored size or flag cannot be read; here that is the result \<open>error\<close> and an empty list.
  The file manager never sets \<open>META_PINNED\<close>.
\<close>

definition provider_of :: "('m, 'h) provider_parts \<Rightarrow> ('m, 'h) provider provider_ops" where
  "provider_of P = \<lparr>
    p_read_only = False,
    p_rename_supported = h_rename_supported (hookops P),
    p_create_file = create_file P,
    p_get_item = (\<lambda>p dir st. case get_filesystem_item P p dir st of Inl _ \<Rightarrow> (error, no_item) | Inr r \<Rightarrow> r),
    p_get_meta = get_item_meta P,
    p_get_meta_key = get_item_meta_key P,
    p_set_meta = (\<lambda>p m st. caught (set_item_meta P p m st)),
    p_remove_file = provider_remove_file P,
    p_remove_directory = provider_remove_directory P,
    p_rename_file = provider_rename_file P,
    p_is_file = is_file P,
    p_is_directory = is_directory P,
    p_item_count = (\<lambda>p st. h_item_count (hookops P) p (premote st)),
    p_items = (\<lambda>p st. case get_directory_items P p st of (res, l) \<Rightarrow>
      (res, map (\<lambda>d. \<lparr>entry_path = di_path d, entry_directory = di_directory d\<rparr>) l)),
    p_clone_directory = create_directory_clone_source_meta P,
    p_pinned = (\<lambda>st. case get_pinned_files P st of Inl _ \<Rightarrow> [] | Inr l \<Rightarrow> l)\<rparr>"

lemma provider_item_path:
  "p_get_item (provider_of P) p dir st = (success, item) \<Longrightarrow> api_path item = p"
  by (auto simp: provider_of_def get_filesystem_item_def no_item_def split: sum.splits prod.splits if_splits)

end
