(* ===== verification/File_Manager_Runs.thy ===== *)
theory File_Manager_Runs imports File_Manager_Steps Base_Provider Open_File_Sample begin

text \<open>
  The operations of the file manager in any order.  A run is a list of operations, with what
  happens beside them: the provider, the local files and the cache change, and an open file works
  on its own, which adds and removes no handle.  The manager is the one the program builds, over
  the three classes of open files and a provider with the shared base class.
\<close>

section \<open>Runs\<close>

datatype ('f, 'p, 's) fm_op =
    Open string bool int
  | Create string meta_map int
  | Get_open_file nat bool
  | Close nat
  | Remove_file string
  | Remove_directory string
  | Rename_file string string bool
  | Rename_directory nat string string
  | Evict string
  | Close_timed_out
  | Pin string
  | Start
  | Stop
  | Upload_round
  | Upload_completed upload_event
  | Provider_changes 'p
  | Local_changes 's
  | Cache_changes cache_mgr
  | File_changes nat 'f

definition same_file :: "'f file_ops \<Rightarrow> 'f \<Rightarrow> 'f \<Rightarrow> bool" where
  "same_file F f g \<longleftrightarrow> map fst (cf_data F f) = map fst (cf_data F g) \<and>
    api_path (cf_item F f) = api_path (cf_item F g) \<and> cf_unlinked F f = cf_unlinked F g"

fun fm_exec :: "('f, 'd, 'p, 's) parts \<Rightarrow> ('f, 'p, 's) fm_op \<Rightarrow> ('f, 'd, 'p, 's) fmgr \<Rightarrow> ('f, 'd, 'p, 's) fmgr" where
  "fm_exec S (Open p dir ofd) st = snd (fm_open S p dir ofd st)"
| "fm_exec S (Create p meta ofd) st = snd (fm_create S p meta ofd st)"
| "fm_exec S (Get_open_file h w) st = snd (get_open_file S h w st)"
| "fm_exec S (Close h) st = fm_close S h st"
| "fm_exec S (Remove_file p) st = snd (remove_file S p st)"
| "fm_exec S (Remove_directory p) st = snd (fm_remove_directory S p st)"
| "fm_exec S (Rename_file p q overwrite) st = snd (rename_file S p q overwrite st)"
| "fm_exec S (Rename_directory depth p q) st = snd (rename_directory S depth p q st)"
| "fm_exec S (Evict p) st = snd (evict_file S p st)"
| "fm_exec S Close_timed_out st = close_timed_out_files S st"
| "fm_exec S (Pin p) st = snd (download_pinned_file S p st)"
| "fm_exec S Start st = snd (fm_start S st)"
| "fm_exec S Stop st = stop_begin S st"
| "fm_exec S Upload_round st = snd (upload_round S st)"
| "fm_exec S (Upload_completed ev) st = upload_completed S ev st"
| "fm_exec S (Provider_changes pr) st = st\<lparr>mprov := pr\<rparr>"
| "fm_exec S (Local_changes l) st = st\<lparr>mlocal := l\<rparr>"
| "fm_exec S (Cache_changes c) st = st\<lparr>mcache := c\<rparr>"
| "fm_exec S (File_changes i f) st = (if same_file (fileops S) f (object_at i st) then put_object i f st else st)"

definition fm_run :: "('f, 'd, 'p, 's) parts \<Rightarrow> ('f, 'p, 's) fm_op list \<Rightarrow> ('f, 'd, 'p, 's) fmgr \<Rightarrow> ('f, 'd, 'p, 's) fmgr" where
  "fm_run S ops st = foldl (\<lambda>st op. fm_exec S op st) st ops"

definition fm_init :: "'d \<Rightarrow> 'p \<Rightarrow> 's \<Rightarrow> cache_mgr \<Rightarrow> ('f, 'd, 'p, 's) fmgr" where
  "fm_init d pr l c = \<lparr>objects = [], open_lookup = [], unlinked_lookup = [], next_handle = 0, made_uploads = [],
    upload_lookup = [], mdb = d, mprov = pr, mlocal = l, mcache = c, mlog = [], mgr_stop = False,
    handler_running = False\<rparr>"

text \<open>The operations that do not end the life of the handle.\<close>

fun keeps_handle :: "nat \<Rightarrow> ('f, 'p, 's) fm_op \<Rightarrow> bool" where
  "keeps_handle h (Close g) \<longleftrightarrow> g \<noteq> h"
| "keeps_handle h (Rename_file p q overwrite) \<longleftrightarrow> False"
| "keeps_handle h (Rename_directory depth p q) \<longleftrightarrow> False"
| "keeps_handle h Start \<longleftrightarrow> False"
| "keeps_handle h Stop \<longleftrightarrow> False"
| "keeps_handle h _ \<longleftrightarrow> True"

lemma init_ok: "tables_ok S (fm_init d pr l c)"
  by (simp add: tables_ok_def live_def fm_init_def)

lemma run_Cons [simp]: "fm_run S (op # ops) st = fm_run S ops (fm_exec S op st)" "fm_run S [] st = st"
  by (simp_all add: fm_run_def)

lemma run_append: "fm_run S (ops @ ops') st = fm_run S ops' (fm_run S ops st)"
  by (simp add: fm_run_def)

section \<open>One operation\<close>

text \<open>\<open>opens n\<close>: at most \<open>n\<close> new handles, which continue the count.\<close>

definition opens :: "('f, 'd, 'p, 's) parts \<Rightarrow> nat \<Rightarrow> ('f, 'd, 'p, 's) fmgr \<Rightarrow> ('f, 'd, 'p, 's) fmgr \<Rightarrow> bool" where
  "opens S n st st' \<longleftrightarrow> tables_ok S st' \<and> next_handle st \<le> next_handle st' \<and> next_handle st' \<le> next_handle st + n \<and>
    (\<forall>g k. live S st' g k \<longrightarrow> next_handle st < g \<or> (\<exists>k'. live S st g k'))"

lemma advances_opens: "advances S m st st' \<Longrightarrow> m \<le> n \<Longrightarrow> opens S n st st'"
  unfolding advances_def opens_def by auto

lemma shrinks_opens: "shrinks S st st' \<Longrightarrow> opens S n st st'"
  using advances_opens[OF shrinks_advances] by blast

lemma opens_ok: "opens S n st st' \<Longrightarrow> tables_ok S st'"
  by (simp add: opens_def)

lemma opens_trans: "opens S m st st' \<Longrightarrow> opens S n st' st'' \<Longrightarrow> opens S (m + n) st st''"
  unfolding opens_def by (auto; meson le_less_trans)

context manager begin

lemma opened_opens: "tables_ok S st \<Longrightarrow> opened_as p r st st' \<Longrightarrow> opens S (Suc n) st st'"
  unfolding opened_as_def opens_def by (cases r) simp_all

lemma file_changes_same: "same_file (fileops S) f (object_at i st) \<Longrightarrow> same_handles S st (put_object i f st)"
  by (rule put_object_same) (simp_all add: same_file_def handles_at_def handles_of_def path_at_def unlinked_at_def flip: set_map)

lemma exec_opens:
  assumes ok: "tables_ok S st" and n: "next_handle st + Suc b < 2 ^ 64"
    and b: "\<And>pr. length (p_pinned (provops S) pr) \<le> b"
  shows "opens S (Suc b) st (fm_exec S op st)"
proof -
  have n1: "next_handle st + 1 < 2 ^ 64" "next_handle st + b < 2 ^ 64" using n by simp_all
  note sh = shrinks_opens[of S st _ "Suc b"]
  note tab = sh[OF shrinks_tables[OF ok]]
  show ?thesis
  proof (cases op)
    case (Open p dir ofd)
    then show ?thesis
      using opened_opens[OF ok fm_open_ok[OF ok n1(1)]] by (metis fm_exec.simps(1) prod.collapse)
  next
    case (Create p meta ofd)
    then show ?thesis
      using opened_opens[OF ok fm_create_ok[OF ok n1(1)]] by (metis fm_exec.simps(2) prod.collapse)
  next
    case (Get_open_file h w)
    then show ?thesis
      using get_open_file_ok[OF ok] sh[OF stays_shrinks] by (metis fm_exec.simps(3) prod.collapse)
  next
    case (Close h)
    then show ?thesis using fm_close_ok[OF ok, of h] unfolding opens_def by auto
  next
    case (Remove_file p)
    then show ?thesis using sh[OF stays_shrinks[OF remove_file_ok[OF ok]]] by simp
  next
    case (Remove_directory p)
    then show ?thesis using sh[OF stays_shrinks[OF remove_directory_ok[OF ok]]] by simp
  next
    case (Rename_file p q overwrite)
    then show ?thesis using sh[OF rename_file_ok[OF ok]] by simp
  next
    case (Rename_directory depth p q)
    then show ?thesis using sh[OF rename_directory_ok[OF ok]] by simp
  next
    case (Evict p)
    then show ?thesis using sh[OF stays_shrinks[OF evict_file_ok[OF ok]]] by simp
  next
    case Close_timed_out
    then show ?thesis using sh[OF stays_shrinks[OF close_timed_out_ok[OF ok]]] by simp
  next
    case (Pin p)
    then show ?thesis using advances_opens[of S 1] download_pinned_ok[OF ok n1(1), of p] by simp
  next
    case Start
    then show ?thesis using advances_opens[OF fm_start_ok[OF ok n1(2) b]] by simp
  next
    case Stop
    then show ?thesis using sh[OF stop_begin_ok[OF ok]] by simp
  next
    case (File_changes i f)
    then show ?thesis
      using sh[OF stays_shrinks[OF stays_same[OF ok file_changes_same]]] tab[of st] by simp
  qed (use tab in simp_all)
qed

lemma exec_keeps:
  assumes ok: "tables_ok S st" and n: "next_handle st + 1 < 2 ^ 64" and k: "keeps_handle h op" and l: "live S st h i"
  shows "handle_kept S h st (fm_exec S op st)"
proof (cases op)
  case (Open p dir ofd)
  then show ?thesis using opened_as_kept[OF ok fm_open_ok[OF ok n]] by (metis fm_exec.simps(1) prod.collapse)
next
  case (Create p meta ofd)
  then show ?thesis using opened_as_kept[OF ok fm_create_ok[OF ok n]] by (metis fm_exec.simps(2) prod.collapse)
next
  case (Get_open_file h w)
  then show ?thesis
    using get_open_file_ok[OF ok] unfolding stays_def by (metis fm_exec.simps(3) prod.collapse)
next
  case (Close g)
  then show ?thesis using fm_close_ok[OF ok, of g] k by simp
next
  case (Remove_file p)
  then show ?thesis using remove_file_ok[OF ok, of p] by (simp add: stays_def)
next
  case (Remove_directory p)
  then show ?thesis using remove_directory_ok[OF ok, of p] by (simp add: stays_def)
next
  case (Evict p)
  then show ?thesis using evict_file_ok[OF ok, of p] by (simp add: stays_def)
next
  case Close_timed_out
  then show ?thesis using close_timed_out_ok[OF ok] by (simp add: stays_def)
next
  case (Pin p)
  then show ?thesis using download_pinned_ok[OF ok n, of p] l by simp blast
next
  case (File_changes i f)
  then show ?thesis using handle_kept_same[OF ok file_changes_same] handle_kept_same[OF ok same_handles_refl] by simp
qed (use k handle_kept_same[OF ok same_handles_tables] in simp_all)

section \<open>Runs of operations\<close>

lemma run_opens:
  assumes b: "\<And>pr. length (p_pinned (provops S) pr) \<le> b"
  shows "tables_ok S st \<Longrightarrow> next_handle st + length ops * Suc b < 2 ^ 64 \<Longrightarrow>
    opens S (length ops * Suc b) st (fm_run S ops st)"
proof (induction ops arbitrary: st)
  case Nil
  then show ?case by (auto simp: opens_def)
next
  case (Cons op ops)
  have e: "opens S (Suc b) st (fm_exec S op st)" using exec_opens[OF Cons.prems(1) _ b] Cons.prems(2) by simp
  have "opens S (length ops * Suc b) (fm_exec S op st) (fm_run S ops (fm_exec S op st))"
    using Cons.IH[OF opens_ok[OF e]] e Cons.prems(2) by (simp add: opens_def)
  from opens_trans[OF e this] show ?case by (simp add: add.assoc add.left_commute)
qed

lemma run_keeps:
  assumes b: "\<And>pr. length (p_pinned (provops S) pr) \<le> b"
  shows "tables_ok S st \<Longrightarrow> next_handle st + length ops * Suc b < 2 ^ 64 \<Longrightarrow> list_all (keeps_handle h) ops \<Longrightarrow>
    live S st h i \<Longrightarrow> handle_kept S h st (fm_run S ops st)"
proof (induction ops arbitrary: st i)
  case Nil
  then show ?case by (auto simp: handle_kept_def)
next
  case (Cons op ops)
  have e: "opens S (Suc b) st (fm_exec S op st)" using exec_opens[OF Cons.prems(1) _ b] Cons.prems(2) by simp
  have k: "handle_kept S h st (fm_exec S op st)" using exec_keeps[OF Cons.prems(1) _ _ Cons.prems(4)] Cons.prems by simp
  then obtain j where "live S (fm_exec S op st) h j" using Cons.prems(4) unfolding handle_kept_def by blast
  then have "handle_kept S h (fm_exec S op st) (fm_run S ops (fm_exec S op st))"
    using Cons.IH[OF opens_ok[OF e]] e Cons.prems by (simp add: opens_def)
  then show ?case using handle_kept_trans[OF k] by simp
qed

lemma open_run_keeps:
  assumes b: "\<And>pr. length (p_pinned (provops S) pr) \<le> b" and ok: "tables_ok S st"
    and n: "Suc (next_handle st) + length ops * Suc b < 2 ^ 64"
    and r: "fm_open S p dir ofd st = (Opened h i, st1)" and k: "list_all (keeps_handle h) ops"
  shows "\<exists>j u. get_open_file_by_handle S h (fm_run S ops st1) = Some (j, u) \<and> path_at S j (fm_run S ops st1) = p"
proof -
  have n1: "next_handle st + 1 < 2 ^ 64" using n by simp
  have o: "tables_ok S st1" "next_handle st1 = Suc (next_handle st)" "live S st1 h i" "path_at S i st1 = p"
    using fm_open_ok[OF ok n1 r] by (auto simp: opened_as_def)
  have n2: "next_handle st1 + length ops * Suc b < 2 ^ 64" using n o(2) by simp
  note run = run_opens[OF b o(1) n2] run_keeps[OF b o(1) n2 k o(3)]
  then show ?thesis using o(3,4) lookup_live[OF opens_ok[OF run(1)]] unfolding handle_kept_def by metis
qed

lemma closed_run_none:
  assumes b: "\<And>pr. length (p_pinned (provops S) pr) \<le> b" and ok: "tables_ok S st"
    and n: "next_handle st + length ops * Suc b < 2 ^ 64" and h: "h \<le> next_handle st"
  shows "get_open_file_by_handle S h (fm_run S ops (fm_close S h st)) = None"
proof -
  have c: "tables_ok S (fm_close S h st)" "next_handle (fm_close S h st) = next_handle st" "\<not> live S (fm_close S h st) h k" for k
    using fm_close_ok[OF ok, of h] by auto
  have r: "opens S (length ops * Suc b) (fm_close S h st) (fm_run S ops (fm_close S h st))"
    using run_opens[OF b c(1)] n c(2) by simp
  then have "\<not> live S (fm_run S ops (fm_close S h st)) h k" for k
    using h c(2,3) unfolding opens_def by auto
  then show ?thesis using lookup_none[OF opens_ok[OF r]] by blast
qed

end

section \<open>The manager of the program\<close>

definition manager_parts ::
  "object_env \<Rightarrow> 'd mgr_db \<Rightarrow> ('m, 'h) provider_parts \<Rightarrow> 's local_ops \<Rightarrow> mgr_config \<Rightarrow>
   (file_object, 'd, ('m, 'h) provider, 's) parts" where
  "manager_parts env db P L C =
    \<lparr>fileops = object_ops env, dbops = db, provops = provider_of P, localops = L, conf = C\<rparr>"

lemma manager_parts_simps [simp]:
  "fileops (manager_parts env db P L C) = object_ops env" "dbops (manager_parts env db P L C) = db"
  "provops (manager_parts env db P L C) = provider_of P" "localops (manager_parts env db P L C) = L"
  "conf (manager_parts env db P L C) = C"
  by (simp_all add: manager_parts_def)

interpretation fm: manager "manager_parts env db P L C"
  by unfold_locales
    (simp_all add: objects.closeable_files_axioms[unfolded closeable_files_def] provider_item_path)

section \<open>A concrete manager\<close>

text \<open>One file \<open>/a\<close> of no bytes and the root; the concrete inputs of the properties below.\<close>

definition one_file_meta :: "unit meta_ops" where
  "one_file_meta = \<lparr>md_clear = (\<lambda>m. m), md_get_api_path = (\<lambda>s m. (item_not_found, [])), md_api_paths = (\<lambda>m. [''/a'']),
    md_get = (\<lambda>p m. if p = ''/a'' then (success, [(''size'', ''0''), (''source'', ''/c/a'')]) else (item_not_found, [])),
    md_get_key = (\<lambda>p k m. (item_not_found, [])), md_pinned = (\<lambda>m. Inr []), md_count = (\<lambda>m. 1),
    md_total_size = (\<lambda>m. Inr 0), md_remove = (\<lambda>p m. m), md_remove_key = (\<lambda>p k m. (success, m)),
    md_rename = (\<lambda>p q m. (error, m)), md_set_key = (\<lambda>p k v m. (success, m)), md_set = (\<lambda>p v m. (success, m))\<rparr>"

definition one_file_hooks :: "unit hooks" where
  "one_file_hooks = \<lparr>h_is_file = (\<lambda>p h. (success, p = ''/a'')), h_is_directory = (\<lambda>p h. (success, p = ''/'')),
    h_create_directory = (\<lambda>p m h. (Inr comm_error, m, h)), h_create_file_extra = (\<lambda>p m h. (Inr comm_error, m, h)),
    h_directory_items = (\<lambda>p h. Inr (success, [])), h_item_count = (\<lambda>p h. 1), h_get_file = (\<lambda>p h. (success, 0)),
    h_remove_file = (\<lambda>p h. (success, h)), h_remove_directory = (\<lambda>p h. (comm_error, h)),
    h_upload = (\<lambda>p s h. (Inr comm_error, h)), h_rename_supported = True, h_rename = (\<lambda>p q h. (Inr comm_error, h))\<rparr>"

definition one_file :: "(unit, unit) provider_parts" where
  "one_file = \<lparr>metaops = one_file_meta, hookops = one_file_hooks, has_manager = True\<rparr>"

definition one_file_state :: "(unit, unit) provider" where
  "one_file_state = \<lparr>pmeta = (), premote = (), plog = []\<rparr>"

text \<open>The local disk is the list of the files that exist, all of them empty.\<close>

definition disk_ops :: "string list local_ops" where
  "disk_ops = \<lparr>l_exists = (\<lambda>p d. p \<in> set d), l_size = (\<lambda>p d. if p \<in> set d then Some 0 else None),
    l_remove = (\<lambda>p d. (True, filter (\<lambda>q. q \<noteq> p) d)), l_fresh = (\<lambda>d. (''/c/b'', d)), l_cache_space = (\<lambda>d. 100),
    l_buffer_space = (\<lambda>d. 100), l_make_buffer = (\<lambda>d. (True, d))\<rparr>"

definition sample_conf :: mgr_config where
  "sample_conf = \<lparr>preferred_type = default_download, ring_file_size = 1, chunk_bytes = 2, max_upload_count = 1,
    path_combine = (\<lambda>a b. a @ ''/'' @ b), flag_of = (\<lambda>s. s = ''1'')\<rparr>"

definition sample_objects :: object_env where
  "sample_objects = \<lparr>fenv = sample_env, data_chunk_size = 2, chunk_timeout = 3,
    local_of = (\<lambda>p. \<lparr>opened = True, contents = [], size_ok = True, truncate_works = True, reopens = True, reads_ok = True,
      writes_fail = None\<rparr>),
    spare_ring_file = \<lparr>disk = [], nf = Not_open, directory_ok = True, open_ok = True, truncate_ok = True, write_fails = None, read_ok = True\<rparr>\<rparr>"

abbreviation sample_parts :: "(file_object, (string, string) rbt rdb, (unit, unit) provider, string list) parts" where
  "sample_parts \<equiv> manager_parts sample_objects (rdb_ops rbt_kv text_codec) one_file disk_ops sample_conf"

abbreviation sample_init :: "(file_object, (string, string) rbt rdb, (unit, unit) provider, string list) fmgr" where
  "sample_init \<equiv> fm_init (rdb_new rbt_kv) one_file_state [''/c/a''] cache_init"

lemma sample_pinned: "length (p_pinned (provider_of one_file) st) \<le> 0"
  by (simp add: provider_of_def get_pinned_files_def one_file_def one_file_meta_def)

lemmas sample_defs = manager_parts_def provider_of_def one_file_def one_file_meta_def one_file_hooks_def one_file_state_def
  disk_ops_def sample_conf_def fm_init_def get_filesystem_item_def is_directory_def is_file_def get_item_meta_def meta_at_def

lemma sample_size: "stoul ''0'' = Inr 0"
  by (simp add: stoul_def isspace_def isdigit_def digits_value_def)

lemma sample_lookup: "\<exists>item. p_get_item (provider_of one_file) ''/a'' False one_file_state = (success, item) \<and>
    source_path item = ''/c/a'' \<and> item_size item = 0 \<and> api_path item = ''/a''"
  by (simp add: sample_defs sample_size)

lemma manager_not_read_only [simp]: "\<not> is_read_only (manager_parts env db P L C)"
  by (simp add: is_read_only_def provider_of_def)

lemma sample_open: "\<exists>st. fm_open sample_parts ''/a'' False 7 sample_init = (Opened 1 0, st) \<and> next_handle st = 1"
proof -
  obtain item where i: "p_get_item (provider_of one_file) ''/a'' False one_file_state = (success, item)"
      "source_path item = ''/c/a''" "item_size item = 0" "api_path item = ''/a''"
    using sample_lookup by blast
  obtain e f where f: "new_cached (object_ops sample_objects) item [] None = (e, f)" by force
  show ?thesis
    by (simp add: fm_open_def fm_init_def i ensure_source_def get_download_type_def make_file_def f
        create_and_add_handle_def get_next_handle_def add64_def new_object_def set_open_def say_def Let_def)
qed

section \<open>Handles\<close>

text \<open>C2. The handle tables stay consistent over any run: every open file is stored under its own
  path and is not unlinked, and a handle that is found belongs to the file it leads to, and to no
  other file of the tables.\<close>

theorem handle_table_invariant:
  assumes S_def: "S = manager_parts env db P L C" and "\<And>pr. length (p_pinned (provider_of P) pr) \<le> b" "length ops * Suc b < 2 ^ 64"
  shows "let st = fm_run S ops (fm_init d pr l c) in
    (\<forall>p i. map_of (open_lookup st) p = Some i \<longrightarrow> path_at S i st = p \<and> \<not> unlinked_at S i st) \<and>
    (\<forall>h i u. get_open_file_by_handle S h st = Some (i, u) \<longrightarrow>
       i < length (objects st) \<and> h \<in> handles_at S i st \<and> u = unlinked_at S i st \<and> 0 < h \<and> h \<le> next_handle st \<and>
       (\<forall>j p. map_of (open_lookup st) p = Some j \<longrightarrow> h \<in> handles_at S j st \<longrightarrow> j = i))"
proof -
  let ?st = "fm_run S ops (fm_init d pr l c)"
  have b: "length (p_pinned (provops S) st) \<le> b" for st using assms(2) by (simp add: S_def)
  have "opens S (length ops * Suc b) (fm_init d pr l c) ?st"
    unfolding S_def by (rule fm.run_opens[OF b[unfolded S_def] init_ok]) (use assms(3) in \<open>simp add: fm_init_def\<close>)
  then have ok: "tables_ok S ?st" by (rule opens_ok)
  have "i < length (objects ?st) \<and> h \<in> handles_at S i ?st \<and> u = unlinked_at S i ?st \<and> 0 < h \<and> h \<le> next_handle ?st \<and>
       (\<forall>j p. map_of (open_lookup ?st) p = Some j \<longrightarrow> h \<in> handles_at S j ?st \<longrightarrow> j = i)"
    if "get_open_file_by_handle S h ?st = Some (i, u)" for h i u
  proof -
    have l: "live S ?st h i" "u = unlinked_at S i ?st" using that lookup_live[OF ok] by auto
    have "j = i" if "map_of (open_lookup ?st) p = Some j" "h \<in> handles_at S j ?st" for j p
      using that l(1) tables_okD(6)[OF ok, of h j i] unfolding live_def by blast
    then show ?thesis using l live_index[OF ok] live_handle[OF ok] tables_okD(5)[OF ok] by blast
  qed
  then show ?thesis using tables_okD(3)[OF ok] unfolding Let_def by blast
qed

theorem handle_table_invariant_witness:
  "let st = fm_run sample_parts [Open ''/a'' False 7, Open ''/a'' False 8, Remove_file ''/a'', Close 1] sample_init in
    \<forall>h i u. get_open_file_by_handle sample_parts h st = Some (i, u) \<longrightarrow> h \<in> handles_at sample_parts i st"
proof -
  let ?ops = "[Open ''/a'' False 7, Open ''/a'' False 8, Remove_file ''/a'', Close 1]"
  have "length ?ops * Suc 0 < 2 ^ 64" by simp
  from handle_table_invariant[OF refl sample_pinned this, of sample_objects "rdb_ops rbt_kv text_codec" disk_ops sample_conf
      "rdb_new rbt_kv" one_file_state "[''/c/a'']" cache_init]
  show ?thesis unfolding Let_def by blast
qed

text \<open>C1. A handle that \<open>open\<close> returned leads to an object for the opened path until it is closed,
  whatever else the manager does short of a rename, a start or a stop: other handles are opened
  and closed, the file or others are removed, evicted, uploaded or replaced by a writable one.\<close>

theorem handle_valid_until_closed:
  assumes S_def: "S = manager_parts env db P L C" and "\<And>pr. length (p_pinned (provider_of P) pr) \<le> b" "(length ops + Suc (length ops')) * Suc b < 2 ^ 64"
    and "fm_open S p dir ofd (fm_run S ops (fm_init d pr l c)) = (Opened h i, st)"
    and "list_all (keeps_handle h) ops'"
  shows "\<exists>j u. get_open_file_by_handle S h (fm_run S ops' st) = Some (j, u) \<and> path_at S j (fm_run S ops' st) = p"
proof -
  have b: "length (p_pinned (provops S) st) \<le> b" for st using assms(2) by (simp add: S_def)
  have "(length ops + Suc (length ops')) * Suc b = length ops * Suc b + Suc b + length ops' * Suc b"
    by (simp add: add_mult_distrib)
  then have n: "length ops * Suc b + Suc (length ops' * Suc b) < 2 ^ 64" using assms(3) by linarith
  have o: "opens S (length ops * Suc b) (fm_init d pr l c) (fm_run S ops (fm_init d pr l c))"
    unfolding S_def by (rule fm.run_opens[OF b[unfolded S_def] init_ok]) (use n in \<open>simp add: fm_init_def\<close>)
  then have "Suc (next_handle (fm_run S ops (fm_init d pr l c))) + length ops' * Suc b < 2 ^ 64"
    using n by (simp add: opens_def fm_init_def)
  then show ?thesis
    using fm.open_run_keeps[OF b[unfolded S_def] opens_ok[OF o, unfolded S_def] _ assms(4)[unfolded S_def] assms(5)]
    unfolding S_def by blast
qed

theorem handle_valid_until_closed_witness:
  "\<exists>st j u. fm_open sample_parts ''/a'' False 7 (fm_run sample_parts [] sample_init) = (Opened 1 0, st) \<and>
    get_open_file_by_handle sample_parts 1
      (fm_run sample_parts [Open ''/a'' False 8, Remove_file ''/a'', Close 2] st) = Some (j, u)"
proof -
  let ?ops = "[Open ''/a'' False 8, Remove_file ''/a'', Close 2]"
  obtain st where o: "fm_open sample_parts ''/a'' False 7 (fm_run sample_parts [] sample_init) = (Opened 1 0, st)"
    using sample_open by auto
  have "(length ([] :: (file_object, (unit, unit) provider, string list) fm_op list) + Suc (length ?ops)) * Suc 0 < 2 ^ 64"
    "list_all (keeps_handle 1) ?ops" by simp_all
  from handle_valid_until_closed[OF refl sample_pinned this(1) o this(2)] o show ?thesis by blast
qed

text \<open>C13. A closed handle is never valid again: no later operation, also no start or stop, lets the
  lookup find a file for it.\<close>

theorem closed_handle_stays_invalid:
  assumes S_def: "S = manager_parts env db P L C"
    and "\<And>pr. length (p_pinned (provider_of P) pr) \<le> b" "(length ops + length ops') * Suc b < 2 ^ 64"
    and "st = fm_run S ops (fm_init d pr l c)" "h \<le> next_handle st"
  shows "get_open_file_by_handle S h (fm_run S ops' (fm_close S h st)) = None"
proof -
  have b: "length (p_pinned (provops S) st) \<le> b" for st using assms(2) by (simp add: S_def)
  have n: "length ops * Suc b + length ops' * Suc b < 2 ^ 64" using assms(3) by (simp add: add_mult_distrib)
  have o: "opens S (length ops * Suc b) (fm_init d pr l c) st"
    unfolding assms(4) S_def by (rule fm.run_opens[OF b[unfolded S_def] init_ok]) (use n in \<open>simp add: fm_init_def\<close>)
  then have "next_handle st + length ops' * Suc b < 2 ^ 64" using n by (simp add: opens_def fm_init_def)
  then show ?thesis
    using fm.closed_run_none[OF b[unfolded S_def] opens_ok[OF o, unfolded S_def] _ assms(5)] unfolding S_def by blast
qed

theorem closed_handle_stays_invalid_witness:
  "get_open_file_by_handle sample_parts 1 (fm_run sample_parts [Start, Open ''/a'' False 7, Stop]
     (fm_close sample_parts 1 (fm_run sample_parts [Open ''/a'' False 7] sample_init))) = None"
proof (rule closed_handle_stays_invalid[OF refl sample_pinned _ refl])
  show "1 \<le> next_handle (fm_run sample_parts [Open ''/a'' False 7] sample_init)"
    using sample_open by auto
qed simp

end
