(* ===== verification/File_Manager_Data.thy ===== *)
theory File_Manager_Data imports File_Manager_Runs begin

text \<open>
  What the file manager does with the data it is responsible for: the source file of a removed
  file, and the upload of a file whose rename fails.
\<close>

section \<open>Source files\<close>

lemma effects_local: "removed_source e = None \<Longrightarrow> mlocal (fm_effects S f e st) = mlocal st"
  by (simp add: fm_effects_def Let_def)

lemma referenced_iff:
  assumes "tables_ok S st"
  shows "referenced i st \<longleftrightarrow> (\<exists>p. map_of (open_lookup st) p = Some i) \<or> (\<exists>h. map_of (unlinked_lookup st) h = Some i)"
  using tables_okD(1,2)[OF assms] by (force simp: referenced_def dest: map_of_SomeD)

context manager begin

text \<open>Closing an unlinked file touches nothing but the object.\<close>

lemma close_unlinked_local:
  assumes "unlinked_at S i st"
  shows "mlocal (close_object S i st) = mlocal st"
proof -
  let ?b = "fst (l_remove (localops S) (source_path (cf_item (fileops S) (object_at i st))) (mlocal st))"
  obtain e c f where r: "cf_close (fileops S) ?b (mcache st) (object_at i st) = (e, c, f)" by (metis surj_pair)
  then have "e = no_effects" using close_unlinked_nothing[of "object_at i st" ?b "mcache st"] assms by (simp add: unlinked_at_def)
  then show ?thesis by (simp add: close_object_def r effects_local no_effects_def put_object_def)
qed

lemma release_unlinked_local: "unlinked_at S i st \<Longrightarrow> mlocal (release S i st) = mlocal st"
  using close_unlinked_local by (simp add: release_def)

lemma remove_file_local:
  assumes ok: "tables_ok S st" and p: "map_of (open_lookup st) p = Some i" and r: "remove_file S p st = (success, st')"
  shows "mlocal st' = mlocal st \<and> (handles_at S i st = {} \<longrightarrow> \<not> referenced i st')"
proof (cases rule: remove_file_cases[of p st])
  case (unlinked j meta st1 c)
  have j: "j = i" using unlinked(1) p by simp
  define st2 where "st2 = unlink_object S p i (cf_set_meta (fileops S) meta) st1"
  note t = unlinked(3)[unfolded tables_eq]
  have s1: "same_handles S st st1" using same_handles_tables[OF unlinked(3)] .
  have i1: "map_of (open_lookup st1) p = Some i" using p t by simp
  note u = unlink_object_ok[OF same_handles_ok[OF ok s1] i1, of "cf_set_meta (fileops S) meta", folded st2_def]
  then have ok2: "tables_ok S st2" "unlinked_at S i st2" "\<And>g k. live S st2 g k \<longleftrightarrow> live S st g k"
    using same_handles_live[OF ok s1] by auto
  have ok3: "tables_ok S (st2\<lparr>mcache := c\<rparr>)" "unlinked_at S i (st2\<lparr>mcache := c\<rparr>)"
    using same_handles_ok[OF ok2(1) same_handles_tables] ok2(2) by (simp_all add: unlinked_at_def)
  have e: "st' = release S i (st2\<lparr>mcache := c\<rparr>)" using r unlinked(5) by (simp add: j st2_def)
  have "mlocal st2 = mlocal st" using unlinked(4) by (simp add: st2_def unlink_object_def add_unlinked_def put_object_def Let_def)
  then have "mlocal st' = mlocal st" using release_unlinked_local[OF ok3(2)] by (simp add: e)
  moreover have "\<not> referenced i st'" if h: "handles_at S i st = {}"
  proof -
    have "map_of (open_lookup st2) q \<noteq> Some i" for q using tables_okD(3)[OF ok2(1), of q i] ok2(2) by blast
    moreover have "map_of (unlinked_lookup st2) g \<noteq> Some i" for g
    proof
      assume "map_of (unlinked_lookup st2) g = Some i"
      then have "live S st2 g i" by (simp add: live_def)
      then have "live S st g i" using ok2(3) by blast
      then show False using live_handle[OF ok] h by blast
    qed
    ultimately have "\<not> referenced i st2" using referenced_iff[OF ok2(1)] by blast
    then show ?thesis using same_handlesD(1,2)[OF release_same] by (simp add: e referenced_def)
  qed
  ultimately show ?thesis by blast
qed (use r p in simp_all)

end

lemma object_remove_item: "fsi (object_base (snd (object_remove h f))) = fsi (object_base f) \<and>
    removed_source (fst (object_remove h f)) = None"
  by (cases f) (auto simp: Let_def no_effects_def f_remove_def base_remove_def call_mgr_def raise_item_event_def)

lemma object_close_item: "unlinked (object_base f) \<Longrightarrow> fsi (object_base (snd (snd (object_close env b c f)))) = fsi (object_base f)"
proof (cases f)
  case (Cached s)
  let ?s = "s\<lparr>upload_calls := [], meta_calls := [], cache := c\<rparr>" and ?env = "(fenv env)\<lparr>remove_works := b\<rparr>"
  assume u: "unlinked (object_base f)"
  obtain ok s1 where k: "base_close (?s\<lparr>stopped := True, reader_thread := False\<rparr>) = (ok, s1)" by force
  then have "unlinked s1" "fsi s1 = fsi s" using u Cached by (auto simp: base_close_def split: if_splits)
  then have "fsi (snd (f_close ?env ?s)) = fsi s"
    by (cases ok) (simp_all add: f_close_def k Let_def set_api_error_def)
  then show ?thesis using Cached by (cases "f_close ?env ?s") simp
qed (auto simp: base_close_def split: if_splits)

lemma handle_total_empty: "handle_total S i st = 0 \<longleftrightarrow> handles_at S i st = {}"
  by (simp add: handle_total_def handles_at_def handles_of_def)

text \<open>Closing a handle of an unlinked file, step by step.\<close>

lemma close_unlinked_handle:
  fixes env db P L C and st :: "(file_object, 'd, ('m, 'h) provider, 's) fmgr"
  assumes S_def: "S = manager_parts env db P L C" and ok: "tables_ok S st" and h: "map_of (unlinked_lookup st) h = Some i"
  obtains st2 where "mlocal st2 = mlocal st" "handles_at S i st2 = handles_at S i st - {h}" "unlinked_at S i st2"
    "i < length (objects st2)" "cf_item (fileops S) (object_at i st2) = cf_item (fileops S) (object_at i st)"
    "fm_close S h st = (if handle_total S i st2 \<noteq> 0 then st2
     else let st = close_object S i st2; item = cf_item (fileops S) (object_at i st)
          in if directory item then st
             else case l_remove (localops S) (source_path item) (mlocal st) of (ok, l) \<Rightarrow>
               let st = st\<lparr>mlocal := l\<rparr> in if ok then st else say (error_raised (api_path item) os_error) st)"
proof -
  obtain e f where r: "object_remove h (object_at i st) = (e, f)" by force
  define st2 where "st2 = (fm_effects S f e (put_object i f st))
    \<lparr>unlinked_lookup := AList.delete h (unlinked_lookup (fm_effects S f e (put_object i f st)))\<rparr>"
  note i = tables_okD(4)[OF ok h]
  have f: "fsi (object_base f) = fsi (object_base (object_at i st))" "removed_source e = None"
    using object_remove_item[of h "object_at i st"] by (simp_all add: r)
  have hf: "handles_of (object_ops env) f = handles_at S i st - {h}" "cf_unlinked (object_ops env) f = unlinked_at S i st"
    using objects.remove_handles[of env h "object_at i st"] objects.remove_unlinked[of env h "object_at i st"]
    by (simp_all add: S_def handles_at_def unlinked_at_def object_ops_def r)
  have o: "objects st2 = (objects st)[i := f]" "mlocal st2 = mlocal st"
    using f(2) by (simp_all add: st2_def put_object_def effects_local)
  have at: "object_at i st2 = f" using i by (simp add: o)
  have "get_open_file_by_handle S h st = Some (i, True)" using h by (simp add: get_open_file_by_handle_def)
  then have c: "fm_close S h st = (if handle_total S i st2 \<noteq> 0 then st2
     else let st = close_object S i st2; item = cf_item (fileops S) (object_at i st)
          in if directory item then st
             else case l_remove (localops S) (source_path item) (mlocal st) of (ok, l) \<Rightarrow>
               let st = st\<lparr>mlocal := l\<rparr> in if ok then st else say (error_raised (api_path item) os_error) st)"
    by (simp add: fm_close_def S_def object_ops_def[of env] r Let_def st2_def[unfolded S_def object_ops_def])
  show thesis
    by (rule that[OF o(2) _ _ _ _ c])
      (use i hf f in \<open>simp_all add: S_def handles_at_def unlinked_at_def at o(1) object_ops_def\<close>)
qed

lemma close_object_item:
  assumes S_def: "S = manager_parts env db P L C" and u: "unlinked_at S i st" and i: "i < length (objects st)"
  shows "cf_item (fileops S) (object_at i (close_object S i st)) = cf_item (fileops S) (object_at i st)"
proof -
  let ?b = "fst (l_remove (localops S) (source_path (cf_item (fileops S) (object_at i st))) (mlocal st))"
  obtain e c f where r: "cf_close (fileops S) ?b (mcache st) (object_at i st) = (e, c, f)" by (metis surj_pair)
  have "cf_item (fileops S) f = cf_item (fileops S) (object_at i st)"
    using object_close_item[of "object_at i st" env ?b "mcache st"] u r by (simp add: S_def unlinked_at_def object_ops_def)
  then show ?thesis using i by (simp add: close_object_def r put_object_def)
qed

text \<open>C15. Removing a file that is open leaves its source file on the disk, for the handles that still
  use it.  That holds for a file without handles as well, which stays in the table until it times
  out: no table refers to the file afterwards, so no later close can remove its source either.\<close>

theorem remove_file_keeps_source:
  assumes "S = manager_parts env db P L C" "tables_ok S st"
    and "map_of (open_lookup st) p = Some i" "remove_file S p st = (success, st')"
  shows "mlocal st' = mlocal st \<and> (handles_at S i st = {} \<longrightarrow> \<not> referenced i st')"
  using fm.remove_file_local assms(2-) unfolding assms(1) by blast

text \<open>C14. The source file of a removed file goes with the last handle: closing one of several changes
  nothing on the disk, closing the last one removes exactly the source file.\<close>

theorem last_close_removes_source:
  assumes "S = manager_parts env db P L C" "tables_ok S st"
    and "map_of (unlinked_lookup st) h = Some i" "\<not> directory (cf_item (fileops S) (object_at i st))"
  shows "mlocal (fm_close S h st) =
    (if handles_at S i st = {h} then snd (l_remove L (source_path (cf_item (fileops S) (object_at i st))) (mlocal st))
     else mlocal st)"
proof -
  note S = assms(1)
  obtain st2 where st2: "mlocal st2 = mlocal st" "handles_at S i st2 = handles_at S i st - {h}" "unlinked_at S i st2"
    "i < length (objects st2)" "cf_item (fileops S) (object_at i st2) = cf_item (fileops S) (object_at i st)"
    and c: "fm_close S h st = (if handle_total S i st2 \<noteq> 0 then st2
     else let st = close_object S i st2; item = cf_item (fileops S) (object_at i st)
          in if directory item then st
             else case l_remove (localops S) (source_path item) (mlocal st) of (ok, l) \<Rightarrow>
               let st = st\<lparr>mlocal := l\<rparr> in if ok then st else say (error_raised (api_path item) os_error) st)"
    using close_unlinked_handle[OF assms(1-3)] by blast
  have "h \<in> handles_at S i st" using tables_okD(4)[OF assms(2,3)] assms(3) by simp
  then have last: "handle_total S i st2 = 0 \<longleftrightarrow> handles_at S i st = {h}" using st2(2) by (auto simp: handle_total_empty)
  have item: "cf_item (fileops S) (object_at i (close_object S i st2)) = cf_item (fileops S) (object_at i st)"
    using close_object_item[OF S st2(3,4)] st2(5) by simp
  have loc: "mlocal (close_object S i st2) = mlocal st"
    using fm.close_unlinked_local st2(1,3) unfolding S by metis
  have dir: "directory (cf_item (fileops S) (object_at i st)) = False" using assms(4) by simp
  show ?thesis
    using st2(1) last unfolding c Let_def item loc dir by (simp add: S say_def split: prod.split)
qed

text \<open>A manager with the file open, or unlinked with one handle.\<close>

definition sample_idle :: "(file_object, (string, string) rbt rdb, (unit, unit) provider, string list) fmgr" where
  "sample_idle = sample_init\<lparr>objects := [Cached sample_file], open_lookup := [(''/a'', 0)], next_handle := 1\<rparr>"

definition sample_unlinked :: "(file_object, (string, string) rbt rdb, (unit, unit) provider, string list) fmgr" where
  "sample_unlinked = sample_init\<lparr>objects := [Cached (sample_file\<lparr>unlinked := True, open_data := [(1, 7)]\<rparr>)],
    unlinked_lookup := [(1, 0)], next_handle := 1\<rparr>"

lemma sample_data: "open_data sample_file = []"
  by (simp add: sample_file_def new_open_file_def sample_env_def open_base.defs
      open_file_base_def set_api_error_def file_size_of_def divide_with_ceiling_def last_chunk_size_of_def)

lemma sample_idle_ok: "tables_ok sample_parts sample_idle" "handles_at sample_parts 0 sample_idle = {}"
  by (auto simp: tables_ok_def live_def sample_idle_def fm_init_def handles_at_def handles_of_def path_at_def unlinked_at_def
      object_ops_def sample_data sample_item_def)

lemma sample_unlinked_ok: "tables_ok sample_parts sample_unlinked" "handles_at sample_parts 0 sample_unlinked = {1}"
  by (auto simp: tables_ok_def live_def sample_unlinked_def fm_init_def handles_at_def handles_of_def path_at_def unlinked_at_def
      object_ops_def)

lemma sample_answers:
  "p_get_item (provider_of one_file) ''/a'' False pr = (success, \<lparr>api_path = ''/a'', api_parent = parent_of ''/a'',
     directory = False, item_size = 0, source_path = ''/c/a''\<rparr>)"
  "p_get_meta (provider_of one_file) ''/a'' pr = (success, [(''size'', ''0''), (''source'', ''/c/a'')])"
  "fst (p_remove_file (provider_of one_file) ''/a'' pr) = success"
  by (simp_all add: sample_defs sample_size provider_remove_file_def remove_file_meta_def remove_file_ended_def)

lemma sample_remove: "\<exists>st. remove_file sample_parts ''/a'' sample_idle = (success, st)"
proof -
  have "fst (remove_file sample_parts ''/a'' sample_idle) = success"
    using sample_answers(3) by (simp add: remove_file_def sample_answers Let_def split_beta split: option.split)
  then show ?thesis by (metis prod.collapse)
qed

theorem remove_file_keeps_source_witness:
  "\<exists>st. remove_file sample_parts ''/a'' sample_idle = (success, st) \<and> mlocal st = [''/c/a''] \<and> \<not> referenced 0 st"
proof -
  obtain st where r: "remove_file sample_parts ''/a'' sample_idle = (success, st)" using sample_remove by blast
  have p: "map_of (open_lookup sample_idle) ''/a'' = Some 0" by (simp add: sample_idle_def)
  from remove_file_keeps_source[OF refl sample_idle_ok(1) p r] show ?thesis
    using r sample_idle_ok(2) by (simp add: sample_idle_def fm_init_def)
qed

theorem last_close_removes_source_witness: "mlocal (fm_close sample_parts 1 sample_unlinked) = []"
proof -
  have "mlocal (fm_close sample_parts 1 sample_unlinked) = (if handles_at sample_parts 0 sample_unlinked = {1}
      then snd (l_remove disk_ops (source_path (cf_item (fileops sample_parts) (object_at 0 sample_unlinked))) (mlocal sample_unlinked))
      else mlocal sample_unlinked)"
    by (rule last_close_removes_source[OF refl sample_unlinked_ok(1)])
      (simp_all add: sample_unlinked_def object_ops_def)
  then show ?thesis
    unfolding sample_unlinked_ok(2) by (simp add: sample_unlinked_def object_ops_def disk_ops_def sample_item_def fm_init_def)
qed

section \<open>Uploads\<close>

text \<open>The manager as a client of its database.\<close>

lemma log_kept [simp]:
  "mlog (say e st) = mlog st @ [e]" "set (mlog st) \<subseteq> set (mlog (fm_remove_upload S p st))"
  "set (mlog st) \<subseteq> set (mlog (fm_remove_resume S p src st))"
  by (auto simp: say_def fm_remove_upload_def fm_remove_resume_def cancel_upload_def Let_def split: prod.split option.split)

lemma prov_queue [simp]: "mprov (say e st) = mprov st"
  by (simp add: say_def)

context file_mgr_db begin

lemma remove_upload_state:
  assumes S: "dbops S = db" "\<not> is_read_only S" and g: "good (mdb st)" "path_ok p"
  defines "st' \<equiv> fm_remove_upload S p st"
  shows "good (mdb st') \<and> (full (mdb st') \<longrightarrow> full (mdb st)) \<and> active (mdb st') \<subseteq>\<^sub>m active (mdb st) \<and>
    (p \<notin> fst ` set (uploads (mdb st')) \<or> error_raised p error \<in> set (mlog st'))"
proof -
  obtain ok d where r: "remove_upload db p (mdb st) = (ok, d)" by force
  obtain gone d' where a: "remove_upload_active db p d = (gone, d')" by force
  note l1 = remove_upload_law[OF g r] and l2 = remove_active_law[OF _ a]
  have m: "mdb st' = d'" "\<not> ok \<Longrightarrow> error_raised p error \<in> set (mlog st')"
    using S by (auto simp: st'_def fm_remove_upload_def r a Let_def say_def cancel_upload_def split: option.split)
  have "active d' \<subseteq>\<^sub>m active (mdb st)" using l1 l2 by (auto simp: map_le_def)
  then show ?thesis using l1 l2 m by auto
qed

lemma queue_upload_state:
  fixes src :: string and st :: "('f, 'd, 'p, 's) fmgr"
  assumes S: "dbops S = db" "\<not> is_read_only S" and g: "good (mdb st)" "path_ok p" "\<not> full (mdb st)"
  defines "st' \<equiv> fm_queue_upload S p src False st"
  shows "map_of (uploads (mdb st')) p = Some src \<or> error_raised p error \<in> set (mlog st') \<or>
    upload_failed p src \<in> set (mlog st')"
proof -
  define st1 where "st1 = fm_remove_upload S p st"
  note r = remove_upload_state[OF S g(1,2), folded st1_def]
  obtain ok d where a: "add_upload db (p, src) (mdb st1) = (ok, d)" by force
  have q: "st' = (if ok then say (upload_queued p src) (fm_remove_resume S p src (st1\<lparr>mdb := d\<rparr>))
      else say (upload_failed p src) (st1\<lparr>mdb := d\<rparr>))"
    using S by (simp add: st'_def fm_queue_upload_def st1_def[symmetric] a)
  obtain ok2 d2 where rr: "remove_resume db p d = (ok2, d2)" by force
  have m: "mdb (fm_remove_resume S p src (st1\<lparr>mdb := d\<rparr>)) = d2"
    using S by (simp add: fm_remove_resume_def rr say_def)
  show ?thesis
  proof (cases "p \<in> fst ` set (uploads (mdb st1))")
    case True
    then have "error_raised p error \<in> set (mlog st1)" using r by blast
    then have "error_raised p error \<in> set (mlog st')"
      using log_kept(3)[of "st1\<lparr>mdb := d\<rparr>" S p src] by (auto simp: q)
    then show ?thesis by blast
  next
    case False
    note l = add_upload_law[OF _ _ g(2) False a]
    show ?thesis
    proof (cases ok)
      case True
      then have u: "good d" "uploads d = uploads (mdb st1) @ [(p, src)]" using l r g(3) by auto
      then have "uploads (mdb st') = uploads (mdb st1) @ [(p, src)]"
        using remove_resume_law[OF u(1) rr] m True by (simp add: q say_def)
      moreover have "map_of (uploads (mdb st1)) p = None" using False by (simp add: map_of_eq_None_iff)
      ultimately show ?thesis by (simp add: map_add_def)
    qed (simp add: q)
  qed
qed

end

text \<open>C16. A rename that the provider refuses loses no upload: the file is queued again under its old
  path, with the source file it had, or the log says that the database failed.  The code queues it
  also where no upload was pending before.\<close>

theorem failed_rename_queues_upload:
  assumes "file_mgr_db (dbops S) good full path_ok uploads active resume"
    and "good (mdb st)" "path_ok p" "\<not> full (mdb st)" "\<not> is_read_only S"
    and "p_rename_file (provops S) p q (mprov st) = (e, pr)" "e \<noteq> success"
    and "handle_file_rename S p q st = (r, st')"
  shows "r = Returns e \<and> (map_of (uploads (mdb st')) p = Some (snd (pending_source S p st)) \<or>
    error_raised p error \<in> set (mlog st') \<or> upload_failed p (snd (pending_source S p st)) \<in> set (mlog st'))"
proof -
  obtain up src where ps: "pending_source S p st = (up, src)" by force
  define st1 where "st1 = (fm_remove_upload S p st)\<lparr>mprov := pr\<rparr>"
  have m: "mprov (fm_remove_upload S p st) = mprov st" by simp
  have r: "r = Returns e" "st' = fm_queue_upload S p src False st1"
    using assms(6-8) by (auto simp: handle_file_rename_def ps m st1_def Let_def)
  have g: "good (mdb st1)" "\<not> full (mdb st1)"
    using file_mgr_db.remove_upload_state[OF assms(1) refl assms(5,2,3)] assms(4) by (auto simp: st1_def)
  show ?thesis
    using file_mgr_db.queue_upload_state[OF assms(1) refl assms(5) g(1) assms(3) g(2), of src] r ps by simp
qed

theorem failed_rename_queues_upload_witness:
  "\<exists>r st. handle_file_rename sample_parts ''/a'' ''/b'' sample_idle = (r, st) \<and> r = Returns comm_error \<and>
    (map_of (rdb_uploads rbt_kv (mdb st)) ''/a'' = Some ''/c/a'' \<or> error_raised ''/a'' error \<in> set (mlog st) \<or>
     upload_failed ''/a'' ''/c/a'' \<in> set (mlog st))"
proof -
  obtain r st where h: "handle_file_rename sample_parts ''/a'' ''/b'' sample_idle = (r, st)" by force
  have db: "file_mgr_db (dbops sample_parts) (rdb_good rbt_kv text_codec) rdb_full rdb_path_ok (rdb_uploads rbt_kv)
      (rdb_active rbt_kv) (rdb_resume rbt_kv text_codec)"
    using rbt_db.rdb.file_mgr_db_axioms by simp
  have g: "rdb_good rbt_kv text_codec (mdb sample_idle)" "\<not> rdb_full (mdb sample_idle)"
    using rdb_new_good[OF rbt.column_family_axioms] by (simp_all add: sample_idle_def fm_init_def rdb_full_def rdb_new_def)
  have s: "snd (pending_source sample_parts ''/a'' sample_idle) = ''/c/a''"
    by (simp add: pending_source_def sample_idle_def fm_init_def object_ops_def sample_item_def Let_def split: option.split)
  obtain pr where p: "p_rename_file (provops sample_parts) ''/a'' ''/b'' (mprov sample_idle) = (comm_error, pr)"
    by (simp add: sample_defs provider_rename_file_def sample_idle_def)
  have "rdb_path_ok ''/a''" by (simp add: rdb_path_ok_def bar_def)
  from failed_rename_queues_upload[OF db g(1) this g(2) manager_not_read_only p _ h] h show ?thesis by (auto simp: s)
qed

end
