(* ===== verification/Base64.thy ===== *)
theory Base64 imports Strings Api_Errors begin

text \<open>
  Base64 (src/support/include/utils/base64.hpp), in which extended attributes and encrypted names
  are stored.  Encoding takes three bytes to four characters of one of two alphabets, with or without
  padding; decoding accepts both alphabets, padded or not.
\<close>

unbundle bit_operations_syntax

section \<open>Encoding\<close>

definition kStdAlphabet :: string where
  "kStdAlphabet = ''ABCDEFGHIJKLMNOPQRSTUVWXYZabcdefghijklmnopqrstuvwxyz0123456789+/''"

definition kUrlAlphabet :: string where
  "kUrlAlphabet = ''ABCDEFGHIJKLMNOPQRSTUVWXYZabcdefghijklmnopqrstuvwxyz0123456789-_''"

definition letter :: "string \<Rightarrow> byte \<Rightarrow> char" where
  "letter alpha v = alpha ! unat v"

fun encode_blocks :: "string \<Rightarrow> bool \<Rightarrow> bytes \<Rightarrow> string" where
  "encode_blocks alpha pad (b0 # b1 # b2 # rest) =
    letter alpha (drop_bit 2 b0 AND 0x3F) #
    letter alpha (push_bit 4 (b0 AND 0x03) OR (drop_bit 4 b1 AND 0x0F)) #
    letter alpha (push_bit 2 (b1 AND 0x0F) OR (drop_bit 6 b2 AND 0x03)) #
    letter alpha (b2 AND 0x3F) # encode_blocks alpha pad rest"
| "encode_blocks alpha pad [b0, b1] =
    [letter alpha (drop_bit 2 b0 AND 0x3F),
     letter alpha (push_bit 4 (b0 AND 0x03) OR (drop_bit 4 b1 AND 0x0F)),
     letter alpha (push_bit 2 (b1 AND 0x0F))] @ (if pad then ''='' else [])"
| "encode_blocks alpha pad [b0] =
    [letter alpha (drop_bit 2 b0 AND 0x3F), letter alpha (push_bit 4 (b0 AND 0x03))] @ (if pad then ''=='' else [])"
| "encode_blocks alpha pad [] = []"

definition base64_encode :: "bool \<Rightarrow> bool \<Rightarrow> bytes \<Rightarrow> string" where
  "base64_encode url_safe pad data = encode_blocks (if url_safe then kUrlAlphabet else kStdAlphabet) pad data"

section \<open>Decoding\<close>

text \<open>\<open>kDecodingTable\<close>: 64 for a character of neither alphabet.\<close>

definition kDecodingTable :: "char \<Rightarrow> nat" where
  "kDecodingTable ch =
    (let c = of_char ch in
     if of_char (CHR ''A'') \<le> c \<and> c \<le> of_char (CHR ''Z'') then c - of_char (CHR ''A'')
     else if of_char (CHR ''a'') \<le> c \<and> c \<le> of_char (CHR ''z'') then 26 + c - of_char (CHR ''a'')
     else if of_char (CHR ''0'') \<le> c \<and> c \<le> of_char (CHR ''9'') then 52 + c - of_char (CHR ''0'')
     else if ch = CHR ''+'' \<or> ch = CHR ''-'' then 62
     else if ch = CHR ''/'' \<or> ch = CHR ''_'' then 63
     else 64)"

definition read_val :: "char \<Rightarrow> exn + nat" where
  "read_val c =
    (if kDecodingTable c = 64 then Inl (runtime_error ''Invalid Base64 character'') else Inr (kDecodingTable c))"

text \<open>The values of some characters; the first bad one throws.\<close>

fun read_vals :: "string \<Rightarrow> exn + nat list" where
  "read_vals [] = Inr []"
| "read_vals (c # cs) =
    (case read_val c of Inl e \<Rightarrow> Inl e
     | Inr v \<Rightarrow> (case read_vals cs of Inl e \<Rightarrow> Inl e | Inr vs \<Rightarrow> Inr (v # vs)))"

definition triple_of :: "nat \<Rightarrow> nat \<Rightarrow> nat \<Rightarrow> nat \<Rightarrow> 32 word" where
  "triple_of a b c d =
    push_bit 18 (word_of_nat a) OR push_bit 12 (word_of_nat b) OR push_bit 6 (word_of_nat c) OR word_of_nat d"

definition triple_bytes :: "32 word \<Rightarrow> bytes" where
  "triple_bytes t = [ucast (drop_bit 16 t AND 0xFF), ucast (drop_bit 8 t AND 0xFF), ucast (t AND 0xFF)]"

fun decode_quartets :: "string \<Rightarrow> exn + bytes" where
  "decode_quartets (a # b # c # d # rest) =
    (case read_vals [a, b, c, d] of Inl e \<Rightarrow> Inl e
     | Inr vs \<Rightarrow>
         (case decode_quartets rest of Inl e \<Rightarrow> Inl e
          | Inr out \<Rightarrow> Inr (triple_bytes (triple_of (vs ! 0) (vs ! 1) (vs ! 2) (vs ! 3)) @ out)))"
| "decode_quartets _ = Inr []"

definition pad_char :: char where
  "pad_char = CHR ''=''"

text \<open>The last quartet where the input is padded, or the two or three characters that are left.\<close>

definition decode_tail :: "string \<Rightarrow> exn + bytes" where
  "decode_tail s =
    (if length s = 4 then
       (let third_is_pad = s ! 2 = pad_char; fourth_is_pad = s ! 3 = pad_char in
        if s ! 0 = pad_char \<or> s ! 1 = pad_char then Inl (runtime_error ''Invalid Base64 padding placement'')
        else case read_vals (take 2 s) of
          Inl e \<Rightarrow> Inl e
        | Inr ab \<Rightarrow>
            if \<not> third_is_pad then
              (case read_vals (if fourth_is_pad then [s ! 2] else [s ! 2, s ! 3]) of
                 Inl e \<Rightarrow> Inl e
               | Inr cd \<Rightarrow>
                   Inr (take (if fourth_is_pad then 2 else 3)
                     (triple_bytes (triple_of (ab ! 0) (ab ! 1) (cd ! 0) (if fourth_is_pad then 0 else cd ! 1)))))
            else if \<not> fourth_is_pad then Inl (runtime_error ''Invalid Base64 padding placement'')
            else Inr (take 1 (triple_bytes (triple_of (ab ! 0) (ab ! 1) 0 0))))
     else if length s = 2 \<or> length s = 3 then
       (case read_vals s of
          Inl e \<Rightarrow> Inl e
        | Inr vs \<Rightarrow>
            Inr (take (length s - 1) (triple_bytes (triple_of (vs ! 0) (vs ! 1) (if length s = 3 then vs ! 2 else 0) 0))))
     else Inl (runtime_error ''Invalid Base64 length (mod 4 == 1)''))"

definition base64_decode :: "string \<Rightarrow> exn + bytes" where
  "base64_decode s =
    (if s = [] then Inr []
     else
       let n = length s; rem = n mod 4;
           has_padding = rem = 0 \<and> 4 \<le> n \<and> s ! (n - 1) = pad_char
       in if \<not> has_padding \<and> rem = 1 then Inl (runtime_error ''Invalid Base64 length (mod 4 == 1)'')
          else
            let out_len = (if has_padding then n div 4 * 3 - 1 - (if s ! (n - 2) = pad_char then 1 else 0)
                           else n div 4 * 3 + (if rem = 0 then 0 else if rem = 2 then 1 else 2));
                last_full = (if has_padding then n - 4 else n - rem)
            in case decode_quartets (take last_full s) of
                 Inl e \<Rightarrow> Inl e
               | Inr out \<Rightarrow>
                   if last_full = n then Inr (resize_to 0 out_len out)
                   else (case decode_tail (drop last_full s) of
                           Inl e \<Rightarrow> Inl e
                         | Inr rest \<Rightarrow> Inr (resize_to 0 out_len (out @ rest))))"

section \<open>Decoding takes back the encoding\<close>

lemma letters_table: "map kDecodingTable kStdAlphabet = [0..<64]" "map kDecodingTable kUrlAlphabet = [0..<64]"
  by (simp_all add: kStdAlphabet_def kUrlAlphabet_def kDecodingTable_def Let_def upt_rec)

lemma letters_complete: "n < 64 \<Longrightarrow> kDecodingTable (kStdAlphabet ! n) = n \<and> kDecodingTable (kUrlAlphabet ! n) = n"
proof -
  assume n: "n < 64"
  have l: "length kStdAlphabet = 64" "length kUrlAlphabet = 64"
    using arg_cong[OF letters_table(1), of length] arg_cong[OF letters_table(2), of length] by simp_all
  have "kDecodingTable (kStdAlphabet ! n) = [0..<64] ! n" "kDecodingTable (kUrlAlphabet ! n) = [0..<64] ! n"
    using n l by (simp_all add: nth_map[symmetric] letters_table)
  then show ?thesis using n by simp
qed

definition alphabet :: "string \<Rightarrow> bool" where
  "alphabet alpha \<longleftrightarrow> alpha = kStdAlphabet \<or> alpha = kUrlAlphabet"

lemma read_letter: "alphabet alpha \<Longrightarrow> unat v < 64 \<Longrightarrow> read_val (letter alpha v) = Inr (unat v)"
  using letters_complete by (auto simp: alphabet_def read_val_def letter_def)

lemma letter_not_pad: "alphabet alpha \<Longrightarrow> unat v < 64 \<Longrightarrow> letter alpha v \<noteq> pad_char"
proof
  assume a: "alphabet alpha" "unat v < 64" "letter alpha v = pad_char"
  have "kDecodingTable pad_char = 64" by (simp add: kDecodingTable_def pad_char_def)
  then have "read_val pad_char \<noteq> Inr (unat v)" by (simp add: read_val_def)
  then show False using read_letter[OF a(1,2)] a(3) by simp
qed

lemma byte_eqI:
  fixes x y :: byte
  assumes "bit x 0 = bit y 0" "bit x 1 = bit y 1" "bit x 2 = bit y 2" "bit x 3 = bit y 3"
    "bit x 4 = bit y 4" "bit x 5 = bit y 5" "bit x 6 = bit y 6" "bit x 7 = bit y 7"
  shows "x = y"
proof (rule bit_word_eqI)
  fix n assume "n < LENGTH(8)"
  then have "n = 0 \<or> n = 1 \<or> n = 2 \<or> n = 3 \<or> n = 4 \<or> n = 5 \<or> n = 6 \<or> n = 7" by auto
  then show "bit x n = bit y n" using assms by blast
qed

lemma small_words:
  "unat (v AND 0x3F :: byte) < 64"
  "unat (push_bit 4 (b0 AND 0x03) OR (drop_bit 4 b1 AND 0x0F) :: byte) < 64"
  "unat (push_bit 2 (b1 AND 0x0F) OR (drop_bit 6 b2 AND 0x03) :: byte) < 64"
  "unat (push_bit 4 (b0 AND 0x03) :: byte) < 64"
  "unat (push_bit 2 (b1 AND 0x0F) :: byte) < 64"
proof -
  have m: "unat w < 64" if "w AND 0x3F = w" for w :: byte
  proof -
    have "w = take_bit 6 w" using that by (simp add: take_bit_eq_mask mask_eq_exp_minus_1)
    then have "unat w = take_bit 6 (unat w)" by (metis unsigned_take_bit_eq)
    then show ?thesis using take_bit_nat_less_exp[of 6 "unat w"] by simp
  qed
  show "unat (v AND 0x3F :: byte) < 64" by (rule m) (simp add: and.assoc)
  show "unat (push_bit 4 (b0 AND 0x03) OR (drop_bit 4 b1 AND 0x0F) :: byte) < 64"
    by (rule m, rule byte_eqI) (simp_all add: bit_simps)
  show "unat (push_bit 2 (b1 AND 0x0F) OR (drop_bit 6 b2 AND 0x03) :: byte) < 64"
    by (rule m, rule byte_eqI) (simp_all add: bit_simps)
  show "unat (push_bit 4 (b0 AND 0x03) :: byte) < 64" by (rule m, rule byte_eqI) (simp_all add: bit_simps)
  show "unat (push_bit 2 (b1 AND 0x0F) :: byte) < 64" by (rule m, rule byte_eqI) (simp_all add: bit_simps)
qed

lemma triple_bits:
  "bit (triple_of (unat (a :: byte)) (unat (b :: byte)) (unat (c :: byte)) (unat (d :: byte))) n \<longleftrightarrow>
    n < 32 \<and> (18 \<le> n \<and> bit a (n - 18) \<or> 12 \<le> n \<and> bit b (n - 12) \<or> 6 \<le> n \<and> bit c (n - 6) \<or> bit d n)"
  unfolding triple_of_def word_of_nat_eq_iff
  by (auto simp: bit_simps of_nat_unat)

lemma block_triple:
  "triple_bytes (triple_of (unat (drop_bit 2 b0 AND 0x3F :: byte))
     (unat (push_bit 4 (b0 AND 0x03) OR (drop_bit 4 b1 AND 0x0F) :: byte))
     (unat (push_bit 2 (b1 AND 0x0F) OR (drop_bit 6 b2 AND 0x03) :: byte)) (unat (b2 AND 0x3F :: byte))) = [b0, b1, b2]"
  unfolding triple_bytes_def
  by (intro arg_cong2[where f = Cons] refl; rule byte_eqI) (simp_all add: bit_simps triple_bits)

lemmas small_words_simp = small_words[simplified]

lemmas small_words_both [simp] = small_words small_words_simp

lemmas block_triple_simp = block_triple[simplified]

lemmas one_byte = block_triple[of _ 0 0, simplified] and two_bytes = block_triple[of _ _ 0, simplified]

lemma encode_append:
  "length full mod 3 = 0 \<Longrightarrow> encode_blocks alpha pad (full @ rest) = encode_blocks alpha pad full @ encode_blocks alpha pad rest"
  by (induction alpha pad full rule: encode_blocks.induct) (auto simp: mod_Suc split: if_splits)

lemma encode_full:
  "alphabet alpha \<Longrightarrow> length full mod 3 = 0 \<Longrightarrow>
   length (encode_blocks alpha pad full) = 4 * (length full div 3) \<and>
   decode_quartets (encode_blocks alpha pad full) = Inr full \<and>
   (full \<noteq> [] \<longrightarrow> last (encode_blocks alpha pad full) \<noteq> pad_char)"
proof (induction alpha pad full rule: encode_blocks.induct)
  case (1 alpha pad b0 b1 b2 rest)
  have "length rest mod 3 = 0" using 1(3) by (simp add: mod_Suc split: if_splits)
  note IH = 1(1)[OF 1(2) this]
  have n: "length (encode_blocks alpha pad (b0 # b1 # b2 # rest)) = 4 * (length (b0 # b1 # b2 # rest) div 3)"
    using IH by simp presburger
  have d: "decode_quartets (encode_blocks alpha pad (b0 # b1 # b2 # rest)) = Inr (b0 # b1 # b2 # rest)"
    using IH 1(2) by (simp add: read_letter block_triple_simp)
  have "last (encode_blocks alpha pad (b0 # b1 # b2 # rest)) \<noteq> pad_char"
  proof (cases rest)
    case Nil
    then show ?thesis using letter_not_pad[OF 1(2) small_words(1)] by simp
  next
    case (Cons b bs)
    then have "encode_blocks alpha pad rest \<noteq> []" using IH by (metis decode_quartets.simps(2) list.distinct(1) sum.inject(2))
    then show ?thesis using IH Cons by simp
  qed
  then show ?case using n d by blast
qed simp_all

lemma resize_exact: "length xs = n \<Longrightarrow> resize_to z n xs = xs"
  by (simp add: resize_to_def pad_to_def)

lemma decode_whole:
  assumes "s \<noteq> []" "length s mod 4 = 0" "last s \<noteq> pad_char" "decode_quartets s = Inr out" "length out = length s div 4 * 3"
  shows "base64_decode s = Inr out"
proof -
  have "s ! (length s - 1) \<noteq> pad_char" using assms(1,3) by (simp add: last_conv_nth)
  then show ?thesis using assms by (simp add: base64_decode_def Let_def resize_exact)
qed

lemma decode_padded:
  assumes "length q mod 4 = 0" "decode_quartets q = Inr out" "length out = length q div 4 * 3"
    and "length t = 4" "t ! 3 = pad_char" "decode_tail t = Inr rest" "length rest = (if t ! 2 = pad_char then 1 else 2)"
  shows "base64_decode (q @ t) = Inr (out @ rest)"
proof -
  have t: "q @ t \<noteq> []" "(q @ t) ! (length (q @ t) - 1) = pad_char" "(q @ t) ! (length (q @ t) - 2) = t ! 2"
    using assms(4,5) by (auto simp: nth_append)
  have tn: "t \<noteq> []" using assms(4) by auto
  obtain k where k: "length q = 4 * k" using assms(1) by auto
  have "length (q @ t) div 4 * 3 - 1 - (if t ! 2 = pad_char then 1 else 0) = length (out @ rest)"
    using assms(3,4,7) k by auto
  then show ?thesis
    using assms(2,4,6) t(2,3) tn k unfolding base64_decode_def by (simp add: Let_def resize_exact)
qed

lemma decode_unpadded:
  assumes "length q mod 4 = 0" "decode_quartets q = Inr out" "length out = length q div 4 * 3"
    and "length t = 2 \<or> length t = 3" "decode_tail t = Inr rest" "length rest = length t - 1"
  shows "base64_decode (q @ t) = Inr (out @ rest)"
proof -
  obtain k where k: "length q = 4 * k" using assms(1) by auto
  have m: "length (q @ t) mod 4 = length t" "length (q @ t) div 4 = length q div 4" using assms(4) k by auto
  then have "length (q @ t) - length (q @ t) mod 4 = length q" by simp
  then show ?thesis
    using assms m unfolding base64_decode_def by (auto simp: Let_def resize_exact)
qed

lemma tail_two:
  assumes a: "alphabet alpha"
  shows "decode_tail (encode_blocks alpha False [b0]) = Inr [b0]"
  using a by (simp add: decode_tail_def read_letter one_byte)

lemma tail_three:
  assumes a: "alphabet alpha"
  shows "decode_tail (encode_blocks alpha False [b0, b1]) = Inr [b0, b1]"
  using a by (simp add: decode_tail_def read_letter two_bytes)

lemma tail_two_padded:
  assumes a: "alphabet alpha"
  shows "decode_tail (encode_blocks alpha True [b0]) = Inr [b0]"
  using a letter_not_pad[OF a small_words_simp(1)] letter_not_pad[OF a small_words_simp(4)]
  by (simp add: decode_tail_def read_letter one_byte Let_def pad_char_def)

lemma tail_three_padded:
  assumes a: "alphabet alpha"
  shows "decode_tail (encode_blocks alpha True [b0, b1]) = Inr [b0, b1] \<and> encode_blocks alpha True [b0, b1] ! 2 \<noteq> pad_char"
  using a letter_not_pad[OF a small_words_simp(1)] letter_not_pad[OF a small_words_simp(2)] letter_not_pad[OF a small_words_simp(5)]
  by (simp add: decode_tail_def read_letter two_bytes Let_def pad_char_def)

lemma decode_with_rest:
  assumes a: "alphabet alpha" and f: "length full mod 3 = 0" and r: "rest \<noteq> []" "length rest < 3"
  shows "base64_decode (encode_blocks alpha pad full @ encode_blocks alpha pad rest) = Inr (full @ rest)"
proof -
  note q = encode_full[OF a f, of pad]
  have ql: "length (encode_blocks alpha pad full) mod 4 = 0" "length full = length (encode_blocks alpha pad full) div 4 * 3"
    using q f by auto
  obtain b0 bs where b: "rest = b0 # bs" using r(1) by (cases rest) auto
  show ?thesis
  proof (cases bs)
    case Nil
    show ?thesis
    proof (cases pad)
      case True
      show ?thesis
        using decode_padded[OF ql(1) _ ql(2), of "encode_blocks alpha pad rest" rest] q tail_two_padded[OF a, of b0] True b Nil
        by (simp add: pad_char_def)
    next
      case False
      show ?thesis
        using decode_unpadded[OF ql(1) _ ql(2), of "encode_blocks alpha pad rest" rest] q tail_two[OF a, of b0] False b Nil
        by simp
    qed
  next
    case (Cons b1 bs')
    then have b': "rest = [b0, b1]" using b r(2) by simp
    show ?thesis
    proof (cases pad)
      case True
      show ?thesis
        using decode_padded[OF ql(1) _ ql(2), of "encode_blocks alpha pad rest" rest] q tail_three_padded[OF a, of b0 b1] True b'
        by (simp add: pad_char_def)
    next
      case False
      show ?thesis
        using decode_unpadded[OF ql(1) _ ql(2), of "encode_blocks alpha pad rest" rest] q tail_three[OF a, of b0 b1] False b'
        by simp
    qed
  qed
qed

lemma decode_no_rest:
  assumes a: "alphabet alpha" and f: "length full mod 3 = 0"
  shows "base64_decode (encode_blocks alpha pad full) = Inr full"
proof (cases "full = []")
  case False
  note q = encode_full[OF a f, of pad]
  have n: "length full \<ge> 3" using False f by (cases full) (auto simp: mod_eq_0_iff_dvd dest: dvd_imp_le)
  have d: "decode_quartets (encode_blocks alpha pad full) = Inr full" and l: "last (encode_blocks alpha pad full) \<noteq> pad_char"
    using q False by blast+
  have "encode_blocks alpha pad full \<noteq> []" using q n by (auto simp: div_eq_0_iff)
  moreover have "length (encode_blocks alpha pad full) mod 4 = 0" "length full = length (encode_blocks alpha pad full) div 4 * 3"
    using q f by auto
  ultimately show ?thesis by (intro decode_whole[OF _ _ l d])
qed (simp add: base64_decode_def)

lemma decode_encode:
  assumes a: "alphabet alpha"
  shows "base64_decode (encode_blocks alpha pad data) = Inr data"
proof -
  define full where "full = take (length data div 3 * 3) data"
  define rest where "rest = drop (length data div 3 * 3) data"
  have "length full = length data div 3 * 3" by (simp add: full_def)
  then have f: "length full mod 3 = 0" by simp
  have d: "data = full @ rest" unfolding full_def rest_def by (rule append_take_drop_id[symmetric])
  have "length rest = length data mod 3" unfolding rest_def by (simp add: minus_div_mult_eq_mod)
  then have r: "length rest < 3" by simp
  show ?thesis
  proof (cases "rest = []")
    case True
    then show ?thesis using decode_no_rest[OF a f] d by simp
  next
    case False
    show ?thesis unfolding d encode_append[OF f] by (rule decode_with_rest[OF a f False r])
  qed
qed

text \<open>
  C23. Decoding takes back the encoding: for either alphabet, with or without padding, every text of
  bytes comes back as it was.
\<close>

theorem base64_roundtrip: "base64_decode (base64_encode url_safe pad data) = Inr data"
  unfolding base64_encode_def by (rule decode_encode) (simp add: alphabet_def)

end
