(* ===== verification/Directory_Cache.thy ===== *)
theory Directory_Cache imports Base_Provider "HOL-Library.AList" begin

text \<open>
  The open directories of a drive (drives/directory_cache.cpp) and the list each of them reads from
  (drives/directory_iterator.cpp).  A directory is read in pages: the kernel asks for the entries
  from an offset, \<open>fill_buffer\<close> hands it one entry at a time until its buffer is full, and each entry
  carries the offset of the next one.

  The buffer of the kernel is a state of its own with the operation \<open>fill\<close>
  (\<open>fuse_fill_dir_t\<close>), whose result is true when the entry does not fit.
\<close>

section \<open>The list of a directory\<close>

record file_stat =
  sb_mode :: "32 word"
  sb_nlink :: nat
  sb_uid :: "32 word"
  sb_gid :: "32 word"
  sb_size :: nat
  sb_blocks :: nat
  sb_blksize :: nat
  sb_atim :: "nat \<times> nat"                        \<comment> \<open>seconds, nanoseconds\<close>
  sb_mtim :: "nat \<times> nat"
  sb_ctim :: "nat \<times> nat"

definition zero_stat :: file_stat where
  "zero_stat = \<lparr>sb_mode = 0, sb_nlink = 0, sb_uid = 0, sb_gid = 0, sb_size = 0, sb_blocks = 0, sb_blksize = 0,
    sb_atim = (0, 0), sb_mtim = (0, 0), sb_ctim = (0, 0)\<rparr>"

definition strip_to_file_name :: "string \<Rightarrow> string" where
  "strip_to_file_name path =
    (if path = ''.'' \<or> path = ''..'' \<or> \<not> str_contains path [slash] then path
     else
       let p = right_trim slash path
       in if p = [] then [slash] else rev (takeWhile (\<lambda>c. c \<noteq> slash) (rev p)))"

definition end_of_directory :: int where
  "end_of_directory = 120"                     \<comment> \<open>the \<open>errno\<close> after the last entry\<close>

text \<open>What \<open>fill_buffer\<close> passes for one offset; the exception of \<open>populate_stat\<close> is caught.\<close>

definition entry_at :: "directory_item list \<Rightarrow> (directory_item \<Rightarrow> exn + file_stat) \<Rightarrow> nat \<Rightarrow> exn + (string \<times> file_stat)" where
  "entry_at items populate offset =
    (if offset < 2 then
       Inr (if offset = 0 then ''.'' else ''..'', zero_stat\<lparr>sb_mode := 0x41ED, sb_nlink := 2\<rparr>)
     else case populate (items ! offset) of
       Inl e \<Rightarrow> Inl e
     | Inr s \<Rightarrow> Inr (strip_to_file_name (di_path (items ! offset)), s))"

definition fill_buffer ::
  "directory_item list \<Rightarrow> (directory_item \<Rightarrow> exn + file_stat) \<Rightarrow> (string \<Rightarrow> file_stat \<Rightarrow> nat \<Rightarrow> 'b \<Rightarrow> bool \<times> 'b) \<Rightarrow>
   nat \<Rightarrow> 'b \<Rightarrow> int option \<times> 'b" where
  "fill_buffer items populate fill offset b =
    (if length items \<le> offset then (Some end_of_directory, b)
     else case entry_at items populate offset of
       Inl _ \<Rightarrow> (None, b)
     | Inr (name, s) \<Rightarrow>
         (case fill name s (Suc offset) b of (full, b) \<Rightarrow> (if full then Some ENOMEM else None, b)))"

definition iterator_get :: "directory_item list \<Rightarrow> nat \<Rightarrow> int + string" where
  "iterator_get items offset =
    (if length items \<le> offset then Inl end_of_directory else Inr (di_path (items ! offset)))"

definition get_directory_item_at :: "directory_item list \<Rightarrow> nat \<Rightarrow> api_error + directory_item" where
  "get_directory_item_at items offset =
    (if length items \<le> offset then Inl directory_end_of_files else Inr (items ! offset))"

definition get_directory_item_of :: "directory_item list \<Rightarrow> string \<Rightarrow> api_error + directory_item" where
  "get_directory_item_of items p =
    (case List.find (\<lambda>d. di_path d = p) items of None \<Rightarrow> Inl item_not_found | Some d \<Rightarrow> Inr d)"

fun get_next_directory_offset :: "directory_item list \<Rightarrow> string \<Rightarrow> nat" where
  "get_next_directory_offset items p =
    (let before = takeWhile (\<lambda>d. di_path d \<noteq> p) items
     in if length before = length items then 0 else Suc (length before))"

text \<open>The loop of \<open>readdir\<close>, which ends at the last entry or when the buffer is full.\<close>

function fill_loop ::
  "directory_item list \<Rightarrow> (directory_item \<Rightarrow> exn + file_stat) \<Rightarrow> (string \<Rightarrow> file_stat \<Rightarrow> nat \<Rightarrow> 'b \<Rightarrow> bool \<times> 'b) \<Rightarrow>
   nat \<Rightarrow> 'b \<Rightarrow> int \<times> 'b" where
  "fill_loop items populate fill offset b =
    (case fill_buffer items populate fill offset b of
       (Some e, b) \<Rightarrow> (e, b)
     | (None, b) \<Rightarrow> fill_loop items populate fill (Suc offset) b)"
  by pat_completeness auto
termination
  by (relation "measure (\<lambda>(items, populate, fill, offset, b). length items - offset)")
    (auto simp: fill_buffer_def split: if_splits)

declare fill_loop.simps [simp del]

section \<open>The open directories\<close>

record 'i open_directory =
  dir_iterator :: 'i
  dir_handles :: "nat list"

type_synonym 'i dir_cache = "(string \<times> 'i open_directory) list"

definition execute_action :: "string \<Rightarrow> ('i \<Rightarrow> 'i) \<Rightarrow> 'i dir_cache \<Rightarrow> 'i dir_cache" where
  "execute_action p execute c =
    (case map_of c p of None \<Rightarrow> c | Some d \<Rightarrow> AList.update p (d\<lparr>dir_iterator := execute (dir_iterator d)\<rparr>) c)"

definition handle_entry :: "nat \<Rightarrow> 'i dir_cache \<Rightarrow> (string \<times> 'i open_directory) option" where
  "handle_entry h c = List.find (\<lambda>(p, d). h \<in> set (dir_handles d)) c"

definition get_directory :: "nat \<Rightarrow> 'i dir_cache \<Rightarrow> 'i option" where
  "get_directory h c = (case handle_entry h c of None \<Rightarrow> None | Some (p, d) \<Rightarrow> Some (dir_iterator d))"

definition remove_directory_path :: "string \<Rightarrow> 'i dir_cache \<Rightarrow> 'i option \<times> 'i dir_cache" where
  "remove_directory_path p c =
    (case map_of c p of None \<Rightarrow> (None, c) | Some d \<Rightarrow> (Some (dir_iterator d), AList.delete p c))"

definition remove_directory_handle :: "nat \<Rightarrow> 'i dir_cache \<Rightarrow> 'i dir_cache" where
  "remove_directory_handle h c =
    (case handle_entry h c of
       None \<Rightarrow> c
     | Some (p, d) \<Rightarrow>
         let hs = filter (\<lambda>g. g \<noteq> h) (dir_handles d)
         in if hs = [] then AList.delete p c else AList.update p (d\<lparr>dir_handles := hs\<rparr>) c)"

definition set_directory :: "string \<Rightarrow> nat \<Rightarrow> 'i \<Rightarrow> 'i dir_cache \<Rightarrow> 'i dir_cache" where
  "set_directory p h i c =
    (let hs = (case map_of c p of None \<Rightarrow> [] | Some d \<Rightarrow> dir_handles d)
     in AList.update p \<lparr>dir_iterator = i, dir_handles = hs @ [h]\<rparr> c)"

section \<open>Which iterator a handle reads\<close>

text \<open>A handle is in one entry only, and no entry is without handles.\<close>

definition lookup_ok :: "(string \<rightharpoonup> 'i open_directory) \<Rightarrow> bool" where
  "lookup_ok M \<longleftrightarrow> (\<forall>p d. M p = Some d \<longrightarrow> dir_handles d \<noteq> []) \<and>
    (\<forall>p q d e h. M p = Some d \<longrightarrow> M q = Some e \<longrightarrow> h \<in> set (dir_handles d) \<longrightarrow> h \<in> set (dir_handles e) \<longrightarrow> p = q)"

definition cache_ok :: "'i dir_cache \<Rightarrow> bool" where
  "cache_ok c \<longleftrightarrow> distinct (map fst c) \<and> lookup_ok (map_of c)"

lemma lookup_ok_delete: "lookup_ok M \<Longrightarrow> lookup_ok (M(p := None))"
  unfolding lookup_ok_def by (metis fun_upd_apply option.distinct(1))

lemma lookup_ok_update:
  assumes "lookup_ok M" "dir_handles d \<noteq> []"
    and "\<And>q e h. M q = Some e \<Longrightarrow> h \<in> set (dir_handles e) \<Longrightarrow> h \<in> set (dir_handles d) \<Longrightarrow> q = p"
  shows "lookup_ok (M(p \<mapsto> d))"
  using assms unfolding lookup_ok_def by (auto split: if_splits)

lemma handle_entry_Some:
  assumes "cache_ok c"
  shows "handle_entry h c = Some (p, d) \<longleftrightarrow> map_of c p = Some d \<and> h \<in> set (dir_handles d)"
proof
  assume "handle_entry h c = Some (p, d)"
  then have "(p, d) \<in> set c" "h \<in> set (dir_handles d)" by (auto simp: handle_entry_def find_Some_iff in_set_conv_nth)
  then show "map_of c p = Some d \<and> h \<in> set (dir_handles d)" using assms by (auto simp: cache_ok_def)
next
  assume r: "map_of c p = Some d \<and> h \<in> set (dir_handles d)"
  then have "handle_entry h c \<noteq> None" unfolding handle_entry_def find_None_iff by (auto dest!: map_of_SomeD)
  then obtain q e where e: "handle_entry h c = Some (q, e)" by force
  then have q: "(q, e) \<in> set c" "h \<in> set (dir_handles e)" by (auto simp: handle_entry_def find_Some_iff in_set_conv_nth)
  then have "map_of c q = Some e" using assms by (auto simp: cache_ok_def)
  then show "handle_entry h c = Some (p, d)" using e r assms q(2) unfolding cache_ok_def lookup_ok_def by (metis option.inject)
qed

lemma handle_entry_None:
  "cache_ok c \<Longrightarrow> handle_entry h c = None \<longleftrightarrow> (\<forall>p d. map_of c p = Some d \<longrightarrow> h \<notin> set (dir_handles d))"
  using handle_entry_Some[of c h] by (metis not_Some_eq surj_pair)

lemma get_directory_at:
  "cache_ok c \<Longrightarrow> map_of c p = Some d \<Longrightarrow> h \<in> set (dir_handles d) \<Longrightarrow> get_directory h c = Some (dir_iterator d)"
  using handle_entry_Some[of c h p d] by (simp add: get_directory_def)

lemma get_directory_None:
  "cache_ok c \<Longrightarrow> get_directory h c = None \<longleftrightarrow> (\<forall>p d. map_of c p = Some d \<longrightarrow> h \<notin> set (dir_handles d))"
  using handle_entry_None[of c h] by (auto simp: get_directory_def split: option.splits)

lemma get_directory_Some:
  "cache_ok c \<Longrightarrow> get_directory h c = Some i \<longleftrightarrow> (\<exists>p d. map_of c p = Some d \<and> h \<in> set (dir_handles d) \<and> i = dir_iterator d)"
  using get_directory_at[of c _ _ h] get_directory_None[of c h] by (metis option.distinct(1) option.exhaust option.inject)

text \<open>What each operation does to the lookup.\<close>

lemma set_directory_map:
  "map_of (set_directory p h i c) = (map_of c)(p \<mapsto>
     \<lparr>dir_iterator = i, dir_handles = (case map_of c p of None \<Rightarrow> [] | Some d \<Rightarrow> dir_handles d) @ [h]\<rparr>)"
  by (simp add: set_directory_def Let_def update_conv')

lemma remove_handle_map:
  assumes "cache_ok c" "map_of c p = Some d" "h \<in> set (dir_handles d)"
  shows "map_of (remove_directory_handle h c) =
    (let hs = filter (\<lambda>g. g \<noteq> h) (dir_handles d) in (map_of c)(p := if hs = [] then None else Some (d\<lparr>dir_handles := hs\<rparr>)))"
  using handle_entry_Some[OF assms(1), of h p d] assms(2,3)
  by (simp add: remove_directory_handle_def Let_def update_conv' delete_conv')

lemma set_directory_ok:
  assumes c: "cache_ok c" and h: "get_directory h c = None"
  shows "cache_ok (set_directory p h i c)"
proof -
  have "distinct (map fst (set_directory p h i c))"
    using c by (simp add: cache_ok_def set_directory_def Let_def distinct_update)
  moreover have "q = p" if "map_of c q = Some e" "g \<in> set (dir_handles e)"
    "g \<in> set ((case map_of c p of None \<Rightarrow> [] | Some d \<Rightarrow> dir_handles d) @ [h])" for q e g
    using h c that get_directory_None[OF c, of h] by (auto simp: cache_ok_def lookup_ok_def split: option.splits)
  then have "lookup_ok (map_of (set_directory p h i c))"
    unfolding set_directory_map by (intro lookup_ok_update) (use c in \<open>auto simp: cache_ok_def\<close>)
  ultimately show ?thesis by (simp add: cache_ok_def)
qed

lemma remove_handle_ok:
  assumes c: "cache_ok c"
  shows "cache_ok (remove_directory_handle h c)"
proof (cases "handle_entry h c")
  case (Some x)
  obtain p d where x: "x = (p, d)" by force
  then have d: "map_of c p = Some d" "h \<in> set (dir_handles d)" using Some handle_entry_Some[OF c] by simp_all
  have "distinct (map fst (remove_directory_handle h c))"
    using c by (simp add: cache_ok_def remove_directory_handle_def Some x Let_def distinct_update distinct_delete)
  moreover have "lookup_ok (map_of (remove_directory_handle h c))"
    unfolding remove_handle_map[OF c d] Let_def using c d
    by (auto simp: cache_ok_def fun_upd_def[symmetric] intro!: lookup_ok_delete lookup_ok_update) (auto simp: lookup_ok_def)
  ultimately show ?thesis by (simp add: cache_ok_def)
qed (use c in \<open>simp add: remove_directory_handle_def\<close>)

lemma remove_path_ok: "cache_ok c \<Longrightarrow> cache_ok (snd (remove_directory_path p c))"
  by (auto simp: cache_ok_def remove_directory_path_def distinct_delete delete_conv' lookup_ok_delete split: option.splits)

definition handle_path :: "nat \<Rightarrow> 'i dir_cache \<Rightarrow> string option" where
  "handle_path h c = map_option fst (handle_entry h c)"

lemma handle_path_Some:
  "cache_ok c \<Longrightarrow> handle_path h c = Some p \<longleftrightarrow> (\<exists>d. map_of c p = Some d \<and> h \<in> set (dir_handles d))"
  using handle_entry_Some[of c h] by (auto simp: handle_path_def)

text \<open>
  Two caches that agree on the entries of a handle agree on what it reads.
\<close>

lemma get_directory_eqI:
  assumes "cache_ok c" "cache_ok c'"
    and "\<And>p d. map_of c p = Some d \<and> h \<in> set (dir_handles d) \<Longrightarrow>
      \<exists>e. map_of c' p = Some e \<and> h \<in> set (dir_handles e) \<and> dir_iterator e = dir_iterator d"
    and "\<And>p d. map_of c' p = Some d \<and> h \<in> set (dir_handles d) \<Longrightarrow> \<exists>e. map_of c p = Some e \<and> h \<in> set (dir_handles e)"
  shows "get_directory h c' = get_directory h c"
proof (cases "get_directory h c")
  case None
  then have "get_directory h c' = None" using assms(4) get_directory_None[OF assms(1), of h] get_directory_None[OF assms(2), of h] by blast
  then show ?thesis using None by simp
next
  case (Some i)
  then show ?thesis using assms(3) get_directory_Some[OF assms(1)] get_directory_Some[OF assms(2)] by metis
qed

lemma get_after_set:
  assumes c: "cache_ok c" and h: "get_directory h c = None"
  shows "get_directory g (set_directory p h i c) = (if g = h \<or> handle_path g c = Some p then Some i else get_directory g c)"
proof -
  note ok = set_directory_ok[OF c h, of p i]
  show ?thesis
  proof (cases "g = h \<or> handle_path g c = Some p")
    case True
    then have "g \<in> set ((case map_of c p of None \<Rightarrow> [] | Some d \<Rightarrow> dir_handles d) @ [h])"
      using handle_path_Some[OF c, of g p] by auto
    then show ?thesis using True get_directory_at[OF ok, of p] by (simp add: set_directory_map)
  next
    case False
    then have "\<not> (\<exists>d. map_of c p = Some d \<and> g \<in> set (dir_handles d))" using handle_path_Some[OF c] by blast
    then have "get_directory g (set_directory p h i c) = get_directory g c"
      using False by (intro get_directory_eqI[OF c ok]) (auto simp: set_directory_map split: if_splits option.splits)
    then show ?thesis using False by simp
  qed
qed

lemma get_after_remove_handle:
  assumes c: "cache_ok c"
  shows "get_directory g (remove_directory_handle h c) = (if g = h then None else get_directory g c)"
proof (cases "handle_entry h c")
  case None
  then show ?thesis by (simp add: remove_directory_handle_def get_directory_def)
next
  case (Some x)
  obtain p d where x: "x = (p, d)" by force
  then have d: "map_of c p = Some d" "h \<in> set (dir_handles d)" using Some handle_entry_Some[OF c] by simp_all
  note ok = remove_handle_ok[OF c, of h] and m = remove_handle_map[OF c d]
  show ?thesis
  proof (cases "g = h")
    case True
    have "h \<notin> set (dir_handles e)" if "map_of (remove_directory_handle h c) q = Some e" for q e
      using that c d by (auto simp: m Let_def cache_ok_def lookup_ok_def split: if_splits)
    then have "get_directory h (remove_directory_handle h c) = None" using get_directory_None[OF ok] by blast
    then show ?thesis using True by simp
  next
    case False
    have f: "g \<in> set (filter (\<lambda>k. k \<noteq> h) (dir_handles e)) \<longleftrightarrow> g \<in> set (dir_handles e)" for e :: "'a open_directory"
      using False by simp
    have "get_directory g (remove_directory_handle h c) = get_directory g c"
    proof (rule get_directory_eqI[OF c ok])
      fix q e assume e: "map_of c q = Some e \<and> g \<in> set (dir_handles e)"
      show "\<exists>e'. map_of (remove_directory_handle h c) q = Some e' \<and> g \<in> set (dir_handles e') \<and> dir_iterator e' = dir_iterator e"
      proof (cases "q = p")
        case True
        then have "filter (\<lambda>k. k \<noteq> h) (dir_handles e) \<noteq> []" "e = d" using e d(1) f[of e] by (auto simp del: filter_empty_conv dest: arg_cong[of _ _ set])
        then show ?thesis using e True f[of e] by (simp add: m Let_def)
      qed (use e in \<open>simp add: m Let_def\<close>)
    next
      fix q e assume e: "map_of (remove_directory_handle h c) q = Some e \<and> g \<in> set (dir_handles e)"
      then show "\<exists>e. map_of c q = Some e \<and> g \<in> set (dir_handles e)" using d(1) by (auto simp: m Let_def split: if_splits)
    qed
    then show ?thesis using False by simp
  qed
qed

lemma get_after_remove_path:
  assumes c: "cache_ok c"
  shows "get_directory g (snd (remove_directory_path p c)) = (if handle_path g c = Some p then None else get_directory g c)"
proof -
  note ok = remove_path_ok[OF c, of p]
  have m: "map_of (snd (remove_directory_path p c)) = (map_of c)(p := None)"
    by (auto simp: remove_directory_path_def delete_conv' split: option.splits)
  show ?thesis
  proof (cases "handle_path g c = Some p")
    case True
    then obtain d where d: "map_of c p = Some d" "g \<in> set (dir_handles d)" using handle_path_Some[OF c] by blast
    have "g \<notin> set (dir_handles e)" if "map_of (snd (remove_directory_path p c)) q = Some e" for q e
      using that c d by (auto simp: m cache_ok_def lookup_ok_def split: if_splits)
    then show ?thesis using get_directory_None[OF ok] True by simp
  next
    case False
    then have "\<not> (\<exists>d. map_of c p = Some d \<and> g \<in> set (dir_handles d))" using handle_path_Some[OF c] by blast
    then have "get_directory g (snd (remove_directory_path p c)) = get_directory g c"
      by (intro get_directory_eqI[OF c ok]) (auto simp: m split: if_splits)
    then show ?thesis using False by simp
  qed
qed

section \<open>Reading a directory in pages\<close>

type_synonym dir_page = "(string \<times> file_stat \<times> nat) list"

text \<open>A buffer with room for \<open>n\<close> entries.\<close>

definition page_fill :: "nat \<Rightarrow> string \<Rightarrow> file_stat \<Rightarrow> nat \<Rightarrow> dir_page \<Rightarrow> bool \<times> dir_page" where
  "page_fill n name s next b = (if length b < n then (False, b @ [(name, s, next)]) else (True, b))"

text \<open>The kernel: it goes on from the offset of the last entry it was given.\<close>

fun read_pages :: "directory_item list \<Rightarrow> (directory_item \<Rightarrow> exn + file_stat) \<Rightarrow> nat list \<Rightarrow> nat \<Rightarrow> dir_page" where
  "read_pages items populate [] offset = []"
| "read_pages items populate (n # ns) offset =
    (let page = snd (fill_loop items populate (page_fill n) offset [])
     in page @ read_pages items populate ns (if page = [] then offset else snd (snd (last page))))"

text \<open>All entries of a directory whose attributes can be read.\<close>

definition entries_from :: "directory_item list \<Rightarrow> (directory_item \<Rightarrow> exn + file_stat) \<Rightarrow> nat \<Rightarrow> dir_page" where
  "entries_from items populate offset =
    concat (map (\<lambda>k. case entry_at items populate k of Inl _ \<Rightarrow> [] | Inr (name, s) \<Rightarrow> [(name, s, Suc k)]) [offset..<length items])"

lemma entries_step:
  "entries_from items populate offset =
    (if length items \<le> offset then []
     else (case entry_at items populate offset of Inl _ \<Rightarrow> [] | Inr (name, s) \<Rightarrow> [(name, s, Suc offset)]) @
       entries_from items populate (Suc offset))"
  by (simp add: entries_from_def upt_conv_Cons)

lemma fill_loop_page:
  "length b \<le> n \<Longrightarrow> snd (fill_loop items populate (page_fill n) offset b) = b @ take (n - length b) (entries_from items populate offset)"
proof (induction "length items - offset" arbitrary: offset b rule: less_induct)
  case less
  show ?case
  proof (cases "length items \<le> offset")
    case True
    then show ?thesis by (subst fill_loop.simps) (simp add: fill_buffer_def entries_from_def)
  next
    case False
    then have m: "length items - Suc offset < length items - offset" by simp
    show ?thesis
    proof (cases "entry_at items populate offset")
      case (Inl e)
      then show ?thesis using False less.hyps[OF m less.prems] entries_step[of items populate offset]
        by (subst fill_loop.simps) (simp add: fill_buffer_def)
    next
      case (Inr x)
      obtain name s where x: "x = (name, s)" by force
      show ?thesis
      proof (cases "length b < n")
        case True
        then have "length (b @ [(name, s, Suc offset)]) \<le> n" by simp
        then show ?thesis using False Inr x True less.hyps[OF m, of "b @ [(name, s, Suc offset)]"] entries_step[of items populate offset]
          by (subst fill_loop.simps) (simp add: fill_buffer_def page_fill_def Suc_diff_Suc[symmetric] take_Suc_Cons)
      next
        case full: False
        then show ?thesis using False Inr x less.prems by (subst fill_loop.simps) (simp add: fill_buffer_def page_fill_def)
      qed
    qed
  qed
qed

lemma entries_continue:
  "k < length (entries_from items populate offset) \<Longrightarrow>
   entries_from items populate (snd (snd (entries_from items populate offset ! k))) = drop (Suc k) (entries_from items populate offset)"
proof (induction "length items - offset" arbitrary: offset k rule: less_induct)
  case less
  then have n: "\<not> length items \<le> offset" by (auto simp: entries_from_def)
  then have m: "length items - Suc offset < length items - offset" by simp
  show ?case
  proof (cases "entry_at items populate offset")
    case (Inl e)
    then show ?thesis using less.hyps[OF m] less.prems n entries_step[of items populate offset] by simp
  next
    case (Inr x)
    obtain name s where x: "x = (name, s)" by force
    show ?thesis
      using less.hyps[OF m, of "k - 1"] less.prems n Inr x entries_step[of items populate offset] by (cases k) auto
  qed
qed

lemma read_pages_take:
  "0 \<notin> set ns \<Longrightarrow> read_pages items populate ns offset = take (sum_list ns) (entries_from items populate offset)"
proof (induction ns arbitrary: offset)
  case (Cons n ns)
  let ?E = "entries_from items populate offset" and ?page = "take n (entries_from items populate offset)"
  have n: "0 < n" using Cons.prems by simp
  have p: "snd (fill_loop items populate (page_fill n) offset []) = ?page" using fill_loop_page[of "[]" n] by simp
  show ?case
  proof (cases "?E = []")
    case True
    then show ?thesis using Cons.IH[of offset] Cons.prems by (simp add: p Let_def)
  next
    case False
    let ?k = "min n (length ?E) - 1"
    have k: "?k < length ?E" using False n by (cases "length ?E") auto
    have l: "last ?page = ?E ! ?k" using False n by (simp add: last_conv_nth min.commute)
    have "entries_from items populate (snd (snd (last ?page))) = drop (Suc ?k) ?E" unfolding l by (rule entries_continue[OF k])
    moreover have "Suc ?k = min n (length ?E)" using k n by linarith
    moreover have "drop (min n (length ?E)) ?E = drop n ?E" by (simp add: min_def)
    ultimately have e: "entries_from items populate (snd (snd (last ?page))) = drop n ?E" by simp
    have "?page \<noteq> []" using False n by simp
    then have "read_pages items populate (n # ns) offset = ?page @ read_pages items populate ns (snd (snd (last ?page)))"
      by (simp only: read_pages.simps p Let_def if_False)
    also have "\<dots> = ?page @ take (sum_list ns) (drop n ?E)"
      using Cons.IH[of "snd (snd (last ?page))"] Cons.prems e by simp
    also have "\<dots> = take (sum_list (n # ns)) ?E" by (simp add: take_add)
    finally show ?thesis .
  qed
qed simp

text \<open>
  What is handed out of an entry: its name and its attributes, or nothing if reading the attributes throws,
  which \<open>fill_buffer\<close> reports and skips.
\<close>

definition dot_stat :: file_stat where
  "dot_stat = zero_stat\<lparr>sb_mode := 0x41ED, sb_nlink := 2\<rparr>"

definition shown_entry :: "(directory_item \<Rightarrow> exn + file_stat) \<Rightarrow> directory_item \<Rightarrow> (string \<times> file_stat) option" where
  "shown_entry populate d =
    (case populate d of Inl _ \<Rightarrow> None | Inr s \<Rightarrow> Some (strip_to_file_name (di_path d), s))"

abbreviation shown :: "dir_page \<Rightarrow> (string \<times> file_stat) list" where
  "shown page \<equiv> map (\<lambda>(name, s, next). (name, s)) page"

lemma entries_shown:
  assumes "2 \<le> length items"
  shows "shown (entries_from items populate 0) =
    (''.'', dot_stat) # (''..'', dot_stat) # List.map_filter (shown_entry populate) (drop 2 items)"
proof -
  have tail: "shown (entries_from items populate offset) = List.map_filter (shown_entry populate) (drop offset items)"
    if "2 \<le> offset" for offset
    using that
  proof (induction "length items - offset" arbitrary: offset rule: less_induct)
    case less
    show ?case
    proof (cases "length items \<le> offset")
      case True
      then show ?thesis by (simp add: entries_from_def List.map_filter_def)
    next
      case False
      then have d: "drop offset items = items ! offset # drop (Suc offset) items" by (simp add: Cons_nth_drop_Suc)
      have IH: "shown (entries_from items populate (Suc offset)) = List.map_filter (shown_entry populate) (drop (Suc offset) items)"
        using False less.hyps[of "Suc offset"] less.prems by simp
      show ?thesis
      proof (cases "populate (items ! offset)")
        case (Inl e)
        then have "entry_at items populate offset = Inl e" using less.prems by (simp add: entry_at_def)
        then show ?thesis using False IH Inl entries_step[of items populate offset]
          unfolding d by (simp add: shown_entry_def List.map_filter_simps)
      next
        case (Inr s)
        then have "entry_at items populate offset = Inr (strip_to_file_name (di_path (items ! offset)), s)"
          using less.prems by (simp add: entry_at_def)
        then show ?thesis using False IH Inr entries_step[of items populate offset]
          unfolding d by (simp add: shown_entry_def List.map_filter_simps)
      qed
    qed
  qed
  have ne: "items \<noteq> []" using assms by auto
  have "entries_from items populate 0 = (''.'', dot_stat, 1) # (''..'', dot_stat, 2) # entries_from items populate 2"
    using assms ne entries_step[of items populate 0] entries_step[of items populate 1]
    by (simp add: entry_at_def numeral_2_eq_2 dot_stat_def)
  then show ?thesis using tail[of 2] by simp
qed

lemma map_filter_length: "length (List.map_filter f xs) \<le> length xs"
  by (simp add: List.map_filter_def)

text \<open>
  C22. Reading a directory page by page, with as many buffers as there are entries, of any sizes in which at
  least one entry fits, hands out "." and "..", and then every entry whose attributes can be read, with its name and these attributes,
  exactly once and in order: each page goes on where the one before it ended.  An entry whose attributes
  cannot be read is left out, and the reading goes on behind it.
\<close>

theorem directory_pages:
  assumes "0 \<notin> set ns" "length items \<le> length ns" "2 \<le> length items"
  shows "map (\<lambda>(name, s, next). (name, s)) (read_pages items populate ns 0) =
    (''.'', dot_stat) # (''..'', dot_stat) #
    List.map_filter (\<lambda>d. case populate d of Inl _ \<Rightarrow> None | Inr s \<Rightarrow> Some (strip_to_file_name (di_path d), s))
      (drop 2 items)"
proof -
  have "length ns \<le> sum_list ns"
    using assms(1) by (induction ns) auto
  moreover have "length (entries_from items populate 0) \<le> length items"
  proof -
    have "length (shown (entries_from items populate 0)) \<le> Suc (Suc (length items - 2))"
      unfolding entries_shown[OF assms(3)] using map_filter_length[of "shown_entry populate" "drop 2 items"] by simp
    then show ?thesis using assms(3) by simp
  qed
  ultimately have "read_pages items populate ns 0 = entries_from items populate 0"
    using read_pages_take[OF assms(1)] assms(2) by simp
  then show ?thesis using entries_shown[OF assms(3)] by (simp add: shown_entry_def[abs_def])
qed

definition sample_items :: "directory_item list" where
  "sample_items = dots @ [\<lparr>di_path = ''/a/x'', di_parent = ''/a'', di_directory = False, di_size = 0, di_meta = []\<rparr>,
    \<lparr>di_path = ''/a/y'', di_parent = ''/a'', di_directory = True, di_size = 0, di_meta = []\<rparr>]"

theorem directory_pages_witness:
  "map (\<lambda>(name, s, next). name) (read_pages sample_items
      (\<lambda>d. if di_path d = ''/a/x'' then Inl (runtime_error ''stoul'') else Inr zero_stat) [1, 2, 1, 7, 1] 0) =
    [''.'', ''..'', ''y'']"
proof -
  have n: "strip_to_file_name ''/a/x'' = ''x''" "strip_to_file_name ''/a/y'' = ''y''" "strip_to_file_name ''/a/z'' = ''z''"
    by (simp_all add: strip_to_file_name_def right_trim_def str_contains_def str_find_def)
  let ?p = "\<lambda>d. if di_path d = ''/a/x'' then Inl (runtime_error ''stoul'') else Inr zero_stat"
  have "map (\<lambda>(name, s, next). (name, s)) (read_pages sample_items ?p [1, 2, 1, 7, 1] 0) =
      [(''.'', dot_stat), (''..'', dot_stat), (''y'', zero_stat)]"
    by (subst directory_pages) (simp_all add: sample_items_def dots_def n List.map_filter_simps)
  then have "map fst (map (\<lambda>(name, s, next). (name, s)) (read_pages sample_items ?p [1, 2, 1, 7, 1] 0)) = [''.'', ''..'', ''y'']"
    by simp
  then show ?thesis unfolding map_map comp_def by (simp add: case_prod_unfold)
qed

text \<open>
  C21. What a handle reads after each change of the cache: opening a directory gives its iterator to the new
  handle, and to every handle that had the same directory open, and to no other; releasing a handle, or
  removing a directory, takes the iterator from that handle, or from the handles of that directory, and from
  no other.
\<close>

theorem directory_handles:
  assumes "cache_ok c" and "get_directory h c = None"
  shows "get_directory g (set_directory p h i c) = (if g = h \<or> handle_path g c = Some p then Some i else get_directory g c) \<and>
    get_directory g (remove_directory_handle k c) = (if g = k then None else get_directory g c) \<and>
    get_directory g (snd (remove_directory_path p c)) = (if handle_path g c = Some p then None else get_directory g c)"
  using get_after_set[OF assms] get_after_remove_handle[OF assms(1)] get_after_remove_path[OF assms(1)] by blast

theorem directory_handles_witness:
  "get_directory 1 (set_directory ''/a'' 2 True (set_directory ''/a'' 1 False [])) = Some True"
proof -
  have e: "cache_ok []" "get_directory 1 [] = None"
    by (simp_all add: cache_ok_def lookup_ok_def get_directory_def handle_entry_def)
  have "get_directory 2 (set_directory ''/a'' 1 False []) = None"
    "handle_path 1 (set_directory ''/a'' 1 False []) = Some ''/a''"
    by (simp_all add: get_directory_def handle_path_def handle_entry_def set_directory_def)
  then show ?thesis
    using directory_handles[OF set_directory_ok[OF e, of "''/a''" False], of 2 1 "''/a''" True] by simp
qed

end
