(* ===== verification/Fuse_Base.thy ===== *)
theory Fuse_Base imports Directory_Cache File_Manager Base64 begin

text \<open>
  What the FUSE drives share (drives/fuse/fuse_base.cpp and fuse_drive_base.cpp, on Linux with FUSE 3): the
  command line, the wrapper around every callback, the permission checks and the conversion of meta data
  to attributes.  User and group of the caller, the groups of the users and the home directory are
  parameters (\<open>fuse_env\<close>).
\<close>

unbundle bit_operations_syntax

section \<open>Results\<close>

text \<open>\<open>res = ...; if (res != api_error::success) return res;\<close>\<close>

definition after_check :: "api_error result \<Rightarrow> 's \<Rightarrow> (unit \<Rightarrow> api_error result \<times> 's) \<Rightarrow> api_error result \<times> 's" where
  "after_check r st k =
    (case r of Returns e \<Rightarrow> if e = success then k () else (Returns e, st) | Throws x \<Rightarrow> (Throws x, st) | Diverges \<Rightarrow> (Diverges, st))"

definition result_of :: "(exn + 'a) option \<Rightarrow> 'a result" where
  "result_of r = (case r of None \<Rightarrow> Diverges | Some (Inl x) \<Rightarrow> Throws x | Some (Inr a) \<Rightarrow> Returns a)"

definition from_sum :: "exn + 'a \<Rightarrow> 'a result" where
  "from_sum r = result_of (Some r)"

text \<open>An exception ends the function.\<close>

definition attempt :: "exn + 'a \<Rightarrow> ('a \<Rightarrow> exn + 'b) \<Rightarrow> exn + 'b" where
  "attempt r k = (case r of Inl x \<Rightarrow> Inl x | Inr a \<Rightarrow> k a)"

lemma result_simps [simp]:
  "result_of None = Diverges" "result_of (Some (Inl x)) = Throws x" "result_of (Some (Inr a)) = Returns a"
  "from_sum (Inl x) = Throws x" "from_sum (Inr a) = Returns a"
  "attempt (Inl x) k = Inl x" "attempt (Inr a) k = k a"
  by (simp_all add: result_of_def from_sum_def attempt_def)

lemma after_check_simps [simp]:
  "after_check (Returns success) st k = k ()"
  "e \<noteq> success \<Longrightarrow> after_check (Returns e) st k = (Returns e, st)"
  "after_check (Throws x) st k = (Throws x, st)" "after_check Diverges st k = (Diverges, st)"
  by (simp_all add: after_check_def)

section \<open>The caller\<close>

type_synonym word32 = "32 word"

record fuse_env =
  forced_uid :: "word32 option"
  forced_gid :: "word32 option"
  forced_umask :: "word32 option"
  atime_enabled :: bool
  current_uid :: word32                      \<comment> \<open>\<open>fuse_get_context()->uid\<close>\<close>
  current_gid :: word32
  member_of :: "word32 \<Rightarrow> word32 \<Rightarrow> bool"      \<comment> \<open>\<open>utils::is_uid_member_of_group\<close>\<close>
  home_of :: "string option"                 \<comment> \<open>of the user that runs the drive, if it is found\<close>

definition get_effective_uid :: "fuse_env \<Rightarrow> word32" where
  "get_effective_uid E = (case forced_uid E of Some u \<Rightarrow> u | None \<Rightarrow> current_uid E)"

definition get_effective_gid :: "fuse_env \<Rightarrow> word32" where
  "get_effective_gid E = (case forced_gid E of Some g \<Rightarrow> g | None \<Rightarrow> current_gid E)"

definition F_OK :: word32 where "F_OK = 0"
definition X_OK :: word32 where "X_OK = 1"
definition W_OK :: word32 where "W_OK = 2"
definition R_OK :: word32 where "R_OK = 4"

definition S_IRWXU :: word32 where "S_IRWXU = 0x1C0"
definition S_IRWXG :: word32 where "S_IRWXG = 0x38"
definition S_IRWXO :: word32 where "S_IRWXO = 0x7"
definition S_IX :: word32 where "S_IX = 0x49"   \<comment> \<open>\<open>S_IXUSR | S_IXGRP | S_IXOTH\<close>\<close>
definition S_IW :: word32 where "S_IW = 0x92"
definition S_IR :: word32 where "S_IR = 0x124"
definition S_ID_BITS :: word32 where "S_ID_BITS = 0xE00"   \<comment> \<open>\<open>S_ISGID | S_ISUID | S_ISVTX\<close>\<close>
definition S_IFDIR :: word32 where "S_IFDIR = 0x4000"
definition S_IFREG :: word32 where "S_IFREG = 0x8000"

definition O_WRONLY :: word32 where "O_WRONLY = 0x1"
definition O_RDWR :: word32 where "O_RDWR = 0x2"
definition O_ACCMODE :: word32 where "O_ACCMODE = 0x3"
definition O_CREAT :: word32 where "O_CREAT = 0x40"
definition O_EXCL :: word32 where "O_EXCL = 0x80"
definition O_TRUNC :: word32 where "O_TRUNC = 0x200"
definition O_APPEND :: word32 where "O_APPEND = 0x400"
definition O_DIRECTORY :: word32 where "O_DIRECTORY = 0x10000"

lemmas mode_defs = F_OK_def X_OK_def W_OK_def R_OK_def S_IRWXU_def S_IRWXG_def S_IRWXO_def S_IX_def S_IW_def S_IR_def
  S_ID_BITS_def S_IFDIR_def S_IFREG_def

lemmas flag_defs = O_WRONLY_def O_RDWR_def O_ACCMODE_def O_CREAT_def O_EXCL_def O_TRUNC_def O_APPEND_def O_DIRECTORY_def

definition has_flag :: "word32 \<Rightarrow> word32 \<Rightarrow> bool" where
  "has_flag flags bits \<longleftrightarrow> flags AND bits = bits"

section \<open>Meta data\<close>

definition meta_value :: "string \<Rightarrow> meta_map \<Rightarrow> exn + string" where
  "meta_value k m = (case map_of m k of None \<Rightarrow> Inl out_of_range | Some v \<Rightarrow> Inr v)"

definition get_uid_from_meta :: "meta_map \<Rightarrow> exn + word32" where
  "get_uid_from_meta m = attempt (meta_value ''uid'' m) to_uint32"

definition get_gid_from_meta :: "meta_map \<Rightarrow> exn + word32" where
  "get_gid_from_meta m = attempt (meta_value ''gid'' m) to_uint32"

definition get_mode_from_meta :: "meta_map \<Rightarrow> exn + word32" where
  "get_mode_from_meta m = attempt (meta_value ''mode'' m) to_uint32"

definition NANOS_PER_SECOND :: nat where
  "NANOS_PER_SECOND = 1000000000"

definition set_timespec_from_meta :: "meta_map \<Rightarrow> string \<Rightarrow> exn + (nat \<times> nat)" where
  "set_timespec_from_meta m k =
    attempt (meta_value k m) (\<lambda>v. attempt (stoul v) (\<lambda>t. Inr (t div NANOS_PER_SECOND, t mod NANOS_PER_SECOND)))"

text \<open>\<open>populate_stat\<close>; \<open>count\<close> is what the provider counts in the directory.\<close>

definition stat_blocks :: "nat \<Rightarrow> nat" where
  "stat_blocks len = max 8 (divide_with_ceiling (mul64 (divide_with_ceiling len 4096) 4096) 512)"

definition populate_stat :: "nat \<Rightarrow> nat \<Rightarrow> meta_map \<Rightarrow> bool \<Rightarrow> exn + file_stat" where
  "populate_stat count size_or_count m as_dir =
    attempt (get_gid_from_meta m) (\<lambda>gid.
    attempt (get_mode_from_meta m) (\<lambda>mode.
    attempt (get_uid_from_meta m) (\<lambda>uid.
    attempt (set_timespec_from_meta m ''modified'') (\<lambda>mtim.
    attempt (set_timespec_from_meta m ''changed'') (\<lambda>ctim.
    attempt (set_timespec_from_meta m ''accessed'') (\<lambda>atim.
      Inr \<lparr>sb_mode = (if as_dir then S_IFDIR else S_IFREG) OR mode,
        sb_nlink = (if as_dir then add64 2 (if size_or_count = 0 then count else size_or_count) else 1),
        sb_uid = uid, sb_gid = gid, sb_size = (if as_dir then 0 else size_or_count),
        sb_blocks = (if as_dir then 0 else stat_blocks size_or_count), sb_blksize = 4096,
        sb_atim = atim, sb_mtim = mtim, sb_ctim = ctim\<rparr>))))))"

definition UTIME_NOW :: int where "UTIME_NOW = 0x3FFFFFFF"
definition UTIME_OMIT :: int where "UTIME_OMIT = 0x3FFFFFFE"

type_synonym timespec = "int \<times> int"           \<comment> \<open>\<open>tv_sec\<close>, \<open>tv_nsec\<close>\<close>

definition validate_timespec :: "timespec \<Rightarrow> bool" where
  "validate_timespec ts \<longleftrightarrow>
    (if snd ts = UTIME_NOW \<or> snd ts = UTIME_OMIT then True
     else if snd ts < 0 \<or> int NANOS_PER_SECOND \<le> snd ts then False else True)"

section \<open>Access\<close>

type_synonym meta_of = "string \<Rightarrow> api_error \<times> meta_map"   \<comment> \<open>\<open>get_item_meta\<close>\<close>

text \<open>The mode bits that count for the caller.\<close>

definition check_mode :: "fuse_env \<Rightarrow> meta_map \<Rightarrow> word32 \<Rightarrow> exn + api_error" where
  "check_mode E m want =
    attempt (case forced_uid E of Some u \<Rightarrow> Inr u | None \<Rightarrow> get_uid_from_meta m) (\<lambda>uid.
    attempt (case forced_gid E of Some g \<Rightarrow> Inr g | None \<Rightarrow> get_gid_from_meta m) (\<lambda>gid.
    attempt (case forced_umask E of
        Some um \<Rightarrow> Inr ((S_IRWXU OR S_IRWXG OR S_IRWXO) AND NOT um) | None \<Rightarrow> get_mode_from_meta m) (\<lambda>mode.
      let active = S_IRWXO OR (if current_uid E = uid then S_IRWXU else 0) OR
            (if current_gid E = gid \<or> member_of E (current_uid E) gid then S_IRWXG else 0);
          mode = mode AND active
      in if has_flag want X_OK \<and> mode AND S_IX = 0 then Inr access_denied
         else if has_flag want W_OK \<and> mode AND S_IW = 0 then Inr access_denied
         else if has_flag want R_OK \<and> mode AND S_IR = 0 then Inr access_denied
         else if mode = 0 then Inr access_denied
         else Inr success)))"

definition check_access :: "fuse_env \<Rightarrow> meta_of \<Rightarrow> string \<Rightarrow> word32 \<Rightarrow> exn + api_error" where
  "check_access E get p want =
    (case get p of (res, m) \<Rightarrow>
       if res \<noteq> success then Inr res
       else if current_uid E = 0 then Inr success
       else if forced_uid E \<noteq> None \<and> current_uid E = get_effective_uid E then Inr success
       else if want = F_OK then Inr success
       else check_mode E m want)"

definition check_owner :: "fuse_env \<Rightarrow> meta_map \<Rightarrow> exn + api_error" where
  "check_owner E m =
    (if current_uid E \<noteq> 0 \<and> (forced_uid E = None \<or> current_uid E \<noteq> get_effective_uid E) then
       attempt (get_uid_from_meta m) (\<lambda>uid. Inr (if uid \<noteq> get_effective_uid E then permission_denied else success))
     else Inr success)"

definition check_readable :: "word32 \<Rightarrow> api_error \<Rightarrow> api_error" where
  "check_readable flags fail_error = (if flags AND O_ACCMODE = O_WRONLY then fail_error else success)"

definition check_writeable :: "word32 \<Rightarrow> api_error \<Rightarrow> api_error" where
  "check_writeable flags fail_error = (if flags AND O_ACCMODE = 0 then fail_error else success)"

definition check_open_flags :: "word32 \<Rightarrow> word32 \<Rightarrow> api_error \<Rightarrow> api_error" where
  "check_open_flags flags want fail_error = (if flags AND want = 0 then success else fail_error)"

subsection \<open>The parents of a path\<close>

text \<open>
  \<open>utils::path::get_parent_path\<close> (src/support/src/utils/path.cpp), for a path that is empty or starts at the
  root: \<open>absolute\<close> replaces \<open>~/\<close> with the home directory and then leaves such a path as it is.
\<close>

definition expand_home :: "string option \<Rightarrow> string \<Rightarrow> (exn + string) option" where
  "expand_home home path =
    (case (if str_contains path [CHR ''~'', backslash] then replace_str path [CHR ''~'', backslash] ''~/'' 0 else Some path) of
       None \<Rightarrow> None
     | Some path \<Rightarrow>
         if str_contains path ''~/'' then
           (case home of
              None \<Rightarrow> Some (Inl (runtime_error ''failed to getpwuid''))
            | Some h \<Rightarrow> map_option Inr (replace_str path ''~/'' (h @ [slash]) 0))
         else Some (Inr path))"

definition finalize_path :: "string \<Rightarrow> string option" where
  "finalize_path path = (if path = [] then Some [] else format_path slash backslash path)"

text \<open>\<open>std::filesystem::path::parent_path\<close>\<close>

definition fs_parent :: "string \<Rightarrow> string" where
  "fs_parent path =
    (let dir = rev (dropWhile (\<lambda>c. c \<noteq> slash) (rev path))
     in if dir = [] then [] else let p = right_trim slash dir in if p = [] then [slash] else p)"

definition get_parent_path :: "fuse_env \<Rightarrow> string \<Rightarrow> (exn + string) option" where
  "get_parent_path E path =
    (if path = [] then Some (Inr [])
     else case expand_home (home_of E) path of
       None \<Rightarrow> None
     | Some (Inl x) \<Rightarrow> Some (Inl x)
     | Some (Inr path) \<Rightarrow>
         (case finalize_path path of
            None \<Rightarrow> None
          | Some path \<Rightarrow> map_option Inr (finalize_path (fs_parent path))))"

text \<open>The loop of \<open>check_parent_access\<close>, from a parent up to the root.\<close>

partial_function (option) check_parents :: "fuse_env \<Rightarrow> meta_of \<Rightarrow> string \<Rightarrow> (exn + api_error) option" where
  "check_parents E get parent =
    (if parent = [] then Some (Inr success)
     else case check_access E get parent X_OK of
       Inl x \<Rightarrow> Some (Inl x)
     | Inr res \<Rightarrow>
         if res \<noteq> success \<or> parent = [slash] then Some (Inr res)
         else (case get_parent_path E parent of
                 None \<Rightarrow> None
               | Some (Inl x) \<Rightarrow> Some (Inl x)
               | Some (Inr q) \<Rightarrow> check_parents E get q))"

definition check_parent_access :: "fuse_env \<Rightarrow> meta_of \<Rightarrow> string \<Rightarrow> word32 \<Rightarrow> (exn + api_error) option" where
  "check_parent_access E get p want =
    (if p = [slash] then Some (Inr success)
     else
       let up = (if \<not> has_flag want X_OK then Some (Inr success)
             else case get_parent_path E p of
               None \<Rightarrow> None
             | Some (Inl x) \<Rightarrow> Some (Inl x)
             | Some (Inr q) \<Rightarrow> check_parents E get q)
       in case up of
         Some (Inr res) \<Rightarrow>
           if res \<noteq> success then up
           else if want AND NOT X_OK = 0 then Some (Inr success)
           else (case get_parent_path E p of
                   None \<Rightarrow> None
                 | Some (Inl x) \<Rightarrow> Some (Inl x)
                 | Some (Inr q) \<Rightarrow> Some (check_access E get q (want AND NOT X_OK)))
       | _ \<Rightarrow> up)"

definition check_and_perform ::
  "fuse_env \<Rightarrow> meta_of \<Rightarrow> string \<Rightarrow> word32 \<Rightarrow> (meta_map \<Rightarrow> api_error result \<times> 's) \<Rightarrow> 's \<Rightarrow> api_error result \<times> 's" where
  "check_and_perform E get p parent_want action st =
    (case get p of (ret, m) \<Rightarrow>
       after_check (Returns ret) st (\<lambda>_.
       after_check (result_of (check_parent_access E get p parent_want)) st (\<lambda>_.
       after_check (from_sum (check_owner E m)) st (\<lambda>_. action m))))"

section \<open>Callbacks\<close>

text \<open>
  \<open>execute_callback\<close>: there is no handler for an exception, which leaves the C callback.  The number of
  \<open>os_error\<close> is \<open>errno\<close> at that moment.
\<close>

definition execute_callback ::
  "int \<Rightarrow> string \<Rightarrow> (string \<Rightarrow> 's \<Rightarrow> api_error result \<times> 's) \<Rightarrow> 's \<Rightarrow> int result \<times> 's" where
  "execute_callback errno path cb st =
    (case create_api_path path of
       None \<Rightarrow> (Diverges, st)
     | Some (Inl x) \<Rightarrow> (Throws x, st)
     | Some (Inr p) \<Rightarrow>
         (case cb p st of
            (Returns e, st) \<Rightarrow> (Returns (from_api_error errno e), st)
          | (Throws x, st) \<Rightarrow> (Throws x, st)
          | (Diverges, st) \<Rightarrow> (Diverges, st)))"

text \<open>What \<open>read_\<close>, \<open>write_\<close> and \<open>getxattr_\<close> return: a length if the result is 0.\<close>

definition length_or :: "int \<Rightarrow> int \<Rightarrow> int" where
  "length_or res n = (if res = 0 then n else res)"

definition parse_xattr_parameters :: "string option \<Rightarrow> string \<Rightarrow> api_error + string" where
  "parse_xattr_parameters name p =
    (if p = [] then Inl bad_address else case name of None \<Rightarrow> Inl bad_address | Some n \<Rightarrow> Inr n)"

definition parse_xattr_value :: "string option \<Rightarrow> bool \<Rightarrow> nat \<Rightarrow> string \<Rightarrow> api_error + string" where
  "parse_xattr_value name value_null len p =
    (case parse_xattr_parameters name p of
       Inl e \<Rightarrow> Inl e
     | Inr n \<Rightarrow> if value_null \<and> len \<noteq> 0 then Inl bad_address else Inr n)"

section \<open>The permissions of a caller\<close>

lemma and_or_zero: "w AND (a OR b) = 0 \<longleftrightarrow> w AND a = 0 \<and> w AND b = 0" for w a b :: word32
  by (simp add: bit.conj_disj_distrib or_eq_0_iff)

lemma and_two_power: "w AND 2 ^ n = 0 \<longleftrightarrow> \<not> bit w n" for w :: word32
  by (rule and_exp_eq_0_iff_not_bit)

lemma permission_masks:
  "S_IX = 2 ^ 0 OR 2 ^ 3 OR 2 ^ 6" "S_IW = 2 ^ 1 OR 2 ^ 4 OR 2 ^ 7" "S_IR = 2 ^ 2 OR 2 ^ 5 OR 2 ^ 8"
  by (simp_all add: mode_defs)

lemma permission_bits:
  "w AND S_IX = 0 \<longleftrightarrow> \<not> bit w 0 \<and> \<not> bit w 3 \<and> \<not> bit w 6"
  "w AND S_IW = 0 \<longleftrightarrow> \<not> bit w 1 \<and> \<not> bit w 4 \<and> \<not> bit w 7"
  "w AND S_IR = 0 \<longleftrightarrow> \<not> bit w 2 \<and> \<not> bit w 5 \<and> \<not> bit w 8"
  unfolding permission_masks and_or_zero and_two_power by (rule refl)+

lemma has_flag_power: "n < 32 \<Longrightarrow> has_flag w (2 ^ n) \<longleftrightarrow> bit w n"
proof
  assume n: "n < 32" and h: "has_flag w (2 ^ n)"
  have "bit (w AND 2 ^ n) n" using n h by (simp add: has_flag_def bit_simps)
  then show "bit w n" by (simp add: bit_and_iff)
next
  assume "n < 32" "bit w n"
  then show "has_flag w (2 ^ n)" unfolding has_flag_def by (intro bit_word_eqI) (auto simp: bit_simps)
qed

lemma want_bits: "has_flag w X_OK \<longleftrightarrow> bit w 0" "has_flag w W_OK \<longleftrightarrow> bit w 1" "has_flag w R_OK \<longleftrightarrow> bit w 2"
  using has_flag_power[of 0 w] has_flag_power[of 1 w] has_flag_power[of 2 w] by (simp_all add: mode_defs)

lemma class_masks: "S_IRWXO = mask 3" "S_IRWXG = push_bit 3 (mask 3)" "S_IRWXU = push_bit 6 (mask 3)"
  by (simp_all add: mode_defs mask_eq_exp_minus_1)

lemma class_bits:
  "bit S_IRWXO n \<longleftrightarrow> n < 3" "bit S_IRWXG n \<longleftrightarrow> 3 \<le> n \<and> n < 6" "bit S_IRWXU n \<longleftrightarrow> 6 \<le> n \<and> n < 9"
  unfolding class_masks by (auto simp: bit_simps)

text \<open>The permission \<open>k\<close> (0 for execute, 1 for write, 2 for read) of a mode.\<close>

definition grants :: "bool \<Rightarrow> bool \<Rightarrow> word32 \<Rightarrow> nat \<Rightarrow> bool" where
  "grants owner in_group mode k \<longleftrightarrow> bit mode k \<or> in_group \<and> bit mode (k + 3) \<or> owner \<and> bit mode (k + 6)"

lemma check_mode_grants:
  assumes "forced_uid E = None" "forced_gid E = None" "forced_umask E = None"
    and "get_uid_from_meta m = Inr uid" "get_gid_from_meta m = Inr gid" "get_mode_from_meta m = Inr mode"
    and "want AND 7 = want" "want \<noteq> 0"
    and g: "G = (current_gid E = gid \<or> member_of E (current_uid E) gid)" and o: "U = (current_uid E = uid)"
  shows "check_mode E m want =
    Inr (if \<forall>k < 3. bit want k \<longrightarrow> grants U G mode k then success else access_denied)"
proof -
  define M where "M = mode AND (S_IRWXO OR (if U then S_IRWXU else 0) OR (if G then S_IRWXG else 0))"
  have bits: "bit M k \<longleftrightarrow> bit mode k" "bit M (k + 3) \<longleftrightarrow> G \<and> bit mode (k + 3)" "bit M (k + 6) \<longleftrightarrow> U \<and> bit mode (k + 6)"
    if "k < 3" for k using that by (auto simp: M_def bit_simps class_bits)
  have x: "M AND S_IX = 0 \<longleftrightarrow> \<not> grants U G mode 0" "M AND S_IW = 0 \<longleftrightarrow> \<not> grants U G mode 1"
    "M AND S_IR = 0 \<longleftrightarrow> \<not> grants U G mode 2"
    using bits[of 0] bits[of 1] bits[of 2] unfolding permission_bits grants_def by (auto simp: numeral_2_eq_2)
  have all: "(\<forall>k < 3. P k) \<longleftrightarrow> P 0 \<and> P 1 \<and> P 2" for P :: "nat \<Rightarrow> bool"
    by (auto simp: numeral_3_eq_3 numeral_2_eq_2 less_Suc_eq)
  have "bit want 0 \<or> bit want 1 \<or> bit want 2"
  proof (rule ccontr)
    assume n: "\<not> (bit want 0 \<or> bit want 1 \<or> bit want 2)"
    have "want = want AND S_IRWXO" using assms(7) by (simp add: mode_defs)
    also have "\<dots> = 0"
    proof (rule bit_word_eqI)
      fix k assume "k < LENGTH(32)"
      have "\<not> bit want k" if "k < 3" using that n all[of "\<lambda>k. \<not> bit want k"] by blast
      then show "bit (want AND S_IRWXO) k \<longleftrightarrow> bit 0 k" by (auto simp: bit_and_iff class_bits)
    qed
    finally show False using assms(8) by simp
  qed
  then have z: "M = 0 \<Longrightarrow> \<not> (\<forall>k < 3. bit want k \<longrightarrow> grants U G mode k)"
    unfolding all using x by (metis and_zero_eq bit.conj_zero_left)
  have "check_mode E m want =
      (if has_flag want X_OK \<and> M AND S_IX = 0 then Inr access_denied
       else if has_flag want W_OK \<and> M AND S_IW = 0 then Inr access_denied
       else if has_flag want R_OK \<and> M AND S_IR = 0 then Inr access_denied
       else if M = 0 then Inr access_denied else Inr success)"
    unfolding check_mode_def assms(1-6) by (simp only: M_def g o option.case attempt_def sum.case Let_def)
  also have "\<dots> = Inr (if \<forall>k < 3. bit want k \<longrightarrow> grants U G mode k then success else access_denied)"
    unfolding x want_bits all using z unfolding all by auto
  finally show ?thesis .
qed

section \<open>The parents of an API path\<close>

lemma right_trim_shorter: "length (right_trim c s) \<le> length s"
  unfolding right_trim_def by (metis length_dropWhile_le length_rev)

lemma last_component: "\<exists>name. path = rev (dropWhile (\<lambda>c. c \<noteq> slash) (rev path)) @ name \<and> slash \<notin> set name"
proof -
  have "rev path = takeWhile (\<lambda>c. c \<noteq> slash) (rev path) @ dropWhile (\<lambda>c. c \<noteq> slash) (rev path)" by simp
  then have "path = rev (dropWhile (\<lambda>c. c \<noteq> slash) (rev path)) @ rev (takeWhile (\<lambda>c. c \<noteq> slash) (rev path))"
    by (metis rev_append rev_rev_ident)
  moreover have "slash \<notin> set (rev (takeWhile (\<lambda>c. c \<noteq> slash) (rev path)))" by (auto dest: set_takeWhileD)
  ultimately show ?thesis by blast
qed

text \<open>A rooted path is its parent, a slash unless the parent is the root, and a name.\<close>

lemma canonical_parent:
  assumes c: "canonical p" and n: "p \<noteq> [slash]"
  obtains name where "name \<noteq> []" "slash \<notin> set name" "canonical (fs_parent p)"
    "p = (if fs_parent p = [slash] then [] else fs_parent p) @ slash # name"
proof -
  define dir where "dir = rev (dropWhile (\<lambda>c. c \<noteq> slash) (rev p))"
  obtain name where name: "p = dir @ name" "slash \<notin> set name" using last_component[of p] dir_def by metis
  have p: "p \<noteq> []" "hd p = slash" "\<not> str_contains p [slash, slash]" "backslash \<notin> set p" "last p \<noteq> slash"
    using c n by (auto simp: canonical_def)
  have d: "dir \<noteq> []"
  proof
    assume "dir = []"
    then have "p = name" using name by simp
    then show False using p(1,2) name(2) by (cases name) auto
  qed
  have "last dir = slash"
    using d hd_dropWhile[of "\<lambda>c. c \<noteq> slash" "rev p"] by (simp add: dir_def last_rev)
  then obtain q where q: "dir = q @ [slash]" using d by (metis append_butlast_last_id)
  have ne: "name \<noteq> []" using p(5) name q by auto
  have s: "p = q @ slash # name" using name q by simp
  have parent: "fs_parent p = (if q = [] then [slash] else q)"
  proof (cases "q = []")
    case True
    then show ?thesis using q by (simp add: fs_parent_def dir_def[symmetric] right_trim_def)
  next
    case False
    have l: "last q \<noteq> slash"
    proof
      assume "last q = slash"
      then obtain q' where "q = q' @ [slash]" using False by (metis append_butlast_last_id)
      then have "p = q' @ [slash, slash] @ name" using s by simp
      then show False using p(3) by (metis str_contains_iff)
    qed
    show ?thesis using False q right_trim_snoc[OF False l] by (simp add: fs_parent_def dir_def[symmetric])
  qed
  have "canonical (fs_parent p)"
  proof (cases "q = []")
    case True
    have "canonical [slash]" by (simp add: canonical_def str_contains_def str_find_def)
    then show ?thesis using parent True by simp
  next
    case False
    have "\<not> str_contains q [slash, slash]" using p(3) s contains_prefix by metis
    moreover have "last q \<noteq> slash"
    proof
      assume "last q = slash"
      then obtain q' where "q = q' @ [slash]" using False by (metis append_butlast_last_id)
      then have "p = q' @ [slash, slash] @ name" using s by simp
      then show False using p(3) by (metis str_contains_iff)
    qed
    moreover have "hd q = slash" using p(2) s False by simp
    ultimately show ?thesis using parent False p(4) s by (simp add: canonical_def)
  qed
  moreover have "p = (if fs_parent p = [slash] then [] else fs_parent p) @ slash # name"
  proof (cases "q = []")
    case True
    then show ?thesis using parent s by simp
  next
    case False
    have "q \<noteq> [slash]"
    proof
      assume "q = [slash]"
      then have "p = [] @ [slash, slash] @ name" using s by simp
      then show False using p(3) by (metis str_contains_iff)
    qed
    then show ?thesis using parent s False by simp
  qed
  ultimately show thesis using that ne name(2) by blast
qed

lemma fs_parent_shorter: "canonical p \<Longrightarrow> p \<noteq> [slash] \<Longrightarrow> length (fs_parent p) < length p"
proof -
  assume a: "canonical p" "p \<noteq> [slash]"
  from canonical_parent[OF a] obtain name where n: "name \<noteq> []"
    "p = (if fs_parent p = [slash] then [] else fs_parent p) @ slash # name" by metis
  have "length p = length (if fs_parent p = [slash] then [] else fs_parent p) + Suc (length name)"
    using arg_cong[OF n(2), of length] by (simp only: length_append list.size add_Suc_right)
  then show ?thesis using n(1) by (cases "fs_parent p = [slash]") auto
qed

text \<open>The directories that lead to a path, the nearest first.\<close>

function parents :: "string \<Rightarrow> string list" where
  "parents p = (if canonical p \<and> p \<noteq> [slash] then fs_parent p # parents (fs_parent p) else [])"
  by pat_completeness auto
termination
  by (relation "measure length") (auto simp: fs_parent_shorter)

declare parents.simps [simp del]

text \<open>A path in which no name ends in a tilde before a slash is left alone.\<close>

definition plain_path :: "string \<Rightarrow> bool" where
  "plain_path p \<longleftrightarrow> canonical p \<and> \<not> str_contains p ''~/''"

lemma finalize_canonical: "canonical p \<Longrightarrow> finalize_path p = Some p"
  using format_path_single[of p] right_trim_unchanged[of p slash] by (auto simp: finalize_path_def canonical_def)

lemma parent_plain:
  assumes "plain_path p" "p \<noteq> [slash]"
  shows "get_parent_path E p = Some (Inr (fs_parent p)) \<and> plain_path (fs_parent p)"
proof -
  have c: "canonical p" using assms(1) by (simp add: plain_path_def)
  have "\<not> str_contains p [CHR ''~'', backslash]"
  proof
    assume "str_contains p [CHR ''~'', backslash]"
    then obtain a b where "p = a @ [CHR ''~'', backslash] @ b" by (auto simp: str_contains_iff)
    then have "backslash \<in> set p" by simp
    then show False using c by (simp add: canonical_def)
  qed
  then have e: "expand_home (home_of E) p = Some (Inr p)" using assms(1) by (simp add: expand_home_def plain_path_def)
  obtain name where n: "canonical (fs_parent p)" "p = (if fs_parent p = [slash] then [] else fs_parent p) @ slash # name"
    using canonical_parent[OF c assms(2)] by metis
  have "\<not> str_contains (fs_parent p) ''~/''"
  proof (cases "fs_parent p = [slash]")
    case True
    then show ?thesis by (simp add: str_contains_def str_find_def)
  next
    case False
    then have "p = fs_parent p @ slash # name" using n(2) by simp
    then show ?thesis using assms(1) contains_prefix unfolding plain_path_def by metis
  qed
  then have "plain_path (fs_parent p)" using n(1) by (simp add: plain_path_def)
  moreover have "get_parent_path E p = Some (Inr (fs_parent p))"
    using c n(1) e by (simp add: get_parent_path_def finalize_canonical) (simp add: canonical_def)
  ultimately show ?thesis by blast
qed

definition all_allow :: "(string \<Rightarrow> exn + api_error) \<Rightarrow> string list \<Rightarrow> bool" where
  "all_allow f l \<longleftrightarrow> list_all (\<lambda>q. f q = Inr success) l"

lemma check_parents_plain:
  "plain_path q \<Longrightarrow> \<exists>r. check_parents E get q = Some r \<and>
    (r = Inr success \<longleftrightarrow> all_allow (\<lambda>q. check_access E get q X_OK) (q # parents q))"
proof (induction "length q" arbitrary: q rule: less_induct)
  case less
  have ne: "q \<noteq> []" using less.prems by (auto simp: plain_path_def canonical_def)
  show ?case
  proof (cases "check_access E get q X_OK")
    case (Inl x)
    then show ?thesis using ne by (subst check_parents.simps) (simp add: all_allow_def)
  next
    case (Inr res)
    show ?thesis
    proof (cases "res \<noteq> success \<or> q = [slash]")
      case True
      have "parents [slash] = []" by (simp add: parents.simps)
      then show ?thesis using Inr True ne by (subst check_parents.simps) (auto simp: all_allow_def)
    next
      case False
      note pp = parent_plain[OF less.prems, of E]
      have c: "canonical q" using less.prems by (simp add: plain_path_def)
      obtain r where r: "check_parents E get (fs_parent q) = Some r"
        "r = Inr success \<longleftrightarrow> all_allow (\<lambda>q. check_access E get q X_OK) (fs_parent q # parents (fs_parent q))"
        using less.hyps[OF fs_parent_shorter[OF c]] pp False by blast
      have "check_parents E get q = Some r" using Inr False ne pp r(1) by (subst check_parents.simps) simp
      moreover have "parents q = fs_parent q # parents (fs_parent q)" using c False by (subst parents.simps) simp
      ultimately show ?thesis using r(2) Inr False by (simp add: all_allow_def)
    qed
  qed
qed

lemma check_parent_access_plain:
  assumes "plain_path p" "p \<noteq> [slash]"
  shows "\<exists>r. check_parent_access E get p want = Some r \<and>
    (r = Inr success \<longleftrightarrow>
      (has_flag want X_OK \<longrightarrow> all_allow (\<lambda>q. check_access E get q X_OK) (parents p)) \<and>
      (want AND NOT X_OK \<noteq> 0 \<longrightarrow> check_access E get (fs_parent p) (want AND NOT X_OK) = Inr success))"
proof -
  note pp = parent_plain[OF assms, of E]
  have ps: "parents p = fs_parent p # parents (fs_parent p)"
    using assms by (subst parents.simps) (simp add: plain_path_def)
  obtain r where r: "check_parents E get (fs_parent p) = Some r"
    "r = Inr success \<longleftrightarrow> all_allow (\<lambda>q. check_access E get q X_OK) (parents p)"
    using check_parents_plain[of "fs_parent p" E get] pp ps by auto
  show ?thesis
  proof (cases "has_flag want X_OK")
    case True
    then show ?thesis using pp r assms(2) by (cases r) (auto simp: check_parent_access_def)
  next
    case False
    then show ?thesis using pp assms(2) by (auto simp: check_parent_access_def)
  qed
qed

text \<open>The checks look at the meta data as a map.\<close>

definition same_meta :: "meta_of \<Rightarrow> meta_of \<Rightarrow> string \<Rightarrow> bool" where
  "same_meta get get' q \<longleftrightarrow> fst (get q) = fst (get' q) \<and> (fst (get q) = success \<longrightarrow> map_of (snd (get q)) = map_of (snd (get' q)))"

lemma from_meta_cong:
  "map_of m = map_of m' \<Longrightarrow> get_uid_from_meta m = get_uid_from_meta m' \<and> get_gid_from_meta m = get_gid_from_meta m' \<and>
    get_mode_from_meta m = get_mode_from_meta m'"
  by (simp add: get_uid_from_meta_def get_gid_from_meta_def get_mode_from_meta_def meta_value_def)

lemma check_mode_cong: "map_of m = map_of m' \<Longrightarrow> check_mode E m want = check_mode E m' want"
  using from_meta_cong[of m m'] by (simp only: check_mode_def)

lemma check_access_cong: "same_meta get get' q \<Longrightarrow> check_access E get q want = check_access E get' q want"
proof -
  assume s: "same_meta get get' q"
  obtain r m where m: "get q = (r, m)" by force
  obtain r' m' where m': "get' q = (r', m')" by force
  have "r = r'" "r = success \<Longrightarrow> check_mode E m want = check_mode E m' want"
    using s check_mode_cong[of m m'] by (auto simp: same_meta_def m m')
  then show ?thesis by (simp add: check_access_def m m')
qed

lemma check_parents_cong:
  "plain_path q \<Longrightarrow> (\<And>r. r \<in> set (q # parents q) \<Longrightarrow> same_meta get get' r) \<Longrightarrow>
   check_parents E get q = check_parents E get' q"
proof (induction "length q" arbitrary: q rule: less_induct)
  case less
  have ne: "q \<noteq> []" using less.prems(1) by (auto simp: plain_path_def canonical_def)
  have a: "check_access E get q X_OK = check_access E get' q X_OK" using check_access_cong less.prems(2) by simp
  show ?case
  proof (cases "q = [slash]")
    case True
    then show ?thesis using a ne by (subst (1 2) check_parents.simps) (simp split: sum.split)
  next
    case False
    have c: "canonical q" using less.prems(1) by (simp add: plain_path_def)
    have ps: "parents q = fs_parent q # parents (fs_parent q)" using c False by (subst parents.simps) simp
    have "check_parents E get (fs_parent q) = check_parents E get' (fs_parent q)"
      using less.hyps[OF fs_parent_shorter[OF c False]] parent_plain[OF less.prems(1) False] less.prems(2) ps by auto
    then show ?thesis using a ne parent_plain[OF less.prems(1) False, of E]
      by (subst (1 2) check_parents.simps) (simp split: sum.split)
  qed
qed

lemma check_parent_access_cong:
  assumes "plain_path p" "p \<noteq> [slash]" "\<And>r. r \<in> set (parents p) \<Longrightarrow> same_meta get get' r"
  shows "check_parent_access E get p want = check_parent_access E get' p want"
proof -
  have ps: "parents p = fs_parent p # parents (fs_parent p)"
    using assms(1,2) by (subst parents.simps) (simp add: plain_path_def)
  have "check_parents E get (fs_parent p) = check_parents E get' (fs_parent p)"
    using check_parents_cong parent_plain[OF assms(1,2)] assms(3) ps by simp
  moreover have "check_access E get (fs_parent p) w = check_access E get' (fs_parent p) w" for w
    using check_access_cong assms(3) ps by simp
  moreover have "get_parent_path E p = Some (Inr (fs_parent p))" using parent_plain[OF assms(1,2)] by blast
  ultimately show ?thesis by (simp only: check_parent_access_def option.case sum.case)
qed

lemma parents_shorter: "q \<in> set (parents p) \<Longrightarrow> length q < length p"
proof (induction p rule: parents.induct)
  case (1 p)
  show ?case
  proof (cases "canonical p \<and> p \<noteq> [slash]")
    case True
    then have "parents p = fs_parent p # parents (fs_parent p)" by (subst parents.simps) simp
    then show ?thesis using 1 True fs_parent_shorter[of p] by auto
  next
    case False
    then have "parents p = []" by (subst parents.simps) simp
    then show ?thesis using 1 by simp
  qed
qed

lemma after_check_success:
  "after_check r st k = (Returns success, st') \<longleftrightarrow> r = Returns success \<and> k () = (Returns success, st')"
  by (cases r) (auto simp: after_check_def)

end
