(* ===== verification/Fuse_Drive.thy ===== *)
theory Fuse_Drive imports Fuse_Base File_Manager_Runs begin

text \<open>
  The local FUSE drive (drives/fuse/fuse_drive.cpp, on Linux with FUSE 3): every operation the kernel asks
  for, over the file manager and the open directories.  The drive reads the meta data of the provider for
  the permission checks of Fuse_Base and then works on the file manager, the provider or an open file.

  \<open>f_info\<close> is taken apart: its flags and its handle are arguments, and an operation that sets the handle
  or fills a buffer returns it in front of the state.  The result of an operation is its \<open>api_error\<close>, or an
  exception that it lets through, or \<open>Diverges\<close>.  The time is an argument of the operations that ask for it;
  \<open>errno\<close> is not part of the state.  Starting and stopping the drive (\<open>init_impl\<close>, \<open>destroy_impl\<close>,
  \<open>stop_all\<close>) is not modelled.
\<close>

section \<open>The parts and the state\<close>

type_synonym ('r, 'f) file_step = "cache_mgr \<Rightarrow> 'f \<Rightarrow> ('r \<times> effects \<times> cache_mgr \<times> 'f) option"

record 'f file_io =
  io_read :: "nat \<Rightarrow> nat \<Rightarrow> (api_error \<times> bytes, 'f) file_step"         \<comment> \<open>size, offset\<close>
  io_write :: "nat \<Rightarrow> bytes \<Rightarrow> (api_error \<times> nat, 'f) file_step"
  io_resize :: "nat \<Rightarrow> (api_error, 'f) file_step"
  io_sync :: "bool \<Rightarrow> (api_error, 'f) file_step"                      \<comment> \<open>with or without the attributes\<close>
  io_allocate :: "nat \<Rightarrow> nat \<Rightarrow> nat \<Rightarrow> word32 \<Rightarrow> (api_error, 'f) file_step"

text \<open>What the drive calls of the provider besides what the file manager calls.\<close>

record 'p drive_provider =
  dp_set_key :: "string \<Rightarrow> string \<Rightarrow> string \<Rightarrow> 'p \<Rightarrow> (exn + api_error) \<times> 'p"
  dp_set_meta :: "string \<Rightarrow> meta_map \<Rightarrow> 'p \<Rightarrow> (exn + api_error) \<times> 'p"
  dp_remove_key :: "string \<Rightarrow> string \<Rightarrow> 'p \<Rightarrow> api_error \<times> 'p"
  dp_create_directory :: "string \<Rightarrow> meta_map \<Rightarrow> 'p \<Rightarrow> api_error \<times> 'p"
  dp_items :: "string \<Rightarrow> 'p \<Rightarrow> api_error \<times> directory_item list"
  dp_total_space :: "'p \<Rightarrow> nat"
  dp_used_space :: "'p \<Rightarrow> exn + nat"
  dp_item_total :: "'p \<Rightarrow> nat"

record ('f, 'd, 'p, 's) drive_parts =
  mparts :: "('f, 'd, 'p, 's) parts"
  dprov :: "'p drive_provider"
  dio :: "'f file_io"

record ('f, 'd, 'p, 's) drive =
  dmgr :: "('f, 'd, 'p, 's) fmgr"
  ddirs :: "directory_item list dir_cache"

definition drive_meta :: "('f, 'd, 'p, 's) drive_parts \<Rightarrow> ('f, 'd, 'p, 's) drive \<Rightarrow> meta_of" where
  "drive_meta D d p = p_get_meta (provops (mparts D)) p (mprov (dmgr d))"

definition parent_access ::
  "('f, 'd, 'p, 's) drive_parts \<Rightarrow> fuse_env \<Rightarrow> string \<Rightarrow> word32 \<Rightarrow> ('f, 'd, 'p, 's) drive \<Rightarrow> api_error result" where
  "parent_access D E p want d = result_of (check_parent_access E (drive_meta D d) p want)"

definition access_impl ::
  "('f, 'd, 'p, 's) drive_parts \<Rightarrow> fuse_env \<Rightarrow> string \<Rightarrow> word32 \<Rightarrow> ('f, 'd, 'p, 's) drive \<Rightarrow> api_error result" where
  "access_impl D E p want d = from_sum (check_access E (drive_meta D d) p want)"

definition with_provider :: "'p \<Rightarrow> ('f, 'd, 'p, 's) drive \<Rightarrow> ('f, 'd, 'p, 's) drive" where
  "with_provider pr d = d\<lparr>dmgr := (dmgr d)\<lparr>mprov := pr\<rparr>\<rparr>"

definition set_key ::
  "('f, 'd, 'p, 's) drive_parts \<Rightarrow> string \<Rightarrow> string \<Rightarrow> string \<Rightarrow> ('f, 'd, 'p, 's) drive \<Rightarrow> api_error result \<times> ('f, 'd, 'p, 's) drive" where
  "set_key D p k v d =
    (case dp_set_key (dprov D) p k v (mprov (dmgr d)) of (r, pr) \<Rightarrow> (from_sum r, with_provider pr d))"

definition set_meta ::
  "('f, 'd, 'p, 's) drive_parts \<Rightarrow> string \<Rightarrow> meta_map \<Rightarrow> ('f, 'd, 'p, 's) drive \<Rightarrow> api_error result \<times> ('f, 'd, 'p, 's) drive" where
  "set_meta D p m d =
    (case dp_set_meta (dprov D) p m (mprov (dmgr d)) of (r, pr) \<Rightarrow> (from_sum r, with_provider pr d))"

text \<open>An operation of an open file; what it asks of the manager is done at once.\<close>

definition run_file ::
  "('f, 'd, 'p, 's) parts \<Rightarrow> ('r, 'f) file_step \<Rightarrow> nat \<Rightarrow> ('f, 'd, 'p, 's) fmgr \<Rightarrow> 'r result \<times> ('f, 'd, 'p, 's) fmgr" where
  "run_file S step i st =
    (case step (mcache st) (object_at i st) of
       None \<Rightarrow> (Diverges, st)
     | Some (r, e, c, f) \<Rightarrow> (Returns r, fm_effects S f e ((put_object i f st)\<lparr>mcache := c\<rparr>)))"

text \<open>\<open>get_open_data(handle)\<close>, which throws for a handle that is not open.\<close>

definition handle_flags :: "('f, 'd, 'p, 's) parts \<Rightarrow> nat \<Rightarrow> nat \<Rightarrow> ('f, 'd, 'p, 's) fmgr \<Rightarrow> exn + word32" where
  "handle_flags S i h st =
    (case map_of (cf_data (fileops S) (object_at i st)) h of None \<Rightarrow> Inl out_of_range | Some v \<Rightarrow> Inr (word_of_int v))"

definition check_flags ::
  "('f, 'd, 'p, 's) parts \<Rightarrow> nat \<Rightarrow> nat \<Rightarrow> (word32 \<Rightarrow> api_error) \<Rightarrow> ('f, 'd, 'p, 's) fmgr \<Rightarrow> api_error result" where
  "check_flags S i h check st = from_sum (attempt (handle_flags S i h st) (\<lambda>v. Inr (check v)))"

section \<open>Attributes of an item\<close>

definition chmod_impl ::
  "('f, 'd, 'p, 's) drive_parts \<Rightarrow> fuse_env \<Rightarrow> string \<Rightarrow> word32 \<Rightarrow> ('f, 'd, 'p, 's) drive \<Rightarrow> api_error result \<times> ('f, 'd, 'p, 's) drive" where
  "chmod_impl D E p mode d =
    check_and_perform E (drive_meta D d) p X_OK (\<lambda>_.
      if mode AND S_ID_BITS \<noteq> 0 \<and> get_effective_uid E \<noteq> 0 then (Returns permission_denied, d)
      else set_key D p ''mode'' (decimal (unat mode)) d) d"

definition chown_impl ::
  "('f, 'd, 'p, 's) drive_parts \<Rightarrow> fuse_env \<Rightarrow> string \<Rightarrow> word32 \<Rightarrow> word32 \<Rightarrow> ('f, 'd, 'p, 's) drive \<Rightarrow>
   api_error result \<times> ('f, 'd, 'p, 's) drive" where
  "chown_impl D E p uid gid d =
    check_and_perform E (drive_meta D d) p X_OK (\<lambda>_.
      if uid \<noteq> - 1 \<and> get_effective_uid E \<noteq> 0 \<and> get_effective_uid E \<noteq> uid then (Returns permission_denied, d)
      else if gid \<noteq> - 1 \<and> get_effective_uid E \<noteq> 0 \<and> \<not> member_of E (get_effective_uid E) gid then (Returns permission_denied, d)
      else
        let m = (if uid \<noteq> - 1 then [(''uid'', decimal (unat uid))] else []) @
                (if gid \<noteq> - 1 then [(''gid'', decimal (unat gid))] else [])
        in if m = [] then (Returns success, d) else set_meta D p m d) d"

text \<open>The text of \<open>tv_nsec + tv_sec * NANOS_PER_SECOND\<close>.\<close>

definition nanos_text :: "timespec \<Rightarrow> string" where
  "nanos_text ts =
    (let n = snd ts + fst ts * int NANOS_PER_SECOND
     in if n < 0 then CHR ''-'' # decimal (nat (- n)) else decimal (nat n))"

definition process_timespec :: "nat \<Rightarrow> string \<Rightarrow> timespec \<Rightarrow> meta_map" where
  "process_timespec now attr ts =
    (if snd ts = UTIME_NOW then [(attr, decimal now)]
     else if snd ts \<noteq> UTIME_OMIT then [(attr, nanos_text ts)] else [])"

definition utimens_impl ::
  "('f, 'd, 'p, 's) drive_parts \<Rightarrow> fuse_env \<Rightarrow> nat \<Rightarrow> nat \<Rightarrow> string \<Rightarrow> timespec \<Rightarrow> timespec \<Rightarrow> ('f, 'd, 'p, 's) drive \<Rightarrow>
   api_error result \<times> ('f, 'd, 'p, 's) drive" where
  "utimens_impl D E now0 now1 p tv0 tv1 d =
    (if \<not> validate_timespec tv0 \<or> \<not> validate_timespec tv1 then (Returns invalid_operation, d)
     else case drive_meta D d p of (res, m) \<Rightarrow>
       after_check (Returns res) d (\<lambda>_.
       after_check (from_sum (check_owner E m)) d (\<lambda>_.
         let m = process_timespec now0 ''accessed'' tv0 @ process_timespec now1 ''modified'' tv1
         in if m \<noteq> [] then set_meta D p m d else (Returns success, d))))"

definition update_accessed_time ::
  "('f, 'd, 'p, 's) drive_parts \<Rightarrow> fuse_env \<Rightarrow> nat \<Rightarrow> string \<Rightarrow> ('f, 'd, 'p, 's) drive \<Rightarrow> unit result \<times> ('f, 'd, 'p, 's) drive" where
  "update_accessed_time D E now p d =
    (if \<not> atime_enabled E then (Returns (), d)
     else case set_key D p ''accessed'' (decimal now) d of
       (Throws x, d) \<Rightarrow> (Throws x, d) | (Diverges, d) \<Rightarrow> (Diverges, d) | (Returns _, d) \<Rightarrow> (Returns (), d))"

text \<open>Attributes of an open file, and of a path.\<close>

definition stat_of_open ::
  "('f, 'd, 'p, 's) drive_parts \<Rightarrow> string \<Rightarrow> nat \<Rightarrow> meta_map \<Rightarrow> ('f, 'd, 'p, 's) drive \<Rightarrow> exn + file_stat" where
  "stat_of_open D p i m d =
    (let f = object_at i (dmgr d); item = cf_item (fileops (mparts D)) f
     in populate_stat (p_item_count (provops (mparts D)) p (mprov (dmgr d))) (item_size item) m (directory item))"

definition fgetattr_impl ::
  "('f, 'd, 'p, 's) drive_parts \<Rightarrow> string \<Rightarrow> nat \<Rightarrow> ('f, 'd, 'p, 's) drive \<Rightarrow> (api_error + file_stat) result" where
  "fgetattr_impl D p h d =
    (let S = mparts D; F = fileops S in
     case get_open_file_by_handle S h (dmgr d) of
       None \<Rightarrow> Returns (Inl invalid_handle)
     | Some (i, _) \<Rightarrow>
         let f = object_at i (dmgr d);
             gone = \<not> directory (cf_item F f) \<and> cf_unlinked F f
         in case (if gone then (success, cf_meta F f) else drive_meta D d p) of (res, m) \<Rightarrow>
              if res \<noteq> success then Returns (Inl res)
              else from_sum (attempt (stat_of_open D p i m d) (\<lambda>s. Inr (Inr (if gone then s\<lparr>sb_nlink := 0\<rparr> else s)))))"

definition get_item_stat ::
  "('f, 'd, 'p, 's) drive_parts \<Rightarrow> nat \<Rightarrow> ('f, 'd, 'p, 's) drive \<Rightarrow> (api_error + file_stat) result" where
  "get_item_stat D h d =
    (let S = mparts D; F = fileops S in
     case get_open_file_by_handle S h (dmgr d) of
       None \<Rightarrow> Returns (Inl invalid_handle)
     | Some (i, _) \<Rightarrow>
         let f = object_at i (dmgr d); p = api_path (cf_item F f)
         in case (if cf_unlinked F f then (success, cf_meta F f) else drive_meta D d p) of (res, m) \<Rightarrow>
              if res \<noteq> success then Returns (Inl res) else from_sum (attempt (stat_of_open D p i m d) (\<lambda>s. Inr (Inr s))))"

definition invalid_fh :: nat where
  "invalid_fh = 2 ^ 64 - 1"

definition getattr_path ::
  "('f, 'd, 'p, 's) drive_parts \<Rightarrow> fuse_env \<Rightarrow> string \<Rightarrow> ('f, 'd, 'p, 's) drive \<Rightarrow> (api_error + file_stat) result" where
  "getattr_path D E p d =
    (case parent_access D E p X_OK d of
       Throws x \<Rightarrow> Throws x | Diverges \<Rightarrow> Diverges
     | Returns res \<Rightarrow>
         if res \<noteq> success then Returns (Inl res)
         else case drive_meta D d p of (res, m) \<Rightarrow>
           if res \<noteq> success then Returns (Inl res)
           else from_sum (attempt (stoul (meta_at ''size'' m)) (\<lambda>size.
                attempt (to_bool (meta_at ''directory'' m)) (\<lambda>as_dir.
                attempt (populate_stat (p_item_count (provops (mparts D)) p (mprov (dmgr d))) size m as_dir)
                  (\<lambda>s. Inr (Inr s))))))"

definition getattr_impl ::
  "('f, 'd, 'p, 's) drive_parts \<Rightarrow> fuse_env \<Rightarrow> string \<Rightarrow> nat option \<Rightarrow> ('f, 'd, 'p, 's) drive \<Rightarrow> (api_error + file_stat) result" where
  "getattr_impl D E p fh d =
    (case fh of
       Some h \<Rightarrow> if h \<noteq> 0 \<and> h \<noteq> invalid_fh then fgetattr_impl D p h d else getattr_path D E p d
     | None \<Rightarrow> getattr_path D E p d)"

section \<open>Opening and closing\<close>

definition on_mgr :: "'r \<times> ('f, 'd, 'p, 's) fmgr \<Rightarrow> ('f, 'd, 'p, 's) drive \<Rightarrow> 'r \<times> ('f, 'd, 'p, 's) drive" where
  "on_mgr r d = (fst r, d\<lparr>dmgr := snd r\<rparr>)"

definition close_handle :: "('f, 'd, 'p, 's) drive_parts \<Rightarrow> nat \<Rightarrow> ('f, 'd, 'p, 's) drive \<Rightarrow> ('f, 'd, 'p, 's) drive" where
  "close_handle D h d = d\<lparr>dmgr := fm_close (mparts D) h (dmgr d)\<rparr>"

text \<open>\<open>truncate_impl\<close> opens the path on its own.\<close>

definition truncate_open ::
  "('f, 'd, 'p, 's) drive_parts \<Rightarrow> nat \<Rightarrow> nat \<Rightarrow> ('f, 'd, 'p, 's) drive \<Rightarrow> api_error result \<times> ('f, 'd, 'p, 's) drive" where
  "truncate_open D len h d =
    (case get_open_file (mparts D) h True (dmgr d) of
       (None, m) \<Rightarrow> (Returns invalid_handle, d\<lparr>dmgr := m\<rparr>)
     | (Some i, m) \<Rightarrow>
         (case run_file (mparts D) (io_resize (dio D) len) i m of
            (Returns res, m) \<Rightarrow> (Returns res, close_handle D h (d\<lparr>dmgr := m\<rparr>))
          | (Throws x, m) \<Rightarrow> (Throws x, d\<lparr>dmgr := m\<rparr>)
          | (Diverges, m) \<Rightarrow> (Diverges, d\<lparr>dmgr := m\<rparr>)))"

definition truncate_impl ::
  "('f, 'd, 'p, 's) drive_parts \<Rightarrow> fuse_env \<Rightarrow> string \<Rightarrow> nat \<Rightarrow> ('f, 'd, 'p, 's) drive \<Rightarrow> api_error result \<times> ('f, 'd, 'p, 's) drive" where
  "truncate_impl D E p len d =
    after_check (Returns (if is_read_only (mparts D) then permission_denied else success)) d (\<lambda>_.
    after_check (parent_access D E p X_OK d) d (\<lambda>_.
    after_check (access_impl D E p W_OK d) d (\<lambda>_.
      case fm_open (mparts D) p False (uint O_RDWR) (dmgr d) of
        (Not_opened res, m) \<Rightarrow> (Returns res, d\<lparr>dmgr := m\<rparr>)
      | (Open_throws x, m) \<Rightarrow> (Throws x, d\<lparr>dmgr := m\<rparr>)
      | (Opened h i, m) \<Rightarrow> truncate_open D len h (d\<lparr>dmgr := m\<rparr>))))"

text \<open>\<open>create_meta_attributes\<close> (platform/unix_platform.cpp)\<close>

definition create_meta_attributes ::
  "nat \<Rightarrow> nat \<Rightarrow> nat \<Rightarrow> nat \<Rightarrow> bool \<Rightarrow> word32 \<Rightarrow> string \<Rightarrow> word32 \<Rightarrow> nat \<Rightarrow> nat \<Rightarrow> nat \<Rightarrow> string \<Rightarrow> word32 \<Rightarrow> nat \<Rightarrow> meta_map" where
  "create_meta_attributes accessed attributes changed creation as_dir gid key mode modif osx_flags len src uid writ =
    (let m = [(''accessed'', decimal accessed), (''attributes'', decimal attributes), (''changed'', decimal changed),
        (''creation'', decimal creation), (''directory'', from_bool as_dir), (''gid'', decimal (unat gid)), (''key'', key),
        (''mode'', decimal (unat mode)), (''modified'', decimal modif), (''flags'', decimal osx_flags),
        (''pinned'', from_bool False), (''source'', src), (''size'', decimal len), (''uid'', decimal (unat uid)),
        (''written'', decimal writ)]
     in foldl (\<lambda>m k. if map_of m k \<noteq> None then m else m @ [(k, [])]) m META_USED_NAMES)"

text \<open>\<open>check_access\<close>, or the access to the parent of an item that does not exist.\<close>

definition item_or_parent_access ::
  "('f, 'd, 'p, 's) drive_parts \<Rightarrow> fuse_env \<Rightarrow> string \<Rightarrow> word32 \<Rightarrow> ('f, 'd, 'p, 's) drive \<Rightarrow> api_error result" where
  "item_or_parent_access D E p want d =
    (case access_impl D E p want d of
       Returns res \<Rightarrow> if res = item_not_found then parent_access D E p want d else Returns res
     | r \<Rightarrow> r)"

text \<open>Whether what is stored at the path may be opened this way.\<close>

definition open_kind :: "word32 \<Rightarrow> bool \<Rightarrow> bool \<Rightarrow> api_error" where
  "open_kind flags file_exists dir_exists =
    (let is_create = has_flag flags O_CREAT; is_dir = has_flag flags O_DIRECTORY;
         is_excl = has_flag flags O_EXCL; is_trunc = has_flag flags O_TRUNC
     in if is_create then
          (if dir_exists then directory_exists
           else if is_excl \<and> file_exists then item_exists else success)
        else if (if is_dir then file_exists else dir_exists) then (if is_dir then item_exists else directory_exists)
        else if \<not> (if is_dir then dir_exists else file_exists) then (if is_dir then directory_not_found else item_not_found)
        else if (is_excl \<or> is_trunc) \<and> \<not> file_exists then item_not_found
        else success)"

definition FILE_ATTRIBUTE_DIRECTORY :: nat where "FILE_ATTRIBUTE_DIRECTORY = 0x10"
definition FILE_ATTRIBUTE_ARCHIVE :: nat where "FILE_ATTRIBUTE_ARCHIVE = 0x20"

text \<open>The file manager creates the file or opens it.\<close>

definition open_or_create ::
  "('f, 'd, 'p, 's) drive_parts \<Rightarrow> fuse_env \<Rightarrow> nat \<Rightarrow> string \<Rightarrow> word32 \<Rightarrow> word32 \<Rightarrow> ('f, 'd, 'p, 's) fmgr \<Rightarrow>
   open_result \<times> ('f, 'd, 'p, 's) fmgr" where
  "open_or_create D E now p mode flags st =
    (let S = mparts D; is_dir = has_flag flags O_DIRECTORY in
     if has_flag flags O_CREAT then
       (case l_fresh (localops S) (mlocal st) of (src, l) \<Rightarrow>
          fm_create S p (create_meta_attributes now FILE_ATTRIBUTE_ARCHIVE now now is_dir (get_effective_gid E) [] mode now 0 0
            src (get_effective_uid E) now) (sint flags) (st\<lparr>mlocal := l\<rparr>))
     else fm_open S p is_dir (sint flags) st)"

definition create_opened ::
  "('f, 'd, 'p, 's) drive_parts \<Rightarrow> fuse_env \<Rightarrow> string \<Rightarrow> word32 \<Rightarrow> nat \<Rightarrow> ('f, 'd, 'p, 's) drive \<Rightarrow>
   api_error result \<times> nat \<times> ('f, 'd, 'p, 's) drive" where
  "create_opened D E p flags h d =
    (if \<not> has_flag flags O_TRUNC then (Returns success, h, d)
     else case truncate_impl D E p 0 d of
       (Returns res, d) \<Rightarrow> if res = success then (Returns success, h, d) else (Returns res, invalid_fh, close_handle D h d)
     | (Throws x, d) \<Rightarrow> (Throws x, h, d)
     | (Diverges, d) \<Rightarrow> (Diverges, h, d))"

definition create_impl ::
  "('f, 'd, 'p, 's) drive_parts \<Rightarrow> fuse_env \<Rightarrow> nat \<Rightarrow> string \<Rightarrow> word32 \<Rightarrow> word32 \<Rightarrow> ('f, 'd, 'p, 's) drive \<Rightarrow>
   api_error result \<times> nat \<times> ('f, 'd, 'p, 's) drive" where
  "create_impl D E now p mode flags d =
    (let S = mparts D; none = (invalid_fh, d);
         is_create = has_flag flags O_CREAT; is_dir = has_flag flags O_DIRECTORY
     in if is_create \<and> has_flag flags O_APPEND \<and> has_flag flags O_TRUNC then (Returns invalid_operation, none)
        else
          after_check (parent_access D E p X_OK d) none (\<lambda>_.
          after_check (item_or_parent_access D E p (if is_create then W_OK else R_OK) d) none (\<lambda>_.
          if (has_flag flags O_WRONLY \<or> has_flag flags O_RDWR) \<and> is_read_only S then (Returns permission_denied, none)
          else if is_create \<and> is_dir then (Returns invalid_operation, none)
          else case p_is_file (provops S) p (mprov (dmgr d)) of (res, file_exists) \<Rightarrow>
            after_check (Returns res) none (\<lambda>_.
            case (if file_exists then (success, False) else p_is_directory (provops S) p (mprov (dmgr d))) of (res, dir_exists) \<Rightarrow>
            after_check (Returns res) none (\<lambda>_.
            after_check (Returns (open_kind flags file_exists dir_exists)) none (\<lambda>_.
              case open_or_create D E now p mode flags (dmgr d) of
                (Not_opened res, m) \<Rightarrow> (Returns res, invalid_fh, d\<lparr>dmgr := m\<rparr>)
              | (Open_throws x, m) \<Rightarrow> (Throws x, invalid_fh, d\<lparr>dmgr := m\<rparr>)
              | (Opened h i, m) \<Rightarrow> create_opened D E p flags h (d\<lparr>dmgr := m\<rparr>)))))))"

definition open_impl ::
  "('f, 'd, 'p, 's) drive_parts \<Rightarrow> fuse_env \<Rightarrow> nat \<Rightarrow> string \<Rightarrow> word32 \<Rightarrow> ('f, 'd, 'p, 's) drive \<Rightarrow>
   api_error result \<times> nat \<times> ('f, 'd, 'p, 's) drive" where
  "open_impl D E now p flags d = create_impl D E now p 0 (flags AND NOT O_CREAT) d"

definition release_impl ::
  "('f, 'd, 'p, 's) drive_parts \<Rightarrow> nat \<Rightarrow> ('f, 'd, 'p, 's) drive \<Rightarrow> api_error result \<times> ('f, 'd, 'p, 's) drive" where
  "release_impl D h d = (Returns success, close_handle D h d)"

section \<open>Reading and writing\<close>

definition read_impl ::
  "('f, 'd, 'p, 's) drive_parts \<Rightarrow> fuse_env \<Rightarrow> nat \<Rightarrow> string \<Rightarrow> nat \<Rightarrow> nat \<Rightarrow> nat \<Rightarrow> ('f, 'd, 'p, 's) drive \<Rightarrow>
   api_error result \<times> bytes \<times> ('f, 'd, 'p, 's) drive" where
  "read_impl D E now p len off h d =
    (case get_open_file_by_handle (mparts D) h (dmgr d) of
       None \<Rightarrow> (Returns item_not_found, [], d)
     | Some (i, _) \<Rightarrow>
         if directory (cf_item (fileops (mparts D)) (object_at i (dmgr d))) then (Returns directory_exists, [], d)
         else
           after_check (check_flags (mparts D) i h (\<lambda>v. check_readable v invalid_handle) (dmgr d)) ([], d) (\<lambda>_.
             case run_file (mparts D) (io_read (dio D) len off) i (dmgr d) of
               (Throws x, m) \<Rightarrow> (Throws x, [], d\<lparr>dmgr := m\<rparr>)
             | (Diverges, m) \<Rightarrow> (Diverges, [], d\<lparr>dmgr := m\<rparr>)
             | (Returns (res, data), m) \<Rightarrow>
                 if data = [] then (Returns res, [], d\<lparr>dmgr := m\<rparr>)
                 else (case update_accessed_time D E now p (d\<lparr>dmgr := m\<rparr>) of
                         (Throws x, d) \<Rightarrow> (Throws x, data, d) | (Diverges, d) \<Rightarrow> (Diverges, data, d)
                       | (Returns _, d) \<Rightarrow> (Returns res, data, d))))"

definition write_impl ::
  "('f, 'd, 'p, 's) drive_parts \<Rightarrow> bytes \<Rightarrow> nat \<Rightarrow> nat \<Rightarrow> ('f, 'd, 'p, 's) drive \<Rightarrow>
   api_error result \<times> nat \<times> ('f, 'd, 'p, 's) drive" where
  "write_impl D buffer off h d =
    (let S = mparts D in
     case get_open_file S h True (dmgr d) of
       (None, m) \<Rightarrow> (Returns item_not_found, 0, d\<lparr>dmgr := m\<rparr>)
     | (Some i, m) \<Rightarrow>
         let d = d\<lparr>dmgr := m\<rparr>; item = cf_item (fileops S) (object_at i m)
         in if directory item then (Returns directory_exists, 0, d)
            else
              after_check (check_flags S i h (\<lambda>v. check_writeable v invalid_handle) m) (0, d) (\<lambda>_.
                if buffer = [] then (Returns success, 0, d)
                else case handle_flags S i h m of
                  Inl x \<Rightarrow> (Throws x, 0, d)
                | Inr flags \<Rightarrow>
                    (case run_file S (io_write (dio D) (if flags AND O_APPEND \<noteq> 0 then item_size item else off) buffer) i m of
                       (Returns (res, n), m) \<Rightarrow> (Returns res, n, d\<lparr>dmgr := m\<rparr>)
                     | (Throws x, m) \<Rightarrow> (Throws x, 0, d\<lparr>dmgr := m\<rparr>)
                     | (Diverges, m) \<Rightarrow> (Diverges, 0, d\<lparr>dmgr := m\<rparr>))))"

definition FALLOC_FL_KEEP_SIZE :: word32 where "FALLOC_FL_KEEP_SIZE = 1"

definition fallocate_impl ::
  "('f, 'd, 'p, 's) drive_parts \<Rightarrow> word32 \<Rightarrow> nat \<Rightarrow> nat \<Rightarrow> nat \<Rightarrow> ('f, 'd, 'p, 's) drive \<Rightarrow>
   api_error result \<times> ('f, 'd, 'p, 's) drive" where
  "fallocate_impl D mode off len h d =
    (let S = mparts D in
     case get_open_file S h True (dmgr d) of
       (None, m) \<Rightarrow> (Returns invalid_handle, d\<lparr>dmgr := m\<rparr>)
     | (Some i, m) \<Rightarrow>
         let d = d\<lparr>dmgr := m\<rparr>;
             new_size = (if has_flag mode FALLOC_FL_KEEP_SIZE then item_size (cf_item (fileops S) (object_at i m)) else add64 off len)
         in after_check (check_flags S i h (\<lambda>v. check_writeable v invalid_handle) m) d (\<lambda>_.
            after_check (check_flags S i h (\<lambda>v. check_open_flags v (O_WRONLY OR O_APPEND) invalid_handle) m) d (\<lambda>_.
              on_mgr (run_file S (io_allocate (dio D) new_size off len mode) i m) d)))"

definition fsync_impl ::
  "('f, 'd, 'p, 's) drive_parts \<Rightarrow> bool \<Rightarrow> nat \<Rightarrow> ('f, 'd, 'p, 's) drive \<Rightarrow> api_error result \<times> ('f, 'd, 'p, 's) drive" where
  "fsync_impl D datasync h d =
    (case get_open_file_by_handle (mparts D) h (dmgr d) of
       None \<Rightarrow> (Returns invalid_handle, d)
     | Some (i, _) \<Rightarrow> on_mgr (run_file (mparts D) (io_sync (dio D) datasync) i (dmgr d)) d)"

definition ioctl_impl :: "word32 \<Rightarrow> word32 \<Rightarrow> bool \<Rightarrow> nat \<Rightarrow> api_error + nat" where
  "ioctl_impl fd_command cmd arg_null h =
    (if cmd = fd_command then (if arg_null then Inl invalid_operation else Inr h) else Inl no_tty)"

section \<open>Directories\<close>

definition mkdir_impl ::
  "('f, 'd, 'p, 's) drive_parts \<Rightarrow> fuse_env \<Rightarrow> nat \<Rightarrow> string \<Rightarrow> word32 \<Rightarrow> ('f, 'd, 'p, 's) drive \<Rightarrow>
   api_error result \<times> ('f, 'd, 'p, 's) drive" where
  "mkdir_impl D E now p mode d =
    after_check (parent_access D E p (W_OK OR X_OK) d) d (\<lambda>_.
      case dp_create_directory (dprov D) p
             (create_meta_attributes now FILE_ATTRIBUTE_DIRECTORY now now True (get_effective_gid E) [] mode now 0 0 []
               (get_effective_uid E) now) (mprov (dmgr d)) of (res, pr) \<Rightarrow>
        let d = with_provider pr d
        in after_check (Returns res) d (\<lambda>_.
             if p = ''/'' then (Returns success, d)
             else case result_of (get_parent_api_path p) of
               Throws x \<Rightarrow> (Throws x, d)
             | Diverges \<Rightarrow> (Diverges, d)
             | Returns parent \<Rightarrow>
                 (case set_key D parent ''modified'' (decimal now) d of
                    (Throws x, d) \<Rightarrow> (Throws x, d)
                  | (Diverges, d) \<Rightarrow> (Diverges, d)
                  | (Returns _, d) \<Rightarrow> (Returns success, d))))"

definition opendir_impl ::
  "('f, 'd, 'p, 's) drive_parts \<Rightarrow> fuse_env \<Rightarrow> string \<Rightarrow> word32 \<Rightarrow> ('f, 'd, 'p, 's) drive \<Rightarrow>
   api_error result \<times> nat \<times> ('f, 'd, 'p, 's) drive" where
  "opendir_impl D E p flags d =
    (let S = mparts D; none = (invalid_fh, d);
         want = (if flags AND O_ACCMODE \<noteq> 0 then W_OK else R_OK) OR X_OK
     in after_check (access_impl D E p want d) none (\<lambda>_.
        after_check (parent_access D E p want d) none (\<lambda>_.
        case p_is_directory (provops S) p (mprov (dmgr d)) of (res, exists) \<Rightarrow>
        after_check (Returns res) none (\<lambda>_.
        if \<not> exists then (Returns directory_not_found, none)
        else if has_flag flags O_APPEND \<or> has_flag flags O_EXCL then (Returns directory_exists, none)
        else case dp_items (dprov D) p (mprov (dmgr d)) of (res, items) \<Rightarrow>
          after_check (Returns res) none (\<lambda>_.
          case get_next_handle (dmgr d) of (h, m) \<Rightarrow>
            (Returns success, h, d\<lparr>dmgr := m, ddirs := set_directory p h items (ddirs d)\<rparr>))))))"

text \<open>The attributes of an entry, as \<open>readdir_impl\<close> hands them to \<open>fill_buffer\<close>.\<close>

definition entry_stat :: "('f, 'd, 'p, 's) drive_parts \<Rightarrow> ('f, 'd, 'p, 's) drive \<Rightarrow> directory_item \<Rightarrow> exn + file_stat" where
  "entry_stat D d item =
    populate_stat (p_item_count (provops (mparts D)) (di_path item) (mprov (dmgr d))) (di_size item) (di_meta item) (di_directory item)"

definition readdir_impl ::
  "('f, 'd, 'p, 's) drive_parts \<Rightarrow> fuse_env \<Rightarrow> string \<Rightarrow> (string \<Rightarrow> file_stat \<Rightarrow> nat \<Rightarrow> 'b \<Rightarrow> bool \<times> 'b) \<Rightarrow> nat \<Rightarrow> nat \<Rightarrow>
   ('f, 'd, 'p, 's) drive \<Rightarrow> 'b \<Rightarrow> api_error result \<times> 'b" where
  "readdir_impl D E p fill off h d b =
    after_check (access_impl D E p X_OK d) b (\<lambda>_.
      case get_directory h (ddirs d) of
        None \<Rightarrow> (Returns invalid_handle, b)
      | Some items \<Rightarrow>
          (case fill_loop items (entry_stat D d) fill off b of (errno, b) \<Rightarrow>
             (Returns (if errno = end_of_directory \<or> errno = ENOMEM then success else os_error), b)))"

definition releasedir_impl ::
  "('f, 'd, 'p, 's) drive_parts \<Rightarrow> nat \<Rightarrow> ('f, 'd, 'p, 's) drive \<Rightarrow> api_error result \<times> ('f, 'd, 'p, 's) drive" where
  "releasedir_impl D h d =
    (case get_directory h (ddirs d) of
       None \<Rightarrow> (Returns invalid_handle, d)
     | Some _ \<Rightarrow> (Returns success, d\<lparr>ddirs := remove_directory_handle h (ddirs d)\<rparr>))"

definition rmdir_impl ::
  "('f, 'd, 'p, 's) drive_parts \<Rightarrow> fuse_env \<Rightarrow> string \<Rightarrow> ('f, 'd, 'p, 's) drive \<Rightarrow> api_error result \<times> ('f, 'd, 'p, 's) drive" where
  "rmdir_impl D E p d =
    after_check (parent_access D E p (W_OK OR X_OK) d) d (\<lambda>_.
      case fm_remove_directory (mparts D) p (dmgr d) of (res, m) \<Rightarrow>
        after_check (Returns res) (d\<lparr>dmgr := m\<rparr>) (\<lambda>_.
          (Returns success, d\<lparr>dmgr := m, ddirs := snd (remove_directory_path p (ddirs d))\<rparr>)))"

section \<open>Renaming and removing\<close>

definition rename_impl ::
  "('f, 'd, 'p, 's) drive_parts \<Rightarrow> fuse_env \<Rightarrow> nat \<Rightarrow> string \<Rightarrow> string \<Rightarrow> ('f, 'd, 'p, 's) drive \<Rightarrow>
   api_error result \<times> ('f, 'd, 'p, 's) drive" where
  "rename_impl D E depth from_path to_path d =
    (let S = mparts D in
     after_check (parent_access D E to_path (W_OK OR X_OK) d) d (\<lambda>_.
     after_check (parent_access D E from_path (W_OK OR X_OK) d) d (\<lambda>_.
     case p_is_file (provops S) from_path (mprov (dmgr d)) of (res, file) \<Rightarrow>
     after_check (Returns res) d (\<lambda>_.
     case p_is_directory (provops S) from_path (mprov (dmgr d)) of (res, dir) \<Rightarrow>
     after_check (Returns res) d (\<lambda>_.
       if file then on_mgr (rename_file S from_path to_path True (dmgr d)) d
       else if dir then on_mgr (rename_directory S depth from_path to_path (dmgr d)) d
       else (Returns item_not_found, d))))))"

definition unlink_impl ::
  "('f, 'd, 'p, 's) drive_parts \<Rightarrow> fuse_env \<Rightarrow> string \<Rightarrow> ('f, 'd, 'p, 's) drive \<Rightarrow> api_error result \<times> ('f, 'd, 'p, 's) drive" where
  "unlink_impl D E p d =
    (case p_is_directory (provops (mparts D)) p (mprov (dmgr d)) of (res, exists) \<Rightarrow>
       after_check (Returns res) d (\<lambda>_.
       if exists then (Returns directory_exists, d)
       else after_check (parent_access D E p (W_OK OR X_OK) d) d (\<lambda>_.
         case remove_file (mparts D) p (dmgr d) of (res, m) \<Rightarrow> (Returns res, d\<lparr>dmgr := m\<rparr>))))"

section \<open>The volume\<close>

record volume_stat =
  vs_blocks :: nat
  vs_bfree :: nat
  vs_files :: nat
  vs_ffree :: nat

definition total_files :: nat where "total_files = 4294967295"

text \<open>\<open>statfs_impl\<close>, once \<open>statvfs\<close> of the cache directory has given the block size \<open>frsize\<close>.\<close>

definition statfs_impl ::
  "('f, 'd, 'p, 's) drive_parts \<Rightarrow> nat option \<Rightarrow> ('f, 'd, 'p, 's) drive \<Rightarrow> (api_error + volume_stat) result" where
  "statfs_impl D frsize d =
    (case frsize of
       None \<Rightarrow> Returns (Inl os_error)
     | Some bs \<Rightarrow>
         from_sum (attempt (dp_used_space (dprov D) (mprov (dmgr d))) (\<lambda>used.
           let used_blocks = divide_with_ceiling used bs;
               blocks = divide_with_ceiling (dp_total_space (dprov D) (mprov (dmgr d))) bs
           in Inr (Inr \<lparr>vs_blocks = blocks, vs_bfree = (if blocks = 0 then 0 else sub64 blocks used_blocks),
                vs_files = total_files, vs_ffree = sub64 total_files (dp_item_total (dprov D) (mprov (dmgr d)))\<rparr>))))"

definition get_volume_info :: "('f, 'd, 'p, 's) drive_parts \<Rightarrow> ('f, 'd, 'p, 's) drive \<Rightarrow> exn + (nat \<times> nat)" where
  "get_volume_info D d =
    attempt (dp_used_space (dprov D) (mprov (dmgr d))) (\<lambda>used.
      let total = dp_total_space (dprov D) (mprov (dmgr d)) in Inr (total, sub64 total used))"

text \<open>The provider with the shared base class, as the drive sees it.\<close>

definition drive_provider_of :: "('m, 'h) provider_parts \<Rightarrow> nat \<Rightarrow> ('m, 'h) provider drive_provider" where
  "drive_provider_of P space = \<lparr>
    dp_set_key = set_item_meta_key P,
    dp_set_meta = set_item_meta P,
    dp_remove_key = remove_item_meta P,
    dp_create_directory = create_directory P,
    dp_items = get_directory_items P,
    dp_total_space = (\<lambda>_. space),
    dp_used_space = get_used_drive_space P,
    dp_item_total = get_total_item_count P\<rparr>"

end
