(* ===== verification/Fuse_Xattr.thy ===== *)
theory Fuse_Xattr imports Fuse_Drive begin

text \<open>
  Extended attributes of the FUSE drive: they are rows of the meta data whose value is stored in Base64.
\<close>

section \<open>The operations\<close>

definition XATTR_NAME_MAX :: nat where "XATTR_NAME_MAX = 255"
definition XATTR_SIZE_MAX :: nat where "XATTR_SIZE_MAX = 65536"
definition XATTR_CREATE :: int where "XATTR_CREATE = 1"
definition XATTR_REPLACE :: int where "XATTR_REPLACE = 2"

definition attribute_namespaces :: "string list" where
  "attribute_namespaces = [''security'', ''system'', ''trusted'', ''user'']"

text \<open>\<open>size\<close> and what is copied to \<open>value\<close>.  The buffer is \<open>None\<close> when it is null.\<close>

definition getxattr_common ::
  "('f, 'd, 'p, 's) drive_parts \<Rightarrow> fuse_env \<Rightarrow> string \<Rightarrow> string option \<Rightarrow> bool \<Rightarrow> nat \<Rightarrow> ('f, 'd, 'p, 's) drive \<Rightarrow>
   (api_error \<times> nat \<times> bytes) result" where
  "getxattr_common D E p name value_null len d =
    (case parse_xattr_value name value_null len p of
       Inl e \<Rightarrow> Returns (e, 0, [])
     | Inr attr \<Rightarrow>
         (case parent_access D E p X_OK d of
            Throws x \<Rightarrow> Throws x | Diverges \<Rightarrow> Diverges
          | Returns res \<Rightarrow>
              if res \<noteq> success then Returns (res, 0, [])
              else case drive_meta D d p of (res, m) \<Rightarrow>
                if res \<noteq> success then Returns (res, 0, [])
                else case map_of m attr of
                  None \<Rightarrow> Returns (xattr_not_found, 0, [])
                | Some text \<Rightarrow>
                    (case base64_decode text of
                       Inl x \<Rightarrow> Throws x
                     | Inr data \<Rightarrow>
                         if len = 0 then Returns (success, length data, [])
                         else if len < length data then Returns (xattr_buffer_small, length data, [])
                         else Returns (success, length data, data))))"

text \<open>
  The loop of \<open>listxattr_impl\<close>: the room that is left, the size that is needed so far, and what has been
  written to the buffer and where.
\<close>

record list_state =
  ls_room :: nat
  ls_needed :: nat
  ls_written :: "(nat \<times> string) list"
  ls_result :: api_error

definition list_name :: "list_state \<Rightarrow> string \<Rightarrow> list_state" where
  "list_name s name =
    (let n = Suc (length name)
     in (if n \<le> ls_room s then s\<lparr>ls_room := ls_room s - n, ls_written := ls_written s @ [(ls_needed s, name @ [CHR 0x00])]\<rparr>
         else s\<lparr>ls_result := xattr_buffer_small\<rparr>)\<lparr>ls_needed := ls_needed s + n\<rparr>)"

definition list_names :: "nat \<Rightarrow> string list \<Rightarrow> list_state" where
  "list_names len names =
    foldl list_name \<lparr>ls_room = len, ls_needed = 0, ls_written = [], ls_result = success\<rparr> names"

text \<open>Result, needed size, whether that size is returned, and the writes to the buffer.\<close>

definition listxattr_impl ::
  "('f, 'd, 'p, 's) drive_parts \<Rightarrow> fuse_env \<Rightarrow> string \<Rightarrow> nat \<Rightarrow> ('f, 'd, 'p, 's) drive \<Rightarrow>
   (api_error \<times> nat \<times> bool \<times> (nat \<times> string) list) result" where
  "listxattr_impl D E p len d =
    (case parent_access D E p X_OK d of
       Throws x \<Rightarrow> Throws x | Diverges \<Rightarrow> Diverges
     | Returns res \<Rightarrow>
         if res \<noteq> success then Returns (res, 0, False, [])
         else case drive_meta D d p of (res, m) \<Rightarrow>
           let s = (if res \<noteq> success then (list_names len [])\<lparr>ls_result := res\<rparr>
                    else list_names len (filter (\<lambda>k. k \<notin> set META_USED_NAMES) (map fst m)))
           in Returns (ls_result s, ls_needed s,
                ls_result s = success \<or> ls_result s = xattr_buffer_small \<and> len = 0, ls_written s))"

definition removexattr_impl ::
  "('f, 'd, 'p, 's) drive_parts \<Rightarrow> fuse_env \<Rightarrow> string \<Rightarrow> string option \<Rightarrow> ('f, 'd, 'p, 's) drive \<Rightarrow>
   api_error result \<times> ('f, 'd, 'p, 's) drive" where
  "removexattr_impl D E p name d =
    (case parse_xattr_parameters name p of
       Inl e \<Rightarrow> (Returns e, d)
     | Inr attr \<Rightarrow>
         check_and_perform E (drive_meta D d) p X_OK (\<lambda>m.
           if map_of m attr \<noteq> None \<and> attr \<notin> set META_USED_NAMES then
             (case dp_remove_key (dprov D) p attr (mprov (dmgr d)) of (res, pr) \<Rightarrow> (Returns res, with_provider pr d))
           else (Returns xattr_not_found, d)) d)"

definition xattr_name_check :: "string \<Rightarrow> nat \<Rightarrow> api_error" where
  "xattr_name_check attr len =
    (let namespace = (if str_contains attr ''.'' then hd (split_string attr (CHR ''.'') False) else [])
     in if XATTR_NAME_MAX < length attr \<or> XATTR_SIZE_MAX < len then xattr_too_big
        else if str_contains attr '' .'' \<or> str_contains attr ''. '' \<or> namespace \<notin> set attribute_namespaces
        then not_supported
        else success)"

text \<open>\<open>value\<close> is \<open>None\<close> when the pointer is null, and has \<open>size\<close> bytes otherwise.\<close>

definition setxattr_impl ::
  "('f, 'd, 'p, 's) drive_parts \<Rightarrow> fuse_env \<Rightarrow> string \<Rightarrow> string option \<Rightarrow> bytes option \<Rightarrow> nat \<Rightarrow> int \<Rightarrow> ('f, 'd, 'p, 's) drive \<Rightarrow>
   api_error result \<times> ('f, 'd, 'p, 's) drive" where
  "setxattr_impl D E p name value len flags d =
    (case parse_xattr_value name (value = None) len p of
       Inl e \<Rightarrow> (Returns e, d)
     | Inr attr \<Rightarrow>
         after_check (Returns (xattr_name_check attr len)) d (\<lambda>_.
         case drive_meta D d p of (res, m) \<Rightarrow>
         after_check (Returns res) d (\<lambda>_.
         after_check (parent_access D E p X_OK d) d (\<lambda>_.
         after_check (from_sum (check_owner E m)) d (\<lambda>_.
           if flags = XATTR_CREATE \<and> map_of m attr \<noteq> None then (Returns xattr_exists, d)
           else if flags = XATTR_REPLACE \<and> map_of m attr = None then (Returns xattr_not_found, d)
           else set_key D p attr (base64_encode False True (case value of None \<Rightarrow> [] | Some v \<Rightarrow> take len v)) d)))))"

text \<open>The callbacks: the number the kernel gets.\<close>

definition getxattr_callback ::
  "('f, 'd, 'p, 's) drive_parts \<Rightarrow> fuse_env \<Rightarrow> int \<Rightarrow> string \<Rightarrow> string option \<Rightarrow> bool \<Rightarrow> nat \<Rightarrow> ('f, 'd, 'p, 's) drive \<Rightarrow>
   int result \<times> nat \<times> bytes" where
  "getxattr_callback D E errno path name value_null len d =
    (case execute_callback errno path
            (\<lambda>p _. case getxattr_common D E p name value_null len d of
               Returns (res, out) \<Rightarrow> (Returns res, out) | Throws x \<Rightarrow> (Throws x, 0, []) | Diverges \<Rightarrow> (Diverges, 0, []))
            (0, []) of
       (Returns res, n, data) \<Rightarrow> (Returns (length_or res (int n)), n, data)
     | r \<Rightarrow> r)"

definition listxattr_callback ::
  "('f, 'd, 'p, 's) drive_parts \<Rightarrow> fuse_env \<Rightarrow> int \<Rightarrow> string \<Rightarrow> nat \<Rightarrow> ('f, 'd, 'p, 's) drive \<Rightarrow>
   int result \<times> nat \<times> bool \<times> (nat \<times> string) list" where
  "listxattr_callback D E errno path len d =
    (case execute_callback errno path
            (\<lambda>p _. case listxattr_impl D E p len d of
               Returns (res, out) \<Rightarrow> (Returns res, out) | Throws x \<Rightarrow> (Throws x, 0, False, []) | Diverges \<Rightarrow> (Diverges, 0, False, []))
            (0, False, []) of
       (Returns res, n, whole, w) \<Rightarrow> (Returns (if whole then int n else res), n, whole, w)
     | r \<Rightarrow> r)"

section \<open>What is stored is read back\<close>

lemma decode_stored: "base64_decode (base64_encode url_safe pad data) = Inr data"
  unfolding base64_encode_def by (rule decode_encode) (simp add: alphabet_def)

text \<open>A database that keeps its contract gives back a value that it has stored, and changes no other row.\<close>

context meta_store begin

lemma place_same:
  assumes g: "good d" and r: "\<And>s. readable d s" and x: "rows d p = Some x"
    and y: "it_source (fst y) = it_source (fst x)" "it_directory (fst y) = it_directory (fst x)"
  shows "placeable (rows d) p y"
proof -
  have "it_source (fst x) = []" if "source_at (rows d) q = it_source (fst x)" "q \<noteq> p" for q
  proof (rule ccontr)
    assume ne: "it_source (fst x) \<noteq> []"
    have "source_at (rows d) p = it_source (fst x)" using x by (simp add: source_at_def)
    then have "md_get_api_path M (it_source (fst x)) d = (success, p)" using source_law[OF g r ne] by blast
    moreover have "md_get_api_path M (it_source (fst x)) d = (success, q)" using source_law[OF g r ne that(1)] .
    ultimately show False using that(2) by simp
  qed
  moreover have "it_directory (fst x) \<Longrightarrow> it_source (fst x) = []"
    using rows_normal[OF g x] by (simp add: normal_row_def)
  ultimately show ?thesis using x y by (auto simp: placeable_def source_at_def)
qed

lemma set_key_placed:
  assumes g: "good d" and r: "\<And>s. readable d s" and x: "rows d p = Some x" and k: "\<not> item_key k"
    and s: "md_set_key M p k v d = (e, d')"
  shows "good d' \<and> readable d' = readable d \<and> (calm d \<longrightarrow> calm d') \<and>
    placed (calm d) e (rows d) p (Some (fst x, (snd x)(k \<mapsto> v))) (rows d')"
proof -
  let ?y = "(fst x, (snd x)(k \<mapsto> v))"
  have n: "normal_row ?y" using rows_normal[OF g x] k by (simp add: normal_row_def)
  have v: "(view x)(k \<mapsto> v) = view ?y"
  proof
    fix j
    show "((view x)(k \<mapsto> v)) j = view ?y j"
    proof (cases "j = k")
      case True
      then show ?thesis using k unfolding view_def item_key_def by simp
    next
      case False
      then show ?thesis unfolding view_def by simp
    qed
  qed
  have nr: "Some ?y = new_row ((row_text (rows d) p)(k \<mapsto> v))"
    unfolding row_text_def x option.case v by (rule new_row_view[OF n, symmetric])
  have ks: "key_settable (rows d) p k v" using k unfolding key_settable_def proper_meta_def item_key_def by auto
  have pl: "placeable (rows d) p y" if "Some ?y = Some y" for y
    using place_same[OF g r x, of y] that by (metis fst_conv option.inject)
  show ?thesis by (rule set_key_law[OF g r ks nr _ s]) (rule pl)
qed

lemma set_key_succeeds:
  "good d \<Longrightarrow> (\<And>s. readable d s) \<Longrightarrow> calm d \<Longrightarrow> rows d p = Some x \<Longrightarrow> \<not> item_key k \<Longrightarrow> fst (md_set_key M p k v d) = success"
  using set_key_placed[of d p x k v, OF _ _ _ _ prod.collapse[symmetric]] by (auto simp: placed_def wrote_def)

lemma set_key_reads_back:
  assumes g: "good d" and r: "\<And>s. readable d s" and x: "rows d p = Some x" and k: "\<not> item_key k"
    and s: "md_set_key M p k v d = (success, d')"
  shows "(\<exists>m. md_get M p d' = (success, m) \<and> map_of m k = Some v) \<and>
    (\<forall>q. q \<noteq> p \<longrightarrow> same_meta (\<lambda>q. md_get M q d) (\<lambda>q. md_get M q d') q)"
proof -
  let ?y = "(fst x, (snd x)(k \<mapsto> v))"
  have "good d' \<and> readable d' = readable d \<and> (calm d \<longrightarrow> calm d') \<and> placed (calm d) success (rows d) p (Some ?y) (rows d')"
    by (rule set_key_placed[OF g r x k s])
  then have d': "good d'" "readable d' = readable d" "rows d' = (rows d)(p \<mapsto> ?y)"
    unfolding placed_def wrote_def option.case by blast+
  have law: "case rows d0 q of None \<Rightarrow> md_get M q d0 = (item_not_found, [])
       | Some x \<Rightarrow> \<exists>m. md_get M q d0 = (success, m) \<and> map_of m = view x" if "d0 = d \<or> d0 = d'" for d0 q
    using that get_law[OF g r] get_law[OF d'(1), unfolded d'(2), OF r] by blast
  obtain m where m: "md_get M p d' = (success, m)" "map_of m = view ?y"
    using law[of d' p] unfolding d'(3) by auto
  have "view ?y k = Some v" using k by (simp add: view_def item_key_def)
  then have "\<exists>m. md_get M p d' = (success, m) \<and> map_of m k = Some v" using m by auto
  moreover have "same_meta (\<lambda>q. md_get M q d) (\<lambda>q. md_get M q d') q" if "q \<noteq> p" for q
  proof (cases "rows d q")
    case None
    then have "rows d' q = None" using that d'(3) by simp
    then have "md_get M q d = md_get M q d'" using None law[of d q] law[of d' q] by simp
    then show ?thesis by (simp add: same_meta_def)
  next
    case (Some z)
    then have "rows d' q = Some z" using that d'(3) by simp
    then show ?thesis using Some law[of d q] law[of d' q] by (auto simp: same_meta_def)
  qed
  ultimately show ?thesis by blast
qed

end

lemma xattr_name_no_item:
  assumes "xattr_name_check attr len = success"
  shows "\<not> item_key attr"
proof -
  have "str_contains attr ''.''"
    using assms by (auto simp: xattr_name_check_def attribute_namespaces_def Let_def split: if_splits)
  then obtain a b where "attr = a @ ''.'' @ b" by (auto simp: str_contains_iff)
  then have "CHR ''.'' \<in> set attr" by simp
  then show ?thesis by (auto simp: item_key_def)
qed

lemma setxattr_success:
  assumes "setxattr_impl D E p (Some attr) (Some v) (length v) flags d = (Returns success, d')"
  shows "p \<noteq> [] \<and> xattr_name_check attr (length v) = success \<and> fst (drive_meta D d p) = success \<and>
    parent_access D E p X_OK d = Returns success \<and>
    set_key D p attr (base64_encode False True v) d = (Returns success, d')"
  using assms
  by (auto simp: setxattr_impl_def parse_xattr_value_def parse_xattr_parameters_def after_check_success
      split: prod.splits if_splits)

lemma xattr_read_back:
  assumes M: "meta_store (metaops P) good rows readable calm"
    and D: "provops (mparts D) = provider_of P" "dprov D = drive_provider_of P n"
    and st: "good (pmeta (mprov (dmgr d)))" "\<And>q. readable (pmeta (mprov (dmgr d))) q"
    and p: "plain_path p" "p \<noteq> [slash]"
    and s: "setxattr_impl D E p (Some attr) (Some v) (length v) flags d = (Returns success, d')"
  shows "getxattr_common D E p (Some attr) False (length v) d' = Returns (success, length v, v)"
proof -
  let ?pr = "mprov (dmgr d)" and ?pr' = "mprov (dmgr d')" and ?text = "base64_encode False True v"
  note ok = setxattr_success[OF s]
  have k: "\<not> item_key attr" using xattr_name_no_item ok by blast
  then have np: "attr \<noteq> ''pinned''" by (auto simp: item_key_def)
  have meta: "drive_meta D d0 q = md_get (metaops P) q (pmeta (mprov (dmgr d0)))" for d0 q
    by (simp add: drive_meta_def D(1) provider_of_def get_item_meta_def)
  obtain r m where sk: "md_set_key (metaops P) p attr ?text (pmeta ?pr) = (r, m)" by force
  have sp: "set_item_meta_key P p attr ?text ?pr = (Inr r, ?pr\<lparr>pmeta := m\<rparr>)"
    using np by (simp add: set_item_meta_key_def sk Let_def)
  have "set_key D p attr ?text d = (Returns r, with_provider (?pr\<lparr>pmeta := m\<rparr>) d)"
    by (simp add: set_key_def D(2) drive_provider_of_def sp)
  then have set: "r = success" "?pr' = ?pr\<lparr>pmeta := m\<rparr>" using ok by (auto simp: with_provider_def)
  have "fst (md_get (metaops P) p (pmeta ?pr)) = success" using ok meta[of d p] by simp
  then obtain x where x: "rows (pmeta ?pr) p = Some x"
    using meta_store.get_law[OF M st, of p] by (cases "rows (pmeta ?pr) p") auto
  have sk': "md_set_key (metaops P) p attr ?text (pmeta ?pr) = (success, pmeta ?pr')" using sk set by simp
  note readback = meta_store.set_key_reads_back[OF M st x k sk']
  obtain m' where "md_get (metaops P) p (pmeta ?pr') = (success, m')" "map_of m' attr = Some ?text" using conjunct1[OF readback] by blast
  then have m': "drive_meta D d' p = (success, m')" "map_of m' attr = Some ?text" by (simp_all add: meta)
  have same: "same_meta (drive_meta D d) (drive_meta D d') q" if "q \<noteq> p" for q
    using conjunct2[OF readback, rule_format, OF that] by (simp add: same_meta_def meta)
  have "same_meta (drive_meta D d) (drive_meta D d') q" if "q \<in> set (parents p)" for q
    using parents_shorter[OF that] by (intro same) auto
  then have "check_parent_access E (drive_meta D d) p X_OK = check_parent_access E (drive_meta D d') p X_OK"
    by (rule check_parent_access_cong[OF p])
  then have a: "parent_access D E p X_OK d' = Returns success" using ok by (simp add: parent_access_def)
  show ?thesis using ok a m' decode_stored[of False True v]
    by (simp add: getxattr_common_def parse_xattr_value_def parse_xattr_parameters_def)
qed

section \<open>The buffer of listxattr\<close>

definition names_size :: "string list \<Rightarrow> nat" where
  "names_size names = (\<Sum>n \<leftarrow> names. Suc (length n))"

lemma names_size_simps [simp]: "names_size [] = 0" "names_size (n # ns) = Suc (length n) + names_size ns"
  "names_size (xs @ ys) = names_size xs + names_size ys"
  by (simp_all add: names_size_def)

definition within :: "nat \<Rightarrow> (nat \<times> string) list \<Rightarrow> bool" where
  "within len ws \<longleftrightarrow> (\<forall>(off, s) \<in> set ws. off + length s \<le> len)"

lemma within_append [simp]: "within len (ws @ vs) \<longleftrightarrow> within len ws \<and> within len vs"
  by (auto simp: within_def)

lemma list_name_needed: "ls_needed (foldl list_name s names) = ls_needed s + names_size names"
  by (induction names arbitrary: s) (auto simp: list_name_def Let_def)

lemma list_name_result:
  "ls_result (foldl list_name s names) = (if names_size names \<le> ls_room s then ls_result s else xattr_buffer_small)"
proof (induction names arbitrary: s)
  case (Cons n names)
  show ?case
  proof (cases "Suc (length n) \<le> ls_room s")
    case True
    then have "ls_room (list_name s n) = ls_room s - Suc (length n)" "ls_result (list_name s n) = ls_result s"
      by (simp_all add: list_name_def Let_def)
    then show ?thesis using Cons.IH[of "list_name s n"] True by auto
  next
    case False
    then have "ls_result (list_name s n) = xattr_buffer_small" by (simp add: list_name_def Let_def)
    then show ?thesis using Cons.IH[of "list_name s n"] False by simp
  qed
qed simp

text \<open>As long as the names fit, they are written one after the other.\<close>

lemma list_name_fits:
  "names_size names \<le> ls_room s \<Longrightarrow> ls_room (foldl list_name s names) = ls_room s - names_size names \<and>
   (\<exists>ws. ls_written (foldl list_name s names) = ls_written s @ ws \<and> within (ls_needed s + names_size names) ws)"
proof (induction names arbitrary: s)
  case (Cons n names)
  let ?t = "list_name s n"
  have t: "ls_room ?t = ls_room s - Suc (length n)" "ls_needed ?t = ls_needed s + Suc (length n)"
    "ls_written ?t = ls_written s @ [(ls_needed s, n @ [CHR 0x00])]"
    using Cons.prems by (simp_all add: list_name_def Let_def)
  have "names_size names \<le> ls_room ?t" using Cons.prems t by simp
  from Cons.IH[OF this] t show ?case by (fastforce simp: within_def add.assoc)
qed (simp add: within_def)

text \<open>Once more is needed than the buffer has, every further write is outside of it.\<close>

lemma list_name_beyond:
  "len < ls_needed s \<Longrightarrow> within len (ls_written (foldl list_name s names)) \<longleftrightarrow>
    within len (ls_written s) \<and> (\<forall>n \<in> set names. ls_room s < Suc (length n))"
proof (induction names arbitrary: s)
  case (Cons n names)
  let ?t = "list_name s n"
  have b: "len < ls_needed ?t" using Cons.prems by (simp add: list_name_def Let_def)
  show ?case
  proof (cases "Suc (length n) \<le> ls_room s")
    case True
    then have "\<not> within len (ls_written ?t)" using Cons.prems by (simp add: list_name_def Let_def within_def)
    then show ?thesis using Cons.IH[OF b] True by auto
  next
    case False
    then have "ls_room ?t = ls_room s" "ls_written ?t = ls_written s" by (simp_all add: list_name_def Let_def)
    then show ?thesis using Cons.IH[OF b] False by simp
  qed
qed simp

text \<open>
  C19. What \<open>listxattr\<close> writes to the buffer of the kernel.  The size it needs is that of all names, and it
  succeeds exactly when they fit.  If a name does not fit into the rest of the buffer, the loop goes on
  with the offset moved over it: it stays inside the buffer exactly when none of the later names would
  fit into that rest.  A long name in front of a short one makes it write beyond the end.
\<close>

theorem listxattr_bounds:
  "ls_needed (list_names len names) = names_size names \<and>
   (ls_result (list_names len names) = success \<longleftrightarrow> names_size names \<le> len) \<and>
   (names_size names \<le> len \<longrightarrow> within len (ls_written (list_names len names))) \<and>
   (\<forall>xs n ys. names = xs @ n # ys \<longrightarrow> names_size xs \<le> len \<longrightarrow> len < names_size (xs @ [n]) \<longrightarrow>
     (within len (ls_written (list_names len names)) \<longleftrightarrow> (\<forall>y \<in> set ys. len - names_size xs < Suc (length y))))"
proof -
  let ?s = "\<lparr>ls_room = len, ls_needed = 0, ls_written = [], ls_result = success\<rparr>"
  have fits: "within len (ls_written (foldl list_name ?s xs))" "ls_room (foldl list_name ?s xs) = len - names_size xs"
    if "names_size xs \<le> len" for xs
    using list_name_fits[of xs ?s] that by (auto simp: within_def)
  have "within len (ls_written (list_names len names)) \<longleftrightarrow> (\<forall>y \<in> set ys. len - names_size xs < Suc (length y))"
    if n: "names = xs @ n # ys" "names_size xs \<le> len" "len < names_size (xs @ [n])" for xs n ys
  proof -
    let ?t = "foldl list_name ?s xs"
    have t: "ls_room ?t = len - names_size xs" "ls_needed ?t = names_size xs" "within len (ls_written ?t)"
      using fits[OF n(2)] list_name_needed[of ?s xs] by simp_all
    have u: "ls_room (list_name ?t n) = len - names_size xs" "ls_written (list_name ?t n) = ls_written ?t"
      "ls_needed (list_name ?t n) = names_size (xs @ [n])"
      using t n(3) by (auto simp: list_name_def Let_def)
    have "list_names len names = foldl list_name (list_name ?t n) ys" by (simp add: list_names_def n(1))
    then show ?thesis using list_name_beyond[of len "list_name ?t n" ys] u t(3) n(3) by simp
  qed
  then show ?thesis
    using list_name_needed[of ?s names] list_name_result[of ?s names] fits(1)[of names] by (simp add: list_names_def)
qed

theorem listxattr_bounds_witness:
  "\<not> within 8 (ls_written (list_names 8 [''user.long'', ''user.k'']))"
proof -
  have "[''user.long'', ''user.k''] = [] @ ''user.long'' # [''user.k'']" "names_size [] \<le> 8"
    "8 < names_size ([] @ [''user.long''])" by simp_all
  then have "within 8 (ls_written (list_names 8 [''user.long'', ''user.k''])) \<longleftrightarrow>
      (\<forall>y \<in> set [''user.k'']. 8 - names_size [] < Suc (length y))"
    using listxattr_bounds[of 8 "[''user.long'', ''user.k'']"] by blast
  then show ?thesis by simp
qed

end
