(* ===== verification/Fuse_Files.thy ===== *)
theory Fuse_Files imports Fuse_Drive begin

text \<open>
  The open files as the drive uses them: reading, writing, resizing and the native operations of the
  three classes, as steps that leave the handles, the path and the link of the file alone.  What a read of
  a streamed file returns depends on its ring and the interleaving with the transfers (Ring_Buffer); here it
  is a parameter.
\<close>

section \<open>The operations of the three classes\<close>

record io_env =
  stream_read :: "nat \<Rightarrow> nat \<Rightarrow> file_object \<Rightarrow> (api_error \<times> bytes) option"
  native_sync :: "bool \<Rightarrow> local_file \<Rightarrow> api_error \<times> local_file"
  native_allocate :: "nat \<Rightarrow> nat \<Rightarrow> word32 \<Rightarrow> local_file \<Rightarrow> api_error \<times> local_file"
  buffer_sync :: "bool \<Rightarrow> file_object \<Rightarrow> api_error option"

text \<open>A step of a cached file hands out what it asks of its manager, like \<open>object_close\<close>.\<close>

definition cached_step :: "(open_file \<Rightarrow> ('r \<times> open_file) option) \<Rightarrow> cache_mgr \<Rightarrow> open_file \<Rightarrow> ('r \<times> effects \<times> cache_mgr \<times> file_object) option" where
  "cached_step op c s =
    map_option (\<lambda>(r, s). (r, \<lparr>to_manager = upload_calls s, to_provider = meta_calls s, removed_source = None\<rparr>, cache s, Cached s))
      (op (s\<lparr>upload_calls := [], meta_calls := [], cache := c\<rparr>))"

definition plain_step :: "'r \<Rightarrow> cache_mgr \<Rightarrow> file_object \<Rightarrow> ('r \<times> effects \<times> cache_mgr \<times> file_object) option" where
  "plain_step r c f = Some (r, no_effects, c, f)"

fun object_read :: "object_env \<Rightarrow> io_env \<Rightarrow> nat \<Rightarrow> nat \<Rightarrow> (api_error \<times> bytes, file_object) file_step" where
  "object_read env x n off c (Cached s) =
    cached_step (\<lambda>s. map_option (\<lambda>(e, bs, s). ((e, bs), s)) (f_read (fenv env) n off [] s)) c s"
| "object_read env x n off c f = (case stream_read x n off f of None \<Rightarrow> None | Some r \<Rightarrow> plain_step r c f)"

fun object_write :: "object_env \<Rightarrow> nat \<Rightarrow> bytes \<Rightarrow> (api_error \<times> nat, file_object) file_step" where
  "object_write env off bs c (Cached s) =
    cached_step (\<lambda>s. map_option (\<lambda>(e, n, s). ((e, n), s)) (f_write (fenv env) off bs s)) c s"
| "object_write env off bs c f = plain_step (not_supported, 0) c f"

fun object_resize :: "object_env \<Rightarrow> nat \<Rightarrow> (api_error, file_object) file_step" where
  "object_resize env n c (Cached s) = cached_step (resize (fenv env) n) c s"
| "object_resize env n c f = plain_step not_supported c f"

fun object_sync :: "object_env \<Rightarrow> io_env \<Rightarrow> bool \<Rightarrow> (api_error, file_object) file_step" where
  "object_sync env x b c (Cached s) = cached_step (native_operation (fenv env) (native_sync x b)) c s"
| "object_sync env x b c (Direct s r) = plain_step not_supported c (Direct s r)"
| "object_sync env x b c (Buffered s r) =
    (case buffer_sync x b (Buffered s r) of None \<Rightarrow> None | Some e \<Rightarrow> plain_step e c (Buffered s r))"

fun object_allocate :: "object_env \<Rightarrow> io_env \<Rightarrow> nat \<Rightarrow> nat \<Rightarrow> nat \<Rightarrow> word32 \<Rightarrow> (api_error, file_object) file_step" where
  "object_allocate env x new_size off len mode c (Cached s) =
    cached_step (native_operation_size (fenv env) new_size (native_allocate x off len mode)) c s"
| "object_allocate env x new_size off len mode c f = plain_step not_supported c f"

definition object_io :: "object_env \<Rightarrow> io_env \<Rightarrow> file_object file_io" where
  "object_io env x = \<lparr>io_read = object_read env x, io_write = object_write env, io_resize = object_resize env,
    io_sync = object_sync env x, io_allocate = object_allocate env x\<rparr>"

section \<open>What every step leaves alone\<close>

text \<open>The contract between the drive and the open files.\<close>

locale drive_files =
  fixes F :: "'f file_ops" and IO :: "'f file_io"
  assumes read_same: "io_read IO n off c f = Some (r, e, c', f') \<Longrightarrow> same_file F f' f"
    and write_same: "io_write IO off bs c f = Some (q, e, c', f') \<Longrightarrow> same_file F f' f"
    and resize_same: "io_resize IO n c f = Some (z, e, c', f') \<Longrightarrow> same_file F f' f"
    and sync_same: "io_sync IO b c f = Some (z, e, c', f') \<Longrightarrow> same_file F f' f"
    and allocate_same: "io_allocate IO k off n mode c f = Some (z, e, c', f') \<Longrightarrow> same_file F f' f"

lemma same_item_trans: "same_item s t \<Longrightarrow> same_item t u \<Longrightarrow> same_item s u"
  by (simp add: same_item_def)

lemma cached_step_same:
  assumes "cached_step op c s = Some (r, e, c', f')"
    and "\<And>s r s'. op s = Some (r, s') \<Longrightarrow> same_item s s'"
  shows "same_file (object_ops env) f' (Cached s)"
proof -
  let ?s = "s\<lparr>upload_calls := [], meta_calls := [], cache := c\<rparr>"
  obtain s' where o: "op ?s = Some (r, s')" and f: "f' = Cached s'" using assms(1) by (auto simp: cached_step_def)
  have "same_item ?s s'" using assms(2)[OF o] .
  then show ?thesis by (simp add: f same_file_def object_ops_def same_item_def)
qed

lemma plain_step_same: "plain_step r c f = Some (q, e, c', f') \<Longrightarrow> same_file F f' f"
  by (simp add: plain_step_def same_file_def)

section \<open>The steps of a cached file\<close>

definition quiet_env :: "file_env \<Rightarrow> bool" where
  "quiet_env env \<longleftrightarrow> (\<forall>c s. same_item s (others env c s))"

lemma same_item_touch: "same_item s (touch env b t) = same_item s t"
  by (simp add: touch_def reset_timeout_def same_item_def)

lemma same_item_raise: "same_item s (raise_item_event e t) = same_item s t"
  by (simp add: raise_item_event_def same_item_def)

lemma same_item_error: "same_item s (snd (set_api_error e t)) = same_item s t"
  by simp

lemma same_item_notify: "same_item s (notify_complete c t) = same_item s t"
  by (auto simp: notify_complete_def Let_def raise_item_event_def same_item_def)

lemma same_item_fields:
  "same_item s (t\<lparr>downloading := x\<rparr>) = same_item s t" "same_item s (t\<lparr>chunks_read := y\<rparr>) = same_item s t"
  "same_item s (t\<lparr>nf_file := f\<rparr>) = same_item s t" "same_item s (t\<lparr>cache := cc\<rparr>) = same_item s t"
  "same_item s (t\<lparr>allocated := b\<rparr>) = same_item s t" "same_item s (t\<lparr>f_last_chunk_size := n\<rparr>) = same_item s t"
  "same_item s (reset_timeout now t) = same_item s t" "same_item s (set_file_size n t) = same_item s t"
  "same_item s (update_unlinked_meta m t) = same_item s t" "same_item s (update_reader n t) = same_item s t"
  "same_item s (set_modified t) = same_item s t"
  by (simp_all add: same_item_def reset_timeout_def set_file_size_def update_unlinked_meta_def same_item_start)
    (simp_all add: update_reader_def set_modified_def call_mgr_def Let_def)

lemmas same_item_steps = same_item_touch same_item_raise same_item_error same_item_notify same_item_fields

lemma fetch_chunk_item: "same_item s (fetch_chunk env c n off b t) = same_item s t"
  by (simp add: fetch_chunk_def Let_def same_item_steps split: prod.split)

lemma item_let_value: "(\<And>x. same_item s (g x)) \<Longrightarrow> same_item s (let x = (v :: nat) in g x)"
  by simp

lemma download_chunk_item:
  assumes q: "quiet_env env" and s: "same_item s t"
  shows "same_item s (f_download_chunk env c skip b t)"
  unfolding f_download_chunk_def
proof (intro item_plain_let item_plain_if item_let_value)
  show "same_item s (touch env b t)" using s by (simp only: same_item_steps)
next
  fix t :: open_file assume "same_item s t"
  then show "same_item s (others env c t)" using q same_item_trans unfolding quiet_env_def by blast
qed (simp_all only: fetch_chunk_item same_item_steps)

lemma download_each_item: "quiet_env env \<Longrightarrow> same_item s t \<Longrightarrow> same_item s (download_each env cs b t)"
  by (induction cs arbitrary: t) (simp_all add: download_chunk_item)

lemma download_range_item: "quiet_env env \<Longrightarrow> same_item s t \<Longrightarrow> same_item s (download_range env m n b t)"
  by (simp add: download_range_def download_each_item)

text \<open>Steps with a result that may also wait for ever.\<close>

definition keeps_item :: "open_file \<Rightarrow> ('r \<times> open_file) option \<Rightarrow> bool" where
  "keeps_item s r \<longleftrightarrow> (\<forall>x t. r = Some (x, t) \<longrightarrow> same_item s t)"

lemma keeps_item_simps [simp]:
  "keeps_item s None" "keeps_item s (Some (x, t)) = same_item s t"
  "keeps_item s (Some (set_api_error e t)) = same_item s t"
  using same_item_error[of s e t] by (cases "set_api_error e t"; simp add: keeps_item_def)+

lemma keeps_item_if: "keeps_item s (if b then r else q) \<longleftrightarrow> (if b then keeps_item s r else keeps_item s q)"
  by simp

lemma keeps_item_SomeD: "keeps_item s r \<Longrightarrow> r = Some (x, t) \<Longrightarrow> same_item s t"
  by (simp add: keeps_item_def)

lemma keeps_item_plain:
  "(\<And>x c. keeps_item s (k x c)) \<Longrightarrow> keeps_item s (case q of None \<Rightarrow> None | Some (x, c) \<Rightarrow> k x c)"
  by (simp split: option.split)

lemma keeps_item_bind:
  "keeps_item s q \<Longrightarrow> (\<And>x t. same_item s t \<Longrightarrow> keeps_item s (k x t)) \<Longrightarrow>
   keeps_item s (case q of None \<Rightarrow> None | Some (x, t) \<Rightarrow> k x t)"
  by (auto simp: keeps_item_def split: option.splits)

lemma keeps_item_bool:
  "(b \<Longrightarrow> keeps_item s r) \<Longrightarrow> (\<not> b \<Longrightarrow> keeps_item s q) \<Longrightarrow> keeps_item s (if b then r else q)"
  by simp

lemma adjust_cache_item: "same_item s t \<Longrightarrow> keeps_item s (adjust_cache_size env n shrinking t)"
  unfolding adjust_cache_size_def Let_def
  by (intro keeps_item_bool keeps_item_plain) (simp_all add: same_item_steps)

lemma check_start_item: "same_item s t \<Longrightarrow> keeps_item s (f_check_start env t)"
  unfolding f_check_start_def
proof (intro keeps_item_bool)
  assume s: "same_item s t"
  show "keeps_item s (case file_size_of (nf_file t) of None \<Rightarrow> Some (set_api_error os_error t)
     | Some sz \<Rightarrow>
         if sz = f_size t then Some (success, t\<lparr>allocated := True\<rparr>)
         else case adjust_cache_size env sz True t of
           None \<Rightarrow> None
         | Some (res, s) \<Rightarrow>
             if res \<noteq> success then Some (res, s)
             else case file_truncate (f_size s) (nf_file s) of
               (False, f) \<Rightarrow> Some (set_api_error res (s\<lparr>nf_file := f\<rparr>))
             | (True, f) \<Rightarrow> Some (success, s\<lparr>nf_file := f, allocated := True\<rparr>))"
  proof (cases "file_size_of (nf_file t)")
    case (Some sz)
    have "keeps_item s (case file_truncate (f_size u) (nf_file u) of
               (False, f) \<Rightarrow> Some (set_api_error res (u\<lparr>nf_file := f\<rparr>))
             | (True, f) \<Rightarrow> Some (success, u\<lparr>nf_file := f, allocated := True\<rparr>))" if "same_item s u" for res u
      using that by (cases "file_truncate (f_size u) (nf_file u)"; cases "fst (file_truncate (f_size u) (nf_file u))")
        (simp_all add: same_item_steps)
    then show ?thesis unfolding Some option.case
      by (intro keeps_item_bool keeps_item_bind[OF adjust_cache_item[OF s]]) (simp_all add: s same_item_steps)
  qed (use s in simp)
qed simp_all

lemma keeps_item_pair: "(\<And>r f. keeps_item s (k r f)) \<Longrightarrow> keeps_item s (case x of (r, f) \<Rightarrow> k r f)"
  by (simp split: prod.split)

lemma native_item:
  assumes s: "same_item s t"
  shows "keeps_item s (native_operation env callback t)"
  unfolding native_operation_def
  by (intro keeps_item_bool keeps_item_bind[OF check_start_item] keeps_item_pair) (simp_all add: s same_item_steps)

lemma item_pair: "(\<And>r f. same_item s (snd (k r f))) \<Longrightarrow> same_item s (snd (case x of (r, f) \<Rightarrow> k r f))"
  by (simp split: prod.split)

lemma item_pair_state:
  "same_item s (snd q) \<Longrightarrow> (\<And>r t. same_item s t \<Longrightarrow> same_item s (snd (k r t))) \<Longrightarrow>
   same_item s (snd (case q of (r, t) \<Rightarrow> k r t))"
  by (cases q) simp

lemma item_option:
  "same_item s (snd n) \<Longrightarrow> (\<And>x. same_item s (snd (k x))) \<Longrightarrow> same_item s (snd (case q of None \<Rightarrow> n | Some x \<Rightarrow> k x))"
  by (simp split: option.split)

lemma item_let_other:
  "(\<And>x. same_item s (snd (g x))) \<Longrightarrow> same_item s (snd (let x = (v :: nat) in g x))"
  "(\<And>x. same_item s (snd (h x))) \<Longrightarrow> same_item s (snd (let x = (w :: bool) in h x))"
  "(\<And>x. same_item s (snd (i x))) \<Longrightarrow> same_item s (snd (let x = (u :: string) in i x))"
  "(\<And>x. same_item s (snd (j x))) \<Longrightarrow> same_item s (snd (let x = (y :: (string \<times> string) list) in j x))"
  by simp_all

lemma update_meta_item: "same_item s (snd (update_meta env m t)) = same_item s t"
  by simp

lemma apply_resize_item: "same_item s t \<Longrightarrow> same_item s (snd (apply_resize env n callback t))"
  unfolding apply_resize_def
  by (intro item_let_other item_pair[where x = "callback _"] item_let item_if item_option item_pair_state;
      (simp only: same_item_steps update_meta_item snd_conv if_split)?) simp_all

lemma keeps_item_of: "same_item s (snd r) \<Longrightarrow> keeps_item s (Some r)"
  by (cases r) simp

lemma keeps_let:
  "(\<And>x. keeps_item s (g x)) \<Longrightarrow> keeps_item s (let x = (v :: nat) in g x)"
  "(\<And>x. keeps_item s (h x)) \<Longrightarrow> keeps_item s (let x = (w :: bool) in h x)"
  by simp_all

lemma keeps_let_state: "same_item s t \<Longrightarrow> (\<And>u. same_item s u \<Longrightarrow> keeps_item s (g u)) \<Longrightarrow> keeps_item s (let t = t in g t)"
  by simp

lemma native_size_item:
  assumes q: "quiet_env env" and s: "same_item s t"
  shows "keeps_item s (native_operation_size env n callback t)"
  unfolding native_operation_size_def
  by (intro keeps_item_bool keeps_item_bind[OF check_start_item] keeps_item_bind[OF adjust_cache_item] keeps_let keeps_let_state
      keeps_item_of[OF apply_resize_item] download_chunk_item[OF q])
    (simp_all add: s same_item_steps)

lemma resize_item: "quiet_env env \<Longrightarrow> same_item s t \<Longrightarrow> keeps_item s (resize env n t)"
  unfolding resize_def by (intro keeps_item_bool native_size_item) simp_all

text \<open>A read or a write returns three values; they are regrouped for \<open>keeps_item\<close>.\<close>

definition keeps_item3 :: "open_file \<Rightarrow> ('a \<times> 'b \<times> open_file) option \<Rightarrow> bool" where
  "keeps_item3 s r \<longleftrightarrow> (\<forall>x y t. r = Some (x, y, t) \<longrightarrow> same_item s t)"

lemma keeps3_simps [simp]:
  "keeps_item3 s None" "keeps_item3 s (Some (x, y, t)) = same_item s t"
  by (simp_all add: keeps_item3_def)

lemma keeps3_bool: "(b \<Longrightarrow> keeps_item3 s r) \<Longrightarrow> (\<not> b \<Longrightarrow> keeps_item3 s q) \<Longrightarrow> keeps_item3 s (if b then r else q)"
  by simp

lemma keeps3_bind:
  "keeps_item s q \<Longrightarrow> (\<And>x t. same_item s t \<Longrightarrow> keeps_item3 s (k x t)) \<Longrightarrow>
   keeps_item3 s (case q of None \<Rightarrow> None | Some (x, t) \<Rightarrow> k x t)"
  by (auto simp: keeps_item_def keeps_item3_def split: option.splits)

lemma keeps3_let: "(\<And>x. keeps_item3 s (g x)) \<Longrightarrow> keeps_item3 s (let x = (v :: nat) in g x)"
  by simp

lemma keeps3_let_state: "same_item s t \<Longrightarrow> (\<And>u. same_item s u \<Longrightarrow> keeps_item3 s (g u)) \<Longrightarrow> keeps_item3 s (let t = t in g t)"
  by simp

lemma keeps3_error:
  "same_item s t \<Longrightarrow> (\<And>res u. same_item s u \<Longrightarrow> keeps_item3 s (k res u)) \<Longrightarrow> keeps_item3 s (case set_api_error e t of (res, u) \<Rightarrow> k res u)"
  using same_item_error[of s e t] by (cases "set_api_error e t") simp

lemma keeps3_read:
  "same_item s t \<Longrightarrow> keeps_item3 s (case read_from_source env n off data u of (res, bs) \<Rightarrow> Some (res, bs, t))"
  by (simp split: prod.split)

lemma f_read_item:
  assumes q: "quiet_env env" and s: "same_item s t"
  shows "keeps_item3 s (f_read env n off data t)"
  unfolding f_read_def
  by (intro keeps3_bool keeps3_error keeps3_bind[OF check_start_item] keeps3_let keeps3_let_state keeps3_read download_range_item[OF q])
    (simp_all add: s same_item_steps)

lemma store_data_item: "same_item s t \<Longrightarrow> same_item s (snd (snd (store_data env off bs t)))"
  by (auto simp: store_data_def Let_def same_item_steps update_meta_def set_api_error_def split: prod.split)
    (simp_all add: same_item_def reset_timeout_def)

lemma keeps3_of: "same_item s (snd (snd r)) \<Longrightarrow> keeps_item3 s (Some r)"
  by (cases r) simp

lemma f_write_item:
  assumes q: "quiet_env env" and s: "same_item s t"
  shows "keeps_item3 s (f_write env off bs t)"
  unfolding f_write_def
  by (intro keeps3_bool keeps3_error keeps3_bind[OF check_start_item] keeps3_bind[OF resize_item[OF q]] keeps3_let keeps3_let_state
      keeps3_of[OF store_data_item] download_range_item[OF q])
    (simp_all add: s same_item_steps)

section \<open>The classes keep the contract\<close>

locale quiet_files =
  fixes env :: object_env
  assumes quiet: "quiet_env (fenv env)"
begin

lemma cached_step3:
  assumes "cached_step (\<lambda>s. map_option (\<lambda>(e, y, s). ((e, y), s)) (op s)) c s = Some (r, e, c', f')"
    and "\<And>s. keeps_item3 s (op s)"
  shows "same_file (object_ops env) f' (Cached s)"
proof (rule cached_step_same[OF assms(1)])
  fix s r s' assume "map_option (\<lambda>(e, y, s). ((e, y), s)) (op s) = Some (r, s')"
  then show "same_item s s'" using assms(2)[of s] by (auto simp: keeps_item3_def)
qed

lemma cached_step2:
  assumes "cached_step op c s = Some (r, e, c', f')" and "\<And>s. keeps_item s (op s)"
  shows "same_file (object_ops env) f' (Cached s)"
  by (rule cached_step_same[OF assms(1)]) (rule keeps_item_SomeD[OF assms(2)])

end

sublocale quiet_files \<subseteq> drive_files "object_ops env" "object_io env x" for x
proof unfold_locales
  fix n off c f r e c' f' assume "io_read (object_io env x) n off c f = Some (r, e, c', f')"
  then show "same_file (object_ops env) f' f"
    using cached_step3[OF _ f_read_item[OF quiet]]
    by (cases f) (auto simp: object_io_def plain_step_same split: option.splits)
next
  fix off bs c f q e c' f' assume "io_write (object_io env x) off bs c f = Some (q, e, c', f')"
  then show "same_file (object_ops env) f' f"
    using cached_step3[OF _ f_write_item[OF quiet]] by (cases f) (auto simp: object_io_def plain_step_same)
next
  fix n c f z e c' f' assume "io_resize (object_io env x) n c f = Some (z, e, c', f')"
  then show "same_file (object_ops env) f' f"
    using cached_step2[OF _ resize_item[OF quiet]] by (cases f) (auto simp: object_io_def plain_step_same)
next
  fix b c f z e c' f' assume "io_sync (object_io env x) b c f = Some (z, e, c', f')"
  then show "same_file (object_ops env) f' f"
    using cached_step2[OF _ native_item] by (cases f) (auto simp: object_io_def plain_step_same split: option.splits)
next
  fix k off n mode c f z e c' f' assume "io_allocate (object_io env x) k off n mode c f = Some (z, e, c', f')"
  then show "same_file (object_ops env) f' f"
    using cached_step2[OF _ native_size_item[OF quiet]] by (cases f) (auto simp: object_io_def plain_step_same)
qed

lemma sample_quiet: "quiet_env (fenv sample_objects)"
  by (simp add: quiet_env_def sample_objects_def sample_env_def)

interpretation sample_files: quiet_files sample_objects
  by unfold_locales (rule sample_quiet)

end
