(* ===== verification/Fuse_Access.thy ===== *)
theory Fuse_Access imports Fuse_Files begin

text \<open>
  Who may do what on the drive: the walk over the parents of a path, the permission bits, and what opening
  a file for writing asks for.  The concrete inputs are a root directory, a directory \<open>/d\<close> that only root
  can enter and a file \<open>/a\<close> that everybody can read and only root can write; the caller is not root.
\<close>

section \<open>A caller and some files\<close>

definition sample_caller :: fuse_env where
  "sample_caller = \<lparr>forced_uid = None, forced_gid = None, forced_umask = None, atime_enabled = True, current_uid = 1000,
    current_gid = 1000, member_of = (\<lambda>u g. False), home_of = None\<rparr>"

definition owned :: "string \<Rightarrow> meta_map" where
  "owned mode = [(''uid'', ''0''), (''gid'', ''0''), (''mode'', mode)]"

definition owned_items :: "string \<Rightarrow> api_error \<times> meta_map" where
  "owned_items p =
    (case map_of [(''/'', owned ''493''), (''/d'', owned ''448''),
       (''/a'', owned ''420'' @ [(''size'', ''0''), (''source'', ''/c/a'')])] p of
       None \<Rightarrow> (item_not_found, []) | Some m \<Rightarrow> (success, m))"

lemma owned_numbers:
  "to_uint32 ''0'' = Inr 0" "to_uint32 ''493'' = Inr 493" "to_uint32 ''448'' = Inr 448" "to_uint32 ''420'' = Inr 420"
  by (simp_all add: parse_number)

lemmas owned_defs = owned_items_def owned_def sample_caller_def get_uid_from_meta_def get_gid_from_meta_def get_mode_from_meta_def
  meta_value_def owned_numbers

section \<open>The permissions\<close>

text \<open>
  C10. What the permission bits mean for a caller that is not root, on a drive without forced ids: the access
  is granted exactly when every permission that is asked for is granted to others, or to the group of the
  item if the caller is in it, or to the owner if the caller is the owner.  The classes add up: an owner
  also has what the group and the others have.
\<close>

theorem access_granted:
  assumes "forced_uid E = None" "forced_gid E = None" "forced_umask E = None" "current_uid E \<noteq> 0"
    and "get p = (success, m)"
    and "get_uid_from_meta m = Inr uid" "get_gid_from_meta m = Inr gid" "get_mode_from_meta m = Inr mode"
    and "want AND 7 = want" "want \<noteq> 0"
  shows "check_access E get p want =
    Inr (if \<forall>k < 3. bit want k \<longrightarrow> bit mode k \<or>
              (current_gid E = gid \<or> member_of E (current_uid E) gid) \<and> bit mode (k + 3) \<or>
              current_uid E = uid \<and> bit mode (k + 6)
         then success else access_denied)"
  using check_mode_grants[OF assms(1-3,6-10) refl refl] assms(1,4,5,10)
  by (simp add: check_access_def grants_def F_OK_def)

theorem access_granted_witness:
  "check_access sample_caller owned_items ''/a'' R_OK = Inr success \<and>
   check_access sample_caller owned_items ''/a'' W_OK = Inr access_denied \<and>
   check_access sample_caller owned_items ''/d'' X_OK = Inr access_denied"
proof -
  have k: "k < 3 \<longleftrightarrow> k = 0 \<or> k = 1 \<or> k = 2" for k :: nat by auto
  have a: "owned_items ''/a'' = (success, owned ''420'' @ [(''size'', ''0''), (''source'', ''/c/a'')])"
    and d: "owned_items ''/d'' = (success, owned ''448'')" by (simp_all add: owned_items_def)
  note at = access_granted[of sample_caller owned_items, where uid = 0 and gid = 0]
  have "check_access sample_caller owned_items ''/a'' R_OK = Inr success"
    using at[OF _ _ _ _ a, where want = R_OK and mode = 420] by (simp add: owned_defs mode_defs k bit_simps)
  moreover have "check_access sample_caller owned_items ''/a'' W_OK = Inr access_denied"
    using at[OF _ _ _ _ a, where want = W_OK and mode = 420] by (simp add: owned_defs mode_defs k bit_simps)
  moreover have "check_access sample_caller owned_items ''/d'' X_OK = Inr access_denied"
    using at[OF _ _ _ _ d, where want = X_OK and mode = 448] by (simp add: owned_defs mode_defs k bit_simps)
  ultimately show ?thesis by blast
qed

section \<open>The parents\<close>

text \<open>
  C9. The check of the parents returns for every path in canonical form (in which no name ends in a tilde
  before a slash), whatever the meta data: it succeeds exactly when every directory above the item can be
  searched, if the search permission is asked for, and its parent grants the other permissions that are
  asked for.
\<close>

theorem parents_checked:
  assumes "plain_path p" "p \<noteq> [slash]"
  shows "\<exists>r. check_parent_access E get p want = Some r \<and>
    (r = Inr success \<longleftrightarrow>
      (has_flag want X_OK \<longrightarrow> (\<forall>q \<in> set (parents p). check_access E get q X_OK = Inr success)) \<and>
      (want AND NOT X_OK \<noteq> 0 \<longrightarrow> check_access E get (fs_parent p) (want AND NOT X_OK) = Inr success))"
  using check_parent_access_plain[OF assms, of E get want] unfolding all_allow_def list_all_iff .

lemma plain_below: "plain_path ''/d/e/f''"
  by (simp add: plain_path_def canonical_def str_contains_def str_find_def)

lemma parents_below: "set (parents ''/d/e/f'') = {''/d/e'', ''/d'', ''/''}"
proof -
  have c: "canonical ''/d/e/f''" "canonical ''/d/e''" "canonical ''/d''"
    by (simp_all add: canonical_def str_contains_def str_find_def)
  have f: "fs_parent ''/d/e/f'' = ''/d/e''" "fs_parent ''/d/e'' = ''/d''" "fs_parent ''/d'' = ''/''"
    by (simp_all add: fs_parent_def Let_def right_trim_def)
  show ?thesis by (subst parents.simps, simp add: c f, subst parents.simps, simp add: c f, subst parents.simps, simp add: c f,
        subst parents.simps, simp)
qed

theorem parents_checked_witness:
  "\<exists>r. check_parent_access sample_caller owned_items ''/d/e/f'' X_OK = Some r \<and> r \<noteq> Inr success"
proof -
  have "check_access sample_caller owned_items ''/d/e'' X_OK = Inr item_not_found"
    by (simp add: check_access_def owned_items_def)
  then show ?thesis
    using parents_checked[OF plain_below, of sample_caller owned_items X_OK] parents_below by (auto simp: mode_defs has_flag_def)
qed

section \<open>Opening for writing\<close>

lemma opened_for_writing:
  assumes "\<not> is_read_only (mparts D)" "flags = O_WRONLY \<or> flags = O_RDWR"
    and "parent_access D E p X_OK d = Returns success" "item_or_parent_access D E p R_OK d = Returns success"
    and "p_is_file (provops (mparts D)) p (mprov (dmgr d)) = (success, True)"
    and "fm_open (mparts D) p False (sint flags) (dmgr d) = (Opened h i, m)"
  shows "open_impl D E now p flags d = (Returns success, h, d\<lparr>dmgr := m\<rparr>) \<and> check_writeable flags invalid_handle = success"
proof -
  have f: "flags AND NOT O_CREAT = flags" "\<not> has_flag flags O_CREAT" "\<not> has_flag flags O_DIRECTORY" "\<not> has_flag flags O_EXCL"
    "\<not> has_flag flags O_TRUNC" "flags AND O_ACCMODE \<noteq> 0"
    using assms(2) by (auto simp: flag_defs has_flag_def)
  then show ?thesis
    using assms(1,3-6)
    by (simp add: open_impl_def create_impl_def Let_def open_kind_def open_or_create_def
        create_opened_def check_writeable_def)
qed



text \<open>The provider, the manager and the drive with these items.\<close>

definition owned_files :: "(unit, unit) provider_parts" where
  "owned_files = one_file\<lparr>metaops := one_file_meta\<lparr>md_get := (\<lambda>p m. owned_items p)\<rparr>\<rparr>"

definition owned_drive ::
  "object_env \<Rightarrow> io_env \<Rightarrow> (file_object, (string, string) rbt rdb, (unit, unit) provider, string list) drive_parts" where
  "owned_drive env x = \<lparr>mparts = manager_parts env (rdb_ops rbt_kv text_codec) owned_files disk_ops sample_conf,
    dprov = drive_provider_of owned_files 100, dio = object_io env x\<rparr>"

definition sample_io :: io_env where
  "sample_io = \<lparr>stream_read = (\<lambda>n off f. Some (success, [])), native_sync = (\<lambda>b f. (success, f)),
    native_allocate = (\<lambda>off n mode f. (success, f)), buffer_sync = (\<lambda>b f. Some success)\<rparr>"

definition owned_start :: "(file_object, (string, string) rbt rdb, (unit, unit) provider, string list) drive" where
  "owned_start = \<lparr>dmgr = sample_init, ddirs = []\<rparr>"

lemma owned_meta: "drive_meta (owned_drive env x) owned_start = owned_items"
  by (simp add: fun_eq_iff drive_meta_def owned_drive_def owned_files_def provider_of_def get_item_meta_def one_file_def one_file_meta_def)

lemma owned_lookup: "\<exists>item. p_get_item (provider_of owned_files) ''/a'' False one_file_state = (success, item) \<and>
    source_path item = ''/c/a'' \<and> item_size item = 0 \<and> api_path item = ''/a''"
  by (simp add: sample_defs sample_size owned_files_def owned_items_def owned_def)

lemma owned_open: "\<exists>st. fm_open (mparts (owned_drive env x)) ''/a'' False ofd sample_init = (Opened 1 0, st) \<and> next_handle st = 1"
proof -
  obtain item where i: "p_get_item (provider_of owned_files) ''/a'' False one_file_state = (success, item)"
      "source_path item = ''/c/a''" "item_size item = 0" "api_path item = ''/a''"
    using owned_lookup by blast
  obtain e f where f: "new_cached (object_ops env) item [] None = (e, f)" by force
  show ?thesis
    by (simp add: owned_drive_def fm_open_def fm_init_def i ensure_source_def get_download_type_def make_file_def f
        create_and_add_handle_def get_next_handle_def add64_def new_object_def set_open_def say_def Let_def)
qed

lemma parents_of_file: "plain_path ''/a''" "parents ''/a'' = [''/'']"
proof -
  show "plain_path ''/a''" by (simp add: plain_path_def canonical_def str_contains_def str_find_def)
  have c: "canonical ''/a''" by (simp add: canonical_def str_contains_def str_find_def)
  have f: "fs_parent ''/a'' = ''/''" by (simp add: fs_parent_def Let_def right_trim_def)
  show "parents ''/a'' = [''/'']" by (subst parents.simps, simp add: c f, subst parents.simps, simp)
qed

lemma owned_access:
  "access_impl (owned_drive env x) sample_caller ''/a'' R_OK owned_start = Returns success"
  "access_impl (owned_drive env x) sample_caller ''/a'' W_OK owned_start = Returns access_denied"
  "parent_access (owned_drive env x) sample_caller ''/a'' X_OK owned_start = Returns success"
proof -
  have c: "check_access sample_caller owned_items ''/a'' R_OK = Inr success"
    "check_access sample_caller owned_items ''/a'' W_OK = Inr access_denied"
    "check_access sample_caller owned_items ''/'' X_OK = Inr success"
    by (simp_all add: check_access_def check_mode_def owned_defs mode_defs has_flag_def Let_def)
  then show "access_impl (owned_drive env x) sample_caller ''/a'' R_OK owned_start = Returns success"
    "access_impl (owned_drive env x) sample_caller ''/a'' W_OK owned_start = Returns access_denied"
    by (simp_all add: access_impl_def owned_meta)
  show "parent_access (owned_drive env x) sample_caller ''/a'' X_OK owned_start = Returns success"
    using check_parent_access_plain[OF parents_of_file(1), of sample_caller owned_items X_OK] c(3)
    by (auto simp: parent_access_def owned_meta parents_of_file(2) all_allow_def mode_defs has_flag_def)
qed

lemma owned_opened:
  obtains st where "fm_open (mparts (owned_drive sample_objects sample_io)) ''/a'' False (sint O_WRONLY) (dmgr owned_start) = (Opened 1 0, st)"
    "\<not> is_read_only (mparts (owned_drive sample_objects sample_io))"
    "p_is_file (provops (mparts (owned_drive sample_objects sample_io))) ''/a'' (mprov (dmgr owned_start)) = (success, True)"
proof -
  obtain st where o: "fm_open (mparts (owned_drive sample_objects sample_io)) ''/a'' False (sint O_WRONLY) (dmgr owned_start) = (Opened 1 0, st)"
    using owned_open[of sample_objects sample_io "sint O_WRONLY"] by (auto simp: owned_start_def)
  moreover have "p_is_file (provops (mparts (owned_drive sample_objects sample_io))) ''/a'' (mprov (dmgr owned_start)) = (success, True)"
    by (simp add: owned_drive_def owned_files_def provider_of_def is_file_def one_file_def one_file_hooks_def)
  moreover have "\<not> is_read_only (mparts (owned_drive sample_objects sample_io))" by (simp add: owned_drive_def)
  ultimately show ?thesis using that by blast
qed


lemma owned_open_impl: "\<exists>d. open_impl (owned_drive sample_objects sample_io) sample_caller 0 ''/a'' O_WRONLY owned_start = (Returns success, 1, d)"
proof -
  obtain st where o: "fm_open (mparts (owned_drive sample_objects sample_io)) ''/a'' False (sint O_WRONLY) (dmgr owned_start) = (Opened 1 0, st)"
    and w: "\<not> is_read_only (mparts (owned_drive sample_objects sample_io))"
      "p_is_file (provops (mparts (owned_drive sample_objects sample_io))) ''/a'' (mprov (dmgr owned_start)) = (success, True)"
    by (rule owned_opened)
  have "item_or_parent_access (owned_drive sample_objects sample_io) sample_caller ''/a'' R_OK owned_start = Returns success"
    using owned_access(1) by (simp add: item_or_parent_access_def)
  from opened_for_writing[OF w(1) _ owned_access(3) this w(2) o, of 0] show ?thesis by auto
qed

end
