(* ===== verification/Fuse_Runs.thy ===== *)
theory Fuse_Runs imports Fuse_Files Fuse_Xattr begin

text \<open>
  The drive over any sequence of requests.  Each request comes from a caller of its own (\<open>fuse_env\<close>); between
  them the threads of the file manager work on.  The handles of files and of directories come from one
  counter: the invariant is that they never get mixed up.
\<close>

declare decimal.simps [simp del]

section \<open>What a request does to the file manager\<close>

text \<open>At most \<open>n\<close> new handles, and none is lost but those of \<open>K\<close>.\<close>

definition moves :: "('f, 'd, 'p, 's) parts \<Rightarrow> nat \<Rightarrow> nat set \<Rightarrow> ('f, 'd, 'p, 's) fmgr \<Rightarrow> ('f, 'd, 'p, 's) fmgr \<Rightarrow> bool" where
  "moves S n K st st' \<longleftrightarrow> opens S n st st' \<and> (\<forall>g. g \<notin> K \<longrightarrow> handle_kept S g st st')"

lemma moves_ok: "moves S n K st st' \<Longrightarrow> tables_ok S st'"
  by (simp add: moves_def opens_def)

lemma moves_next: "moves S n K st st' \<Longrightarrow> next_handle st' \<le> next_handle st + n"
  by (simp add: moves_def opens_def)

lemma moves_trans: "moves S m K st st' \<Longrightarrow> moves S n L st' st'' \<Longrightarrow> moves S (m + n) (K \<union> L) st st''"
  unfolding moves_def using opens_trans handle_kept_trans by fastforce

lemma opens_mono: "opens S m st st' \<Longrightarrow> m \<le> n \<Longrightarrow> opens S n st st'"
  by (auto simp: opens_def)

lemma moves_mono: "moves S m K st st' \<Longrightarrow> m \<le> n \<Longrightarrow> K \<subseteq> L \<Longrightarrow> moves S n L st st'"
  unfolding moves_def using opens_mono by blast

lemma moves_shrinks: "shrinks S st st' \<Longrightarrow> moves S n UNIV st st'"
  by (simp add: moves_def shrinks_opens)

lemma moves_stays: "stays S st st' \<Longrightarrow> moves S n {} st st'"
  by (simp add: moves_def stays_def shrinks_opens)

lemma moves_same: "tables_ok S st \<Longrightarrow> same_handles S st st' \<Longrightarrow> moves S n {} st st'"
  using moves_stays stays_same by blast

lemma moves_tables: "tables_ok S st \<Longrightarrow> tables st' = tables st \<Longrightarrow> moves S n {} st st'"
  using moves_same same_handles_tables by blast

lemma moves_refl: "tables_ok S st \<Longrightarrow> moves S n {} st st"
  by (rule moves_tables) simp_all

text \<open>Losing a handle that is newer than the state loses nothing.\<close>

lemma moves_new_handle:
  assumes "tables_ok S st" "moves S n (insert h K) st st'" "next_handle st < h"
  shows "moves S n K st st'"
proof -
  have "\<not> live S st h k" for k using tables_okD(5)[OF assms(1), of h k] assms(3) by auto
  then have h: "handle_kept S h st st'" by (simp add: handle_kept_def)
  have "handle_kept S g st st'" if "g \<notin> K" for g
    using h assms(2) that by (cases "g = h") (simp_all add: moves_def)
  then show ?thesis using assms(2) by (simp add: moves_def)
qed

lemma next_handle_moves:
  assumes ok: "tables_ok S st" and n: "next_handle st + 1 < 2 ^ 64" and g: "get_next_handle st = (h, st')"
  shows "h = Suc (next_handle st) \<and> moves S 1 {} st st' \<and> next_handle st' = h \<and> (\<forall>g k. live S st' g k = live S st g k)"
proof -
  have st': "h = Suc (next_handle st)" "st' = st\<lparr>next_handle := Suc (next_handle st)\<rparr>"
    using g n by (auto simp: get_next_handle_def add64_def Let_def)
  have at: "handles_at S i st' = handles_at S i st" "path_at S i st' = path_at S i st" "unlinked_at S i st' = unlinked_at S i st" for i
    by (simp_all add: st'(2) handles_at_def path_at_def unlinked_at_def)
  have l: "live S st' g k = live S st g k" for g k by (simp add: live_def at) (simp add: st'(2))
  have "tables_ok S st'"
    unfolding tables_ok_def l at using ok unfolding tables_ok_def
    by (simp add: st'(2) le_Suc_eq)
  moreover have "handle_kept S g st st'" for g unfolding handle_kept_def l at by blast
  ultimately show ?thesis using st' l by (simp add: moves_def opens_def)
qed

context manager begin

lemma moves_open:
  assumes ok: "tables_ok S st" and n: "next_handle st + 1 < 2 ^ 64" and r: "fm_open S p dir ofd st = (r, st')"
  shows "moves S 1 {} st st' \<and> (\<forall>h i. r = Opened h i \<longrightarrow> h = Suc (next_handle st) \<and> live S st' h i \<and> path_at S i st' = p)"
  using fm_open_ok[OF ok n r] opened_opens[OF ok, of p r st' 0] opened_as_kept[OF ok, of p r st']
  by (auto simp: moves_def opened_as_def)

lemma moves_create:
  assumes ok: "tables_ok S st" and n: "next_handle st + 1 < 2 ^ 64" and r: "fm_create S p m ofd st = (r, st')"
  shows "moves S 1 {} st st' \<and> (\<forall>h i. r = Opened h i \<longrightarrow> h = Suc (next_handle st) \<and> live S st' h i \<and> path_at S i st' = p)"
  using fm_create_ok[OF ok n r] opened_opens[OF ok, of p r st' 0] opened_as_kept[OF ok, of p r st']
  by (auto simp: moves_def opened_as_def)

lemma moves_close: "tables_ok S st \<Longrightarrow> moves S n {h} st (fm_close S h st)"
  using fm_close_ok[of st h] by (auto simp: moves_def opens_def)

lemma moves_get:
  assumes "tables_ok S st" "get_open_file S h w st = (r, st')"
  shows "moves S n {} st st' \<and> (\<forall>j. r = Some j \<longrightarrow> live S st' h j)"
  using get_open_file_ok[OF assms] moves_stays by blast

end

section \<open>The drive on its files\<close>

locale drive_manager = manager "mparts D" + drive_files "fileops (mparts D)" "dio D"
  for D :: "('f, 'd, 'p, 's) drive_parts"
begin

abbreviation S :: "('f, 'd, 'p, 's) parts" where
  "S \<equiv> mparts D"

lemma run_file_moves:
  assumes ok: "tables_ok S st"
    and same: "\<And>r e c f. step (mcache st) (object_at i st) = Some (r, e, c, f) \<Longrightarrow> same_file (fileops S) f (object_at i st)"
    and r: "run_file S step i st = (x, st')"
  shows "moves S n {} st st'"
proof (cases "step (mcache st) (object_at i st)")
  case None
  then show ?thesis using r moves_refl[OF ok] by (simp add: run_file_def)
next
  case (Some a)
  obtain y e c f where a: "a = (y, e, c, f)" by (cases a)
  have "st' = fm_effects S f e ((put_object i f st)\<lparr>mcache := c\<rparr>)" using r Some by (simp add: run_file_def a)
  then have "tables st' = tables (put_object i f st)" by simp
  moreover have "same_handles S st (put_object i f st)" using file_changes_same same Some a by simp
  ultimately show ?thesis using moves_same[OF ok] same_handles_trans same_handles_tables by blast
qed

lemmas io_same = read_same write_same resize_same sync_same allocate_same

lemma close_moves: "tables_ok S (dmgr d) \<Longrightarrow> moves S n {h} (dmgr d) (dmgr (close_handle D h d))"
  using moves_close by (simp add: close_handle_def)

lemma truncate_open_moves:
  assumes ok: "tables_ok S (dmgr d)" and r: "truncate_open D len h d = (x, d')"
  shows "moves S n {h} (dmgr d) (dmgr d') \<and> ddirs d' = ddirs d"
proof -
  obtain o1 m where g: "get_open_file S h True (dmgr d) = (o1, m)" by force
  note mg = conjunct1[OF moves_get[OF ok g]]
  show ?thesis
  proof (cases o1)
    case None
    then show ?thesis using r g moves_mono[OF mg[of n], of n "{h}"] by (auto simp: truncate_open_def)
  next
    case (Some i)
    obtain y m' where y: "run_file S (io_resize (dio D) len) i m = (y, m')" by force
    have m': "moves S n {} (dmgr d) m'"
      using moves_trans[OF mg[of 0] run_file_moves[OF moves_ok[OF mg[of 0]] resize_same y, where n = n]] by simp
    show ?thesis
      using r g Some y moves_mono[OF m', of n "{h}"] moves_trans[OF m' moves_close[OF moves_ok[OF m'], of 0 h]]
      by (auto simp: truncate_open_def close_handle_def split: result.splits)
  qed
qed

end

section \<open>What a request does to the drive\<close>

text \<open>
  The open directories get handles of the same counter; a handle they hold is never a handle of a file.
\<close>

definition goes :: "('f, 'd, 'p, 's) drive_parts \<Rightarrow> nat \<Rightarrow> nat set \<Rightarrow> ('f, 'd, 'p, 's) drive \<Rightarrow> ('f, 'd, 'p, 's) drive \<Rightarrow> bool" where
  "goes D n K d d' \<longleftrightarrow> moves (mparts D) n K (dmgr d) (dmgr d') \<and> cache_ok (ddirs d') \<and>
    (\<forall>h. get_directory h (ddirs d') \<noteq> None \<longrightarrow> get_directory h (ddirs d) \<noteq> None \<or>
       next_handle (dmgr d) < h \<and> h \<le> next_handle (dmgr d') \<and> (\<forall>k. \<not> live (mparts D) (dmgr d') h k))"

definition drive_ok :: "('f, 'd, 'p, 's) drive_parts \<Rightarrow> ('f, 'd, 'p, 's) drive \<Rightarrow> bool" where
  "drive_ok D d \<longleftrightarrow> tables_ok (mparts D) (dmgr d) \<and> cache_ok (ddirs d) \<and>
    (\<forall>h. get_directory h (ddirs d) \<noteq> None \<longrightarrow>
       0 < h \<and> h \<le> next_handle (dmgr d) \<and> (\<forall>k. \<not> live (mparts D) (dmgr d) h k))"

lemma goes_ok:
  assumes ok: "drive_ok D d" and g: "goes D n K d d'"
  shows "drive_ok D d'"
proof -
  have o: "opens (mparts D) n (dmgr d) (dmgr d')" using g by (simp add: goes_def moves_def)
  have "0 < h \<and> h \<le> next_handle (dmgr d') \<and> (\<forall>k. \<not> live (mparts D) (dmgr d') h k)"
    if h: "get_directory h (ddirs d') \<noteq> None" for h
  proof (cases "get_directory h (ddirs d) = None")
    case True
    then have "next_handle (dmgr d) < h \<and> h \<le> next_handle (dmgr d') \<and> (\<forall>k. \<not> live (mparts D) (dmgr d') h k)"
      using h g unfolding goes_def by blast
    then show ?thesis using gr_implies_not_zero by blast
  next
    case False
    then have old: "0 < h" "h \<le> next_handle (dmgr d)" "\<not> live (mparts D) (dmgr d) h k" for k
      using ok unfolding drive_ok_def by blast+
    have "\<not> live (mparts D) (dmgr d') h k" for k using o old unfolding opens_def by (meson leD)
    moreover have "next_handle (dmgr d) \<le> next_handle (dmgr d')" using o by (simp add: opens_def)
    ultimately show ?thesis using old by (meson le_trans)
  qed
  then show ?thesis using g opens_ok[OF o] unfolding drive_ok_def goes_def by blast
qed

lemma goes_mgr: "drive_ok D d \<Longrightarrow> moves (mparts D) n K (dmgr d) m \<Longrightarrow> goes D n K d (d\<lparr>dmgr := m\<rparr>)"
  by (simp add: goes_def drive_ok_def)

lemma goes_moves: "drive_ok D d \<Longrightarrow> moves (mparts D) n K (dmgr d) (dmgr d') \<Longrightarrow> ddirs d' = ddirs d \<Longrightarrow> goes D n K d d'"
  by (simp add: goes_def drive_ok_def)

lemma goes_refl: "drive_ok D d \<Longrightarrow> goes D n K d d"
  by (rule goes_moves) (simp_all add: drive_ok_def moves_mono[OF moves_refl order.refl empty_subsetI])

lemma goes_provider: "drive_ok D d \<Longrightarrow> goes D n K d (with_provider pr d)"
  by (rule goes_moves) (simp_all add: drive_ok_def with_provider_def moves_mono[OF moves_tables order.refl empty_subsetI])

text \<open>A property of the state that a request returns, through its checks and branches.\<close>

lemma keeps_check: "P st \<Longrightarrow> P (snd (k ())) \<Longrightarrow> P (snd (after_check r st k))"
  by (simp add: after_check_def split: result.splits)

lemma keeps_if: "(c \<Longrightarrow> P (snd x)) \<Longrightarrow> (\<not> c \<Longrightarrow> P (snd y)) \<Longrightarrow> P (snd (if c then x else y))"
  by simp

lemma keeps_pair: "(\<And>a b. q = (a, b) \<Longrightarrow> P (snd (k a b))) \<Longrightarrow> P (snd (case q of (a, b) \<Rightarrow> k a b))"
  by (cases q) simp

lemma keeps_result:
  "(\<And>a. r = Returns a \<Longrightarrow> P (snd (f a))) \<Longrightarrow> (\<And>x. r = Throws x \<Longrightarrow> P (snd (g x))) \<Longrightarrow> (r = Diverges \<Longrightarrow> P (snd h)) \<Longrightarrow>
   P (snd (case r of Returns a \<Rightarrow> f a | Throws x \<Rightarrow> g x | Diverges \<Rightarrow> h))"
  by (cases r) simp_all

lemma keeps_sum:
  "(\<And>x. r = Inl x \<Longrightarrow> P (snd (f x))) \<Longrightarrow> (\<And>x. r = Inr x \<Longrightarrow> P (snd (g x))) \<Longrightarrow>
   P (snd (case r of Inl x \<Rightarrow> f x | Inr x \<Rightarrow> g x))"
  by (cases r) simp_all

lemma keeps_option:
  "(r = None \<Longrightarrow> P (snd f)) \<Longrightarrow> (\<And>x. r = Some x \<Longrightarrow> P (snd (g x))) \<Longrightarrow> P (snd (case r of None \<Rightarrow> f | Some x \<Rightarrow> g x))"
  by (cases r) simp_all

lemma keeps_bound: "P (snd (f x)) \<Longrightarrow> P (snd (let y = x in f y))"
  by simp

lemmas keeps = keeps_check keeps_if keeps_pair keeps_result keeps_sum keeps_option keeps_bound

lemma keeps_perform:
  assumes "P st" "\<And>m. P (snd (action m))"
  shows "P (snd (check_and_perform E get p want action st))"
  unfolding check_and_perform_def Let_def by (intro keeps[where P = P] assms)

lemma set_key_goes: "drive_ok D d \<Longrightarrow> set_key D p k v d = (r, d') \<Longrightarrow> goes D n K d d'"
  using goes_provider by (auto simp: set_key_def split: prod.splits)

lemma set_meta_goes: "drive_ok D d \<Longrightarrow> set_meta D p m d = (r, d') \<Longrightarrow> goes D n K d d'"
  using goes_provider by (auto simp: set_meta_def split: prod.splits)

text \<open>The requests that only change meta data.\<close>

lemma set_key_snd: "drive_ok D d \<Longrightarrow> goes D n K d (snd (set_key D p k v d))"
  using set_key_goes by (cases "set_key D p k v d") auto

lemma set_meta_snd: "drive_ok D d \<Longrightarrow> goes D n K d (snd (set_meta D p m d))"
  using set_meta_goes by (cases "set_meta D p m d") auto

lemma chmod_goes: "drive_ok D d \<Longrightarrow> goes D n K d (snd (chmod_impl D E p mode d))"
  unfolding chmod_impl_def by (intro keeps_perform[where P = "goes D n K d"] keeps[where P = "goes D n K d"]) (simp_all add: goes_refl set_key_snd)

lemma chown_goes: "drive_ok D d \<Longrightarrow> goes D n K d (snd (chown_impl D E p uid gid d))"
  unfolding chown_impl_def
  by (intro keeps_perform[where P = "goes D n K d"] keeps[where P = "goes D n K d"]) (simp_all add: goes_refl set_meta_snd)

lemma utimens_goes: "drive_ok D d \<Longrightarrow> goes D n K d (snd (utimens_impl D E now0 now1 p tv0 tv1 d))"
  unfolding utimens_impl_def by (intro keeps[where P = "goes D n K d"]) (simp_all add: goes_refl set_meta_snd)

lemma setxattr_goes: "drive_ok D d \<Longrightarrow> goes D n K d (snd (setxattr_impl D E p name value len flags d))"
  unfolding setxattr_impl_def by (intro keeps[where P = "goes D n K d"]) (simp_all add: goes_refl set_key_snd)

lemma removexattr_goes: "drive_ok D d \<Longrightarrow> goes D n K d (snd (removexattr_impl D E p name d))"
  unfolding removexattr_impl_def
  by (intro keeps_perform[where P = "goes D n K d"] keeps[where P = "goes D n K d"]) (simp_all add: goes_refl goes_provider)

lemma set_key_provider_goes: "drive_ok D d \<Longrightarrow> set_key D q k v (with_provider pr d) = (r, d') \<Longrightarrow> goes D n K d d'"
  using goes_provider[of D d n K] by (auto simp: set_key_def with_provider_def split: prod.splits)

lemma mkdir_goes: "drive_ok D d \<Longrightarrow> goes D n K d (snd (mkdir_impl D E now p mode d))"
  unfolding mkdir_impl_def
  by (intro keeps[where P = "goes D n K d"]) (simp_all add: goes_refl goes_provider set_key_provider_goes)

section \<open>Directories\<close>

lemma opendir_goes:
  assumes ok: "drive_ok D d" and n: "next_handle (dmgr d) + 1 < 2 ^ 64"
  shows "goes D 1 {} d (snd (snd (opendir_impl D E p flags d)))"
proof -
  have t: "tables_ok (mparts D) (dmgr d)" using ok by (simp add: drive_ok_def)
  have "goes D 1 {} d (d\<lparr>dmgr := m, ddirs := set_directory p h items (ddirs d)\<rparr>)"
    if g: "get_next_handle (dmgr d) = (h, m)" for h m items
  proof -
    note nh = next_handle_moves[OF t n g]
    have h: "get_directory h (ddirs d) = None" using ok nh unfolding drive_ok_def by (metis Suc_n_not_le_n)
    have c: "cache_ok (ddirs d)" using ok by (simp add: drive_ok_def)
    have "\<not> live (mparts D) m h k" for k using nh tables_okD(5)[OF t, of h k] by auto
    moreover have "get_directory g (ddirs d) \<noteq> None \<or> g = h" if "get_directory g (set_directory p h items (ddirs d)) \<noteq> None" for g
      using that get_after_set[OF c h, of g p items] handle_entry_None[OF c, of g]
      by (auto simp: handle_path_def get_directory_def split: if_splits option.splits)
    ultimately show ?thesis
      using nh set_directory_ok[OF c h, of p items] unfolding goes_def by auto
  qed
  then show ?thesis
    unfolding opendir_impl_def by (intro keeps[where P = "\<lambda>x. goes D 1 {} d (snd x)"]) (simp_all add: ok goes_refl)
qed

lemma goes_directories:
  assumes "drive_ok D d" "moves (mparts D) n K (dmgr d) m" "cache_ok c"
    and "\<And>h. get_directory h c \<noteq> None \<Longrightarrow> get_directory h (ddirs d) \<noteq> None"
  shows "goes D n K d (d\<lparr>dmgr := m, ddirs := c\<rparr>)"
  using assms by (simp add: goes_def)

lemma releasedir_goes:
  assumes ok: "drive_ok D d"
  shows "goes D n K d (snd (releasedir_impl D h d))"
proof -
  have c: "cache_ok (ddirs d)" and t: "tables_ok (mparts D) (dmgr d)" using ok by (simp_all add: drive_ok_def)
  have sub: "get_directory g (remove_directory_handle h (ddirs d)) \<noteq> None \<Longrightarrow> get_directory g (ddirs d) \<noteq> None" for g
    by (simp add: get_after_remove_handle[OF c] split: if_splits)
  have "goes D n K d (d\<lparr>ddirs := remove_directory_handle h (ddirs d)\<rparr>)"
    using goes_directories[OF ok moves_mono[OF moves_refl[OF t] order.refl empty_subsetI] remove_handle_ok[OF c] sub] by simp
  then show ?thesis by (simp add: releasedir_impl_def goes_refl ok split: option.split)
qed

context manager begin

lemma rmdir_goes:
  assumes D: "mparts D = S" and ok: "drive_ok D d"
  shows "goes D n K d (snd (rmdir_impl D E p d))"
proof -
  have c: "cache_ok (ddirs d)" and t: "tables_ok S (dmgr d)" using ok D by (simp_all add: drive_ok_def)
  have sub: "get_directory g (snd (remove_directory_path p (ddirs d))) \<noteq> None \<Longrightarrow> get_directory g (ddirs d) \<noteq> None" for g
    by (simp add: get_after_remove_path[OF c] split: if_splits)
  have m: "moves S n K (dmgr d) m" if "fm_remove_directory S p (dmgr d) = (r, m)" for r m
    using moves_mono[OF moves_stays[OF remove_directory_ok[OF t, of p]], of n n K] that by simp
  have "goes D n K d (d\<lparr>dmgr := m\<rparr>)" if "fm_remove_directory S p (dmgr d) = (r, m)" for r m
    using goes_mgr[OF ok] m[OF that] D by simp
  moreover have "goes D n K d (d\<lparr>dmgr := m, ddirs := snd (remove_directory_path p (ddirs d))\<rparr>)"
    if "fm_remove_directory S p (dmgr d) = (r, m)" for r m
    using goes_directories[OF ok _ remove_path_ok[OF c] sub, of n K m] m[OF that] D by simp
  ultimately show ?thesis
    unfolding rmdir_impl_def D by (intro keeps[where P = "goes D n K d"]) (simp_all add: goes_refl ok)
qed

end

text \<open>A handle that create or open hands out is a new one, and stands for the path.\<close>

definition handle_for ::
  "('f, 'd, 'p, 's) drive_parts \<Rightarrow> ('f, 'd, 'p, 's) drive \<Rightarrow> string \<Rightarrow> api_error result \<times> nat \<times> ('f, 'd, 'p, 's) drive \<Rightarrow> bool" where
  "handle_for D d p r \<longleftrightarrow> goes D 2 {} d (snd (snd r)) \<and> (fst r = Returns success \<longrightarrow> next_handle (dmgr d) < fst (snd r) \<and>
    (\<exists>i. live (mparts D) (dmgr (snd (snd r))) (fst (snd r)) i \<and> path_at (mparts D) i (dmgr (snd (snd r))) = p))"

section \<open>Files\<close>

context drive_manager begin

lemma run_file_goes:
  assumes "drive_ok D d" "run_file S step i (dmgr d) = (x, m)"
    and "\<And>r e c f. step (mcache (dmgr d)) (object_at i (dmgr d)) = Some (r, e, c, f) \<Longrightarrow> same_file (fileops S) f (object_at i (dmgr d))"
  shows "goes D n K d (d\<lparr>dmgr := m\<rparr>)"
  using goes_mgr[OF assms(1) moves_mono[OF run_file_moves[OF _ assms(3,2)] order.refl empty_subsetI]] assms(1)
  by (simp add: drive_ok_def)

lemma get_goes:
  assumes ok: "drive_ok D d" and g: "get_open_file S h w (dmgr d) = (r, m)"
  shows "goes D n K d (d\<lparr>dmgr := m\<rparr>)"
  using goes_mgr[OF ok moves_mono[OF conjunct1[OF moves_get[OF _ g]] order.refl empty_subsetI]] ok by (simp add: drive_ok_def)

lemma goes_then:
  assumes "goes D n K d e" "drive_ok D d" "moves S 0 {} (dmgr e) (dmgr f)" "ddirs f = ddirs e"
  shows "goes D n K d f"
proof -
  note t = moves_trans[OF _ assms(3), of n K "dmgr d"]
  have "opens S 0 (dmgr e) (dmgr f)" using assms(3) by (simp add: moves_def)
  then have l: "live S (dmgr f) h k \<Longrightarrow> next_handle (dmgr e) < h \<or> (\<exists>k. live S (dmgr e) h k)" for h k
    unfolding opens_def by blast
  have s: "next_handle (dmgr f) = next_handle (dmgr e)" using \<open>opens S 0 (dmgr e) (dmgr f)\<close> by (simp add: opens_def)
  show ?thesis using assms(1,4) t l unfolding goes_def s by fastforce
qed

lemma truncate_goes:
  assumes ok: "drive_ok D d" and n: "next_handle (dmgr d) + 1 < 2 ^ 64" and r: "truncate_impl D E p len d = (x, d')"
  shows "moves S 1 {} (dmgr d) (dmgr d') \<and> ddirs d' = ddirs d"
proof -
  have t: "tables_ok S (dmgr d)" using ok by (simp add: drive_ok_def)
  have "moves S 1 {} (dmgr d) (dmgr (snd (truncate_open D len h (d\<lparr>dmgr := m\<rparr>)))) \<and> ddirs (snd (truncate_open D len h (d\<lparr>dmgr := m\<rparr>))) = ddirs d"
    if o: "fm_open S p False (uint O_RDWR) (dmgr d) = (Opened h i, m)" for h i m
  proof -
    have m: "moves S 1 {} (dmgr d) m" "h = Suc (next_handle (dmgr d))" using moves_open[OF t n o] by auto
    obtain y e where y: "truncate_open D len h (d\<lparr>dmgr := m\<rparr>) = (y, e)" by force
    have "moves S 0 {h} m (dmgr e)" "ddirs e = ddirs d"
      using truncate_open_moves[of "d\<lparr>dmgr := m\<rparr>" len h y e 0] moves_ok[OF m(1)] y by simp_all
    then show ?thesis using moves_new_handle[OF t, of 1 h "{}"] moves_trans[OF m(1), of 0 "{h}"] m(2) y by simp
  qed
  moreover have "moves S 1 {} (dmgr d) m" if "fm_open S p False (uint O_RDWR) (dmgr d) = (r, m)" for r m
    using moves_open[OF t n that] by simp
  moreover have "moves S 1 {} (dmgr d) (dmgr d)" by (rule moves_refl[OF t])
  ultimately have "(\<lambda>e. moves S 1 {} (dmgr d) (dmgr e) \<and> ddirs e = ddirs d) (snd (truncate_impl D E p len d))"
    unfolding truncate_impl_def
    by (intro keeps[where P = "\<lambda>e. moves S 1 {} (dmgr d) (dmgr e) \<and> ddirs e = ddirs d"])
      (auto split: open_result.split)
  then show ?thesis using r by simp
qed

lemma get_run_goes:
  assumes ok: "drive_ok D d" and g: "get_open_file S h w (dmgr d) = (r, m)" and x: "run_file S step i m = (x, m')"
    and same: "\<And>r e c f. step (mcache m) (object_at i m) = Some (r, e, c, f) \<Longrightarrow> same_file (fileops S) f (object_at i m)"
  shows "goes D n K d (d\<lparr>dmgr := m'\<rparr>)"
proof -
  have a: "moves S 0 {} (dmgr d) m" using ok moves_get[OF _ g] by (simp add: drive_ok_def)
  have "moves S 0 {} m m'" by (rule run_file_moves[OF moves_ok[OF a] same x])
  then have "moves S n {} (dmgr d) m'" using moves_mono[OF moves_trans[OF a], of 0 "{}" m' n "{}"] by simp
  then show ?thesis using goes_mgr[OF ok moves_mono[OF _ order.refl empty_subsetI]] by blast
qed

lemma key_after_run_goes:
  assumes ok: "drive_ok D d" and e: "goes D n K d e" and k: "update_accessed_time D E now p e = (y, d')"
  shows "goes D n K d d'"
proof -
  obtain r f where f: "set_key D p ''accessed'' (decimal now) e = (r, f)" by (rule prod.exhaust)
  have f': "f = with_provider (snd (dp_set_key (dprov D) p ''accessed'' (decimal now) (mprov (dmgr e)))) e"
    using f by (simp add: set_key_def case_prod_unfold del: decimal.simps)
  have d': "d' = e \<or> d' = f" using k by (auto simp: update_accessed_time_def f split: if_splits result.splits)
  have "tables_ok S (dmgr e)" using goes_ok[OF ok e] by (simp add: drive_ok_def)
  then have "moves S 0 {} (dmgr e) (dmgr d')" using d' f' by (auto simp: with_provider_def intro: moves_tables)
  moreover have "ddirs d' = ddirs e" using d' f' by (auto simp: with_provider_def)
  ultimately show ?thesis using goes_then[OF e ok] by blast
qed

text \<open>The operations of an open file, whichever way it was looked up.\<close>

lemma io_goes:
  assumes ok: "drive_ok D d" and g: "get_open_file S h w (dmgr d) = (r, m)"
  shows "run_file S (io_write (dio D) off bs) i m = (x, m') \<Longrightarrow> goes D n K d (d\<lparr>dmgr := m'\<rparr>)"
    and "run_file S (io_allocate (dio D) len off k mode) i m = (y, m') \<Longrightarrow> goes D n K d (d\<lparr>dmgr := m'\<rparr>)"
  by (erule get_run_goes[OF ok g], erule write_same) (erule get_run_goes[OF ok g], erule allocate_same)

lemma io_goes_direct:
  assumes ok: "drive_ok D d"
  shows "run_file S (io_read (dio D) len off) i (dmgr d) = (x, m') \<Longrightarrow> goes D n K d (d\<lparr>dmgr := m'\<rparr>)"
    and "run_file S (io_sync (dio D) b) i (dmgr d) = (y, m') \<Longrightarrow> goes D n K d (d\<lparr>dmgr := m'\<rparr>)"
  by (erule run_file_goes[OF ok], erule read_same) (erule run_file_goes[OF ok], erule sync_same)

lemma write_goes:
  assumes ok: "drive_ok D d"
  shows "goes D n K d (snd (snd (write_impl D buffer off h d)))"
  unfolding write_impl_def
  by (intro keeps[where P = "\<lambda>x. goes D n K d (snd x)"]; simp)
    (blast intro: get_goes[OF ok] io_goes[OF ok])+

lemma read_goes:
  assumes ok: "drive_ok D d"
  shows "goes D n K d (snd (snd (read_impl D E now p len off h d)))"
  unfolding read_impl_def
  by (intro keeps[where P = "\<lambda>x. goes D n K d (snd x)"]; simp)
    (blast intro: goes_refl[OF ok] io_goes_direct[OF ok] key_after_run_goes[OF ok io_goes_direct(1)[OF ok]])+

lemma fallocate_goes:
  assumes ok: "drive_ok D d"
  shows "goes D n K d (snd (fallocate_impl D mode off len h d))"
  unfolding fallocate_impl_def on_mgr_def
  by (intro keeps[where P = "goes D n K d"]; simp)
    (blast intro: get_goes[OF ok] io_goes(2)[OF ok _ prod.collapse[symmetric]])+

lemma fsync_goes:
  assumes ok: "drive_ok D d"
  shows "goes D n K d (snd (fsync_impl D datasync h d))"
  unfolding fsync_impl_def on_mgr_def
  by (intro keeps[where P = "goes D n K d"]; simp)
    (blast intro: goes_refl[OF ok] io_goes_direct(2)[OF ok prod.collapse[symmetric]])+

lemma release_goes: "drive_ok D d \<Longrightarrow> goes D n {h} d (snd (release_impl D h d))"
  using goes_moves close_moves by (simp add: release_impl_def close_handle_def drive_ok_def goes_mgr moves_close)

lemma unlink_goes:
  assumes ok: "drive_ok D d"
  shows "goes D n K d (snd (unlink_impl D E p d))"
proof -
  have "moves S n K (dmgr d) m" if "remove_file S p (dmgr d) = (r, m)" for r m
    using moves_mono[OF moves_stays[OF remove_file_ok[of "dmgr d" p]] order.refl empty_subsetI] ok that by (simp add: drive_ok_def)
  then show ?thesis
    unfolding unlink_impl_def by (intro keeps[where P = "goes D n K d"]) (simp_all add: goes_refl[OF ok] goes_mgr[OF ok])
qed

lemma rename_goes:
  assumes ok: "drive_ok D d"
  shows "goes D n UNIV d (snd (rename_impl D E depth p q d))"
proof -
  have t: "tables_ok S (dmgr d)" using ok by (simp add: drive_ok_def)
  show ?thesis
    unfolding rename_impl_def on_mgr_def
    by (intro keeps[where P = "goes D n UNIV d"])
      (simp_all add: goes_refl[OF ok] goes_mgr[OF ok] moves_shrinks rename_file_ok[OF t] rename_directory_ok[OF t])
qed

lemma open_or_create_moves:
  assumes ok: "drive_ok D d" and n: "next_handle (dmgr d) + 1 < 2 ^ 64"
    and r: "open_or_create D E now p mode flags (dmgr d) = (res, m)"
  shows "moves S 1 {} (dmgr d) m \<and>
    (\<forall>h i. res = Opened h i \<longrightarrow> h = Suc (next_handle (dmgr d)) \<and> live S m h i \<and> path_at S i m = p)"
proof (cases "has_flag flags O_CREAT")
  case True
  obtain src l where l: "l_fresh (localops S) (mlocal (dmgr d)) = (src, l)" by (rule prod.exhaust)
  let ?st = "(dmgr d)\<lparr>mlocal := l\<rparr>"
  have t: "moves S 0 {} (dmgr d) ?st" using ok by (intro moves_tables) (simp_all add: drive_ok_def)
  obtain meta where "fm_create S p meta (sint flags) ?st = (res, m)" using r True l by (auto simp: open_or_create_def Let_def)
  note c = moves_create[OF moves_ok[OF t] _ this]
  show ?thesis using c n moves_trans[OF t, of 1 "{}" m] by simp
next
  case False
  then have "fm_open S p (has_flag flags O_DIRECTORY) (sint flags) (dmgr d) = (res, m)" using r by (simp add: open_or_create_def Let_def)
  then show ?thesis using moves_open[OF _ n] ok by (simp add: drive_ok_def)
qed

lemma create_opened_handle:
  assumes ok: "drive_ok D d" and n: "next_handle (dmgr d) + 2 < 2 ^ 64"
    and r: "open_or_create D E now p mode flags (dmgr d) = (Opened h i, m)"
  shows "handle_for D d p (create_opened D E p flags h (d\<lparr>dmgr := m\<rparr>))"
proof -
  have o: "moves S 1 {} (dmgr d) m" "h = Suc (next_handle (dmgr d))" "live S m h i" "path_at S i m = p"
    using open_or_create_moves[OF ok _ r] n by auto
  have g: "goes D 1 {} d (d\<lparr>dmgr := m\<rparr>)" by (rule goes_mgr[OF ok o(1)])
  then have ok': "drive_ok D (d\<lparr>dmgr := m\<rparr>)" by (rule goes_ok[OF ok])
  have n': "next_handle (dmgr (d\<lparr>dmgr := m\<rparr>)) + 1 < 2 ^ 64" using moves_next[OF o(1)] n by simp
  obtain x e where x: "truncate_impl D E p 0 (d\<lparr>dmgr := m\<rparr>) = (x, e)" by (rule prod.exhaust)
  have e: "moves S 1 {} m (dmgr e)" "ddirs e = ddirs d" using truncate_goes[OF ok' n' x] by simp_all
  have e2: "moves S 2 {} (dmgr d) (dmgr e)" using moves_trans[OF o(1) e(1)] by (simp add: numeral_2_eq_2)
  then have ge: "goes D 2 {} d e" using goes_moves[OF ok] e(2) by blast
  have kept: "\<exists>j. live S (dmgr e) h j \<and> path_at S j (dmgr e) = p"
    using e(1) o(3,4) unfolding moves_def handle_kept_def by blast
  have "moves S 2 {h} (dmgr d) (dmgr (close_handle D h e))"
    using moves_trans[OF e2 close_moves[of e 0 h]] moves_ok[OF e2] by simp
  then have "moves S 2 {} (dmgr d) (dmgr (close_handle D h e))"
    using moves_new_handle[of S "dmgr d" 2 h "{}"] ok o(2) by (simp add: drive_ok_def)
  then have gc: "goes D 2 {} d (close_handle D h e)" using goes_moves[OF ok] e(2) by (simp add: close_handle_def)
  have "goes D 2 {} d (d\<lparr>dmgr := m\<rparr>)" using goes_mgr[OF ok moves_mono[OF o(1), of 2 "{}"]] by simp
  then show ?thesis
    using ge gc kept o by (auto simp: handle_for_def create_opened_def x split: result.split)
qed

lemma after_check_cases:
  "(\<And>e. e \<noteq> success \<Longrightarrow> R (Returns e, st)) \<Longrightarrow> (\<And>x. R (Throws x, st)) \<Longrightarrow> R (Diverges, st) \<Longrightarrow> R (k ()) \<Longrightarrow> R (after_check r st k)"
  by (simp add: after_check_def split: result.split)

lemma not_opened: "fm_open S' p dir ofd st = (Not_opened r, st') \<Longrightarrow> r \<noteq> success"
  by (auto simp: fm_open_def create_and_add_handle_def Let_def split: option.splits prod.splits if_splits sum.splits)

lemma open_or_create_failed: "open_or_create D E now p mode flags st = (Not_opened r, m) \<Longrightarrow> r \<noteq> success"
  by (auto simp: open_or_create_def fm_create_def Let_def not_opened split: if_splits prod.splits)

lemma opened_handle:
  assumes ok: "drive_ok D d" and n: "next_handle (dmgr d) + 2 < 2 ^ 64"
  shows "handle_for D d p (case open_or_create D E now p mode flags (dmgr d) of
      (Not_opened res, m) \<Rightarrow> (Returns res, invalid_fh, d\<lparr>dmgr := m\<rparr>)
    | (Open_throws x, m) \<Rightarrow> (Throws x, invalid_fh, d\<lparr>dmgr := m\<rparr>)
    | (Opened h i, m) \<Rightarrow> create_opened D E p flags h (d\<lparr>dmgr := m\<rparr>))"
proof -
  obtain r m where r: "open_or_create D E now p mode flags (dmgr d) = (r, m)" by (rule prod.exhaust)
  have "moves S 1 {} (dmgr d) m" using open_or_create_moves[OF ok _ r] n by simp
  then have "moves S 2 {} (dmgr d) m" by (rule moves_mono) simp_all
  then have g: "goes D 2 {} d (d\<lparr>dmgr := m\<rparr>)" by (rule goes_mgr[OF ok])
  show ?thesis
  proof (cases r)
    case (Opened h i)
    then show ?thesis using create_opened_handle[OF ok n] r by simp
  next
    case (Not_opened e)
    then show ?thesis using g r open_or_create_failed by (simp add: handle_for_def)
  qed (use g r in \<open>simp add: handle_for_def\<close>)
qed

lemma create_handle:
  assumes ok: "drive_ok D d" and n: "next_handle (dmgr d) + 2 < 2 ^ 64"
  shows "handle_for D d p (create_impl D E now p mode flags d)"
proof -
  have f: "x \<noteq> Returns success \<Longrightarrow> handle_for D d p (x, invalid_fh, d)" for x using goes_refl[OF ok] by (simp add: handle_for_def)
  have fails: "e \<noteq> success \<Longrightarrow> handle_for D d p (Returns e, invalid_fh, d)" "handle_for D d p (Throws x, invalid_fh, d)"
    "handle_for D d p (Diverges, invalid_fh, d)" for e x using f by simp_all
  note checked = after_check_cases[where R = "handle_for D d p" and st = "(invalid_fh, d)", OF fails]
  have branch: "(\<And>a b. q = (a, b) \<Longrightarrow> handle_for D d p (k a b)) \<Longrightarrow> handle_for D d p (case q of (a, b) \<Rightarrow> k a b)"
    "(c \<Longrightarrow> handle_for D d p x) \<Longrightarrow> (\<not> c \<Longrightarrow> handle_for D d p y) \<Longrightarrow> handle_for D d p (if c then x else y)"
    for q :: "api_error \<times> bool" and k c x y by (cases q) simp_all
  show ?thesis
    unfolding create_impl_def Let_def by (intro checked branch opened_handle[OF ok n]) (simp_all add: fails)
qed

lemma open_handle: "drive_ok D d \<Longrightarrow> next_handle (dmgr d) + 2 < 2 ^ 64 \<Longrightarrow> handle_for D d p (open_impl D E now p flags d)"
  unfolding open_impl_def by (rule create_handle)

end

section \<open>Any sequence of requests\<close>

datatype ('f, 'p, 's) drive_op =
    Chmod fuse_env string word32
  | Chown fuse_env string word32 word32
  | Utimens fuse_env nat nat string timespec timespec
  | Truncate fuse_env string nat
  | Create_request fuse_env nat string word32 word32
  | Open_request fuse_env nat string word32
  | Release nat
  | Read_request fuse_env nat string nat nat nat
  | Write_request bytes nat nat
  | Fallocate word32 nat nat nat
  | Fsync bool nat
  | Mkdir fuse_env nat string word32
  | Opendir fuse_env string word32
  | Releasedir nat
  | Rmdir fuse_env string
  | Rename fuse_env nat string string
  | Unlink fuse_env string
  | Setxattr fuse_env string "string option" "bytes option" nat int
  | Removexattr fuse_env string "string option"
  | Background "('f, 'p, 's) fm_op"

fun drive_exec :: "('f, 'd, 'p, 's) drive_parts \<Rightarrow> ('f, 'p, 's) drive_op \<Rightarrow> ('f, 'd, 'p, 's) drive \<Rightarrow> ('f, 'd, 'p, 's) drive" where
  "drive_exec D (Chmod E p mode) d = snd (chmod_impl D E p mode d)"
| "drive_exec D (Chown E p uid gid) d = snd (chown_impl D E p uid gid d)"
| "drive_exec D (Utimens E now0 now1 p tv0 tv1) d = snd (utimens_impl D E now0 now1 p tv0 tv1 d)"
| "drive_exec D (Truncate E p len) d = snd (truncate_impl D E p len d)"
| "drive_exec D (Create_request E now p mode flags) d = snd (snd (create_impl D E now p mode flags d))"
| "drive_exec D (Open_request E now p flags) d = snd (snd (open_impl D E now p flags d))"
| "drive_exec D (Release h) d = snd (release_impl D h d)"
| "drive_exec D (Read_request E now p len off h) d = snd (snd (read_impl D E now p len off h d))"
| "drive_exec D (Write_request bs off h) d = snd (snd (write_impl D bs off h d))"
| "drive_exec D (Fallocate mode off len h) d = snd (fallocate_impl D mode off len h d)"
| "drive_exec D (Fsync datasync h) d = snd (fsync_impl D datasync h d)"
| "drive_exec D (Mkdir E now p mode) d = snd (mkdir_impl D E now p mode d)"
| "drive_exec D (Opendir E p flags) d = snd (snd (opendir_impl D E p flags d))"
| "drive_exec D (Releasedir h) d = snd (releasedir_impl D h d)"
| "drive_exec D (Rmdir E p) d = snd (rmdir_impl D E p d)"
| "drive_exec D (Rename E depth p q) d = snd (rename_impl D E depth p q d)"
| "drive_exec D (Unlink E p) d = snd (unlink_impl D E p d)"
| "drive_exec D (Setxattr E p name value len flags) d = snd (setxattr_impl D E p name value len flags d)"
| "drive_exec D (Removexattr E p name) d = snd (removexattr_impl D E p name d)"
| "drive_exec D (Background op) d = d\<lparr>dmgr := fm_exec (mparts D) op (dmgr d)\<rparr>"

definition drive_run :: "('f, 'd, 'p, 's) drive_parts \<Rightarrow> ('f, 'p, 's) drive_op list \<Rightarrow> ('f, 'd, 'p, 's) drive \<Rightarrow> ('f, 'd, 'p, 's) drive" where
  "drive_run D ops d = foldl (\<lambda>d op. drive_exec D op d) d ops"

lemma drive_run_simps [simp]: "drive_run D [] d = d" "drive_run D (op # ops) d = drive_run D ops (drive_exec D op d)"
  by (simp_all add: drive_run_def)

text \<open>The file handles that a request may end.\<close>

fun ends :: "('f, 'p, 's) drive_op \<Rightarrow> nat set" where
  "ends (Release h) = {h}"
| "ends (Rename E depth p q) = UNIV"
| "ends (Background op) = {h. \<not> keeps_handle h op}"
| "ends op = {}"

context drive_manager begin

lemma background_goes:
  assumes ok: "drive_ok D d" and n: "next_handle (dmgr d) + Suc b < 2 ^ 64"
    and b: "\<And>pr. length (p_pinned (provops S) pr) \<le> b"
  shows "goes D (Suc b) {h. \<not> keeps_handle h op} d (d\<lparr>dmgr := fm_exec S op (dmgr d)\<rparr>)"
proof -
  have t: "tables_ok S (dmgr d)" using ok by (simp add: drive_ok_def)
  have "handle_kept S h (dmgr d) (fm_exec S op (dmgr d))" if "keeps_handle h op" for h
  proof (cases "\<exists>i. live S (dmgr d) h i")
    case True
    then show ?thesis using exec_keeps[OF t _ that] n by auto
  qed (simp add: handle_kept_def)
  then show ?thesis using exec_opens[OF t n b] by (intro goes_mgr[OF ok]) (simp add: moves_def)
qed

lemma exec_goes:
  assumes ok: "drive_ok D d" and n: "next_handle (dmgr d) + Suc (Suc b) < 2 ^ 64"
    and b: "\<And>pr. length (p_pinned (provops S) pr) \<le> b"
  shows "goes D (Suc (Suc b)) (ends op) d (drive_exec D op d)"
proof -
  have mono: "goes D m K d e \<Longrightarrow> m \<le> Suc (Suc b) \<Longrightarrow> goes D (Suc (Suc b)) K d e" for m K e
    unfolding goes_def using moves_mono[OF _ _ order.refl] by blast
  have two: "next_handle (dmgr d) + 2 < 2 ^ 64" and one: "next_handle (dmgr d) + 1 < 2 ^ 64" using n by simp_all
  show ?thesis
  proof (cases op)
    case (Truncate E p len)
    have "goes D 1 {} d (drive_exec D op d)"
      using truncate_goes[OF ok one prod.collapse[symmetric]] Truncate by (simp add: goes_moves[OF ok])
    then show ?thesis using mono Truncate by simp
  next
    case (Create_request E now p mode flags)
    then show ?thesis using create_handle[OF ok two] mono[of 2 "{}"] by (simp add: handle_for_def)
  next
    case (Open_request E now p flags)
    then show ?thesis using open_handle[OF ok two] mono[of 2 "{}"] by (simp add: handle_for_def)
  next
    case (Opendir E p flags)
    then show ?thesis using opendir_goes[OF ok one] mono[of 1 "{}"] by simp
  next
    case (Rmdir E p)
    then show ?thesis using rmdir_goes[OF refl ok] by simp
  next
    case (Background op')
    then show ?thesis using background_goes[OF ok _ b] n mono[of "Suc b"] by simp
  qed (simp_all add: ok chmod_goes chown_goes utimens_goes release_goes read_goes write_goes fallocate_goes fsync_goes
      mkdir_goes releasedir_goes rename_goes unlink_goes setxattr_goes removexattr_goes)
qed

lemma drive_run_goes:
  assumes b: "\<And>pr. length (p_pinned (provops S) pr) \<le> b"
  shows "drive_ok D d \<Longrightarrow> next_handle (dmgr d) + length ops * Suc (Suc b) < 2 ^ 64 \<Longrightarrow>
    drive_ok D (drive_run D ops d) \<and> moves S (length ops * Suc (Suc b)) (\<Union> (ends ` set ops)) (dmgr d) (dmgr (drive_run D ops d))"
proof (induction ops arbitrary: d)
  case Nil
  then show ?case by (simp add: moves_refl drive_ok_def)
next
  case (Cons op ops)
  have g: "goes D (Suc (Suc b)) (ends op) d (drive_exec D op d)" using exec_goes[OF Cons.prems(1) _ b] Cons.prems(2) by simp
  then have m: "moves S (Suc (Suc b)) (ends op) (dmgr d) (dmgr (drive_exec D op d))" by (simp add: goes_def)
  have n: "next_handle (dmgr (drive_exec D op d)) + length ops * Suc (Suc b) < 2 ^ 64" using moves_next[OF m] Cons.prems(2) by simp
  note r = Cons.IH[OF goes_ok[OF Cons.prems(1) g] n]
  then show ?case using moves_trans[OF m conjunct2[OF r]] by (simp add: ac_simps)
qed

text \<open>A handle from create or open stands for its path until it is released or something is renamed.\<close>

lemma opened_run_keeps:
  assumes b: "\<And>pr. length (p_pinned (provops S) pr) \<le> b" and ok: "drive_ok D d"
    and n: "next_handle (dmgr d) + 2 + length ops * Suc (Suc b) < 2 ^ 64"
    and h: "handle_for D d p (Returns success, h, e)" and k: "h \<notin> \<Union> (ends ` set ops)"
  shows "\<exists>j u. get_open_file_by_handle S h (dmgr (drive_run D ops e)) = Some (j, u) \<and> path_at S j (dmgr (drive_run D ops e)) = p"
proof -
  have g: "goes D 2 {} d e" and i: "\<exists>i. live S (dmgr e) h i \<and> path_at S i (dmgr e) = p" using h by (simp_all add: handle_for_def)
  have "next_handle (dmgr e) + length ops * Suc (Suc b) < 2 ^ 64" using g n moves_next by (fastforce simp: goes_def)
  from drive_run_goes[OF b goes_ok[OF ok g] this]
  have r: "tables_ok S (dmgr (drive_run D ops e))" "handle_kept S h (dmgr e) (dmgr (drive_run D ops e))"
    using k by (simp_all add: drive_ok_def moves_def)
  then show ?thesis using i lookup_live[OF r(1)] unfolding handle_kept_def by metis
qed

end

end
