(* ===== verification/Fuse_Drive_Props.thy ===== *)
theory Fuse_Drive_Props imports Fuse_Runs Fuse_Access Meta_Db_Agree begin

text \<open>
  The drive of the program, over the manager, the open files and a provider with the shared base class, and
  what holds for it over any sequence of requests: which files the handles stand for, who may change the
  attributes of an item, and that an extended attribute is read back as it was set.
\<close>

section \<open>The drive of the program\<close>

definition drive_of ::
  "object_env \<Rightarrow> io_env \<Rightarrow> 'd mgr_db \<Rightarrow> ('m, 'h) provider_parts \<Rightarrow> 's local_ops \<Rightarrow> mgr_config \<Rightarrow> nat \<Rightarrow>
   (file_object, 'd, ('m, 'h) provider, 's) drive_parts" where
  "drive_of env x db P L C space =
    \<lparr>mparts = manager_parts env db P L C, dprov = drive_provider_of P space, dio = object_io env x\<rparr>"

lemma drive_of_simps [simp]:
  "mparts (drive_of env x db P L C space) = manager_parts env db P L C"
  "dprov (drive_of env x db P L C space) = drive_provider_of P space"
  "dio (drive_of env x db P L C space) = object_io env x"
  by (simp_all add: drive_of_def)

definition drive_init :: "'d \<Rightarrow> 'p \<Rightarrow> 's \<Rightarrow> cache_mgr \<Rightarrow> ('f, 'd, 'p, 's) drive" where
  "drive_init db pr l c = \<lparr>dmgr = fm_init db pr l c, ddirs = []\<rparr>"

lemma drive_init_ok: "drive_ok D (drive_init db pr l c)"
  by (simp add: drive_ok_def drive_init_def init_ok cache_ok_def lookup_ok_def get_directory_def handle_entry_def)

lemma drive_init_next [simp]: "next_handle (dmgr (drive_init db pr l c)) = 0"
  by (simp add: drive_init_def fm_init_def)

sublocale quiet_files \<subseteq> on_drive: drive_manager "drive_of env x db P L C space" for x db P L C space
  by (intro drive_manager.intro, unfold drive_of_simps) (rule fm.manager_axioms, simp add: drive_files_axioms)

context quiet_files begin

lemma is_drive: "drive_manager (drive_of env x db P L C space)"
  by (rule on_drive.drive_manager_axioms)

end

interpretation sample_drive: drive_manager "drive_of sample_objects sample_io (rdb_ops rbt_kv text_codec) owned_files disk_ops sample_conf 100"
  by (rule sample_files.on_drive.drive_manager_axioms)

section \<open>Handles\<close>

text \<open>
  C4. Over any sequence of requests from any callers, and of the work of the file manager between them: a
  file handle stands for one file of the tables, and the handle of an open directory is never the handle of
  a file.
\<close>

theorem drive_handles:
  assumes q: "quiet_env (fenv env)" and D: "D = drive_of env x db P L C space"
    and b: "\<And>pr. length (p_pinned (provider_of P) pr) \<le> b" and n: "length ops * (b + 2) < 2 ^ 64"
    and d: "d = drive_run D ops (drive_init dbs pr l c)"
  shows "(\<forall>h i u. get_open_file_by_handle (mparts D) h (dmgr d) = Some (i, u) \<longrightarrow>
      h \<in> handles_at (mparts D) i (dmgr d) \<and> 0 < h \<and> h \<le> next_handle (dmgr d) \<and>
      (\<forall>j p. map_of (open_lookup (dmgr d)) p = Some j \<longrightarrow> h \<in> handles_at (mparts D) j (dmgr d) \<longrightarrow> j = i)) \<and>
    (\<forall>h items. get_directory h (ddirs d) = Some items \<longrightarrow>
      0 < h \<and> h \<le> next_handle (dmgr d) \<and> get_open_file_by_handle (mparts D) h (dmgr d) = None)"
proof -
  have M: "drive_manager D" unfolding D by (rule quiet_files.is_drive[OF quiet_files.intro[OF q]])
  have "length (p_pinned (provops (mparts D)) pr) \<le> b" for pr using b by (simp add: D)
  from drive_manager.drive_run_goes[OF M this drive_init_ok] have ok: "drive_ok D d"
    unfolding d using n by (simp add: drive_init_def fm_init_def add.commute)
  then have t: "tables_ok (mparts D) (dmgr d)" by (simp add: drive_ok_def)
  have "j = i" if "live (mparts D) (dmgr d) h i" "map_of (open_lookup (dmgr d)) p = Some j" "h \<in> handles_at (mparts D) j (dmgr d)"
    for h i j p using that tables_okD(6)[OF t, of h j i] unfolding live_def by blast
  then show ?thesis using ok lookup_live[OF t] lookup_none[OF t] live_handle[OF t] tables_okD(5)[OF t] unfolding drive_ok_def
    by (metis option.distinct(1))
qed

text \<open>The requests of the concrete runs.\<close>

abbreviation sample_drive_parts where
  "sample_drive_parts \<equiv> drive_of sample_objects sample_io (rdb_ops rbt_kv text_codec) owned_files disk_ops sample_conf 100"

lemma owned_drive_of: "owned_drive sample_objects sample_io = sample_drive_parts"
  by (simp add: owned_drive_def drive_of_def)

lemma owned_pinned: "length (p_pinned (provider_of owned_files) st) \<le> 0"
  by (simp add: provider_of_def get_pinned_files_def owned_files_def one_file_def one_file_meta_def)

lemma owned_start_init: "owned_start = drive_init (rdb_new rbt_kv) one_file_state [''/c/a''] cache_init"
  by (simp add: owned_start_def drive_init_def)

theorem drive_handles_witness:
  "let d = drive_run sample_drive_parts [Open_request sample_caller 0 ''/a'' O_WRONLY, Opendir sample_caller ''/'' 0,
      Write_request [1, 2] 0 1, Unlink sample_caller ''/a''] owned_start
   in \<forall>h items. get_directory h (ddirs d) = Some items \<longrightarrow> get_open_file_by_handle (mparts sample_drive_parts) h (dmgr d) = None"
proof -
  let ?ops = "[Open_request sample_caller 0 ''/a'' O_WRONLY, Opendir sample_caller ''/'' 0, Write_request [1, 2] 0 1,
    Unlink sample_caller ''/a'']"
  have "length ?ops * (0 + 2) < 2 ^ 64" by simp
  note all = drive_handles[OF sample_quiet refl owned_pinned this refl, where db = "rdb_ops rbt_kv text_codec" and L = disk_ops
    and C = sample_conf and x = sample_io and space = 100 and dbs = "rdb_new rbt_kv" and pr = one_file_state and l = "[''/c/a'']"
    and c = cache_init]
  show ?thesis unfolding Let_def owned_start_init using conjunct2[OF all] by blast
qed

text \<open>
  C3. The handle that \<open>create\<close> or \<open>open\<close> gives to a caller stands for the path it was opened with until it
  is released: through any requests of any callers, among them the removal of the file, and the work of the
  file manager beside them, short of a rename, a start and a stop.  A streamed file that is written to may
  have become a cached one.
\<close>

theorem drive_handle_valid:
  assumes q: "quiet_env (fenv env)" and D: "D = drive_of env x db P L C space"
    and b: "\<And>pr. length (p_pinned (provider_of P) pr) \<le> b" and n: "(length ops + length ops' + 1) * (b + 2) < 2 ^ 64"
    and r: "create_impl D E now p mode flags (drive_run D ops (drive_init dbs pr l c)) = (Returns success, h, d)"
    and k: "h \<notin> \<Union> (ends ` set ops')"
  shows "\<exists>j u. get_open_file_by_handle (mparts D) h (dmgr (drive_run D ops' d)) = Some (j, u) \<and>
    path_at (mparts D) j (dmgr (drive_run D ops' d)) = p"
proof -
  have M: "drive_manager D" unfolding D by (rule quiet_files.is_drive[OF quiet_files.intro[OF q]])
  have b': "length (p_pinned (provops (mparts D)) pr) \<le> b" for pr using b by (simp add: D)
  let ?start = "drive_init dbs pr l c" and ?d = "drive_run D ops (drive_init dbs pr l c)"
  have nn: "length ops * Suc (Suc b) + (b + 2) + length ops' * Suc (Suc b) < 2 ^ 64" using n by (simp add: algebra_simps)
  have n1: "next_handle (dmgr ?start) + length ops * Suc (Suc b) < 2 ^ 64" using nn by simp
  have ok: "drive_ok D ?d" "moves (mparts D) (length ops * Suc (Suc b)) (\<Union> (ends ` set ops)) (dmgr ?start) (dmgr ?d)"
    using drive_manager.drive_run_goes[OF M b' drive_init_ok n1] by simp_all
  have le: "next_handle (dmgr ?d) \<le> length ops * Suc (Suc b)" using moves_next[OF ok(2)] by simp
  have "handle_for D ?d p (Returns success, h, d)"
    using drive_manager.create_handle[OF M ok(1), of p E now mode flags] le nn r by simp
  then show ?thesis using drive_manager.opened_run_keeps[OF M b' ok(1)] le nn k by simp
qed

theorem drive_handle_valid_witness:
  "\<exists>d j u. create_impl sample_drive_parts sample_caller 0 ''/a'' 0 (O_WRONLY AND NOT O_CREAT) owned_start = (Returns success, 1, d) \<and>
    get_open_file_by_handle (mparts sample_drive_parts) 1
      (dmgr (drive_run sample_drive_parts [Write_request [1, 2] 0 1, Unlink sample_caller ''/a'', Release 2] d)) = Some (j, u)"
proof -
  let ?ops = "[Write_request [1, 2] 0 1, Unlink sample_caller ''/a'', Release 2]"
  obtain d where d: "create_impl sample_drive_parts sample_caller 0 ''/a'' 0 (O_WRONLY AND NOT O_CREAT)
      (drive_run sample_drive_parts [] (drive_init (rdb_new rbt_kv) one_file_state [''/c/a''] cache_init)) = (Returns success, 1, d)"
    using owned_open_impl by (auto simp: open_impl_def owned_drive_of owned_start_init)
  have n: "(length ([] :: (file_object, (unit, unit) provider, string list) drive_op list) + length ?ops + 1) * (0 + 2) < 2 ^ 64"
    "1 \<notin> \<Union> (ends ` set ?ops)" by simp_all
  from drive_handle_valid[OF sample_quiet refl owned_pinned n(1) d n(2)] d show ?thesis
    by (simp only: drive_run_simps owned_start_init) blast
qed

section \<open>Attributes\<close>

text \<open>
  The callers that the check of the owner lets through, by the user id recorded for the item: with a forced
  user id the record is compared with that id, so an item recorded for the forced user is open to every caller.
\<close>

definition owner_lets :: "fuse_env \<Rightarrow> exn + word32 \<Rightarrow> bool" where
  "owner_lets E recorded \<longleftrightarrow> current_uid E = 0 \<or>
    (case forced_uid E of
       None \<Rightarrow> recorded = Inr (current_uid E)
     | Some u \<Rightarrow> current_uid E = u \<or> recorded = Inr u)"

lemma check_owner_lets: "check_owner E m = Inr success \<longleftrightarrow> owner_lets E (get_uid_from_meta m)"
  by (cases "get_uid_from_meta m"; cases "forced_uid E")
    (auto simp: owner_lets_def check_owner_def get_effective_uid_def)

lemma from_sum_returns: "from_sum x = Returns y \<longleftrightarrow> x = Inr y"
  by (cases x) (simp_all add: from_sum_def)

lemma after_check_changes: "snd (after_check r d k) \<noteq> d \<Longrightarrow> r = Returns success \<and> snd (k ()) \<noteq> d"
  by (cases r) (auto simp: after_check_def split: if_splits)

lemma perform_changes:
  assumes "snd (check_and_perform E get p X_OK action d) \<noteq> d"
  shows "(\<exists>m. get p = (success, m) \<and> check_owner E m = Inr success) \<and> result_of (check_parent_access E get p X_OK) = Returns success"
proof -
  obtain r m where g: "get p = (r, m)" by (cases "get p")
  from assms have "r = success" "result_of (check_parent_access E get p X_OK) = Returns success" "from_sum (check_owner E m) = Returns success"
    unfolding check_and_perform_def g prod.case by (auto dest!: after_check_changes)
  then show ?thesis using g by (simp add: from_sum_returns)
qed

lemma perform_change:
  assumes "snd (check_and_perform E (drive_meta D d) p X_OK action d) \<noteq> d"
  shows "(\<exists>m. drive_meta D d p = (success, m) \<and> check_owner E m = Inr success) \<and> parent_access D E p X_OK d = Returns success"
  using perform_changes[OF assms] by (simp add: parent_access_def)

lemma removexattr_changes:
  assumes "snd (removexattr_impl D E p name d) \<noteq> d"
  shows "(\<exists>m. drive_meta D d p = (success, m) \<and> check_owner E m = Inr success) \<and> parent_access D E p X_OK d = Returns success"
proof (cases "parse_xattr_parameters name p")
  case (Inl e)
  then show ?thesis using assms by (simp add: removexattr_impl_def)
next
  case (Inr attr)
  then show ?thesis using assms perform_change unfolding removexattr_impl_def by simp
qed

lemma utimens_changes:
  assumes "snd (utimens_impl D E now0 now1 p tv0 tv1 d) \<noteq> d"
  shows "(\<exists>m. drive_meta D d p = (success, m) \<and> check_owner E m = Inr success)"
proof -
  obtain r m where g: "drive_meta D d p = (r, m)" by (cases "drive_meta D d p")
  from assms have "r = success" "from_sum (check_owner E m) = Returns success"
    unfolding utimens_impl_def g prod.case by (auto dest!: after_check_changes split: if_splits)
  then show ?thesis using g by (simp add: from_sum_returns)
qed

lemma setxattr_changes:
  assumes "snd (setxattr_impl D E p name value len xflags d) \<noteq> d"
  shows "(\<exists>m. drive_meta D d p = (success, m) \<and> check_owner E m = Inr success) \<and> parent_access D E p X_OK d = Returns success"
proof -
  obtain r m where g: "drive_meta D d p = (r, m)" by (cases "drive_meta D d p")
  from assms have "r = success" "from_sum (check_owner E m) = Returns success" "parent_access D E p X_OK d = Returns success"
    unfolding setxattr_impl_def g prod.case by (auto dest!: after_check_changes split: sum.splits)
  then show ?thesis using g by (simp add: from_sum_returns)
qed

lemma attributes_checked:
  assumes "op \<in> {Chmod E p mode, Chown E p uid gid, Utimens E now0 now1 p tv0 tv1, Setxattr E p name data len xflags,
      Removexattr E p name}" "drive_exec D op d \<noteq> d"
  shows "(\<exists>m. drive_meta D d p = (success, m) \<and> check_owner E m = Inr success) \<and>
    (op = Utimens E now0 now1 p tv0 tv1 \<or> parent_access D E p X_OK d = Returns success)"
proof -
  consider "op = Chmod E p mode" | "op = Chown E p uid gid" | "op = Utimens E now0 now1 p tv0 tv1"
    | "op = Setxattr E p name data len xflags" | "op = Removexattr E p name" using assms(1) by blast
  then show ?thesis
  proof cases
    case 1
    then show ?thesis using assms(2) perform_change by (simp only: drive_exec.simps chmod_impl_def) blast
  next
    case 2
    then show ?thesis using assms(2) perform_change by (simp only: drive_exec.simps chown_impl_def) blast
  next
    case 3
    then show ?thesis using assms(2) utimens_changes by (simp only: drive_exec.simps) blast
  next
    case 4
    then show ?thesis using assms(2) setxattr_changes by (simp only: drive_exec.simps) blast
  next
    case 5
    then show ?thesis using assms(2) removexattr_changes by (simp only: drive_exec.simps) blast
  qed
qed

text \<open>
  C8. Who can change the attributes of an item.  A request to change its mode, its owner, its times or its
  extended attributes changes nothing unless the caller is root, or, when no user id is forced on the drive,
  the item is recorded for the caller, or, when a user id is forced, the caller has that id \<^emph>\<open>or the item is
  recorded for it, whoever the caller is\<close>: the check compares the record with the forced id and not with the
  caller, so it lets every caller through for the items of the forced user.  The check succeeds for exactly
  these callers.  Every such request but the change of the times asks that the parents can be searched.
\<close>

theorem attributes_owner:
  assumes "op \<in> {Chmod E p mode, Chown E p uid gid, Utimens E now0 now1 p tv0 tv1, Setxattr E p name data len xflags,
      Removexattr E p name}" "drive_exec D op d \<noteq> d"
  shows "\<exists>m. drive_meta D d p = (success, m) \<and>
    (current_uid E = 0 \<or>
     (case forced_uid E of
        None \<Rightarrow> get_uid_from_meta m = Inr (current_uid E)
      | Some u \<Rightarrow> current_uid E = u \<or> get_uid_from_meta m = Inr u)) \<and>
    (\<forall>F. check_owner F m = Inr success \<longleftrightarrow> current_uid F = 0 \<or>
     (case forced_uid F of
        None \<Rightarrow> get_uid_from_meta m = Inr (current_uid F)
      | Some u \<Rightarrow> current_uid F = u \<or> get_uid_from_meta m = Inr u)) \<and>
    (op = Utimens E now0 now1 p tv0 tv1 \<or> parent_access D E p X_OK d = Returns success)"
  using attributes_checked[OF assms] unfolding check_owner_lets owner_lets_def by blast

text \<open>
  What the five requests ask of the database of the provider: at most one call, and one that has no guard
  (Meta_Db_Agree), so for them the two databases of the repository are interchangeable without a condition.
\<close>

definition asks_unguarded :: "('m, 'h) provider_parts \<Rightarrow> 'm \<Rightarrow> 'm \<Rightarrow> bool" where
  "asks_unguarded P m m' \<longleftrightarrow> m' = m \<or> (\<exists>c e. unguarded c \<and> meta_step (metaops P) c m = (e, m'))"

abbreviation meta_db :: "('f, 'd, ('m, 'h) provider, 's) drive \<Rightarrow> 'm" where
  "meta_db d \<equiv> pmeta (mprov (dmgr d))"

lemma pin_file_meta [simp]: "pmeta (snd (pin_file P p v st)) = pmeta st"
  by (auto simp: pin_file_def raise_event_def split: sum.split)

lemma set_key_asks:
  assumes "dprov D = drive_provider_of P space" "\<not> item_key k"
  shows "asks_unguarded P (meta_db d) (meta_db (snd (set_key D p k v d)))"
proof -
  obtain e m where e: "md_set_key (metaops P) p k v (meta_db d) = (e, m)" by force
  then have "meta_step (metaops P) (Set_value p k v) (meta_db d) = (e, m)" by simp
  moreover have "k \<noteq> ''pinned''" using assms(2) by (auto simp: item_key_def)
  then have "meta_db (snd (set_key D p k v d)) = m"
    using e by (simp add: set_key_def assms(1) drive_provider_of_def set_item_meta_key_def with_provider_def Let_def)
  ultimately show ?thesis using assms(2) unguarded.simps(2) unfolding asks_unguarded_def by blast
qed

lemma set_meta_asks:
  assumes "dprov D = drive_provider_of P space" "distinct (map fst r)" "\<forall>k \<in> fst ` set r. \<not> item_key k"
  shows "asks_unguarded P (meta_db d) (meta_db (snd (set_meta D p r d)))"
proof -
  obtain e m where e: "md_set (metaops P) p r (meta_db d) = (e, m)" by force
  then have "meta_step (metaops P) (Set_row p r) (meta_db d) = (e, m)" by simp
  moreover have "map_of r ''pinned'' = None" using assms(3) by (force simp: map_of_eq_None_iff item_key_def)
  then have "meta_db (snd (set_meta D p r d)) = m"
    using e by (simp add: set_meta_def assms(1) drive_provider_of_def set_item_meta_def with_provider_def Let_def)
  ultimately show ?thesis using assms(2,3) unguarded.simps(1) unfolding asks_unguarded_def by blast
qed

lemma after_check_asks:
  "asks_unguarded P (meta_db d) (meta_db (snd (k ()))) \<Longrightarrow> asks_unguarded P (meta_db d) (meta_db (snd (after_check r d k)))"
  by (cases r) (simp_all add: after_check_def asks_unguarded_def)

lemma perform_asks:
  "(\<And>m. asks_unguarded P (meta_db d) (meta_db (snd (action m)))) \<Longrightarrow>
   asks_unguarded P (meta_db d) (meta_db (snd (check_and_perform E get p w action d)))"
  unfolding check_and_perform_def by (cases "get p") (simp add: after_check_asks)

lemma no_asking [simp]: "asks_unguarded P m m"
  by (simp add: asks_unguarded_def)

lemma namespace_no_item_key: "xattr_name_check attr len = success \<Longrightarrow> \<not> item_key attr"
  by (auto simp: xattr_name_check_def item_key_def attribute_namespaces_def str_contains_def str_find_def Let_def
      split: if_splits)

theorem drive_requests_unguarded:
  assumes "dprov D = drive_provider_of P space"
    and "op \<in> {Chmod E p mode, Chown E p uid gid, Utimens E now0 now1 p tv0 tv1, Setxattr E p name data len xflags,
      Removexattr E p name}"
  shows "asks_unguarded P (meta_db d) (meta_db (drive_exec D op d))"
proof -
  consider "op = Chmod E p mode" | "op = Chown E p uid gid" | "op = Utimens E now0 now1 p tv0 tv1"
    | "op = Setxattr E p name data len xflags" | "op = Removexattr E p name" using assms(2) by blast
  then show ?thesis
  proof cases
    case 1
    have "\<not> item_key ''mode''" by (simp add: item_key_def)
    then show ?thesis unfolding 1 drive_exec.simps chmod_impl_def
      by (intro perform_asks) (simp add: set_key_asks[OF assms(1)] del: decimal.simps)
  next
    case 2
    show ?thesis unfolding 2 drive_exec.simps chown_impl_def Let_def
      by (intro perform_asks) (simp add: set_meta_asks[OF assms(1)] item_key_def del: decimal.simps)
  next
    case 3
    have "distinct (map fst (process_timespec now0 ''accessed'' tv0 @ process_timespec now1 ''modified'' tv1))"
      "\<forall>k \<in> fst ` set (process_timespec now0 ''accessed'' tv0 @ process_timespec now1 ''modified'' tv1). \<not> item_key k"
      by (auto simp: process_timespec_def item_key_def simp del: decimal.simps)
    note set = set_meta_asks[OF assms(1) this]
    show ?thesis unfolding 3 drive_exec.simps utimens_impl_def Let_def
      by (cases "drive_meta D d p") (auto intro!: after_check_asks intro: set)
  next
    case 4
    show ?thesis
    proof (cases "parse_xattr_value name (data = None) len p")
      case (Inr attr)
      show ?thesis
      proof (cases "xattr_name_check attr len = success")
        case True
        note set = set_key_asks[OF assms(1) namespace_no_item_key[OF True]]
        show ?thesis unfolding 4 drive_exec.simps setxattr_impl_def Inr sum.case
          by (cases "drive_meta D d p") (auto intro!: after_check_asks intro: set split: sum.splits)
      qed (simp add: 4 setxattr_impl_def Inr after_check_def)
    qed (simp add: 4 setxattr_impl_def)
  next
    case 5
    have remove: "asks_unguarded P (meta_db d) (meta_db (with_provider pr d))"
      if "dp_remove_key (dprov D) p attr (mprov (dmgr d)) = (res, pr)" for attr res pr
    proof -
      obtain e m where e: "md_remove_key (metaops P) p attr (meta_db d) = (e, m)" by force
      then have "pmeta pr = m" using that by (auto simp: assms(1) drive_provider_of_def remove_item_meta_def)
      moreover have "meta_step (metaops P) (Remove_value p attr) (meta_db d) = (e, m)" using e by simp
      ultimately show ?thesis unfolding asks_unguarded_def
        by (intro disjI2 exI[of _ "Remove_value p attr"] exI[of _ e]) (simp add: with_provider_def)
    qed
    show ?thesis
    proof (cases "parse_xattr_parameters name p")
      case (Inr attr)
      show ?thesis unfolding 5 drive_exec.simps removexattr_impl_def Inr sum.case
        by (intro perform_asks) (auto simp: remove split: prod.split)
    qed (simp add: 5 removexattr_impl_def)
  qed
qed

section \<open>Extended attributes\<close>

text \<open>A caller that is root, and a drive over the meta database on RocksDB with a root directory and a file.\<close>

definition root_caller :: fuse_env where
  "root_caller = sample_caller\<lparr>current_uid := 0\<rparr>"

definition stored_files :: "((string, string) rbt meta_rdb, unit) provider_parts" where
  "stored_files = \<lparr>metaops = rdb_meta_ops rbt_kv pair_codec, hookops = one_file_hooks, has_manager = True\<rparr>"

abbreviation stored_drive where
  "stored_drive \<equiv> drive_of sample_objects sample_io (rdb_ops rbt_kv text_codec) stored_files disk_ops sample_conf 100"

definition stored_calls :: "meta_call list" where
  "stored_calls = [Set_row ''/'' [(''directory'', ''1'')],
     Set_row ''/a'' [(''directory'', ''0''), (''size'', ''5''), (''source'', ''s1''), (''label'', ''x'')]]"

lemma stored_rows:
  "meta_calls_ok stored_calls Map.empty"
  "rows_run stored_calls Map.empty = ([success, success], [''/'' \<mapsto> sample_folder, ''/a'' \<mapsto> (sample_item False, [''label'' \<mapsto> ''x''])])"
  by (simp_all add: stored_calls_def put_ok_def put_row_def row_text_def sample_new[simplified] placeable_def source_at_def
      proper_meta_def from_bool_def)

lemma stored_db:
  "\<exists>db. rbt_meta.rdb.sound db \<and> rdb_rows rbt_kv pair_codec db = [''/'' \<mapsto> sample_folder, ''/a'' \<mapsto> (sample_item False, [''label'' \<mapsto> ''x''])]"
proof -
  obtain es db where d: "meta_run (rdb_meta_ops rbt_kv pair_codec) stored_calls (rdb_meta_new rbt_kv) = (es, db)"
    by (cases "meta_run (rdb_meta_ops rbt_kv pair_codec) stored_calls (rdb_meta_new rbt_kv)")
  show ?thesis using rbt_meta.rdb.run_rows[OF _ _ d] rbt_meta.new_sound stored_rows by auto
qed

definition stored_start :: "(string, string) rbt meta_rdb \<Rightarrow>
   (file_object, (string, string) rbt rdb, ((string, string) rbt meta_rdb, unit) provider, string list) drive" where
  "stored_start db = drive_init (rdb_new rbt_kv) \<lparr>pmeta = db, premote = (), plog = []\<rparr> [] cache_init"

lemma stored_meta: "drive_meta stored_drive (stored_start db) p = md_get (rdb_meta_ops rbt_kv pair_codec) p db"
  by (simp add: drive_meta_def provider_of_def get_item_meta_def stored_start_def drive_init_def fm_init_def stored_files_def)

lemma stored_lookup:
  assumes "rbt_meta.rdb.sound db"
    and "rdb_rows rbt_kv pair_codec db = [''/'' \<mapsto> sample_folder, ''/a'' \<mapsto> (sample_item False, [''label'' \<mapsto> ''x''])]"
  shows "parent_access stored_drive root_caller ''/a'' X_OK (stored_start db) = Returns success"
    and "\<exists>m. drive_meta stored_drive (stored_start db) ''/a'' = (success, m) \<and> map_of m = view (sample_item False, [''label'' \<mapsto> ''x''])"
proof -
  have g: "rdb_meta_good rbt_kv pair_codec db" "rdb_readable db q" for q
    using assms(1) by (simp_all add: rbt_meta.rdb.sound_def)
  have "\<exists>m. md_get (rdb_meta_ops rbt_kv pair_codec) ''/'' db = (success, m)"
    using rbt_meta.rdb.get_law[OF g, of "''/''"] assms(2) by auto
  then have "check_access root_caller (drive_meta stored_drive (stored_start db)) ''/'' X_OK = Inr success"
    by (auto simp: check_access_def stored_meta root_caller_def)
  then show "parent_access stored_drive root_caller ''/a'' X_OK (stored_start db) = Returns success"
    using check_parent_access_plain[OF parents_of_file(1), of root_caller "drive_meta stored_drive (stored_start db)" X_OK]
    by (auto simp: parent_access_def parents_of_file(2) all_allow_def mode_defs has_flag_def)
  show "\<exists>m. drive_meta stored_drive (stored_start db) ''/a'' = (success, m) \<and> map_of m = view (sample_item False, [''label'' \<mapsto> ''x''])"
    using rbt_meta.rdb.get_law[OF g, of "''/a''"] assms(2) by (auto simp: stored_meta)
qed

lemma user_name: "xattr_name_check ''user.k'' 3 = success" "''user.k'' \<noteq> ''pinned''"
  by (simp_all add: xattr_name_check_def XATTR_NAME_MAX_def XATTR_SIZE_MAX_def attribute_namespaces_def str_contains_def
      str_find_def split_string_def)

lemma stored_set:
  assumes "rbt_meta.rdb.sound db"
    and "rdb_rows rbt_kv pair_codec db = [''/'' \<mapsto> sample_folder, ''/a'' \<mapsto> (sample_item False, [''label'' \<mapsto> ''x''])]"
  shows "\<exists>d. setxattr_impl stored_drive root_caller ''/a'' (Some ''user.k'') (Some [1, 2, 3]) 3 0 (stored_start db) = (Returns success, d)"
proof -
  have g: "rdb_meta_good rbt_kv pair_codec db" "rdb_readable db q" "rdb_calm db" for q
    using assms(1) by (simp_all add: rbt_meta.rdb.sound_def)
  have get: "\<exists>m. md_get (rdb_meta_ops rbt_kv pair_codec) q db = (success, m)" if "q = ''/'' \<or> q = ''/a''" for q
    using rbt_meta.rdb.get_law[OF g(1,2), of q] that assms(2) by auto
  obtain m where m: "drive_meta stored_drive (stored_start db) ''/a'' = (success, m)" using get stored_meta by fastforce
  have "check_access root_caller (drive_meta stored_drive (stored_start db)) ''/'' X_OK = Inr success"
    using get[of "''/''"] by (auto simp: check_access_def stored_meta root_caller_def)
  then have pa: "parent_access stored_drive root_caller ''/a'' X_OK (stored_start db) = Returns success"
    using check_parent_access_plain[OF parents_of_file(1), of root_caller "drive_meta stored_drive (stored_start db)" X_OK]
    by (auto simp: parent_access_def parents_of_file(2) all_allow_def mode_defs has_flag_def)
  have k: "\<not> item_key ''user.k''" using xattr_name_no_item user_name by blast
  let ?v = "base64_encode False True [1, 2, 3]"
  obtain db' where db': "md_set_key (rdb_meta_ops rbt_kv pair_codec) ''/a'' ''user.k'' ?v db = (success, db')"
    using meta_store.set_key_succeeds[OF rbt_meta.rdb.meta_store_axioms g(1,2,3) _ k, of "''/a''" _ ?v] assms(2)
    by (cases "md_set_key (rdb_meta_ops rbt_kv pair_codec) ''/a'' ''user.k'' ?v db") auto
  have "\<exists>d. set_key stored_drive ''/a'' ''user.k'' ?v (stored_start db) = (Returns success, d)"
    using db' by (simp add: set_key_def drive_provider_of_def set_item_meta_key_def stored_files_def stored_start_def drive_init_def fm_init_def)
  then show ?thesis
    using m pa user_name by (simp add: setxattr_impl_def parse_xattr_value_def parse_xattr_parameters_def check_owner_def root_caller_def
        XATTR_CREATE_def XATTR_REPLACE_def)
qed

text \<open>
  C11. An extended attribute is read back as it was set: after \<open>setxattr\<close> has stored the bytes \<open>v\<close> for an item
  below the root, \<open>getxattr\<close> of the same caller with a buffer of that length returns exactly \<open>v\<close>.  The bytes go
  through Base64 and the rows of the meta database; the database is any that keeps the contract of
  Meta_Db, which both of the repository do.
\<close>

theorem xattr_roundtrip:
  assumes "meta_store (metaops P) good rows readable calm"
    and "D = drive_of env x db P L C space"
    and "good (pmeta (mprov (dmgr d)))" "\<And>q. readable (pmeta (mprov (dmgr d))) q"
    and "plain_path p" "p \<noteq> [slash]"
    and "setxattr_impl D E p (Some attr) (Some v) (length v) flags d = (Returns success, d')"
  shows "getxattr_common D E p (Some attr) False (length v) d' = Returns (success, length v, v)"
  by (rule xattr_read_back[OF assms(1) _ _ assms(3-7)]) (simp_all add: assms(2))

theorem xattr_roundtrip_witness:
  "\<exists>d d'. setxattr_impl stored_drive root_caller ''/a'' (Some ''user.k'') (Some [1, 2, 3]) 3 0 d = (Returns success, d') \<and>
    getxattr_common stored_drive root_caller ''/a'' (Some ''user.k'') False 3 d' = Returns (success, 3, [1, 2, 3])"
proof -
  obtain db where db: "rbt_meta.rdb.sound db"
      "rdb_rows rbt_kv pair_codec db = [''/'' \<mapsto> sample_folder, ''/a'' \<mapsto> (sample_item False, [''label'' \<mapsto> ''x''])]"
    using stored_db by blast
  obtain d where s: "setxattr_impl stored_drive root_caller ''/a'' (Some ''user.k'') (Some [1, 2, 3]) 3 0 (stored_start db) = (Returns success, d)"
    using stored_set[OF db] by blast
  have M: "meta_store (metaops stored_files) (rdb_meta_good rbt_kv pair_codec) (rdb_rows rbt_kv pair_codec) rdb_readable rdb_calm"
    by (simp add: stored_files_def rbt_meta.rdb.meta_store_axioms)
  have g: "rdb_meta_good rbt_kv pair_codec (pmeta (mprov (dmgr (stored_start db))))"
    "rdb_readable (pmeta (mprov (dmgr (stored_start db)))) q" for q
    using db(1) by (simp_all add: rbt_meta.rdb.sound_def stored_start_def drive_init_def fm_init_def)
  have n: "length [1, 2, 3 :: 8 word] = 3" by simp
  from xattr_roundtrip[OF M refl g parents_of_file(1) _ s[folded n], unfolded n] s show ?thesis by fastforce
qed

lemma stored_changes:
  "\<exists>d. drive_exec stored_drive (Setxattr root_caller ''/a'' (Some ''user.k'') (Some [1, 2, 3]) 3 0) d \<noteq> d"
proof -
  obtain db where db: "rbt_meta.rdb.sound db"
      "rdb_rows rbt_kv pair_codec db = [''/'' \<mapsto> sample_folder, ''/a'' \<mapsto> (sample_item False, [''label'' \<mapsto> ''x''])]"
    using stored_db by blast
  obtain d where s: "setxattr_impl stored_drive root_caller ''/a'' (Some ''user.k'') (Some [1, 2, 3]) 3 0 (stored_start db) = (Returns success, d)"
    using stored_set[OF db] by blast
  have M: "meta_store (metaops stored_files) (rdb_meta_good rbt_kv pair_codec) (rdb_rows rbt_kv pair_codec) rdb_readable rdb_calm"
    by (simp add: stored_files_def rbt_meta.rdb.meta_store_axioms)
  have g0: "rdb_meta_good rbt_kv pair_codec db" "rdb_readable db q" for q using db(1) by (simp_all add: rbt_meta.rdb.sound_def)
  have g: "rdb_meta_good rbt_kv pair_codec (pmeta (mprov (dmgr (stored_start db))))"
    "rdb_readable (pmeta (mprov (dmgr (stored_start db)))) q" for q
    using g0 by (simp_all add: stored_start_def drive_init_def fm_init_def)
  have n: "length [1, 2, 3 :: 8 word] = 3" by simp
  have again: "getxattr_common stored_drive root_caller ''/a'' (Some ''user.k'') False 3 d = Returns (success, 3, [1, 2, 3])"
    by (rule xattr_read_back[OF M _ _ g parents_of_file(1) _ s[folded n], unfolded n]) simp_all
  obtain m where m: "drive_meta stored_drive (stored_start db) ''/a'' = (success, m)" "map_of m ''user.k'' = None"
    using rbt_meta.rdb.get_law[OF g0, of "''/a''"] db(2) by (auto simp: stored_meta view_def sample_item_def)
  have "getxattr_common stored_drive root_caller ''/a'' (Some ''user.k'') False 3 (stored_start db) \<noteq> Returns (success, 3, [1, 2, 3])"
    using m by (simp add: getxattr_common_def parse_xattr_value_def parse_xattr_parameters_def split: result.split)
  then have "d \<noteq> stored_start db" using again by blast
  then show ?thesis using s by (metis drive_exec.simps(18) snd_conv)
qed

theorem attributes_owner_witness:
  "\<exists>d m. drive_exec stored_drive (Setxattr root_caller ''/a'' (Some ''user.k'') (Some [1, 2, 3]) 3 0) d \<noteq> d \<and>
    drive_meta stored_drive d ''/a'' = (success, m) \<and> check_owner root_caller m = Inr success \<and>
    parent_access stored_drive root_caller ''/a'' X_OK d = Returns success"
proof -
  let ?op = "Setxattr root_caller ''/a'' (Some ''user.k'') (Some [1, 2, 3]) 3 0"
  obtain d where d: "drive_exec stored_drive ?op d \<noteq> d" using stored_changes by blast
  have "?op \<in> {Chmod root_caller ''/a'' 0, Chown root_caller ''/a'' 0 0, Utimens root_caller 0 0 ''/a'' (0, 0) (0, 0), ?op,
    Removexattr root_caller ''/a'' (Some ''user.k'')}" by simp
  from attributes_owner[OF this d] d show ?thesis by auto
qed

text \<open>
  C20. Reading one of the drive's own rows as an extended attribute ends in an exception: the rows are not in
  Base64, and for a text whose length is one more than a multiple of four, as \<open>directory\<close> and \<open>pinned\<close>
  have for every item, decoding throws.  Nothing between the operation and the C callback catches it.
\<close>

theorem getxattr_own_row_throws:
  assumes "create_api_path path = Some (Inr p)" "p \<noteq> []"
    and "parent_access D E p X_OK d = Returns success" "drive_meta D d p = (success, m)"
    and "map_of m attr = Some text" "length text mod 4 = 1" "value_null \<longrightarrow> len = 0"
  shows "getxattr_callback D E errno path (Some attr) value_null len d =
    (Throws (runtime_error ''Invalid Base64 length (mod 4 == 1)''), 0, [])"
proof -
  have "base64_decode text = Inl (runtime_error ''Invalid Base64 length (mod 4 == 1)'')"
    using assms(6) by (auto simp: base64_decode_def Let_def)
  then have "getxattr_common D E p (Some attr) value_null len d = Throws (runtime_error ''Invalid Base64 length (mod 4 == 1)'')"
    using assms by (auto simp: getxattr_common_def parse_xattr_value_def parse_xattr_parameters_def)
  then show ?thesis by (simp add: getxattr_callback_def execute_callback_def assms(1))
qed

theorem getxattr_own_row_throws_witness:
  "\<exists>d x. getxattr_callback stored_drive root_caller 0 ''/a'' (Some ''directory'') False 64 d = (Throws x, 0, [])"
proof -
  obtain db where db: "rbt_meta.rdb.sound db"
      "rdb_rows rbt_kv pair_codec db = [''/'' \<mapsto> sample_folder, ''/a'' \<mapsto> (sample_item False, [''label'' \<mapsto> ''x''])]"
    using stored_db by blast
  obtain m where m: "drive_meta stored_drive (stored_start db) ''/a'' = (success, m)"
      "map_of m = view (sample_item False, [''label'' \<mapsto> ''x''])" using stored_lookup(2)[OF db] by blast
  have t: "map_of m ''directory'' = Some ''0''" by (simp add: m(2) view_def from_bool_def)
  have p: "create_api_path ''/a'' = Some (Inr ''/a'')"
    using parents_of_file(1) by (simp add: create_api_path_canonical_id plain_path_def)
  from getxattr_own_row_throws[OF p _ stored_lookup(1)[OF db] m(1) t, of False 64 0] show ?thesis by auto
qed

end
