(* ===== verification/Spec2Isabelle.thy ===== *)
theory Spec2Isabelle imports
  Prelude Api_Errors Strings Utils_Common Remote_Types Packet Cache_Size
  Ring_Buffer Ring_Store Direct_Open_File Ring_Buffer_Open_File Chunks Paths
  Open_File_Base Open_File Open_File_Spec Open_File_Sample Open_File_Ops Open_File_Faults
  Open_Table Upload_Db Sqlite_Upload_Db Upload_Db_Agree
  File_Objects File_Manager_Base File_Manager File_Manager_Handles File_Manager_Steps
  Meta_Db Rdb_Meta_Db Sqlite_Meta_Db Meta_Db_Agree Base_Provider File_Manager_Runs File_Manager_Data
  Base64 Directory_Cache Fuse_Base Fuse_Drive Fuse_Xattr Fuse_Files Fuse_Access Fuse_Runs Fuse_Drive_Props
begin

text \<open>
  A model of repertory, which mounts an S3 or Sia store as a file system, and the theorems that its
  parts are correct.  Paths are relative to src/repertory/librepertory unless they start with
  src/support.

  The program.  A drive (FUSE, WinFSP or a remote client) passes file operations to the file
  manager.  The file manager keeps the open files: a cached file is downloaded in chunks into a
  local source file and uploaded after changes, a streamed file goes through a ring of chunks, in
  memory or on disk.  It queues the uploads in a database, and reads and writes the items of a
  provider, which keeps their meta data in another database.  Remote drives send their
  operations as packets.

  The theories, from the bottom up.

  \<^item> Prelude: arithmetic at 64 bits with its wrap-around, slices and padding of lists, the bytes of
    words.  Strings, Utils_Common, Paths, Api_Errors: src/support/include/utils/string.hpp,
    utils/common.hpp and common.cpp, utils/path.cpp, and the error codes of types/repertory.hpp
    with their names and errno values (utils/unix/unix_utils.cpp).  Loops that can run for ever
    are \<open>partial_function (option)\<close>; \<open>replace_str_returns_iff\<close> says exactly when they do.
  \<^item> Remote_Types, Packet: the structures of types/remote.hpp in their packed layout and
    comm/packet/packet.cpp.  Decoding a structure returns what was encoded, uses up the packet,
    and refuses every truncation (\<open>carried\<close>).  Of src/support/include/utils/encryption.hpp the layout of
    an encrypted buffer is modelled (\<open>encrypt_data\<close>, \<open>decrypt_data\<close>); the cipher of libsodium and the
    derivation of the key are parameters, with the law \<open>aead_ok\<close> that what was encrypted decrypts.
  \<^item> Cache_Size: file_manager/cache_size_mgr.cpp as a state machine with the waiting of \<open>expand\<close>
    unrolled over the wake-ups.
  \<^item> Ring_Buffer, Ring_Store, Direct_Open_File, Ring_Buffer_Open_File: file_manager/
    ring_buffer_base.cpp and its two subclasses.  The base class is a function of the store
    operations of a subclass (locale \<open>ring_store\<close>, interpreted for both).  The steps of readers,
    user and transfers interleave.  A ready chunk of the ring on disk holds the provider's bytes under
    every interleaving (\<open>ring_file_interleavings\<close>); one of the ring in memory does while no move of the
    window leaves a running download behind (\<open>direct_interleavings\<close>), which the code does not see
    to: \<open>direct_stale_transfer\<close> is a run in which a slot holds another chunk.
  \<^item> Open_File_Base, Open_File, Chunks: file_manager/open_file_base.cpp and open_file.cpp, with
    the download of single chunks, reading, writing, resizing and closing.  Open_File_Spec states
    what a cached file promises: a list of bytes, of which the part not downloaded yet is the
    provider's; Open_File_Ops proves that reading, writing and resizing refine it, and
    Open_File_Faults what happens when the local disk or the provider fails.  Open_File_Sample
    has the concrete file of the witnesses.
  \<^item> Open_Table: drives/remote/remote_open_file_table.cpp, the handles of remote clients.
  \<^item> Upload_Db, Sqlite_Upload_Db, Upload_Db_Agree: db/i_file_mgr_db.hpp with both
    implementations (db/impl/rdb_file_mgr_db.cpp, sqlite_file_mgr_db.cpp).  RocksDB and SQLite
    are parameters whose documented behaviour are the locales \<open>column_family\<close>, \<open>sql_unique_table\<close>
    and \<open>sql_queue_table\<close>; the contract is the locale \<open>file_mgr_db\<close>.  While the storage does not fail,
    every sequence of calls that moves no saved state onto another one succeeds in both and leaves the
    same readings (\<open>rdb_sqlite_agree\<close>); on such a move they differ (\<open>move_onto_saved\<close>).
  \<^item> File_Objects: the interface of an open file (file_manager/i_open_file.hpp) as a record, its
    contract as the locale \<open>closeable_files\<close>, and the three classes behind one type.
    File_Manager_Base, File_Manager: every operation of file_manager/file_manager.cpp on a state
    of objects, the two lookups, the uploads, the database, the provider and the local disk.
    File_Manager_Handles and File_Manager_Steps prove, inside the locale \<open>manager\<close>, that every
    operation keeps the handle tables consistent; File_Manager_Runs draws the conclusions for
    runs of operations, and File_Manager_Data those for source files and uploads.
  \<^item> Meta_Db, Rdb_Meta_Db, Sqlite_Meta_Db, Meta_Db_Agree: db/i_meta_db.hpp with both
    implementations (db/impl/rdb_meta_db.cpp, sqlite_meta_db.cpp).  The contract is the locale
    \<open>meta_store\<close>: a database stands for a map from paths to rows, every operation does to the map
    what it promises, and a write that fails leaves it.  Both implementations are sublocales of it;
    runs of calls that keep the guards of the contract (\<open>guarded_calls\<close>) give the same results and
    answers in both.  \<open>meta_dbs_differ\<close> lists where they differ outside of the guards, and
    \<open>drive_requests_unguarded\<close> of Fuse_Drive_Props shows that the attribute requests of the drive need
    none.
  \<^item> Base_Provider: providers/base_provider.cpp, the provider the file manager of the model runs on
    (\<open>manager_parts\<close>).  The remote store is a parameter.

  \<^item> Base64, Directory_Cache: src/support/include/utils/base64.hpp, drives/directory_iterator.cpp
    and directory_cache.cpp.  Fuse_Base, Fuse_Drive, Fuse_Xattr: the FUSE drive on Linux
    (drives/fuse/fuse_base.cpp, fuse_drive_base.cpp, fuse_drive.cpp), every operation the kernel
    asks for, with the permission checks, over the file manager, the open directories, the
    provider and the open files; the caller is the argument \<open>fuse_env\<close>.  Fuse_Files gives the
    drive its file operations from the three classes and proves that they leave handles and
    paths alone (locale \<open>drive_files\<close>).  Fuse_Runs proves in the locale \<open>drive_manager\<close> what every
    request does to the handles; Fuse_Access and Fuse_Drive_Props state who may do what, that
    handles stay valid and apart over any requests, and the round trip of extended attributes.

  Bounds and fuel.  Handles, sizes and counters are natural numbers with the wrap-around of 64
  bits written out.  A run of the file manager opens one handle per operation and one per pinned
  file at a start, so the theorems about runs ask that their sum stays below 2 to the 64.  The
  depth argument of \<open>rename_directory\<close> and \<open>rename_impl\<close> bounds the nesting of directories; a tree that is deeper
  than it is the result \<open>Diverges\<close>, and the theorems hold for every depth.  Loops over retries and
  wake-ups recurse over the list of what they meet.

  Concurrency.  Operations under one lock are one step.  Where code gives up a lock in between
  (a transfer of the ring, the waiting of the cache size manager, the download of a chunk) the
  steps are separate and what other threads do in between is an argument.

  A run of the drive opens at most two handles per request and counts the work of the file manager
  between the requests in the same way.

  Not modelled.  Of the FUSE drive: mounting, the command line, starting and stopping, \<open>errno\<close>, the
  branches for macOS and FUSE 2, and the operations only the remote server calls; the order in
  which names of extended attributes are listed is that of the provider's list.  The WinFSP
  drive, the remote drives and their server, sockets and HTTP, the S3 service,
  libsodium, the command line and the web interface: they call libraries that are not part of the
  repository and hold little state of their own.  Of the shared base class of the providers the
  periodic comparison with the remote store is left out.  The configuration is a record of the
  values the modelled code asks for.
\<close>

end
